(* ===== verification/Prelude.thy ===== *)
theory Prelude
  imports Main "HOL-Library.Word"
begin

text \<open>
  What every component of the development shares: the types that name the C integers, the
  faults a C program can run into, the reading of the C strings and of the \<open>printf\<close> formats
  the sources use, and the collections of rewrite rules the component theories fill.
\<close>

named_theorems nfd_defs \<open>definitions of small operations, unfolded by the component proofs\<close>
named_theorems nfd_simps \<open>rewrite rules shared by the component proofs\<close>

section \<open>Machine integers\<close>

type_synonym u64 = "64 word"
type_synonym u32 = "32 word"
type_synonym u8 = "8 word"

text \<open>
  An \<open>int\<close> of the program is an integer of the logic that lies between \<open>INT_MIN\<close> and
  \<open>INT_MAX\<close>. Conversions are written out: \<open>i32_of_u64\<close> is the truncating conversion of a
  \<open>uint64_t\<close> to \<open>int\<close>, \<open>word_of_int\<close> the conversion of an \<open>int\<close> to an unsigned type.
  Division and remainder of \<open>int\<close> truncate towards zero.
\<close>

abbreviation u64_of_int :: "int \<Rightarrow> u64" where
  "u64_of_int \<equiv> word_of_int"

definition i32_of_int :: "int \<Rightarrow> int" where
  "i32_of_int i = sint (word_of_int i :: u32)"

definition i32_of_u64 :: "u64 \<Rightarrow> int" where
  "i32_of_u64 w = sint (ucast w :: u32)"

definition c_rem :: "int \<Rightarrow> int \<Rightarrow> int" where
  "c_rem a b = sgn a * (\<bar>a\<bar> mod \<bar>b\<bar>)"

lemma c_rem_nonneg: "0 \<le> a \<Longrightarrow> 0 < b \<Longrightarrow> c_rem a b = a mod b"
  by (cases "a = 0") (auto simp: c_rem_def)

lemma i32_of_u64_eq: "i32_of_u64 w = signed_take_bit 31 (uint w)"
  by (simp add: i32_of_u64_def sint_uint unsigned_ucast_eq signed_take_bit_take_bit)

lemma uint_less_of_unat: "unat w < 2 ^ n \<Longrightarrow> uint w < 2 ^ n"
  by (metis of_nat_less_iff of_nat_numeral of_nat_power of_nat_unat)

lemma i32_of_u64_small: "unat w < 2 ^ 31 \<Longrightarrow> i32_of_u64 w = int (unat w)"
proof -
  assume "unat w < 2 ^ 31"
  then have "uint w < 2 ^ 31" by (rule uint_less_of_unat)
  moreover have "- (2 ^ 31) \<le> uint w" by (rule order_trans [OF _ uint_ge_0]) simp
  ultimately have "signed_take_bit 31 (uint w) = uint w"
    by (intro signed_take_bit_int_eq_self)
  then show ?thesis by (simp add: i32_of_u64_eq)
qed

lemma u64_of_i32_of_u64: "unat w < 2 ^ 31 \<Longrightarrow> u64_of_int (i32_of_u64 w) = w"
  by (simp add: i32_of_u64_small)

lemma i32_of_int_eq: "i32_of_int i = signed_take_bit 31 i"
  by (simp add: i32_of_int_def signed_of_int)

lemma i32_of_int_small: "- (2 ^ 31) \<le> i \<Longrightarrow> i < 2 ^ 31 \<Longrightarrow> i32_of_int i = i"
  by (simp add: i32_of_int_eq signed_take_bit_int_eq_self)

lemma unat_u64_of_nat: "k < 2 ^ 64 \<Longrightarrow> unat (of_nat k :: u64) = k"
  by (simp add: unsigned_of_nat take_bit_nat_eq_self)

lemma option_eqI: "(\<And>e. x = Some e \<longleftrightarrow> y = Some e) \<Longrightarrow> x = y"
  by (metis option.exhaust)

section \<open>Faults\<close>

text \<open>
  What the C standard leaves undefined is a value of the model: an operation that divides by
  zero, reads outside an array, follows a null pointer or a pointer to freed memory, writes past
  a buffer or reads a union member that was not the last one stored returns a fault.
\<close>

datatype fault =
    DivZero
  | OutOfBounds
  | NullDeref
  | UseAfterFree
  | BufferOverflow
  | WrongMember

type_synonym 'a res = "fault + 'a"

definition res_bind :: "'a res \<Rightarrow> ('a \<Rightarrow> 'b res) \<Rightarrow> 'b res" where
  "res_bind r f = (case r of Inl e \<Rightarrow> Inl e | Inr a \<Rightarrow> f a)"

lemma res_bind_simps [simp]:
  "res_bind (Inl e) f = Inl e"
  "res_bind (Inr a) f = f a"
  by (simp_all add: res_bind_def)

lemma res_bind_Inr_iff: "res_bind r f = Inr b \<longleftrightarrow> (\<exists>a. r = Inr a \<and> f a = Inr b)"
  by (cases r) auto

lemma res_bind_InrE:
  assumes "res_bind r f = Inr b"
  obtains a where "r = Inr a" and "f a = Inr b"
  using assms by (auto simp: res_bind_Inr_iff)

definition u64_div :: "u64 \<Rightarrow> u64 \<Rightarrow> u64 res" where
  "u64_div a b = (if b = 0 then Inl DivZero else Inr (a div b))"

lemma u64_div_nonzero [simp]: "b \<noteq> 0 \<Longrightarrow> u64_div a b = Inr (a div b)"
  by (simp add: u64_div_def)

section \<open>C strings and the formats of the sources\<close>

text \<open>
  A \<open>char\<close> array is the list of the characters before its first NUL, and all its \<open>MAX_STRING\<close>
  characters when it holds no NUL. A pointer to a string is such a list. \<open>strncpy\<close> with the size
  of the array leaves no terminator when the source is as long as the array; \<open>snprintf\<close> always
  leaves one.
\<close>

definition MAX_STRING :: nat where
  "MAX_STRING = 1024"

definition c_strncpy :: "string \<Rightarrow> nat \<Rightarrow> string" where
  "c_strncpy s n = take n s"

definition c_snprintf :: "nat \<Rightarrow> string \<Rightarrow> string" where
  "c_snprintf n s = take (n - 1) s"

definition c_strnlen :: "string \<Rightarrow> nat \<Rightarrow> nat" where
  "c_strnlen s n = min (length s) n"

definition terminated :: "string \<Rightarrow> bool" where
  "terminated s \<longleftrightarrow> length s < MAX_STRING"

lemma terminated_Nil [simp]: "terminated []"
  by (simp add: terminated_def MAX_STRING_def)

lemma terminated_snprintf: "terminated (c_snprintf MAX_STRING s)"
  by (simp add: terminated_def c_snprintf_def MAX_STRING_def)

lemma c_snprintf_fits: "length s < n \<Longrightarrow> c_snprintf n s = s"
  by (simp add: c_snprintf_def)

lemma c_strncpy_fits: "length s \<le> n \<Longrightarrow> c_strncpy s n = s"
  by (simp add: c_strncpy_def)

lemma terminated_strncpy: "terminated s \<Longrightarrow> c_strncpy s MAX_STRING = s"
  by (simp add: terminated_def c_strncpy_def)

definition digit_char :: "nat \<Rightarrow> char" where
  "digit_char d = char_of (48 + d)"

lemma digit_char_0_1: "digit_char 0 = CHR ''0''" "digit_char 1 = CHR ''1''" "digit_char (Suc 0) = CHR ''1''"
  by code_simp+

definition char_digit :: "char \<Rightarrow> nat" where
  "char_digit c = of_char c - 48"

fun dec_of_nat :: "nat \<Rightarrow> string" where
  "dec_of_nat n = (if n < 10 then [digit_char n] else dec_of_nat (n div 10) @ [digit_char (n mod 10)])"

declare dec_of_nat.simps [simp del]

text \<open>\<open>%d\<close>, and padding on the left to a width, with blanks or with zeros.\<close>

definition fmt_d :: "int \<Rightarrow> string" where
  "fmt_d i = (if i < 0 then CHR ''-'' # dec_of_nat (nat (- i)) else dec_of_nat (nat i))"

definition pad_left :: "char \<Rightarrow> nat \<Rightarrow> string \<Rightarrow> string" where
  "pad_left c w s = replicate (w - length s) c @ s"

definition fmt_03d :: "int \<Rightarrow> string" where
  "fmt_03d i = (if i < 0 then CHR ''-'' # pad_left (CHR ''0'') 2 (dec_of_nat (nat (- i)))
                else pad_left (CHR ''0'') 3 (dec_of_nat (nat i)))"

text \<open>Reading a decimal number back shows that the formats are injective.\<close>

definition nat_of_dec :: "string \<Rightarrow> nat" where
  "nat_of_dec s = foldl (\<lambda>n c. 10 * n + char_digit c) 0 s"

lemma char_digit_digit_char: "d < 10 \<Longrightarrow> char_digit (digit_char d) = d"
  by (simp add: char_digit_def digit_char_def of_char_of)

lemma nat_of_dec_snoc: "nat_of_dec (s @ [c]) = 10 * nat_of_dec s + char_digit c"
  by (simp add: nat_of_dec_def)

lemma nat_of_dec_of_nat [simp]: "nat_of_dec (dec_of_nat n) = n"
proof (induction n rule: dec_of_nat.induct)
  case (1 n)
  show ?case
  proof (cases "n < 10")
    case True
    then show ?thesis
      by (simp add: dec_of_nat.simps [of n] nat_of_dec_def char_digit_digit_char)
  next
    case False
    with 1 show ?thesis
      by (simp add: dec_of_nat.simps [of n] nat_of_dec_snoc char_digit_digit_char)
  qed
qed

lemma nat_of_dec_zeros: "nat_of_dec (replicate k (CHR ''0'') @ s) = nat_of_dec s"
  by (induction k) (simp_all add: nat_of_dec_def char_digit_def)

lemma fmt_03d_inj: "0 \<le> i \<Longrightarrow> 0 \<le> j \<Longrightarrow> fmt_03d i = fmt_03d j \<longleftrightarrow> i = j"
proof
  assume "0 \<le> i" "0 \<le> j" "fmt_03d i = fmt_03d j"
  then have "nat_of_dec (fmt_03d i) = nat_of_dec (fmt_03d j)"
    by simp
  with \<open>0 \<le> i\<close> \<open>0 \<le> j\<close> show "i = j"
    by (simp add: fmt_03d_def pad_left_def nat_of_dec_zeros)
qed simp

lemma length_dec_of_nat: "n < 10 ^ k \<Longrightarrow> 0 < k \<Longrightarrow> length (dec_of_nat n) \<le> k"
proof (induction n arbitrary: k rule: dec_of_nat.induct)
  case (1 n)
  show ?case
  proof (cases "n < 10")
    case True
    with 1 show ?thesis by (simp add: dec_of_nat.simps [of n])
  next
    case False
    with \<open>n < 10 ^ k\<close> have "1 < k" by (cases "k = 1") (auto intro: Suc_lessI \<open>0 < k\<close>)
    then obtain j where k: "k = Suc j" and "0 < j" by (cases k) auto
    with 1(2) have "n div 10 < 10 ^ j" by (simp add: less_mult_imp_div_less mult.commute)
    with 1(1) False \<open>0 < j\<close> k show ?thesis by (simp add: dec_of_nat.simps [of n])
  qed
qed

lemma length_fmt_03d: "0 \<le> i \<Longrightarrow> i < 10 ^ 10 \<Longrightarrow> length (fmt_03d i) \<le> 10"
  using length_dec_of_nat [of "nat i" 10]
  by (simp add: fmt_03d_def pad_left_def nat_less_iff)

text \<open>
  \<open>atoi\<close> skips white space, reads an optional sign and digits, and converts what \<open>strtol\<close> gives
  (a 64-bit \<open>long\<close>, clamped at its bounds) to an \<open>int\<close>.
\<close>

definition is_space :: "char \<Rightarrow> bool" where
  "is_space c \<longleftrightarrow> of_char c = (32 :: nat) \<or> (9 \<le> (of_char c :: nat) \<and> of_char c \<le> (13 :: nat))"

definition is_digit :: "char \<Rightarrow> bool" where
  "is_digit c \<longleftrightarrow> 48 \<le> (of_char c :: nat) \<and> of_char c \<le> (57 :: nat)"

definition c_strtol :: "string \<Rightarrow> int" where
  "c_strtol s =
     (let s1 = dropWhile is_space s;
          neg = (s1 \<noteq> [] \<and> hd s1 = CHR ''-'');
          s2 = (if s1 \<noteq> [] \<and> (hd s1 = CHR ''-'' \<or> hd s1 = CHR ''+'') then tl s1 else s1);
          n = int (nat_of_dec (takeWhile is_digit s2));
          v = (if neg then - n else n)
      in max (- (2 ^ 63)) (min (2 ^ 63 - 1) v))"

definition c_atoi :: "string \<Rightarrow> int" where
  "c_atoi s = i32_of_int (c_strtol s)"

lemma digit_char_props: "d < 10 \<Longrightarrow> is_digit (digit_char d) \<and> \<not> is_space (digit_char d) \<and>
    digit_char d \<noteq> CHR ''-'' \<and> digit_char d \<noteq> CHR ''+''"
proof -
  assume d: "d < 10"
  then have "of_char (digit_char d) = 48 + d" by (simp add: digit_char_def of_char_of)
  moreover have "of_char CHR ''-'' = (45 :: nat)" "of_char CHR ''+'' = (43 :: nat)" by simp_all
  ultimately have "digit_char d \<noteq> CHR ''-''" "digit_char d \<noteq> CHR ''+''" by (metis add.commute not_add_less1 numeral_less_iff semiring_norm)+
  with d show ?thesis by (simp add: is_digit_def is_space_def digit_char_def of_char_of)
qed

lemma dec_of_nat_digits: "\<forall>c \<in> set (dec_of_nat n). is_digit c \<and> \<not> is_space c \<and> c \<noteq> CHR ''-'' \<and> c \<noteq> CHR ''+''"
proof (induction n rule: dec_of_nat.induct)
  case (1 n)
  then show ?case
    using digit_char_props [of n] digit_char_props [of "n mod 10"]
    by (simp add: dec_of_nat.simps [of n])
qed

lemma c_atoi_dec: "int n < 2 ^ 31 \<Longrightarrow> c_atoi (dec_of_nat n) = int n"
proof -
  assume n: "int n < 2 ^ 31"
  have ne: "dec_of_nat n \<noteq> []" by (simp add: dec_of_nat.simps [of n])
  then have hd: "\<not> is_space (hd (dec_of_nat n))" "hd (dec_of_nat n) \<noteq> CHR ''-''" "hd (dec_of_nat n) \<noteq> CHR ''+''"
    using dec_of_nat_digits [of n] hd_in_set [OF ne] by blast+
  then have "dropWhile is_space (dec_of_nat n) = dec_of_nat n" by (cases "dec_of_nat n") simp_all
  moreover have digits: "takeWhile is_digit (dec_of_nat n) = dec_of_nat n"
    using dec_of_nat_digits [of n] by (simp add: takeWhile_eq_all_conv)
  ultimately show ?thesis using hd n
    by (simp add: c_atoi_def c_strtol_def digits i32_of_int_small)
qed

text \<open>
  \<open>%u\<close> of a time and \<open>%llu\<close>. Reading an array of \<open>MAX_STRING\<close> characters as a string runs
  past its end when it holds no NUL. \<open>strncmp\<close> looks at the first \<open>n\<close> characters.
\<close>

definition fmt_u :: "int \<Rightarrow> string" where
  "fmt_u i = dec_of_nat (unat (word_of_int i :: u32))"

definition fmt_llu :: "u64 \<Rightarrow> string" where
  "fmt_llu w = dec_of_nat (unat w)"

definition newline :: string where
  "newline = [CHR 0x0A]"

definition c_str :: "string \<Rightarrow> string res" where
  "c_str s = (if terminated s then Inr s else Inl OutOfBounds)"

definition c_strncmp_eq :: "string \<Rightarrow> string \<Rightarrow> nat \<Rightarrow> bool" where
  "c_strncmp_eq s t n \<longleftrightarrow> take n s = take n t"

lemma c_str_terminated [simp]: "terminated s \<Longrightarrow> c_str s = Inr s"
  by (simp add: c_str_def)

lemma c_strncmp_eq_terminated:
  "terminated s \<Longrightarrow> terminated t \<Longrightarrow> c_strncmp_eq s t MAX_STRING \<longleftrightarrow> s = t"
  by (simp add: c_strncmp_eq_def terminated_def)

text \<open>\<open>%s/%s\<close> joins a directory and a name.\<close>

definition path_join :: "string \<Rightarrow> string \<Rightarrow> string" where
  "path_join d f = d @ ''/'' @ f"

lemma path_join_inj [simp]: "path_join d f = path_join d g \<longleftrightarrow> f = g"
  by (simp add: path_join_def)

end
