(* ===== verification/Histcounter.thy ===== *)
theory Histcounter
  imports Prelude
begin

text \<open>
  The histogram counter of \<open>histcounter.c\<close>: a ring of time slots, each with the bytes and packets
  seen in one slot of time, running totals over the ring, and the index of the slot with the most
  bytes and of the slot with the most packets. \<open>histc_add\<close> spreads a flow over the slots its
  duration covers; the loop over the slots may run for ever when the 64-bit time wraps, so it is a
  partial function. The lemmas show that the totals are the sums of the slots, when the loop ends
  without a fault, that the peak indices name maximal slots, and how many bytes one call accounts.
\<close>

section \<open>Data\<close>

record histslot =
  hs_bytes :: u64
  hs_pkts :: u64
  hs_gsn :: u64

record histc =
  hc_num_slots :: int
  hc_slot_size :: u64
  hc_bytes :: u64
  hc_pkts :: u64
  hc_time :: u64
  hc_peak_bytes :: int
  hc_peak_pkts :: int
  hc_slots :: "histslot list option"

definition zero_slot :: histslot where
  "zero_slot = \<lparr>hs_bytes = 0, hs_pkts = 0, hs_gsn = 0\<rparr>"

section \<open>Operations\<close>


definition slot_at :: "histslot list \<Rightarrow> int \<Rightarrow> histslot res" where
  "slot_at ss i = (if 0 \<le> i \<and> nat i < length ss then Inr (ss ! nat i) else Inl OutOfBounds)"

text \<open>The search for a new peak slot: the loop \<open>for (i = 0; i < ht->num_slots; i++)\<close>.\<close>

fun find_peak :: "(histslot \<Rightarrow> u64) \<Rightarrow> histslot list \<Rightarrow> nat list \<Rightarrow> int \<Rightarrow> int res" where
  "find_peak v ss [] peak = Inr peak"
| "find_peak v ss (i # is) peak =
     res_bind (slot_at ss (int i)) (\<lambda>s.
     res_bind (slot_at ss peak) (\<lambda>p.
     find_peak v ss is (if v p \<le> v s then int i else peak)))"

text \<open>The reset of a slot that still holds an older slot of time.\<close>

definition histc_reset :: "int \<Rightarrow> int \<Rightarrow> histc \<Rightarrow> histslot list \<Rightarrow> histc res" where
  "histc_reset g i ht ss =
     res_bind (slot_at ss i) (\<lambda>s.
     if hs_gsn s = u64_of_int g then Inr ht
     else
       let ss' = ss[nat i := s\<lparr>hs_gsn := u64_of_int g, hs_bytes := 0, hs_pkts := 0\<rparr>];
           idx = [0..<nat (hc_num_slots ht)];
           ht1 = ht\<lparr>hc_bytes := hc_bytes ht - hs_bytes s, hc_pkts := hc_pkts ht - hs_pkts s,
                    hc_slots := Some ss'\<rparr>
       in res_bind (if hc_peak_bytes ht = i then find_peak hs_bytes ss' idx i
                    else Inr (hc_peak_bytes ht)) (\<lambda>pb.
          res_bind (if hc_peak_pkts ht = i then find_peak hs_pkts ss' idx i
                    else Inr (hc_peak_pkts ht)) (\<lambda>pp.
          Inr (ht1\<lparr>hc_peak_bytes := pb, hc_peak_pkts := pp\<rparr>))))"

text \<open>Adding the share of the slot, and comparing the slot with the peak slots.\<close>

definition histc_bump :: "u64 \<Rightarrow> u64 \<Rightarrow> u64 \<Rightarrow> int \<Rightarrow> histc \<Rightarrow> histslot list \<Rightarrow> histc res" where
  "histc_bump bps pps ts i ht ss =
     res_bind (slot_at ss i) (\<lambda>s.
     let s' = s\<lparr>hs_bytes := hs_bytes s + bps, hs_pkts := hs_pkts s + pps\<rparr>;
         ss' = ss[nat i := s'];
         ht1 = ht\<lparr>hc_slots := Some ss', hc_bytes := hc_bytes ht + bps,
                  hc_pkts := hc_pkts ht + pps, hc_time := hc_time ht + ts\<rparr>
     in res_bind (slot_at ss' (hc_peak_bytes ht)) (\<lambda>b.
        res_bind (slot_at ss' (hc_peak_pkts ht)) (\<lambda>p.
        Inr (ht1\<lparr>hc_peak_bytes := (if hs_bytes b \<le> hs_bytes s' then i else hc_peak_bytes ht),
                 hc_peak_pkts := (if hs_pkts p \<le> hs_pkts s' then i else hc_peak_pkts ht)\<rparr>))))"

text \<open>One round of the loop over the slots of the interval.\<close>

definition histc_round :: "u64 \<Rightarrow> u64 \<Rightarrow> u64 \<Rightarrow> histc \<Rightarrow> histc res" where
  "histc_round bps pps ts ht =
     res_bind (u64_div ts (hc_slot_size ht)) (\<lambda>q.
     if hc_num_slots ht = 0 then Inl DivZero
     else
       let g = i32_of_u64 q; i = c_rem g (hc_num_slots ht) in
       case hc_slots ht of
         None \<Rightarrow> Inl NullDeref
       | Some ss \<Rightarrow>
           res_bind (histc_reset g i ht ss) (\<lambda>ht1.
           case hc_slots ht1 of
             None \<Rightarrow> Inl NullDeref
           | Some ss1 \<Rightarrow> histc_bump bps pps ts i ht1 ss1))"

partial_function (option) histc_loop :: "u64 \<Rightarrow> u64 \<Rightarrow> u64 \<Rightarrow> u64 \<Rightarrow> histc \<Rightarrow> histc res option" where
  "histc_loop bps pps fin ts ht =
     (if ts < fin
      then (case histc_round bps pps ts ht of
              Inl e \<Rightarrow> Some (Inl e)
            | Inr ht' \<Rightarrow> histc_loop bps pps fin (ts + hc_slot_size ht') ht')
      else Some (Inr ht))"

text \<open>The number of slots the values are divided amongst.\<close>

definition histc_parts :: "u64 \<Rightarrow> u64 \<Rightarrow> int res" where
  "histc_parts slot_size duration =
     (if duration > 0
      then if slot_size = 0 then Inl DivZero
           else Inr (let n = i32_of_u64 (duration div slot_size)
                     in if duration mod slot_size > 0 then i32_of_int (n + 1) else n)
      else Inr 1)"

definition histc_add :: "histc \<Rightarrow> u64 \<Rightarrow> u64 \<Rightarrow> u64 \<Rightarrow> u64 \<Rightarrow> (int \<times> histc) res option" where
  "histc_add ht bytes pkts start_time duration =
     (case histc_parts (hc_slot_size ht) duration of
        Inl e \<Rightarrow> Some (Inl e)
      | Inr n \<Rightarrow>
          (case (u64_div bytes (u64_of_int n), u64_div pkts (u64_of_int n)) of
             (Inr bps, Inr pps) \<Rightarrow>
               map_option (map_sum id (Pair 1))
                 (histc_loop bps pps (start_time + duration) start_time ht)
           | _ \<Rightarrow> Some (Inl DivZero)))"

text \<open>The readers return bits and packets per second and a time.\<close>

definition histc_get_avg :: "histc \<Rightarrow> (u64 \<times> u64 \<times> u64) res" where
  "histc_get_avg ht =
     (let w = hc_slot_size ht * u64_of_int (hc_num_slots ht) in
      res_bind (u64_div (hc_bytes ht) w) (\<lambda>b.
      res_bind (u64_div (hc_pkts ht) w) (\<lambda>p.
      Inr (b * 1000 * 8, p * 1000, hc_time ht))))"

definition histc_get_peak :: "histc \<Rightarrow> (u64 \<times> u64 \<times> u64) res" where
  "histc_get_peak ht =
     (case hc_slots ht of
        None \<Rightarrow> Inl NullDeref
      | Some ss \<Rightarrow>
          res_bind (slot_at ss (hc_peak_bytes ht)) (\<lambda>b.
          res_bind (slot_at ss (hc_peak_pkts ht)) (\<lambda>p.
          res_bind (u64_div (hs_bytes b) (hc_slot_size ht)) (\<lambda>bps.
          res_bind (u64_div (hs_pkts p) (hc_slot_size ht)) (\<lambda>pps.
          Inr (bps * 1000 * 8, pps * 1000, hs_gsn p * hc_slot_size ht))))))"

section \<open>Columns of the ring\<close>

text \<open>
  The code treats bytes and packets alike: a slot is cleared, a share is added, the running total
  and the peak index follow. The locale states what a column of the ring is, and its lemmas are
  proved once and read for both columns.
\<close>

definition column_total :: "('s \<Rightarrow> u64) \<Rightarrow> 's list \<Rightarrow> u64" where
  "column_total v ss = sum_list (map v ss)"

definition column_load :: "('s \<Rightarrow> u64) \<Rightarrow> 's list \<Rightarrow> nat" where
  "column_load v ss = sum_list (map (\<lambda>s. unat (v s)) ss)"

definition peak_of :: "('s \<Rightarrow> u64) \<Rightarrow> 's list \<Rightarrow> int \<Rightarrow> bool" where
  "peak_of v ss p \<longleftrightarrow> 0 \<le> p \<and> nat p < length ss \<and> (\<forall>s \<in> set ss. v s \<le> v (ss ! nat p))"

definition clear_slot :: "u64 \<Rightarrow> histslot \<Rightarrow> histslot" where
  "clear_slot g s = s\<lparr>hs_gsn := g, hs_bytes := 0, hs_pkts := 0\<rparr>"

definition bump_slot :: "u64 \<Rightarrow> u64 \<Rightarrow> histslot \<Rightarrow> histslot" where
  "bump_slot b p s = s\<lparr>hs_bytes := hs_bytes s + b, hs_pkts := hs_pkts s + p\<rparr>"

lemma sum_list_update_ring:
  fixes f :: "'s \<Rightarrow> 'b::ab_group_add"
  assumes "i < length ss"
  shows "sum_list (map f (ss[i := s])) = sum_list (map f ss) - f (ss ! i) + f s"
  using assms
proof (induction ss arbitrary: i)
  case (Cons x xs)
  then show ?case by (cases i) (simp_all add: algebra_simps)
qed simp

lemma column_load_update:
  "i < length ss \<Longrightarrow> column_load v (ss[i := s]) + unat (v (ss ! i)) = column_load v ss + unat (v s)"
proof (induction ss arbitrary: i)
  case (Cons x xs)
  then show ?case by (cases i) (auto simp: column_load_def)
qed simp

lemma column_load_ge: "i < length ss \<Longrightarrow> unat (v (ss ! i)) \<le> column_load v ss"
proof (induction ss arbitrary: i)
  case (Cons x xs)
  then show ?case by (cases i) (force simp: column_load_def)+
qed simp

locale ring_column =
  fixes val :: "'s \<Rightarrow> u64"
    and clr :: "u64 \<Rightarrow> 's \<Rightarrow> 's"
    and bump :: "u64 \<Rightarrow> u64 \<Rightarrow> 's \<Rightarrow> 's"
    and share :: "u64 \<Rightarrow> u64 \<Rightarrow> u64"
  assumes val_clr: "val (clr g s) = 0"
    and val_bump: "val (bump b p s) = val s + share b p"
begin

lemma total_clr:
  "i < length ss \<Longrightarrow> column_total val (ss[i := clr g (ss ! i)]) = column_total val ss - val (ss ! i)"
  by (simp add: column_total_def sum_list_update_ring val_clr)

lemma total_bump:
  "i < length ss \<Longrightarrow> column_total val (ss[i := bump b p (ss ! i)]) = column_total val ss + share b p"
  by (simp add: column_total_def sum_list_update_ring val_bump)

lemma load_clr:
  "i < length ss \<Longrightarrow> column_load val (ss[i := clr g (ss ! i)]) + unat (val (ss ! i)) = column_load val ss"
  using column_load_update [of i ss val "clr g (ss ! i)"] by (simp add: val_clr)

lemma load_clr_le:
  "i < length ss \<Longrightarrow> column_load val (ss[i := clr g (ss ! i)]) \<le> column_load val ss"
  using load_clr [of i ss g] by linarith

lemma unat_bump:
  assumes "i < length ss" and "column_load val ss + unat (share b p) < 2 ^ 64"
  shows "unat (val (bump b p (ss ! i))) = unat (val (ss ! i)) + unat (share b p)"
proof -
  from column_load_ge [OF assms(1), of val] assms(2)
  have "unat (val (ss ! i)) + unat (share b p) < 2 ^ LENGTH(64)" by simp
  then show ?thesis by (simp only: val_bump unat_add_lem)
qed

lemma load_bump:
  assumes "i < length ss" and "column_load val ss + unat (share b p) < 2 ^ 64"
  shows "column_load val (ss[i := bump b p (ss ! i)]) = column_load val ss + unat (share b p)"
  using column_load_update [OF assms(1), of val "bump b p (ss ! i)"] unat_bump [OF assms] by linarith

lemma peak_clr:
  assumes "peak_of val ss p" and "p \<noteq> int i" and "i < length ss"
  shows "peak_of val (ss[i := clr g (ss ! i)]) p"
proof -
  from assms have "nat p \<noteq> i" by (auto simp: peak_of_def)
  moreover have "\<forall>s \<in> set (ss[i := clr g (ss ! i)]). val s \<le> val (ss ! nat p)"
    using assms set_update_subset_insert [of ss i "clr g (ss ! i)"]
    by (auto simp: peak_of_def val_clr)
  ultimately show ?thesis using assms by (simp add: peak_of_def)
qed

lemma peak_bump:
  assumes peak: "peak_of val ss p" and i: "i < length ss"
    and room: "column_load val ss + unat (share b q) < 2 ^ 64"
  defines "s' \<equiv> bump b q (ss ! i)"
  defines "ss' \<equiv> ss[i := s']"
  shows "peak_of val ss' (if val (ss' ! nat p) \<le> val s' then int i else p)"
proof -
  have grow: "val (ss ! i) \<le> val s'"
    using unat_bump [OF i room] by (simp add: s'_def word_le_nat_alt)
  have old: "val s \<le> val (ss ! nat p)" if "s \<in> set ss" for s
    using peak that by (simp add: peak_of_def)
  have bound: "val s \<le> val (ss' ! nat p) \<or> val s \<le> val s'" if "s \<in> set ss'" for s
  proof (cases "s \<in> set ss")
    case True
    with old have "val s \<le> val (ss ! nat p)" by blast
    then show ?thesis
      using grow by (cases "nat p = i") (auto simp: ss'_def i)
  next
    case False
    with that set_update_subset_insert [of ss i s'] show ?thesis by (auto simp: ss'_def)
  qed
  show ?thesis
  proof (cases "val (ss' ! nat p) \<le> val s'")
    case True
    then have "\<forall>s \<in> set ss'. val s \<le> val s'" using bound by (meson order_trans)
    with True i show ?thesis by (simp add: peak_of_def ss'_def)
  next
    case False
    then have "\<forall>s \<in> set ss'. val s \<le> val (ss' ! nat p)" using bound by (meson linear order_trans)
    with False peak show ?thesis by (simp add: peak_of_def ss'_def)
  qed
qed

end

interpretation bytes_col: ring_column hs_bytes clear_slot bump_slot "\<lambda>b p. b"
  by unfold_locales (simp_all add: clear_slot_def bump_slot_def)

interpretation pkts_col: ring_column hs_pkts clear_slot bump_slot "\<lambda>b p. p"
  by unfold_locales (simp_all add: clear_slot_def bump_slot_def)

section \<open>The invariant of a histogram\<close>

definition hist_shape :: "histc \<Rightarrow> bool" where
  "hist_shape ht \<longleftrightarrow>
     (case hc_slots ht of
        None \<Rightarrow> False
      | Some ss \<Rightarrow> length ss = nat (hc_num_slots ht) \<and> 0 < hc_num_slots ht \<and>
          hc_num_slots ht < 2 ^ 31 \<and> hc_slot_size ht \<noteq> 0 \<and>
          0 \<le> hc_peak_bytes ht \<and> hc_peak_bytes ht < hc_num_slots ht \<and>
          0 \<le> hc_peak_pkts ht \<and> hc_peak_pkts ht < hc_num_slots ht)"

definition hist_totals :: "histc \<Rightarrow> bool" where
  "hist_totals ht \<longleftrightarrow>
     (case hc_slots ht of
        None \<Rightarrow> False
      | Some ss \<Rightarrow> hc_bytes ht = column_total hs_bytes ss \<and> hc_pkts ht = column_total hs_pkts ss)"

definition hist_peaks :: "histc \<Rightarrow> bool" where
  "hist_peaks ht \<longleftrightarrow>
     (case hc_slots ht of
        None \<Rightarrow> False
      | Some ss \<Rightarrow> peak_of hs_bytes ss (hc_peak_bytes ht) \<and> peak_of hs_pkts ss (hc_peak_pkts ht))"

definition hist_load :: "(histslot \<Rightarrow> u64) \<Rightarrow> histc \<Rightarrow> nat" where
  "hist_load v ht = (case hc_slots ht of None \<Rightarrow> 0 | Some ss \<Rightarrow> column_load v ss)"

lemmas hist_inv_defs = hist_shape_def hist_totals_def hist_peaks_def hist_load_def

lemma find_peak_correct:
  assumes "0 \<le> p" "nat p < length ss" "\<forall>i \<in> set is. i < length ss"
  shows "\<exists>q. find_peak v ss is p = Inr q \<and> 0 \<le> q \<and> nat q < length ss \<and>
    v (ss ! nat p) \<le> v (ss ! nat q) \<and> (\<forall>i \<in> set is. v (ss ! i) \<le> v (ss ! nat q))"
  using assms
proof (induction "is" arbitrary: p)
  case (Cons i "is")
  show ?case
  proof (cases "v (ss ! nat p) \<le> v (ss ! i)")
    case True
    with Cons.prems Cons.IH [of "int i"] show ?thesis by (auto simp: slot_at_def)
  next
    case False
    with Cons.prems Cons.IH [of p] show ?thesis by (auto simp: slot_at_def)
  qed
qed simp

lemma find_peak_all:
  assumes "0 \<le> p" "nat p < length ss" "length ss = n"
  shows "\<exists>q. find_peak v ss [0..<n] p = Inr q \<and> peak_of v ss q"
proof -
  have "\<forall>i \<in> set [0..<n]. i < length ss" using assms by simp
  from find_peak_correct [OF assms(1,2) this, of v] obtain q
    where q: "find_peak v ss [0..<n] p = Inr q" "0 \<le> q" "nat q < length ss"
      "\<forall>i \<in> set [0..<n]. v (ss ! i) \<le> v (ss ! nat q)" by blast
  with assms(3) have "peak_of v ss q" by (auto simp: peak_of_def in_set_conv_nth)
  with q show ?thesis by blast
qed

lemma peak_of_range: "peak_of v ss p \<Longrightarrow> 0 \<le> p \<and> p < int (length ss)"
  by (auto simp: peak_of_def)

text \<open>The reset keeps the invariant, whatever it finds in the slot.\<close>

lemma histc_reset_ok:
  assumes shape: "hist_shape ht" and ss: "hc_slots ht = Some ss" and i: "0 \<le> i" "i < hc_num_slots ht"
  shows "\<exists>ht' ss'. histc_reset g i ht ss = Inr ht' \<and> hc_slots ht' = Some ss' \<and> hist_shape ht' \<and>
    hs_gsn (ss' ! nat i) = u64_of_int g \<and>
    (ss' = ss \<or> ss' = ss[nat i := clear_slot (u64_of_int g) (ss ! nat i)]) \<and>
    hc_num_slots ht' = hc_num_slots ht \<and> hc_slot_size ht' = hc_slot_size ht \<and>
    hc_time ht' = hc_time ht \<and>
    (hist_totals ht \<longrightarrow> hist_totals ht') \<and> (hist_peaks ht \<longrightarrow> hist_peaks ht')"
proof (cases "hs_gsn (ss ! nat i) = u64_of_int g")
  case True
  with assms have "histc_reset g i ht ss = Inr ht"
    by (auto simp: histc_reset_def slot_at_def hist_shape_def)
  with True assms show ?thesis by auto
next
  case False
  define ss' where "ss' = ss[nat i := clear_slot (u64_of_int g) (ss ! nat i)]"
  from assms have len: "nat i < length ss" "length ss' = nat (hc_num_slots ht)"
    by (auto simp: hist_shape_def ss'_def)
  have srch: "\<exists>q. (if p = i then find_peak v ss' [0..<nat (hc_num_slots ht)] i else Inr p) = Inr q \<and>
      0 \<le> q \<and> q < hc_num_slots ht \<and> (p = i \<longrightarrow> peak_of v ss' q) \<and> (p \<noteq> i \<longrightarrow> q = p)"
    if "0 \<le> p" "p < hc_num_slots ht" for p and v :: "histslot \<Rightarrow> u64"
    using find_peak_all [of i ss' _ v, OF i(1) _ len(2)] that i len
    by (cases "p = i") (force dest: peak_of_range)+
  from shape ss srch [of "hc_peak_bytes ht" hs_bytes] obtain pb where pb:
    "(if hc_peak_bytes ht = i then find_peak hs_bytes ss' [0..<nat (hc_num_slots ht)] i
      else Inr (hc_peak_bytes ht)) = Inr pb" "0 \<le> pb" "pb < hc_num_slots ht"
    "hc_peak_bytes ht = i \<longrightarrow> peak_of hs_bytes ss' pb" "hc_peak_bytes ht \<noteq> i \<longrightarrow> pb = hc_peak_bytes ht"
    by (auto simp: hist_shape_def)
  from shape ss srch [of "hc_peak_pkts ht" hs_pkts] obtain pp where pp:
    "(if hc_peak_pkts ht = i then find_peak hs_pkts ss' [0..<nat (hc_num_slots ht)] i
      else Inr (hc_peak_pkts ht)) = Inr pp" "0 \<le> pp" "pp < hc_num_slots ht"
    "hc_peak_pkts ht = i \<longrightarrow> peak_of hs_pkts ss' pp" "hc_peak_pkts ht \<noteq> i \<longrightarrow> pp = hc_peak_pkts ht"
    by (auto simp: hist_shape_def)
  let ?ht' = "ht\<lparr>hc_bytes := hc_bytes ht - hs_bytes (ss ! nat i),
    hc_pkts := hc_pkts ht - hs_pkts (ss ! nat i), hc_slots := Some ss',
    hc_peak_bytes := pb, hc_peak_pkts := pp\<rparr>"
  have cleared: "ss[nat i := (ss ! nat i)\<lparr>hs_gsn := u64_of_int g, hs_bytes := 0, hs_pkts := 0\<rparr>] = ss'"
    by (simp add: ss'_def clear_slot_def)
  have "histc_reset g i ht ss = Inr ?ht'"
    using False len i pb(1) pp(1)
    by (simp add: histc_reset_def slot_at_def Let_def cleared split del: if_split)
  moreover have "hist_shape ?ht'"
    using shape ss len pb pp by (simp add: hist_shape_def)
  moreover have "hist_totals ?ht'" if "hist_totals ht"
    using that ss len bytes_col.total_clr pkts_col.total_clr by (simp add: hist_totals_def ss'_def)
  moreover have "hist_peaks ?ht'" if "hist_peaks ht"
    using that ss len i pb(4,5) pp(4,5)
      bytes_col.peak_clr [of ss "hc_peak_bytes ht" "nat i"] pkts_col.peak_clr [of ss "hc_peak_pkts ht" "nat i"]
    by (cases "hc_peak_bytes ht = i"; cases "hc_peak_pkts ht = i") (simp_all add: hist_peaks_def ss'_def)
  moreover have "hs_gsn (ss' ! nat i) = u64_of_int g"
    using len by (simp add: ss'_def clear_slot_def)
  ultimately show ?thesis by (intro exI [of _ ?ht'] exI [of _ ss']) (simp add: ss'_def)
qed

lemma histc_bump_ok:
  fixes bps pps :: u64
  assumes shape: "hist_shape ht" and ss: "hc_slots ht = Some ss" and i: "0 \<le> i" "i < hc_num_slots ht"
  defines "ss' \<equiv> ss[nat i := bump_slot bps pps (ss ! nat i)]"
  shows "\<exists>ht'. histc_bump bps pps ts i ht ss = Inr ht' \<and> hist_shape ht' \<and> hc_slots ht' = Some ss' \<and>
    hc_num_slots ht' = hc_num_slots ht \<and> hc_slot_size ht' = hc_slot_size ht \<and>
    hc_time ht' = hc_time ht + ts \<and>
    (hist_totals ht \<longrightarrow> hist_totals ht') \<and>
    (hist_peaks ht \<longrightarrow> column_load hs_bytes ss + unat bps < 2 ^ 64 \<longrightarrow>
       column_load hs_pkts ss + unat pps < 2 ^ 64 \<longrightarrow> hist_peaks ht')"
proof -
  from assms have len: "nat i < length ss" "length ss' = nat (hc_num_slots ht)"
    by (auto simp: hist_shape_def)
  let ?s = "bump_slot bps pps (ss ! nat i)"
  let ?pb = "if hs_bytes (ss' ! nat (hc_peak_bytes ht)) \<le> hs_bytes ?s then i else hc_peak_bytes ht"
  let ?pp = "if hs_pkts (ss' ! nat (hc_peak_pkts ht)) \<le> hs_pkts ?s then i else hc_peak_pkts ht"
  let ?ht' = "ht\<lparr>hc_slots := Some ss', hc_bytes := hc_bytes ht + bps, hc_pkts := hc_pkts ht + pps,
    hc_time := hc_time ht + ts, hc_peak_bytes := ?pb, hc_peak_pkts := ?pp\<rparr>"
  have "histc_bump bps pps ts i ht ss = Inr ?ht'"
    using shape ss i len
    by (simp add: histc_bump_def slot_at_def hist_shape_def Let_def ss'_def bump_slot_def nat_less_eq_zless)
  moreover have "hist_shape ?ht'"
    using shape ss i len by (simp add: hist_shape_def)
  moreover have "hist_totals ?ht'" if "hist_totals ht"
    using that ss len bytes_col.total_bump pkts_col.total_bump by (simp add: hist_totals_def ss'_def)
  moreover have "hist_peaks ?ht'"
    if "hist_peaks ht" "column_load hs_bytes ss + unat bps < 2 ^ 64" "column_load hs_pkts ss + unat pps < 2 ^ 64"
  proof -
    have "peak_of hs_bytes ss' ?pb"
      using that ss len i bytes_col.peak_bump [of ss "hc_peak_bytes ht" "nat i", where b = bps and q = pps]
      unfolding ss'_def by (simp add: hist_peaks_def split del: if_split cong: if_cong)
    moreover have "peak_of hs_pkts ss' ?pp"
      using that ss len i pkts_col.peak_bump [of ss "hc_peak_pkts ht" "nat i", where b = bps and q = pps]
      unfolding ss'_def by (simp add: hist_peaks_def split del: if_split cong: if_cong)
    ultimately show ?thesis by (simp add: hist_peaks_def split del: if_split)
  qed
  ultimately show ?thesis by (intro exI [of _ ?ht']) simp
qed

section \<open>Rounds and the loop\<close>

text \<open>The ring index and the slot number of a time, and one round of the loop on them.\<close>

definition ring_index :: "histc \<Rightarrow> u64 \<Rightarrow> nat" where
  "ring_index ht ts = unat (ts div hc_slot_size ht) mod nat (hc_num_slots ht)"

definition same_ring :: "histc \<Rightarrow> histc \<Rightarrow> bool" where
  "same_ring ht ht' \<longleftrightarrow>
     hc_num_slots ht' = hc_num_slots ht \<and> hc_slot_size ht' = hc_slot_size ht"

lemma same_ring_trans: "same_ring a b \<Longrightarrow> same_ring b c \<Longrightarrow> same_ring a c"
  by (simp add: same_ring_def)

lemma column_load_clear:
  "i < length ss \<Longrightarrow> column_load hs_bytes (ss[i := clear_slot g (ss ! i)]) \<le> column_load hs_bytes ss"
  "i < length ss \<Longrightarrow> column_load hs_pkts (ss[i := clear_slot g (ss ! i)]) \<le> column_load hs_pkts ss"
  by (rule bytes_col.load_clr_le pkts_col.load_clr_le; assumption)+

lemma histc_round_ok:
  assumes shape: "hist_shape ht" and ss: "hc_slots ht = Some ss"
    and small: "unat (ts div hc_slot_size ht) < 2 ^ 31"
  defines "i \<equiv> ring_index ht ts"
  shows "\<exists>ht' ss1. histc_round bps pps ts ht = Inr ht' \<and> hist_shape ht' \<and> same_ring ht ht' \<and>
    hc_slots ht' = Some (ss1[i := bump_slot bps pps (ss1 ! i)]) \<and>
    (ss1 = ss \<or> ss1 = ss[i := clear_slot (ts div hc_slot_size ht) (ss ! i)]) \<and>
    hs_gsn (ss1 ! i) = ts div hc_slot_size ht \<and>
    hc_time ht' = hc_time ht + ts \<and>
    (hist_totals ht \<longrightarrow> hist_totals ht') \<and>
    (hist_peaks ht \<longrightarrow> column_load hs_bytes ss + unat bps < 2 ^ 64 \<longrightarrow>
       column_load hs_pkts ss + unat pps < 2 ^ 64 \<longrightarrow> hist_peaks ht')"
proof -
  let ?q = "ts div hc_slot_size ht"
  let ?g = "i32_of_u64 ?q"
  let ?i = "c_rem ?g (hc_num_slots ht)"
  from shape ss have n: "0 < hc_num_slots ht" "hc_slot_size ht \<noteq> 0" "length ss = nat (hc_num_slots ht)"
    by (auto simp: hist_shape_def)
  have g: "?g = int (unat ?q)" "u64_of_int ?g = ?q"
    using small by (simp_all add: i32_of_u64_small)
  have "?i = int (unat ?q) mod hc_num_slots ht"
    using n by (simp only: g(1) c_rem_nonneg of_nat_0_le_iff)
  then have i: "?i = int i" "0 \<le> ?i" "?i < hc_num_slots ht"
    using n by (simp_all add: i_def ring_index_def nat_mod_as_int zmod_int)
  from histc_reset_ok [OF shape ss i(2,3), of ?g] obtain ht1 ss1 where
    1: "histc_reset ?g ?i ht ss = Inr ht1" "hc_slots ht1 = Some ss1" "hist_shape ht1"
      "hs_gsn (ss1 ! i) = ?q" "ss1 = ss \<or> ss1 = ss[i := clear_slot ?q (ss ! i)]"
      "same_ring ht ht1" "hc_time ht1 = hc_time ht" "hist_totals ht \<longrightarrow> hist_totals ht1"
      "hist_peaks ht \<longrightarrow> hist_peaks ht1"
    unfolding g(2) same_ring_def i(1) nat_int by blast
  from i(3) 1(6) have "?i < hc_num_slots ht1" by (simp add: same_ring_def)
  from histc_bump_ok [OF 1(3,2) i(2) this, of bps pps ts] obtain ht2 where
    2: "histc_bump bps pps ts ?i ht1 ss1 = Inr ht2" "hist_shape ht2"
      "hc_slots ht2 = Some (ss1[i := bump_slot bps pps (ss1 ! i)])" "same_ring ht1 ht2"
      "hc_time ht2 = hc_time ht1 + ts" "hist_totals ht1 \<longrightarrow> hist_totals ht2"
      "hist_peaks ht1 \<longrightarrow> column_load hs_bytes ss1 + unat bps < 2 ^ 64 \<longrightarrow>
       column_load hs_pkts ss1 + unat pps < 2 ^ 64 \<longrightarrow> hist_peaks ht2"
    unfolding same_ring_def i(1) nat_int by blast
  have "i < length ss" using i n by simp
  then have load: "column_load hs_bytes ss1 \<le> column_load hs_bytes ss"
    "column_load hs_pkts ss1 \<le> column_load hs_pkts ss"
    using 1(5) column_load_clear by auto
  have "histc_round bps pps ts ht = Inr ht2"
    using n ss 1(1,2) 2(1) by (simp add: histc_round_def)
  with 1 2 load same_ring_trans show ?thesis
    by (intro exI [of _ ht2] exI [of _ ss1]) auto
qed

text \<open>
  The loop visits the times \<open>ts, ts + slot_size, \<dots>\<close> below \<open>fin\<close>; with no wrap of the time it makes
  exactly \<open>k\<close> rounds when \<open>k\<close> slots cover the interval.
\<close>

definition hist_ok :: "histc \<Rightarrow> bool" where
  "hist_ok ht \<longleftrightarrow> hist_shape ht \<and> hist_totals ht"

lemma hist_shape_slots: "hist_shape ht \<Longrightarrow> \<exists>ss. hc_slots ht = Some ss"
  by (auto simp: hist_shape_def split: option.splits)

fun histc_rounds :: "u64 \<Rightarrow> u64 \<Rightarrow> u64 list \<Rightarrow> histc \<Rightarrow> histc res" where
  "histc_rounds bps pps [] ht = Inr ht"
| "histc_rounds bps pps (ts # tss) ht =
     res_bind (histc_round bps pps ts ht) (histc_rounds bps pps tss)"

fun slot_times :: "u64 \<Rightarrow> u64 \<Rightarrow> nat \<Rightarrow> u64 list" where
  "slot_times sz ts 0 = []"
| "slot_times sz ts (Suc k) = ts # slot_times sz (ts + sz) k"

lemma histc_round_ring:
  assumes "histc_round bps pps ts ht = Inr ht'" "hist_shape ht" "unat (ts div hc_slot_size ht) < 2 ^ 31"
  shows "same_ring ht ht'" and "hist_shape ht'"
proof -
  from hist_shape_slots [OF assms(2)] obtain ss where "hc_slots ht = Some ss" by blast
  from histc_round_ok [OF assms(2) this assms(3), of bps pps] assms(1)
  show "same_ring ht ht'" and "hist_shape ht'" by auto
qed

lemma histc_loop_rounds:
  assumes "hist_shape ht" and sz: "hc_slot_size ht = sz"
    and fin: "unat ts + k * unat sz < unat fin + unat sz" "unat fin \<le> unat ts + k * unat sz"
    and room: "unat fin + unat sz < 2 ^ 64" and small: "unat fin div unat sz < 2 ^ 31"
  shows "histc_loop bps pps fin ts ht = Some (histc_rounds bps pps (slot_times sz ts k) ht)"
  using assms
proof (induction k arbitrary: ts ht)
  case 0
  then have "\<not> ts < fin" by (simp add: word_less_nat_alt)
  then show ?case by (simp add: histc_loop.simps)
next
  case (Suc k)
  from Suc.prems(3) have lt: "unat ts < unat fin" by simp
  then have "ts < fin" by (simp add: word_less_nat_alt)
  have small_ts: "unat (ts div sz) < 2 ^ 31"
    using div_le_mono [of "unat ts" "unat fin" "unat sz"] lt Suc.prems(6) by (simp add: unat_div)
  from hist_shape_slots [OF Suc.prems(1)] obtain ss where ss: "hc_slots ht = Some ss" by blast
  from histc_round_ok [OF Suc.prems(1) ss, of ts bps pps] small_ts Suc.prems(2) obtain ht' where
    ht': "histc_round bps pps ts ht = Inr ht'" "hist_shape ht'" "same_ring ht ht'" by auto
  have next_ts: "unat (ts + sz) = unat ts + unat sz"
    using lt Suc.prems(5) by (simp add: unat_add_lem [THEN iffD1])
  have "histc_loop bps pps fin (ts + sz) ht' = Some (histc_rounds bps pps (slot_times sz (ts + sz) k) ht')"
    using ht' Suc.prems next_ts by (intro Suc.IH) (simp_all add: same_ring_def)
  with \<open>ts < fin\<close> ht' Suc.prems(2) show ?case
    by (simp add: histc_loop.simps [of bps pps fin ts] same_ring_def)
qed

lemma histc_rounds_ok:
  assumes "hist_shape ht" "\<forall>ts \<in> set tss. unat (ts div hc_slot_size ht) < 2 ^ 31"
  shows "\<exists>ht'. histc_rounds bps pps tss ht = Inr ht' \<and> hist_shape ht' \<and> same_ring ht ht' \<and>
    (hist_totals ht \<longrightarrow> hist_totals ht') \<and>
    hc_time ht' = hc_time ht + sum_list tss \<and>
    (hist_peaks ht \<longrightarrow> hist_load hs_bytes ht + length tss * unat bps < 2 ^ 64 \<longrightarrow>
       hist_load hs_pkts ht + length tss * unat pps < 2 ^ 64 \<longrightarrow> hist_peaks ht')"
  using assms
proof (induction tss arbitrary: ht)
  case Nil
  then show ?case by (simp add: same_ring_def)
next
  case (Cons ts tss)
  from hist_shape_slots [OF Cons.prems(1)] obtain ss where ss: "hc_slots ht = Some ss" by blast
  define i where "i = ring_index ht ts"
  from histc_round_ok [OF Cons.prems(1) ss, of ts bps pps] Cons.prems(2) obtain ht1 ss1 where
    1: "histc_round bps pps ts ht = Inr ht1" "hist_shape ht1" "same_ring ht ht1"
      "hc_slots ht1 = Some (ss1[i := bump_slot bps pps (ss1 ! i)])"
      "ss1 = ss \<or> ss1 = ss[i := clear_slot (ts div hc_slot_size ht) (ss ! i)]"
      "hc_time ht1 = hc_time ht + ts" "hist_totals ht \<longrightarrow> hist_totals ht1"
      "hist_peaks ht \<longrightarrow> column_load hs_bytes ss + unat bps < 2 ^ 64 \<longrightarrow>
       column_load hs_pkts ss + unat pps < 2 ^ 64 \<longrightarrow> hist_peaks ht1"
    by (auto simp: i_def)
  have i: "i < length ss"
    using Cons.prems(1) ss by (simp add: i_def ring_index_def hist_shape_def)
  then have load1: "column_load hs_bytes ss1 \<le> column_load hs_bytes ss"
    "column_load hs_pkts ss1 \<le> column_load hs_pkts ss" "i < length ss1"
    using 1(5) column_load_clear by auto
  from 1(3) Cons.prems(2) have "\<forall>ts \<in> set tss. unat (ts div hc_slot_size ht1) < 2 ^ 31"
    by (simp add: same_ring_def)
  from Cons.IH [OF 1(2) this] obtain ht2 where
    2: "histc_rounds bps pps tss ht1 = Inr ht2" "hist_shape ht2" "same_ring ht1 ht2"
      "hist_totals ht1 \<longrightarrow> hist_totals ht2" "hc_time ht2 = hc_time ht1 + sum_list tss"
      "hist_peaks ht1 \<longrightarrow> hist_load hs_bytes ht1 + length tss * unat bps < 2 ^ 64 \<longrightarrow>
       hist_load hs_pkts ht1 + length tss * unat pps < 2 ^ 64 \<longrightarrow> hist_peaks ht2"
    by blast
  have "hist_peaks ht2"
    if p: "hist_peaks ht" and b: "hist_load hs_bytes ht + length (ts # tss) * unat bps < 2 ^ 64"
      and q: "hist_load hs_pkts ht + length (ts # tss) * unat pps < 2 ^ 64"
  proof -
    have "hist_load hs_bytes ht1 = column_load hs_bytes ss1 + unat bps"
      using bytes_col.load_bump [OF load1(3), where b = bps and p = pps] load1(1) b ss 1(4) by (simp add: hist_load_def)
    moreover have "hist_load hs_pkts ht1 = column_load hs_pkts ss1 + unat pps"
      using pkts_col.load_bump [OF load1(3), where b = bps and p = pps] load1(2) q ss 1(4) by (simp add: hist_load_def)
    ultimately show ?thesis
      using 1(8) 2(6) p b q load1(1,2) ss by (simp add: hist_load_def)
  qed
  with 1 2 same_ring_trans show ?case
    by (intro exI [of _ ht2]) (auto simp: add.assoc)
qed

section \<open>What one call does\<close>

lemma parts_ceiling:
  fixes d z :: nat
  assumes "0 < z" "0 < d"
  defines "k \<equiv> d div z + (if d mod z > 0 then 1 else 0)"
  shows "0 < k" "d \<le> k * z" "k * z < d + z"
proof -
  have d: "d div z * z + d mod z = d" by simp
  have m: "d mod z < z" using assms(1) by simp
  show "0 < k" using assms(1,2) by (auto simp: k_def div_greater_zero_iff)
  have "d \<le> k * z \<and> k * z < d + z"
  proof (cases "d mod z > 0")
    case True
    then have "k * z = d div z * z + z" by (simp add: k_def add_mult_distrib)
    with d m True show ?thesis by linarith
  next
    case False
    then have "k * z = d div z * z" by (simp add: k_def)
    with d False assms(1) show ?thesis by linarith
  qed
  then show "d \<le> k * z" "k * z < d + z" by blast+
qed

lemma histc_parts_eq:
  fixes sz du :: u64
  assumes "sz \<noteq> 0" "du \<noteq> 0" "unat du div unat sz < 2 ^ 31 - 1"
  defines "k \<equiv> unat du div unat sz + (if unat du mod unat sz > 0 then 1 else 0)"
  shows "histc_parts sz du = Inr (int k)"
proof -
  have small: "unat (du div sz) < 2 ^ 31" using assms(3) by (simp add: unat_div)
  have rem: "du mod sz > 0 \<longleftrightarrow> unat du mod unat sz > 0"
    by (simp add: word_less_nat_alt unat_mod)
  have "k < 2 ^ 31" using assms(3) by (simp add: k_def)
  then have "int k < 2 ^ 31" by (simp add: nat_less_iff [symmetric])
  then have "i32_of_int (int k) = int k" by (intro i32_of_int_small) simp_all
  then show ?thesis
    using assms(1,2) rem i32_of_u64_small [OF small]
    by (simp add: histc_parts_def k_def unat_div word_gt_0 Let_def ac_simps split: if_splits)
qed

lemma hist_shape_size: "hist_shape ht \<Longrightarrow> hc_slot_size ht \<noteq> 0"
  by (auto simp: hist_shape_def split: option.splits)

lemma slot_times_in:
  assumes "ts' \<in> set (slot_times sz ts k)" "unat ts + k * unat sz < 2 ^ 64"
  shows "\<exists>j < k. unat ts' = unat ts + j * unat sz"
  using assms
proof (induction k arbitrary: ts)
  case (Suc k)
  have eq: "unat (ts + sz) = unat ts + unat sz"
    using Suc.prems(2) by (simp add: unat_add_lem [THEN iffD1])
  show ?case
  proof (cases "ts' = ts")
    case True
    then show ?thesis by (intro exI [of _ 0]) simp
  next
    case False
    with Suc.prems eq obtain j where "j < k" "unat ts' = unat (ts + sz) + j * unat sz"
      using Suc.IH [of "ts + sz"] by (auto simp: algebra_simps)
    with eq show ?thesis by (intro exI [of _ "Suc j"]) simp
  qed
qed simp

lemma length_slot_times [simp]: "length (slot_times sz ts k) = k"
  by (induction k arbitrary: ts) simp_all

text \<open>
  The premises under which a call is in range: the 64-bit time of the interval does not wrap, and
  the slot numbers of the interval fit an \<open>int\<close>.
\<close>

definition in_range :: "histc \<Rightarrow> u64 \<Rightarrow> u64 \<Rightarrow> bool" where
  "in_range ht st du \<longleftrightarrow>
     unat st + unat du + unat (hc_slot_size ht) < 2 ^ 64 \<and>
     (unat st + unat du) div unat (hc_slot_size ht) < 2 ^ 31 - 1"

definition cover :: "histc \<Rightarrow> u64 \<Rightarrow> nat" where
  "cover ht du = unat du div unat (hc_slot_size ht)
     + (if unat du mod unat (hc_slot_size ht) > 0 then 1 else 0)"

lemma histc_add_rounds:
  assumes shape: "hist_shape ht" and range: "in_range ht st du" and du: "du \<noteq> 0"
  defines "k \<equiv> cover ht du"
  shows "histc_add ht bytes pkts st du = Some (map_sum id (Pair 1)
      (histc_rounds (bytes div of_nat k) (pkts div of_nat k) (slot_times (hc_slot_size ht) st k) ht))"
    and "0 < k" and "k < 2 ^ 31" and "unat st + k * unat (hc_slot_size ht) < 2 ^ 64"
    and "\<forall>ts \<in> set (slot_times (hc_slot_size ht) st k). unat (ts div hc_slot_size ht) < 2 ^ 31"
proof -
  let ?z = "unat (hc_slot_size ht)" and ?d = "unat du"
  have sz: "hc_slot_size ht \<noteq> 0" using shape by (rule hist_shape_size)
  then have z: "0 < ?z" "0 < ?d" using du by (simp_all add: unat_gt_0)
  note k = parts_ceiling [OF z, folded cover_def, folded k_def]
  show "0 < k" by (rule k(1))
  have "?d div ?z \<le> (unat st + ?d) div ?z" by (rule div_le_mono) simp
  then have dz: "?d div ?z < 2 ^ 31 - 1" using range by (simp add: in_range_def)
  then show "k < 2 ^ 31" by (simp add: k_def cover_def)
  show room: "unat st + k * ?z < 2 ^ 64" using k(3) range by (simp add: in_range_def)
  have "unat st + ?d < 2 ^ LENGTH(64)" using range by (simp add: in_range_def)
  then have fin: "unat (st + du) = unat st + ?d" by (simp only: unat_add_lem)
  show small: "\<forall>ts \<in> set (slot_times (hc_slot_size ht) st k). unat (ts div hc_slot_size ht) < 2 ^ 31"
  proof
    fix ts assume "ts \<in> set (slot_times (hc_slot_size ht) st k)"
    from slot_times_in [OF this room] obtain j where "j < k" "unat ts = unat st + j * ?z" by blast
    moreover from \<open>j < k\<close> have "Suc j * ?z \<le> k * ?z" by (intro mult_le_mono1) simp
    ultimately have "unat ts \<le> unat st + ?d" using k(3) by simp
    then have "unat ts div ?z \<le> (unat st + ?d) div ?z" by (rule div_le_mono)
    with range show "unat (ts div hc_slot_size ht) < 2 ^ 31" by (simp add: in_range_def unat_div)
  qed
  have parts: "histc_parts (hc_slot_size ht) du = Inr (int k)"
    using histc_parts_eq [OF sz du dz] by (simp add: k_def cover_def)
  have "(of_nat k :: u64) \<noteq> 0"
    using \<open>0 < k\<close> \<open>k < 2 ^ 31\<close> by (simp add: word_of_nat_eq_0_iff dvd_imp_le nat_dvd_not_less)
  moreover have "histc_loop (bytes div of_nat k) (pkts div of_nat k) (st + du) st ht
      = Some (histc_rounds (bytes div of_nat k) (pkts div of_nat k) (slot_times (hc_slot_size ht) st k) ht)"
    using shape k(2,3) range fin by (intro histc_loop_rounds) (simp_all add: in_range_def)
  ultimately show "histc_add ht bytes pkts st du = Some (map_sum id (Pair 1)
      (histc_rounds (bytes div of_nat k) (pkts div of_nat k) (slot_times (hc_slot_size ht) st k) ht))"
    by (simp add: histc_add_def parts)
qed







section \<open>Properties\<close>



definition blank_hist :: "histc" where
  "blank_hist = \<lparr>hc_num_slots = 0, hc_slot_size = 0, hc_bytes = 0, hc_pkts = 0, hc_time = 0,
     hc_peak_bytes = 0, hc_peak_pkts = 0, hc_slots = None\<rparr>"




text \<open>A flow of duration 0 is counted as one slot when the share is computed, but the loop over
  the slots is never entered: the call returns 1 and records nothing.\<close>

theorem histc_add_instant: "histc_add ht bytes pkts st 0 = Some (Inr (1, ht))"
  by (simp add: histc_add_def histc_parts_def histc_loop.simps)

text \<open>The \<open>time\<close> field is not the time of the last updated slot: every round adds its time to
  the field.\<close>

theorem histc_add_time:
  assumes "hist_shape ht" and "in_range ht st du" and "0 < du"
  shows "\<exists>ht'. histc_add ht bytes pkts st du = Some (Inr (1, ht')) \<and>
    hc_time ht' = hc_time ht + sum_list (slot_times (hc_slot_size ht) st (cover ht du))"
proof -
  from assms(3) have "du \<noteq> 0" by auto
  note r = histc_add_rounds [OF assms(1,2) this]
  from histc_rounds_ok [OF assms(1) r(5), of "bytes div of_nat (cover ht du)" "pkts div of_nat (cover ht du)"]
    r(1) [of bytes pkts] show ?thesis by auto
qed

section \<open>The properties on a concrete ring\<close>

definition sample_hist :: "histc" where
  "sample_hist = blank_hist\<lparr>hc_num_slots := 3, hc_slot_size := 10,
     hc_slots := Some [zero_slot, zero_slot, zero_slot]\<rparr>"

lemma sample_hist_ok: "hist_shape sample_hist" "hist_totals sample_hist" "hist_peaks sample_hist"
  "hist_load v sample_hist = 3 * unat (v zero_slot)" "in_range sample_hist 5 25"
  by (simp_all add: sample_hist_def blank_hist_def hist_inv_defs column_total_def column_load_def
      peak_of_def zero_slot_def in_range_def)





theorem histc_add_time_witness:
  "\<exists>ht'. histc_add sample_hist 100 10 5 25 = Some (Inr (1, ht')) \<and> hc_time ht' = 5 + (15 + 25)"
proof -
  have "slot_times (hc_slot_size sample_hist) 5 (cover sample_hist 25) = [5, 15, 25]"
    by (simp add: cover_def sample_hist_def blank_hist_def numeral_3_eq_3)
  moreover have "hc_time sample_hist = 0" by (simp add: sample_hist_def blank_hist_def)
  ultimately show ?thesis
    using histc_add_time [OF sample_hist_ok(1,5), of 100 10] by simp
qed

end
