(* ===== verification/Nfddos_Types.thy ===== *)
theory Nfddos_Types
  imports Prelude
begin

text \<open>
  The data of \<open>nfddos.h\<close> and \<open>db.h\<close>: counters, profiles, actions, options. A pointer is a natural
  number, a null pointer is \<open>None\<close>, and what a pointer points to is looked up in an explicit heap,
  because the code frees actions and changes profiles through several pointers. Handles of the
  libnf library and of libpq are values of type parameters: \<open>'f\<close> is a compiled flow filter. An open
  output file of libnf is named by its path. The mutexes and threads of \<open>nfd_options_t\<close> are the
  subject of the theory \<open>Threads\<close>, and the aggregation units (\<open>lnf_mem_t\<close>) are touched by
  \<open>profile.c\<close> only, which the repository does not hold.
\<close>

type_synonym ptr = nat

section \<open>Counters\<close>

record nfd_counter =
  c_bytes :: u64
  c_pkts :: u64
  c_flows :: u64

section \<open>Profiles\<close>

record 'f nfd_profile =
  p_id :: string
  p_name :: string
  p_filter_expr :: string
  p_dynamic_fields_expr :: string
  p_filter :: "'f option"
  p_counters :: nfd_counter
  p_limits :: nfd_counter
  p_dynamic_fields :: "int list"
  p_next :: "ptr option"
  p_parent :: "ptr option"

record nfd_dyn_profile =
  dp_key :: string
  dp_filter_expr :: string

type_synonym 'f pheap = "ptr \<Rightarrow> 'f nfd_profile option"

section \<open>Actions\<close>

record 'f nfd_action =
  a_name :: string
  a_id :: int
  a_action_dir :: string
  a_filter_expr :: string
  a_counters :: nfd_counter
  a_dynamic :: int
  a_dp :: nfd_dyn_profile
  a_filter :: "'f option"
  a_file :: "string option"
  a_tm_updated :: int
  a_tm_start :: int

record nfd_actions =
  act_max :: int
  act_slots :: "ptr option list"

datatype nfd_action_cmd = NFD_ACTION_START | NFD_ACTION_STOP | NFD_ACTION_STATUS

section \<open>The database handle\<close>

datatype nfd_db_type = NFD_DB_PGSQL

record 'k nfd_db =
  db_type :: nfd_db_type
  db_conn :: "'k option"
  db_ins_name :: string
  db_upd_name :: string
  db_inserted :: int
  db_updated :: int

section \<open>Options\<close>

record 'f nfd_options =
  o_debug :: int
  o_debug_fromarg :: int
  o_foreground :: int
  o_export_min_pps :: int
  o_export_interval :: int
  o_window_size :: int
  o_last_window_size :: int
  o_filter :: "'f option"
  o_stop_delay :: int
  o_db_profiles :: int
  o_config_file :: string
  o_pid_file :: string
  o_pid_file_fromarg :: int
  o_status_file :: string
  o_queue_dir :: string
  o_queue_num :: int
  o_queue_backtrack :: int
  o_queue_file :: "string option"
  o_shm :: string
  o_exec_start :: string
  o_exec_stop :: string
  o_exec_status :: string
  o_action_dir :: string
  o_db_type :: nfd_db_type
  o_db_connstr :: string
  o_max_actions :: int
  o_actions :: nfd_actions
  o_root_profile :: "ptr option"

definition zero_counter :: nfd_counter where
  "zero_counter = \<lparr>c_bytes = 0, c_pkts = 0, c_flows = 0\<rparr>"

definition empty_dyn :: nfd_dyn_profile where
  "empty_dyn = \<lparr>dp_key = '''', dp_filter_expr = ''''\<rparr>"

text \<open>What \<open>calloc\<close> gives for one action.\<close>

definition zero_action :: "'f nfd_action" where
  "zero_action = \<lparr>a_name = '''', a_id = 0, a_action_dir = '''', a_filter_expr = '''',
     a_counters = zero_counter, a_dynamic = 0, a_dp = empty_dyn, a_filter = None, a_file = None,
     a_tm_updated = 0, a_tm_start = 0\<rparr>"

text \<open>The options as \<open>main\<close> initialises them, before the command line and the file are read.\<close>

definition default_options :: "'f nfd_options" where
  "default_options = \<lparr>o_debug = 0, o_debug_fromarg = 0, o_foreground = 0, o_export_min_pps = 1,
     o_export_interval = 10, o_window_size = 60, o_last_window_size = 0, o_filter = None,
     o_stop_delay = 90, o_db_profiles = 0, o_config_file = ''./nfddos.conf'',
     o_pid_file = ''/var/run/nfddos.pid'', o_pid_file_fromarg = 0,
     o_status_file = ''./nfddos.status'', o_queue_dir = ''./nfddos-queue/'', o_queue_num = 10,
     o_queue_backtrack = 1, o_queue_file = None, o_shm = ''libnf-shm'',
     o_exec_start = ''./nfddos-start.sh'', o_exec_stop = ''./nfddos-stop.sh'',
     o_exec_status = ''./nfddos-status.sh'', o_action_dir = ''./actions/'',
     o_db_type = NFD_DB_PGSQL, o_db_connstr = ''dbname=nfddos user=nfddos'',
     o_max_actions = 512, o_actions = \<lparr>act_max = 0, act_slots = []\<rparr>, o_root_profile = None\<rparr>"

section \<open>The functions of profile.c\<close>

text \<open>
  The operations on profiles that \<open>nfddos.h\<close> declares and \<open>profile.c\<close>, which is not part of the
  repository, defines: a new profile (\<open>None\<close> when there is no memory), setting the filter and the
  dynamic fields of a profile (with the result the function reports), and adding a profile to the
  list that a root pointer names.
\<close>

record 'f prof_env =
  prof_new :: "string option \<Rightarrow> 'f pheap \<Rightarrow> ptr option \<times> 'f pheap"
  prof_set_filter :: "ptr \<Rightarrow> string \<Rightarrow> 'f pheap \<Rightarrow> int \<times> 'f pheap"
  prof_set_dynamic :: "ptr \<Rightarrow> string \<Rightarrow> 'f pheap \<Rightarrow> int \<times> 'f pheap"
  prof_add :: "ptr option \<Rightarrow> ptr \<Rightarrow> 'f pheap \<Rightarrow> int \<times> ptr option \<times> 'f pheap"

text \<open>A store through a pointer to a profile.\<close>

definition prof_write :: "ptr \<Rightarrow> ('f nfd_profile \<Rightarrow> 'f nfd_profile) \<Rightarrow> 'f pheap \<Rightarrow> 'f pheap res" where
  "prof_write p f h = (case h p of None \<Rightarrow> Inl UseAfterFree | Some pr \<Rightarrow> Inr (h(p := Some (f pr))))"

lemma prof_write_live [simp]: "h p = Some pr \<Longrightarrow> prof_write p f h = Inr (h(p := Some (f pr)))"
  by (simp add: prof_write_def)

text \<open>
  What the callers rely on: a new profile is a fresh block without id and limits, the setters
  change neither the name, the id nor the limits of the profile they are given and no other profile,
  and adding a profile to a list changes links only.
\<close>

definition prof_frame :: "ptr \<Rightarrow> 'f pheap \<Rightarrow> 'f pheap \<Rightarrow> bool" where
  "prof_frame p h h' \<longleftrightarrow> dom h' = dom h \<and> (\<forall>q. q \<noteq> p \<longrightarrow> h' q = h q) \<and>
     (\<forall>pr. h p = Some pr \<longrightarrow> (\<exists>pr'. h' p = Some pr' \<and> p_id pr' = p_id pr \<and> p_limits pr' = p_limits pr \<and>
        p_name pr' = p_name pr))"

definition prof_keep :: "'f pheap \<Rightarrow> 'f pheap \<Rightarrow> bool" where
  "prof_keep h h' \<longleftrightarrow> (\<forall>q pr. h q = Some pr \<longrightarrow>
     (\<exists>pr'. h' q = Some pr' \<and> p_id pr' = p_id pr \<and> p_limits pr' = p_limits pr \<and> p_name pr' = p_name pr))"

definition prof_new_law :: "'f prof_env \<Rightarrow> bool" where
  "prof_new_law P \<longleftrightarrow> (\<forall>name h p h'. prof_new P name h = (Some p, h') \<longrightarrow>
     h p = None \<and> (\<forall>q. q \<noteq> p \<longrightarrow> h' q = h q) \<and>
     (\<exists>pr. h' p = Some pr \<and> p_id pr = [] \<and> p_limits pr = zero_counter))"

definition prof_setter_law :: "(ptr \<Rightarrow> string \<Rightarrow> 'f pheap \<Rightarrow> int \<times> 'f pheap) \<Rightarrow> bool" where
  "prof_setter_law setter \<longleftrightarrow> (\<forall>p s h r h'. setter p s h = (r, h') \<longrightarrow> prof_frame p h h')"

definition prof_add_law :: "'f prof_env \<Rightarrow> bool" where
  "prof_add_law P \<longleftrightarrow> (\<forall>root p h r root' h'. prof_add P root p h = (r, root', h') \<longrightarrow>
     prof_keep h h' \<and> dom h' = dom h)"

definition prof_laws :: "'f prof_env \<Rightarrow> bool" where
  "prof_laws P \<longleftrightarrow> prof_new_law P \<and> prof_setter_law (prof_set_filter P) \<and>
     prof_setter_law (prof_set_dynamic P) \<and> prof_add_law P"

lemma prof_new_lawD:
  assumes "prof_laws P" "prof_new P name h = (Some p, h')"
  shows "h p = None" "q \<noteq> p \<Longrightarrow> h' q = h q"
    "\<exists>pr. h' p = Some pr \<and> p_id pr = [] \<and> p_limits pr = zero_counter"
proof -
  from assms(1) have "prof_new_law P" by (simp add: prof_laws_def)
  from this [unfolded prof_new_law_def, rule_format, OF assms(2)]
  show "h p = None" "q \<noteq> p \<Longrightarrow> h' q = h q"
    "\<exists>pr. h' p = Some pr \<and> p_id pr = [] \<and> p_limits pr = zero_counter" by blast+
qed

lemma prof_setter_lawD: "prof_setter_law setter \<Longrightarrow> setter p s h = (r, h') \<Longrightarrow> prof_frame p h h'"
  unfolding prof_setter_law_def by blast

lemma prof_add_lawD: "prof_laws P \<Longrightarrow> prof_add P root p h = (r, root', h') \<Longrightarrow> prof_keep h h' \<and> dom h' = dom h"
  unfolding prof_laws_def prof_add_law_def by blast

lemma prof_keep_new: "prof_laws P \<Longrightarrow> prof_new P name h = (Some p, h') \<Longrightarrow> prof_keep h h'"
  unfolding prof_keep_def by (metis option.distinct(1) prof_new_lawD(1,2))

text \<open>There is memory for another profile as long as finitely many blocks are in use.\<close>

definition prof_room :: "'f prof_env \<Rightarrow> bool" where
  "prof_room P \<longleftrightarrow> (\<forall>name h. finite (dom h) \<longrightarrow> (\<exists>p h'. prof_new P name h = (Some p, h')))"

lemma prof_new_dom: "prof_laws P \<Longrightarrow> prof_new P name h = (Some p, h') \<Longrightarrow> dom h' = insert p (dom h)"
  using prof_new_lawD [of P name h p h'] by (auto simp: dom_def) metis+

lemma prof_keepD: "prof_keep h h' \<Longrightarrow> h q = Some pr \<Longrightarrow>
    \<exists>pr'. h' q = Some pr' \<and> p_id pr' = p_id pr \<and> p_limits pr' = p_limits pr \<and> p_name pr' = p_name pr"
  unfolding prof_keep_def by blast

lemma prof_keep_refl: "prof_keep h h"
  by (simp add: prof_keep_def)

lemma prof_keep_trans: "prof_keep h1 h2 \<Longrightarrow> prof_keep h2 h3 \<Longrightarrow> prof_keep h1 h3"
  unfolding prof_keep_def by metis

lemma prof_frame_keep: "prof_frame p h h' \<Longrightarrow> prof_keep h h'"
  unfolding prof_frame_def prof_keep_def by metis

lemma default_options_simps [simp]:
  "o_queue_dir default_options = ''./nfddos-queue/''"
  "o_queue_num default_options = 10"
  "o_queue_backtrack default_options = 1"
  "o_window_size default_options = 60"
  "o_stop_delay default_options = 90"
  "o_max_actions default_options = 512"
  "o_exec_start default_options = ''./nfddos-start.sh''"
  "o_exec_stop default_options = ''./nfddos-stop.sh''"
  "o_root_profile default_options = None"
  "o_filter default_options = None"
  by (simp_all add: default_options_def)

text \<open>A library of profiles that keeps these laws: the smallest block number above all in use is new.\<close>

definition sample_prof_env :: "'f prof_env" where
  "sample_prof_env = \<lparr>
     prof_new = (\<lambda>name h. let p = Suc (Max (insert 0 (dom h))) in
       (if finite (dom h) then Some p else None,
        if finite (dom h)
        then h(p := Some \<lparr>p_id = [], p_name = (case name of None \<Rightarrow> [] | Some s \<Rightarrow> s), p_filter_expr = [],
               p_dynamic_fields_expr = [], p_filter = None, p_counters = zero_counter,
               p_limits = zero_counter, p_dynamic_fields = [], p_next = None, p_parent = None\<rparr>)
        else h)),
     prof_set_filter = (\<lambda>p s h. (1, h(p := map_option (p_filter_expr_update (\<lambda>_. s)) (h p)))),
     prof_set_dynamic = (\<lambda>p s h. (1, h(p := map_option (p_dynamic_fields_expr_update (\<lambda>_. s)) (h p)))),
     prof_add = (\<lambda>root p h. (1, Some p, h(p := map_option (p_next_update (\<lambda>_. root)) (h p))))\<rparr>"

lemma sample_prof_fresh: "finite (dom h) \<Longrightarrow> h (Suc (Max (insert 0 (dom h)))) = None"
proof (rule ccontr)
  assume fin: "finite (dom h)" and "h (Suc (Max (insert 0 (dom h)))) \<noteq> None"
  then have "Suc (Max (insert 0 (dom h))) \<in> insert 0 (dom h)" by auto
  from Max_ge [OF _ this] fin show False by simp
qed

lemma sample_prof_laws: "prof_laws sample_prof_env" "prof_room sample_prof_env"
proof -
  have "prof_new_law sample_prof_env"
    by (auto simp: prof_new_law_def sample_prof_env_def Let_def sample_prof_fresh split: if_splits)
  moreover have "prof_setter_law (prof_set_filter sample_prof_env)"
    "prof_setter_law (prof_set_dynamic sample_prof_env)" "prof_add_law sample_prof_env"
    by (auto simp: prof_setter_law_def prof_add_law_def prof_frame_def prof_keep_def sample_prof_env_def dom_def
        split: if_splits)
  ultimately show "prof_laws sample_prof_env" by (simp add: prof_laws_def)
  show "prof_room sample_prof_env" by (simp add: prof_room_def sample_prof_env_def Let_def)
qed

end
