(* ===== verification/Queue.thy ===== *)
theory Queue
  imports Nfddos_Types
begin

text \<open>
  The queue of flow files of \<open>queue.c\<close>: the files \<open>dir/000\<close>, \<open>dir/001\<close>, \dots hold the flows of the
  current time window and of the windows before it. A file system maps paths to file contents; the
  contents and their reading and writing belong to libnf and are parameters. \<open>nfd_queue_shift\<close> is
  shown to move every window one file up, and \<open>nfd_queue_add_flow\<close> to copy the matching flows of
  the last closed windows, oldest first.
\<close>

section \<open>Files\<close>

type_synonym 'c files = "string \<Rightarrow> 'c option"

text \<open>
  What the queue uses of libnf: the content of a file just opened for writing, whether a path can
  be opened for writing, the records that successive reads of a content give (\<open>None\<close> when it cannot
  be opened for reading), the content after a write, and whether a filter matches a record.
\<close>

record ('c, 'r, 'f) libnf =
  lnf_new :: 'c
  lnf_open_write :: "string \<Rightarrow> bool"
  lnf_records :: "'c \<Rightarrow> 'r list option"
  lnf_write :: "'c \<Rightarrow> 'r \<Rightarrow> 'c"
  lnf_filter_match :: "'f \<Rightarrow> 'r \<Rightarrow> bool"
  lnf_filter_init :: "string \<Rightarrow> 'f option"
  lnf_rec_init :: bool

text \<open>\<open>rename\<close> fails and changes nothing when the old path does not exist.\<close>

definition c_rename :: "string \<Rightarrow> string \<Rightarrow> 'c files \<Rightarrow> 'c files" where
  "c_rename old new fs =
     (case fs old of
        None \<Rightarrow> fs
      | Some c \<Rightarrow> if old = new then fs else fs(old := None, new := Some c))"

section \<open>Operations\<close>

definition queue_file_name :: "string \<Rightarrow> int \<Rightarrow> string" where
  "queue_file_name dir i = c_snprintf MAX_STRING (path_join dir (fmt_03d i))"

text \<open>The loop \<open>for (i = opt->queue_num; i > 0; i--)\<close> that rotates the files.\<close>

fun queue_rotate :: "string \<Rightarrow> nat \<Rightarrow> 'c files \<Rightarrow> 'c files" where
  "queue_rotate dir 0 fs = fs"
| "queue_rotate dir (Suc i) fs =
     queue_rotate dir i
       (c_rename (queue_file_name dir (int (Suc i) - 1)) (queue_file_name dir (int (Suc i))) fs)"

definition nfd_queue_shift ::
  "('c, 'r, 'f) libnf \<Rightarrow> 'g nfd_options \<Rightarrow> 'c files \<Rightarrow> int \<times> 'g nfd_options \<times> 'c files" where
  "nfd_queue_shift L opt fs =
     (let fs1 = queue_rotate (o_queue_dir opt) (nat (o_queue_num opt)) fs;
          buf = queue_file_name (o_queue_dir opt) 0
      in if lnf_open_write L buf
         then (1, opt\<lparr>o_queue_file := Some buf\<rparr>, fs1(buf := Some (lnf_new L)))
         else (0, opt\<lparr>o_queue_file := None\<rparr>, fs1))"

text \<open>The loop over the records of one file, and the loop over the files.\<close>

fun copy_records :: "('c, 'r, 'f) libnf \<Rightarrow> 'f option \<Rightarrow> 'r list \<Rightarrow> 'c \<Rightarrow> 'c" where
  "copy_records L filt [] out = out"
| "copy_records L filt (r # rs) out =
     copy_records L filt rs
       (if (case filt of None \<Rightarrow> True | Some f \<Rightarrow> lnf_filter_match L f r)
        then lnf_write L out r else out)"

fun queue_copy :: "('c, 'r, 'f) libnf \<Rightarrow> string \<Rightarrow> 'f option \<Rightarrow> nat \<Rightarrow> string \<Rightarrow> 'c files \<Rightarrow> 'c files" where
  "queue_copy L dir filt 0 output fs = fs"
| "queue_copy L dir filt (Suc i) output fs =
     queue_copy L dir filt i output
       (case Option.bind (fs (queue_file_name dir (int (Suc i)))) (lnf_records L) of
          None \<Rightarrow> fs
        | Some rs \<Rightarrow> fs(output := map_option (copy_records L filt rs) (fs output)))"

definition nfd_queue_add_flow ::
  "('c, 'r, 'f) libnf \<Rightarrow> 'g nfd_options \<Rightarrow> string \<Rightarrow> 'f option \<Rightarrow> int \<Rightarrow> 'c files \<Rightarrow> int \<times> 'c files" where
  "nfd_queue_add_flow L opt output filt backtrack fs =
     (let b = (if backtrack > o_queue_num opt then o_queue_num opt else backtrack) in
      if \<not> lnf_rec_init L then (0, fs)
      else (1, queue_copy L (o_queue_dir opt) filt (nat b) output fs))"

section \<open>File names\<close>

text \<open>
  A directory whose name leaves room for the slash and the number gives every file of the queue a
  name of its own.
\<close>

definition dir_fits :: "string \<Rightarrow> bool" where
  "dir_fits dir \<longleftrightarrow> length dir + 12 \<le> MAX_STRING"

lemma queue_file_name_fits:
  "dir_fits dir \<Longrightarrow> 0 \<le> i \<Longrightarrow> i < 10 ^ 10 \<Longrightarrow> queue_file_name dir i = path_join dir (fmt_03d i)"
  using length_fmt_03d [of i]
  by (simp add: queue_file_name_def c_snprintf_fits dir_fits_def path_join_def MAX_STRING_def)

lemma queue_file_name_eq_iff:
  assumes "dir_fits dir" "0 \<le> i" "i < 10 ^ 10" "0 \<le> j" "j < 10 ^ 10"
  shows "queue_file_name dir i = queue_file_name dir j \<longleftrightarrow> i = j"
  using assms by (simp add: queue_file_name_fits fmt_03d_inj)

section \<open>What a rotation does\<close>

text \<open>
  The specification speaks of windows: window \<open>i\<close> is the content of file \<open>i\<close>. A rotation of depth
  \<open>n\<close> moves window \<open>i - 1\<close> to \<open>i\<close>. The file of the last window stays when there is nothing to
  replace it.
\<close>

definition window :: "string \<Rightarrow> 'c files \<Rightarrow> nat \<Rightarrow> 'c option" where
  "window dir fs i = fs (queue_file_name dir (int i))"

definition rotate_spec :: "nat \<Rightarrow> (nat \<Rightarrow> 'c option) \<Rightarrow> nat \<Rightarrow> 'c option" where
  "rotate_spec n q i =
     (if n = 0 \<or> n < i then q i
      else if i = 0 then None
      else case q (i - 1) of Some c \<Rightarrow> Some c | None \<Rightarrow> (if i = n then q n else None))"

lemma window_rename:
  assumes "dir_fits dir" "Suc i < 10 ^ 10" "j < 10 ^ 10"
  shows "window dir (c_rename (queue_file_name dir (int i)) (queue_file_name dir (int (Suc i))) fs) j =
    (case window dir fs i of
       None \<Rightarrow> window dir fs j
     | Some c \<Rightarrow> if j = i then None else if j = Suc i then Some c else window dir fs j)"
proof -
  have small: "int k < 10 ^ 10 \<longleftrightarrow> k < 10 ^ 10" for k
    by (metis of_nat_less_iff of_nat_numeral of_nat_power)
  show ?thesis
    using assms queue_file_name_eq_iff [OF assms(1)] small
    by (auto simp: c_rename_def window_def split: option.splits)
qed

lemma queue_rotate_window:
  assumes "dir_fits dir" "n < 10 ^ 10" "j < 10 ^ 10"
  shows "window dir (queue_rotate dir n fs) j = rotate_spec n (window dir fs) j"
  using assms
proof (induction n arbitrary: fs)
  case 0
  then show ?case by (simp add: rotate_spec_def)
next
  case (Suc n)
  let ?fs = "c_rename (queue_file_name dir (int n)) (queue_file_name dir (int (Suc n))) fs"
  have w: "window dir ?fs k = (case window dir fs n of
       None \<Rightarrow> window dir fs k
     | Some c \<Rightarrow> if k = n then None else if k = Suc n then Some c else window dir fs k)"
    if "k < 10 ^ 10" for k
    using window_rename [OF Suc.prems(1,2) that] .
  have "window dir (queue_rotate dir (Suc n) fs) j = rotate_spec n (window dir ?fs) j"
    using Suc.IH [of ?fs] Suc.prems by simp
  also have "\<dots> = rotate_spec (Suc n) (window dir fs) j"
    using Suc.prems w [of j] w [of n] w [of "j - 1"]
    by (auto simp: rotate_spec_def split: option.splits)
  finally show ?case .
qed

lemma rotate_other:
  assumes "\<forall>i \<le> n. p \<noteq> queue_file_name dir (int i)"
  shows "queue_rotate dir n fs p = fs p"
  using assms
proof (induction n arbitrary: fs)
  case (Suc n)
  have "p \<noteq> queue_file_name dir (int n)" "p \<noteq> queue_file_name dir (int (Suc n))"
    using Suc.prems by auto
  then have "c_rename (queue_file_name dir (int n)) (queue_file_name dir (int (Suc n))) fs p = fs p"
    by (auto simp: c_rename_def split: option.splits)
  moreover have "\<forall>i \<le> n. p \<noteq> queue_file_name dir (int i)" using Suc.prems by auto
  ultimately show ?case using Suc.IH by simp
qed simp

section \<open>A queue of windows\<close>

text \<open>
  The read loop of \<open>nfddos.c\<close> stores every flow in the open queue file, if there is one.
\<close>

definition queue_store :: "('c, 'r, 'f) libnf \<Rightarrow> 'g nfd_options \<Rightarrow> 'r \<Rightarrow> 'c files \<Rightarrow> 'c files" where
  "queue_store L opt r fs =
     (case o_queue_file opt of
        None \<Rightarrow> fs
      | Some p \<Rightarrow> fs(p := map_option (\<lambda>c. lnf_write L c r) (fs p)))"

text \<open>
  The interface of the queue: a flow is put into the current window, a shift opens a new window
  and keeps the closed ones up to a depth. The client lemma reads any run of the two operations as
  a run on a list of windows, the current one first.
\<close>

datatype 'r queue_event = Put 'r | Shift

fun windows_step :: "'r list list \<Rightarrow> 'r queue_event \<Rightarrow> 'r list list" where
  "windows_step ws (Put r) = (case ws of [] \<Rightarrow> [] | w # ws' \<Rightarrow> (w @ [r]) # ws')"
| "windows_step ws Shift = [] # ws"

definition windows_run :: "'r list list \<Rightarrow> 'r queue_event list \<Rightarrow> 'r list list" where
  "windows_run = foldl windows_step"

fun exec_event :: "('r \<Rightarrow> 's \<Rightarrow> 's) \<Rightarrow> ('s \<Rightarrow> 's) \<Rightarrow> 's \<Rightarrow> 'r queue_event \<Rightarrow> 's" where
  "exec_event put shift s (Put r) = put r s"
| "exec_event put shift s Shift = shift s"

definition holds_windows :: "('s \<Rightarrow> nat \<Rightarrow> 'r list option) \<Rightarrow> nat \<Rightarrow> 's \<Rightarrow> 'r list list \<Rightarrow> bool" where
  "holds_windows win depth s ws \<longleftrightarrow>
     ws \<noteq> [] \<and> (\<forall>i < length ws. i \<le> depth \<longrightarrow> win s i = Some (ws ! i))"

locale flow_queue =
  fixes put :: "'r \<Rightarrow> 's \<Rightarrow> 's"
    and shift :: "'s \<Rightarrow> 's"
    and win :: "'s \<Rightarrow> nat \<Rightarrow> 'r list option"
    and depth :: nat
    and ok :: "'s \<Rightarrow> bool"
  assumes ok_put: "ok s \<Longrightarrow> ok (put r s)"
    and ok_shift: "ok s \<Longrightarrow> ok (shift s)"
    and win_shift_0: "ok s \<Longrightarrow> win (shift s) 0 = Some []"
    and win_shift: "ok s \<Longrightarrow> i < depth \<Longrightarrow> win s i = Some rs \<Longrightarrow> win (shift s) (Suc i) = Some rs"
    and win_put_0: "ok s \<Longrightarrow> win s 0 = Some rs \<Longrightarrow> win (put r s) 0 = Some (rs @ [r])"
    and win_put: "ok s \<Longrightarrow> 0 < i \<Longrightarrow> i \<le> depth \<Longrightarrow> win (put r s) i = win s i"
begin

lemma ok_event: "ok s \<Longrightarrow> ok (exec_event put shift s e)"
  by (cases e) (simp_all add: ok_put ok_shift)

lemma holds_event:
  assumes "ok s" "holds_windows win depth s ws"
  shows "holds_windows win depth (exec_event put shift s e) (windows_step ws e)"
proof (cases e)
  case (Put r)
  from assms(2) obtain w ws' where ws: "ws = w # ws'" by (cases ws) (auto simp: holds_windows_def)
  with Put ws show ?thesis
    using assms win_put_0 [OF assms(1)] win_put [OF assms(1)]
    by (auto simp: holds_windows_def nth_Cons split: nat.splits)
next
  case Shift
  then show ?thesis
    using assms win_shift_0 [OF assms(1)] win_shift [OF assms(1)]
    by (auto simp: holds_windows_def nth_Cons split: nat.splits)
qed

lemma run_holds:
  "ok s \<Longrightarrow> holds_windows win depth s ws \<Longrightarrow>
    holds_windows win depth (foldl (exec_event put shift) s es) (windows_run ws es)"
  unfolding windows_run_def
proof (induction es arbitrary: s ws)
  case (Cons e es)
  then show ?case using holds_event ok_event by simp
qed simp

end

section \<open>The queue of the code is such a queue\<close>

definition libnf_laws :: "('c, 'r, 'f) libnf \<Rightarrow> bool" where
  "libnf_laws L \<longleftrightarrow> lnf_records L (lnf_new L) = Some [] \<and>
     (\<forall>c rs r. lnf_records L c = Some rs \<longrightarrow> lnf_records L (lnf_write L c r) = Some (rs @ [r]))"

definition queue_win :: "('c, 'r, 'f) libnf \<Rightarrow> string \<Rightarrow> 'c files \<Rightarrow> nat \<Rightarrow> 'r list option" where
  "queue_win L dir fs i = Option.bind (window dir fs i) (lnf_records L)"

definition queue_ok ::
  "('c, 'r, 'f) libnf \<Rightarrow> string \<Rightarrow> nat \<Rightarrow> 'g nfd_options \<times> 'c files \<Rightarrow> bool" where
  "queue_ok L dir n s \<longleftrightarrow> libnf_laws L \<and> dir_fits dir \<and> n < 2 ^ 31 \<and>
     lnf_open_write L (queue_file_name dir 0) \<and>
     o_queue_dir (fst s) = dir \<and> o_queue_num (fst s) = int n \<and>
     o_queue_file (fst s) = Some (queue_file_name dir 0)"

definition shift_state ::
  "('c, 'r, 'f) libnf \<Rightarrow> 'g nfd_options \<times> 'c files \<Rightarrow> 'g nfd_options \<times> 'c files" where
  "shift_state L s = snd (nfd_queue_shift L (fst s) (snd s))"

definition store_state ::
  "('c, 'r, 'f) libnf \<Rightarrow> 'r \<Rightarrow> 'g nfd_options \<times> 'c files \<Rightarrow> 'g nfd_options \<times> 'c files" where
  "store_state L r s = (fst s, queue_store L (fst s) r (snd s))"

definition state_win ::
  "('c, 'r, 'f) libnf \<Rightarrow> string \<Rightarrow> 'g nfd_options \<times> 'c files \<Rightarrow> nat \<Rightarrow> 'r list option" where
  "state_win L dir s = queue_win L dir (snd s)"

lemma nfd_queue_shift_window:
  assumes "dir_fits (o_queue_dir opt)" "nat (o_queue_num opt) < 10 ^ 10" "j < 10 ^ 10"
    and "nfd_queue_shift L opt fs = (ret, opt', fs')"
  shows "window (o_queue_dir opt) fs' j =
    (if j = 0 \<and> ret = 1 then Some (lnf_new L)
     else rotate_spec (nat (o_queue_num opt)) (window (o_queue_dir opt) fs) j)"
proof -
  have "int j < 10 ^ 10" using assms(3) by (metis of_nat_less_iff of_nat_numeral of_nat_power)
  then have "queue_file_name (o_queue_dir opt) (int j) = queue_file_name (o_queue_dir opt) 0 \<longleftrightarrow> j = 0"
    using queue_file_name_eq_iff [OF assms(1), of "int j" 0] by simp
  moreover note queue_rotate_window [OF assms(1-3), of fs]
  ultimately show ?thesis
    using assms(4) by (auto simp: nfd_queue_shift_def Let_def window_def split: if_splits)
qed

lemma window_store:
  assumes "queue_ok L dir n s" "j < 10 ^ 10"
  shows "window dir (snd (store_state L r s)) j =
    (if j = 0 then map_option (\<lambda>c. lnf_write L c r) (window dir (snd s) 0) else window dir (snd s) j)"
proof -
  have "int j < 10 ^ 10" using assms(2) by (metis of_nat_less_iff of_nat_numeral of_nat_power)
  then have "queue_file_name dir (int j) = queue_file_name dir 0 \<longleftrightarrow> j = 0"
    using queue_file_name_eq_iff [of dir "int j" 0] assms(1) by (simp add: queue_ok_def)
  then show ?thesis
    using assms(1) by (auto simp: store_state_def queue_store_def window_def queue_ok_def)
qed

interpretation nfd_queue: flow_queue "store_state L" "shift_state L" "state_win L dir" n "queue_ok L dir n"
  for L :: "('c, 'r, 'f) libnf" and dir :: string and n :: nat
proof (unfold_locales, goal_cases)
  case (1 s r)
  then show ?case by (simp add: queue_ok_def store_state_def)
next
  case (2 s)
  then show ?case by (simp add: queue_ok_def shift_state_def nfd_queue_shift_def Let_def)
next
  case (3 s)
  then show ?case
    by (simp add: queue_ok_def shift_state_def nfd_queue_shift_def Let_def state_win_def queue_win_def
        window_def libnf_laws_def)
next
  case (4 s i rs)
  obtain ret opt' fs' where sh: "nfd_queue_shift L (fst s) (snd s) = (ret, opt', fs')"
    by (cases "nfd_queue_shift L (fst s) (snd s)") auto
  have "window dir fs' (Suc i) = window dir (snd s) i"
    using 4 nfd_queue_shift_window [OF _ _ _ sh, of "Suc i"]
    by (auto simp: queue_ok_def rotate_spec_def state_win_def queue_win_def split: option.splits)
  with 4 sh show ?case by (simp add: shift_state_def state_win_def queue_win_def)
next
  case (5 s rs r)
  then show ?case
    using window_store [OF 5(1), of 0 r]
    by (auto simp: state_win_def queue_win_def queue_ok_def libnf_laws_def bind_eq_Some_conv)
next
  case (6 s i r)
  then have "i < 10 ^ 10" by (simp add: queue_ok_def)
  with 6 window_store [OF 6(1), of i r] show ?case
    by (simp add: state_win_def queue_win_def)
qed

section \<open>What is copied into an action\<close>

lemma copy_records_spec:
  assumes "libnf_laws L" "lnf_records L out = Some os"
  shows "lnf_records L (copy_records L filt rs out) =
    Some (os @ filter (\<lambda>r. case filt of None \<Rightarrow> True | Some f \<Rightarrow> lnf_filter_match L f r) rs)"
  using assms(2)
proof (induction rs arbitrary: out os)
  case (Cons r rs)
  then show ?case using assms(1) by (simp add: libnf_laws_def)
qed simp

definition closed_windows :: "('c, 'r, 'f) libnf \<Rightarrow> string \<Rightarrow> 'c files \<Rightarrow> nat \<Rightarrow> 'r list" where
  "closed_windows L dir fs b =
     concat (map (\<lambda>i. case queue_win L dir fs i of None \<Rightarrow> [] | Some rs \<Rightarrow> rs) (rev [1..<Suc b]))"

lemma closed_windows_Suc:
  "closed_windows L dir fs (Suc b) =
     (case queue_win L dir fs (Suc b) of None \<Rightarrow> [] | Some rs \<Rightarrow> rs) @ closed_windows L dir fs b"
  by (simp add: closed_windows_def)

lemma queue_copy_spec:
  assumes "libnf_laws L" "fs output = Some out" "lnf_records L out = Some os"
    and "\<forall>i. 0 < i \<and> i \<le> b \<longrightarrow> output \<noteq> queue_file_name dir (int i)"
  shows "\<exists>out'. queue_copy L dir filt b output fs = fs(output := Some out') \<and>
    lnf_records L out' = Some (os @ filter (\<lambda>r. case filt of None \<Rightarrow> True | Some f \<Rightarrow> lnf_filter_match L f r)
      (closed_windows L dir fs b))"
  using assms(2-4)
proof (induction b arbitrary: fs out os)
  case 0
  then show ?case by (intro exI [of _ out]) (auto simp: closed_windows_def)
next
  case (Suc b)
  have keep: "closed_windows L dir (fs(output := x)) b = closed_windows L dir fs b" for x
  proof -
    have "queue_win L dir (fs(output := x)) i = queue_win L dir fs i" if "i \<in> set (rev [1..<Suc b])" for i
    proof -
      from that have "0 < i \<and> i \<le> Suc b" by auto
      with Suc.prems(3) have "output \<noteq> queue_file_name dir (int i)" by blast
      then show ?thesis by (simp add: queue_win_def window_def)
    qed
    then show ?thesis
      unfolding closed_windows_def by (intro arg_cong [of _ _ concat] map_cong) simp_all
  qed
  show ?case
  proof (cases "queue_win L dir fs (Suc b)")
    case None
    then show ?thesis
      using Suc.IH [of fs, OF Suc.prems(1,2)] Suc.prems(3)
      by (simp add: closed_windows_Suc) (simp add: queue_win_def window_def)
  next
    case (Some rs)
    let ?out = "copy_records L filt rs out"
    have "queue_copy L dir filt (Suc b) output fs = queue_copy L dir filt b output (fs(output := Some ?out))"
      using Some Suc.prems(1) by (simp add: queue_win_def window_def)
    moreover have "\<exists>out'. queue_copy L dir filt b output (fs(output := Some ?out)) =
        fs(output := Some ?out, output := Some out') \<and>
      lnf_records L out' = Some ((os @ filter (\<lambda>r. case filt of None \<Rightarrow> True | Some f \<Rightarrow> lnf_filter_match L f r) rs)
        @ filter (\<lambda>r. case filt of None \<Rightarrow> True | Some f \<Rightarrow> lnf_filter_match L f r)
            (closed_windows L dir (fs(output := Some ?out)) b))"
      using Suc.prems(3) copy_records_spec [OF assms(1) Suc.prems(2), of filt rs]
      by (intro Suc.IH) simp_all
    ultimately show ?thesis
      using Some by (simp only: keep fun_upd_upd closed_windows_Suc option.case filter_append append_assoc)
  qed
qed

lemma add_flow_closed:
  assumes "libnf_laws L" "lnf_rec_init L" "fs output = Some out" "lnf_records L out = Some os"
    and "\<forall>i. 0 < i \<and> i \<le> nat (min backtrack (o_queue_num opt)) \<longrightarrow>
      output \<noteq> queue_file_name (o_queue_dir opt) (int i)"
  shows "\<exists>out'. nfd_queue_add_flow L opt output filt backtrack fs = (1, fs(output := Some out')) \<and>
    lnf_records L out' = Some (os @
      filter (\<lambda>r. case filt of None \<Rightarrow> True | Some f \<Rightarrow> lnf_filter_match L f r)
        (closed_windows L (o_queue_dir opt) fs (nat (min backtrack (o_queue_num opt)))))"
proof -
  have "(if backtrack > o_queue_num opt then o_queue_num opt else backtrack) = min backtrack (o_queue_num opt)"
    by (simp add: min_def)
  moreover have "\<exists>out'. queue_copy L (o_queue_dir opt) filt (nat (min backtrack (o_queue_num opt))) output fs
      = fs(output := Some out') \<and>
    lnf_records L out' = Some (os @
      filter (\<lambda>r. case filt of None \<Rightarrow> True | Some f \<Rightarrow> lnf_filter_match L f r)
        (closed_windows L (o_queue_dir opt) fs (nat (min backtrack (o_queue_num opt)))))"
    by (rule queue_copy_spec; fact assms)
  ultimately show ?thesis
    using assms(2) by (simp add: nfd_queue_add_flow_def Let_def)
qed

section \<open>Properties\<close>

text \<open>A successful shift creates an empty current file and moves the window of file \<open>j - 1\<close> to
  file \<open>j\<close> for every \<open>j\<close> up to \<open>queue_num\<close>; files that are not of the queue are untouched.\<close>

theorem nfd_queue_shift_moves:
  assumes "dir_fits (o_queue_dir opt)" "0 \<le> o_queue_num opt" "o_queue_num opt < 2 ^ 31"
    and "lnf_open_write L (queue_file_name (o_queue_dir opt) 0)"
  shows "\<exists>opt' fs'. nfd_queue_shift L opt fs = (1, opt', fs') \<and>
    o_queue_file opt' = Some (queue_file_name (o_queue_dir opt) 0) \<and>
    window (o_queue_dir opt) fs' 0 = Some (lnf_new L) \<and>
    (\<forall>j. 0 < j \<and> int j \<le> o_queue_num opt \<longrightarrow> window (o_queue_dir opt) fs (j - 1) \<noteq> None \<longrightarrow>
       window (o_queue_dir opt) fs' j = window (o_queue_dir opt) fs (j - 1)) \<and>
    (\<forall>p. (\<forall>i \<le> nat (o_queue_num opt). p \<noteq> queue_file_name (o_queue_dir opt) (int i)) \<longrightarrow> fs' p = fs p)"
proof -
  obtain ret opt' fs' where sh: "nfd_queue_shift L opt fs = (ret, opt', fs')"
    by (cases "nfd_queue_shift L opt fs") auto
  from sh assms(4) have ret: "ret = 1" "o_queue_file opt' = Some (queue_file_name (o_queue_dir opt) 0)"
    by (auto simp: nfd_queue_shift_def Let_def)
  have n: "nat (o_queue_num opt) < 10 ^ 10" using assms(3) by simp
  note w = nfd_queue_shift_window [OF assms(1) n _ sh]
  have "window (o_queue_dir opt) fs' j = window (o_queue_dir opt) fs (j - 1)"
    if "0 < j" "int j \<le> o_queue_num opt" "window (o_queue_dir opt) fs (j - 1) \<noteq> None" for j
    using that w [of j] n by (auto simp: rotate_spec_def split: option.splits)
  moreover have "fs' p = fs p"
    if "\<forall>i \<le> nat (o_queue_num opt). p \<noteq> queue_file_name (o_queue_dir opt) (int i)" for p
  proof -
    from that have "p \<noteq> queue_file_name (o_queue_dir opt) 0" by (auto dest: spec [of _ 0])
    then show ?thesis
      using sh assms(4) rotate_other [OF that, of fs] by (auto simp: nfd_queue_shift_def Let_def)
  qed
  ultimately show ?thesis using sh ret w [of 0] by simp
qed

text \<open>When the new current file cannot be opened, the shift reports 0 and leaves no open queue
  file, although the windows have been moved: the read loop then stores nothing.\<close>

theorem nfd_queue_shift_failure:
  assumes "\<not> lnf_open_write L (queue_file_name (o_queue_dir opt) 0)"
  shows "\<exists>opt' fs'. nfd_queue_shift L opt fs = (0, opt', fs') \<and> o_queue_file opt' = None \<and>
    fs' = queue_rotate (o_queue_dir opt) (nat (o_queue_num opt)) fs \<and>
    queue_store L opt' r fs' = fs'"
  using assms by (auto simp: nfd_queue_shift_def Let_def queue_store_def)

text \<open>C9. Any run of stores and shifts of the queue of the code is a run on a list of windows: file
  \<open>i\<close> holds exactly the flows stored between the \<open>i\<close>-th last and the next shift, in the order they
  were stored, for every \<open>i\<close> up to \<open>queue_num\<close>.\<close>

theorem queue_refines_windows:
  assumes "queue_ok L dir n s" and "holds_windows (state_win L dir) n s ws"
  shows "holds_windows (state_win L dir) n
    (foldl (exec_event (store_state L) (shift_state L)) s es) (windows_run ws es)"
  using assms by (rule nfd_queue.run_holds)

text \<open>\<open>nfd_queue_add_flow\<close> appends to the output file exactly the flows of the last
  \<open>min backtrack queue_num\<close> closed windows that match the filter (all of them without a filter),
  the oldest window first and each window in the order of its file; the current window is left out.\<close>

theorem nfd_queue_add_flow_copies:
  assumes "libnf_laws L" "lnf_rec_init L" "fs output = Some out" "lnf_records L out = Some os"
    and "\<forall>i. 0 < i \<and> i \<le> nat (min backtrack (o_queue_num opt)) \<longrightarrow>
      output \<noteq> queue_file_name (o_queue_dir opt) (int i)"
  shows "\<exists>out'. nfd_queue_add_flow L opt output filt backtrack fs = (1, fs(output := Some out')) \<and>
    lnf_records L out' = Some (os @
      filter (\<lambda>r. case filt of None \<Rightarrow> True | Some f \<Rightarrow> lnf_filter_match L f r)
        (closed_windows L (o_queue_dir opt) fs (nat (min backtrack (o_queue_num opt)))))"
  using assms by (rule add_flow_closed)

section \<open>The properties on a concrete queue\<close>

definition sample_libnf :: "(nat list, nat, nat) libnf" where
  "sample_libnf = \<lparr>lnf_new = [], lnf_open_write = (\<lambda>_. True), lnf_records = Some,
     lnf_write = (\<lambda>c r. c @ [r]), lnf_filter_match = (\<lambda>f r. r mod f = 0),
     lnf_filter_init = (\<lambda>s. if s = [] then None else Some 2), lnf_rec_init = True\<rparr>"

abbreviation sample_dir :: string where
  "sample_dir \<equiv> ''./nfddos-queue/''"

definition sample_files :: "nat list files" where
  "sample_files = [queue_file_name sample_dir 0 \<mapsto> [7, 8],
     queue_file_name sample_dir 1 \<mapsto> [4, 5, 6], ''out'' \<mapsto> []]"

lemma sample_libnf_simps [simp]:
  "lnf_open_write sample_libnf p"
  "lnf_new sample_libnf = []"
  "lnf_records sample_libnf = Some"
  "lnf_write sample_libnf c r = c @ [r]"
  "lnf_filter_match sample_libnf f r \<longleftrightarrow> r mod f = 0"
  "lnf_rec_init sample_libnf"
  by (simp_all add: sample_libnf_def)

lemma sample_libnf_laws: "libnf_laws sample_libnf"
  by (simp add: libnf_laws_def)

lemma sample_dir_fits: "dir_fits sample_dir"
  by (simp add: dir_fits_def MAX_STRING_def)

lemma sample_names: "queue_file_name sample_dir 0 = ''./nfddos-queue//000''"
  "queue_file_name sample_dir 1 = ''./nfddos-queue//001''"
  using sample_dir_fits
  by (simp_all add: queue_file_name_fits path_join_def fmt_03d_def pad_left_def dec_of_nat.simps
      digit_char_0_1 numeral_2_eq_2)

lemma sample_files_window:
  "window sample_dir sample_files 0 = Some [7, 8]"
  "window sample_dir sample_files (Suc 0) = Some [4, 5, 6]"
  "1 < i \<Longrightarrow> i < 10 ^ 10 \<Longrightarrow> window sample_dir sample_files i = None"
proof -
  show "window sample_dir sample_files 0 = Some [7, 8]"
    "window sample_dir sample_files (Suc 0) = Some [4, 5, 6]"
    by (simp_all add: window_def sample_files_def sample_names)
  assume i: "1 < i" "i < 10 ^ 10"
  then have "int i < 10 ^ 10" by (metis of_nat_less_iff of_nat_numeral of_nat_power)
  with i show "window sample_dir sample_files i = None"
    using queue_file_name_eq_iff [OF sample_dir_fits, of "int i"]
      queue_file_name_fits [OF sample_dir_fits, of "int i"]
    by (simp add: window_def sample_files_def path_join_def)
qed

lemma out_no_queue_file: "i < 10 ^ 10 \<Longrightarrow> ''out'' \<noteq> queue_file_name sample_dir (int i)"
proof -
  assume "i < 10 ^ 10"
  then have "int i < 10 ^ 10" by (metis of_nat_less_iff of_nat_numeral of_nat_power)
  then show ?thesis by (simp add: queue_file_name_fits [OF sample_dir_fits] path_join_def)
qed

theorem nfd_queue_shift_moves_witness:
  "\<exists>opt' fs'. nfd_queue_shift sample_libnf (default_options :: nat nfd_options) sample_files = (1, opt', fs') \<and>
     window sample_dir fs' 1 = Some [7, 8] \<and> fs' ''out'' = Some []"
proof -
  from nfd_queue_shift_moves [where opt = "default_options :: nat nfd_options" and L = sample_libnf and fs = sample_files]
  obtain opt' fs' where sh:
    "nfd_queue_shift sample_libnf (default_options :: nat nfd_options) sample_files = (1, opt', fs')"
    "\<forall>j. 0 < j \<and> int j \<le> 10 \<longrightarrow> window sample_dir sample_files (j - 1) \<noteq> None \<longrightarrow>
       window sample_dir fs' j = window sample_dir sample_files (j - 1)"
    "\<forall>p. (\<forall>i \<le> nat 10. p \<noteq> queue_file_name sample_dir (int i)) \<longrightarrow> fs' p = sample_files p"
    by (auto simp: sample_dir_fits)
  from sh(2) have "window sample_dir fs' 1 = Some [7, 8]"
    using sample_files_window(1) by (auto dest: spec [of _ 1])
  moreover have "fs' ''out'' = sample_files ''out''"
    using sh(3) out_no_queue_file by simp
  ultimately show ?thesis using sh(1) by (auto simp: sample_files_def)
qed

theorem nfd_queue_shift_failure_witness:
  "\<exists>opt' fs'. nfd_queue_shift (sample_libnf\<lparr>lnf_open_write := \<lambda>_. False\<rparr>)
      (default_options :: nat nfd_options) sample_files = (0, opt', fs') \<and> o_queue_file opt' = None"
proof -
  have "\<not> lnf_open_write (sample_libnf\<lparr>lnf_open_write := \<lambda>_. False\<rparr>)
      (queue_file_name (o_queue_dir (default_options :: nat nfd_options)) 0)"
    by simp
  from nfd_queue_shift_failure [OF this, where fs = sample_files and r = 0]
  show ?thesis by blast
qed

text \<open>Two stores, a shift and a store, after the queue was opened on an empty directory.\<close>

theorem queue_refines_windows_witness:
  "holds_windows (state_win sample_libnf sample_dir) 10
     (foldl (exec_event (store_state sample_libnf) (shift_state sample_libnf))
       (shift_state sample_libnf (default_options :: nat nfd_options, \<lambda>_. None))
       [Put 1, Put 2, Shift, Put 3])
     [[3], [1, 2]]"
proof -
  let ?s = "shift_state sample_libnf (default_options :: nat nfd_options, \<lambda>_. None)"
  have ok: "queue_ok sample_libnf sample_dir 10 ?s"
    by (simp add: queue_ok_def sample_libnf_laws sample_dir_fits shift_state_def nfd_queue_shift_def
        Let_def)
  have "holds_windows (state_win sample_libnf sample_dir) 10 ?s [[]]"
    by (simp add: holds_windows_def state_win_def queue_win_def window_def shift_state_def
        nfd_queue_shift_def Let_def)
  from queue_refines_windows [OF ok this, of "[Put 1, Put 2, Shift, Put 3]"]
  show ?thesis by (simp add: windows_run_def)
qed

theorem nfd_queue_add_flow_copies_witness:
  "\<exists>out'. nfd_queue_add_flow sample_libnf (default_options :: nat nfd_options) ''out'' (Some 2) 2 sample_files
      = (1, sample_files(''out'' := Some out')) \<and> lnf_records sample_libnf out' = Some [4, 6]"
proof -
  have "closed_windows sample_libnf sample_dir sample_files (Suc (Suc 0)) = [4, 5, 6]"
    using sample_files_window
    by (simp add: closed_windows_def queue_win_def)
  then have "closed_windows sample_libnf sample_dir sample_files (nat 2) = [4, 5, 6]"
    by (simp add: numeral_2_eq_2)
  moreover have "sample_files ''out'' = Some []"
    by (simp add: sample_files_def)
  ultimately show ?thesis
    using nfd_queue_add_flow_copies [OF sample_libnf_laws, of sample_files "''out''" "[]" "[]" 2
        "default_options :: nat nfd_options" "Some 2"] out_no_queue_file
    by simp
qed

end
