(* ===== verification/Action.thy ===== *)
theory Action
  imports Queue
begin

text \<open>
  The actions of \<open>action.c\<close>: a table of pointers to actions, one for each profile (and value of its
  dynamic fields) that is over its limits. \<open>nfd_act_upsert\<close> creates or refreshes an action,
  \<open>nfd_act_expire\<close> stops the actions that were not refreshed for a while, \<open>nfd_act_eval_profile\<close>
  compares counters with limits. Actions live in an explicit heap, since the code frees them while
  the table may still point to them. The lemmas show the invariant of the table, what each
  operation does on each branch, and that the operations refine a map from names to the last
  refresh; the last free slot and a full table are treated separately, because the code loses
  track of the action there.
\<close>

section \<open>The world of the actions\<close>

text \<open>
  The state outside the options: the heap of actions, the flow files, the directories and text
  files made, the external commands run, and how often the clock was read. The environment gives
  the values that the C library and the operating system choose: the \<open>n\<close>-th reading of
  \<open>time(NULL)\<close>, the block that \<open>calloc\<close> returns when the blocks in use are known, \<open>localtime\<close> with
  \<open>strftime\<close>, whether a directory can be made and a file be opened for writing, the status of an
  external command after the commands run before (\<open>None\<close> when \<open>popen\<close> fails), and the text that
  \<open>nfd_prof_dump\<close> writes. \<open>e_close_null\<close> says whether \<open>lnf_close\<close> accepts a null handle.
\<close>

record ('c, 'f) act_world =
  w_heap :: "ptr \<Rightarrow> 'f nfd_action option"
  w_files :: "'c files"
  w_dirs :: "string \<Rightarrow> bool"
  w_texts :: "string \<Rightarrow> string option"
  w_execs :: "string list"
  w_ticks :: nat

record ('c, 'r, 'f) act_env =
  e_lnf :: "('c, 'r, 'f) libnf"
  e_time :: "nat \<Rightarrow> int"
  e_malloc :: "(ptr \<Rightarrow> bool) \<Rightarrow> ptr option"
  e_localtime :: "string \<Rightarrow> int \<Rightarrow> string option"
  e_mkdir :: "string \<Rightarrow> bool"
  e_fopen :: "string \<Rightarrow> bool"
  e_exec :: "string list \<Rightarrow> string \<Rightarrow> int option"
  e_prof_dump :: "'f nfd_options \<Rightarrow> 'f nfd_profile \<Rightarrow> string"
  e_close_null :: bool

definition w_exists :: "('c, 'f) act_world \<Rightarrow> string \<Rightarrow> bool" where
  "w_exists w p \<longleftrightarrow> w_dirs w p \<or> w_files w p \<noteq> None \<or> w_texts w p \<noteq> None"

text \<open>A reading of the clock.\<close>

definition now :: "('c, 'r, 'f) act_env \<Rightarrow> ('c, 'f) act_world \<Rightarrow> int" where
  "now E w = e_time E (w_ticks w)"

definition tick :: "('c, 'f) act_world \<Rightarrow> ('c, 'f) act_world" where
  "tick w = w\<lparr>w_ticks := Suc (w_ticks w)\<rparr>"

section \<open>Operations\<close>

definition nfd_act_init :: "(nat \<Rightarrow> bool) \<Rightarrow> nfd_actions \<Rightarrow> int \<Rightarrow> int \<times> nfd_actions" where
  "nfd_act_init calloc act max_actions =
     (let k = unat (u64_of_int max_actions) in
      if calloc k
      then (1, act\<lparr>act_slots := replicate k None, act_max := max_actions\<rparr>)
      else (0, act\<lparr>act_slots := []\<rparr>))"

text \<open>\<open>nfd_act_dump\<close> returns its result and the text it has written by then.\<close>

definition dump_traffic :: "'f nfd_options \<Rightarrow> 'f nfd_action \<Rightarrow> string" where
  "dump_traffic opt a =
     (let w = u64_of_int (o_last_window_size opt); c = a_counters a in
      ''dynamic_traffic:     '' @ pad_left (CHR '' '') 10 (fmt_llu (c_bytes c div w)) @ '' '' @
      pad_left (CHR '' '') 6 (fmt_llu (c_pkts c div w)) @ '' '' @
      pad_left (CHR '' '') 6 (fmt_llu (c_flows c div w)) @ '' '' @
      ''('' @ fmt_llu (8 * (c_bytes c div w) div 1000 div 1000) @ '' Mb/s, '' @
      fmt_llu (c_pkts c div w div 1000) @ '' kp/s, '' @
      fmt_llu (c_flows c div w) @ '' flow/s)'' @ newline)"

definition dump_time :: "string \<Rightarrow> int \<Rightarrow> string \<Rightarrow> string" where
  "dump_time label t s = label @ fmt_u t @ '' ('' @ s @ '')'' @ newline"

definition nfd_act_dump ::
  "('c, 'r, 'f) act_env \<Rightarrow> 'f nfd_options \<Rightarrow> 'f nfd_action \<Rightarrow> (int \<times> string) res" where
  "nfd_act_dump E opt a =
     res_bind (c_str (a_name a)) (\<lambda>name.
     let t0 = (if a_dynamic a \<noteq> 0 \<and> o_last_window_size opt > 0 then dump_traffic opt a else '''') @
              ''action_name:         '' @ name @ newline
     in case e_localtime E ''%F %H:%M:%S'' (a_tm_start a) of
          None \<Rightarrow> Inr (0, t0)
        | Some s \<Rightarrow>
            let t1 = t0 @ dump_time ''action_start:        '' (a_tm_start a) s
            in case e_localtime E ''%F %H:%M:%S'' (a_tm_updated a) of
                 None \<Rightarrow> Inr (0, t1)
               | Some u \<Rightarrow>
                   res_bind (c_str (a_filter_expr a)) (\<lambda>fe.
                   let t2 = t1 @ dump_time ''action_updated:      '' (a_tm_updated a) u @
                            ''action_filter:       '' @ fe @ newline
                   in if a_dynamic a \<noteq> 0
                      then res_bind (c_str (dp_key (a_dp a))) (\<lambda>key.
                           Inr (1, t2 @ ''dynamic_value:       '' @ key @ newline))
                      else Inr (1, t2)))"

definition act_command :: "'f nfd_options \<Rightarrow> 'f nfd_action \<Rightarrow> nfd_action_cmd \<Rightarrow> string" where
  "act_command opt a cmd =
     c_snprintf MAX_STRING
       (case cmd of
          NFD_ACTION_START \<Rightarrow> o_exec_start opt @ '' '' @ ''start'' @ '' '' @ a_action_dir a
        | NFD_ACTION_STOP \<Rightarrow> o_exec_stop opt @ '' '' @ ''stop'' @ '' '' @ a_action_dir a
        | NFD_ACTION_STATUS \<Rightarrow> o_exec_status opt @ '' '' @ ''status'' @ '' '' @ o_status_file opt)"

definition nfd_act_cmd ::
  "('c, 'r, 'f) act_env \<Rightarrow> 'f nfd_options \<Rightarrow> 'f nfd_action \<Rightarrow> nfd_action_cmd \<Rightarrow> ('c, 'f) act_world
    \<Rightarrow> int \<times> ('c, 'f) act_world" where
  "nfd_act_cmd E opt a cmd w =
     (let c = act_command opt a cmd in
      case e_exec E (w_execs w) c of
        None \<Rightarrow> (0, w)
      | Some st \<Rightarrow> (if st \<noteq> 0 then 0 else 1, w\<lparr>w_execs := w_execs w @ [c]\<rparr>))"

text \<open>
  \<open>nfd_act_update_dir\<close> in its four parts: the directory, the filter, the profile file and the flow
  file. The first part reports whether the function goes on.
\<close>

definition act_make_dir ::
  "('c, 'r, 'f) act_env \<Rightarrow> 'f nfd_options \<Rightarrow> 'f nfd_action \<Rightarrow> ('c, 'f) act_world
    \<Rightarrow> bool \<times> 'f nfd_action \<times> ('c, 'f) act_world" where
  "act_make_dir E opt a w =
     (let a1 = a\<lparr>a_tm_updated := a_tm_start a\<rparr> in
      case e_localtime E ''%F-%H-%M-%S'' (a_tm_start a1) of
        None \<Rightarrow> (False, a1, w)
      | Some s \<Rightarrow>
          let dir = c_snprintf MAX_STRING (o_action_dir opt @ ''/'' @ s @ ''.'' @ fmt_03d (a_id a1));
              a2 = a1\<lparr>a_action_dir := dir\<rparr>
          in if w_exists w dir then (True, a2, w)
             else if e_mkdir E dir then (True, a2, w\<lparr>w_dirs := (w_dirs w)(dir := True)\<rparr>)
             else (False, a2, w))"

definition act_build_filter ::
  "('c, 'r, 'f) act_env \<Rightarrow> 'f nfd_profile \<Rightarrow> 'f nfd_action \<Rightarrow> 'f nfd_action res" where
  "act_build_filter E p a =
     res_bind
       (let e = c_strncpy (p_filter_expr p) MAX_STRING in
        if a_dynamic a \<noteq> 0
        then if terminated e
             then res_bind (c_str (dp_filter_expr (a_dp a))) (\<lambda>d.
                  Inr (c_snprintf MAX_STRING (''('' @ e @ '') and ('' @ d @ '')'')))
             else Inl BufferOverflow
        else Inr e) (\<lambda>e.
     if a_filter a = None \<and> e \<noteq> ''''
     then res_bind (c_str e) (\<lambda>e. Inr (a\<lparr>a_filter_expr := e, a_filter := lnf_filter_init (e_lnf E) e\<rparr>))
     else Inr (a\<lparr>a_filter_expr := e\<rparr>))"

definition act_write_profile ::
  "('c, 'r, 'f) act_env \<Rightarrow> 'f nfd_options \<Rightarrow> 'f nfd_profile \<Rightarrow> 'f nfd_action \<Rightarrow> ('c, 'f) act_world
    \<Rightarrow> ('c, 'f) act_world res" where
  "act_write_profile E opt p a w =
     (let buf = c_snprintf MAX_STRING (path_join (a_action_dir a) ''profile'') in
      if e_fopen E buf
      then res_bind (nfd_act_dump E opt a) (\<lambda>(r, text).
           Inr (w\<lparr>w_texts := (w_texts w)(buf := Some (e_prof_dump E opt p @ text))\<rparr>))
      else Inr w)"

definition act_copy_flows ::
  "('c, 'r, 'f) act_env \<Rightarrow> 'f nfd_options \<Rightarrow> 'f nfd_action \<Rightarrow> ('c, 'f) act_world
    \<Rightarrow> ('f nfd_action \<times> ('c, 'f) act_world) res" where
  "act_copy_flows E opt a w =
     (if a_file a \<noteq> None then Inr (a, w)
      else
        let L = e_lnf E; buf = c_snprintf MAX_STRING (path_join (a_action_dir a) ''nfcap'') in
        if lnf_open_write L buf
        then
          let (r, fs) = nfd_queue_add_flow L opt buf (a_filter a) (o_queue_backtrack opt)
                          ((w_files w)(buf := Some (lnf_new L)))
          in Inr (a\<lparr>a_file := None\<rparr>, w\<lparr>w_files := fs\<rparr>)
        else if e_close_null E then Inr (a\<lparr>a_file := None\<rparr>, w)
        else Inl NullDeref)"

definition nfd_act_update_dir ::
  "('c, 'r, 'f) act_env \<Rightarrow> 'f nfd_options \<Rightarrow> 'f nfd_profile option \<Rightarrow> 'f nfd_action \<Rightarrow> ('c, 'f) act_world
    \<Rightarrow> (int \<times> 'f nfd_action \<times> ('c, 'f) act_world) res" where
  "nfd_act_update_dir E opt profp a w =
     (case act_make_dir E opt a w of
        (False, a1, w1) \<Rightarrow> Inr (0, a1, w1)
      | (True, a1, w1) \<Rightarrow>
          (case profp of
             None \<Rightarrow> Inl NullDeref
           | Some p \<Rightarrow>
               res_bind (act_build_filter E p a1) (\<lambda>a2.
               res_bind (act_write_profile E opt p a2 w1) (\<lambda>w2.
               res_bind (act_copy_flows E opt a2 w2) (\<lambda>(a3, w3).
               Inr (1, a3, w3))))))"

text \<open>The table: reading a slot, the search for a name, the search for an empty slot.\<close>

definition slot_ptr :: "ptr option list \<Rightarrow> nat \<Rightarrow> ptr option res" where
  "slot_ptr ss i = (if i < length ss then Inr (ss ! i) else Inl OutOfBounds)"

definition action_at :: "(ptr \<Rightarrow> 'f nfd_action option) \<Rightarrow> ptr \<Rightarrow> 'f nfd_action res" where
  "action_at h p = (case h p of None \<Rightarrow> Inl UseAfterFree | Some a \<Rightarrow> Inr a)"

fun act_find ::
  "(ptr \<Rightarrow> 'f nfd_action option) \<Rightarrow> ptr option list \<Rightarrow> string \<Rightarrow> nat list \<Rightarrow> ptr option res" where
  "act_find h ss name [] = Inr None"
| "act_find h ss name (i # is) =
     res_bind (slot_ptr ss i) (\<lambda>s.
     case s of
       None \<Rightarrow> act_find h ss name is
     | Some p \<Rightarrow>
         res_bind (action_at h p) (\<lambda>a.
         if c_strncmp_eq (a_name a) name MAX_STRING then Inr (Some p)
         else act_find h ss name is))"

text \<open>\<open>act_free_slot\<close> returns the value of the loop counter after the loop.\<close>

fun act_free_slot :: "ptr option list \<Rightarrow> nat list \<Rightarrow> nat \<Rightarrow> nat res" where
  "act_free_slot ss [] n = Inr n"
| "act_free_slot ss (i # is) n =
     res_bind (slot_ptr ss i) (\<lambda>s. if s = None then Inr i else act_free_slot ss is n)"

definition act_key :: "'f nfd_profile \<Rightarrow> nfd_dyn_profile option \<Rightarrow> string res" where
  "act_key profp dp =
     res_bind (c_str (p_name profp)) (\<lambda>name.
     case dp of
       None \<Rightarrow> Inr (c_snprintf MAX_STRING name)
     | Some d \<Rightarrow> res_bind (c_str (dp_key d)) (\<lambda>key. Inr (c_snprintf MAX_STRING (name @ ''/'' @ key))))"

text \<open>The new action after its data are filled in, before its directory is made.\<close>

definition act_fill ::
  "string \<Rightarrow> nfd_dyn_profile option \<Rightarrow> nfd_counter \<Rightarrow> int \<Rightarrow> 'f nfd_action \<Rightarrow> 'f nfd_action" where
  "act_fill name dp counters t a =
     (let a1 = a\<lparr>a_tm_start := t, a_name := c_strncpy name MAX_STRING, a_counters := counters\<rparr>
      in case dp of None \<Rightarrow> a1 | Some d \<Rightarrow> a1\<lparr>a_dynamic := 1, a_dp := d\<rparr>)"

definition act_insert ::
  "('c, 'r, 'f) act_env \<Rightarrow> 'f nfd_options \<Rightarrow> nfd_actions \<Rightarrow> string \<Rightarrow> nfd_dyn_profile option
    \<Rightarrow> 'f nfd_profile \<Rightarrow> nfd_counter \<Rightarrow> ('c, 'f) act_world
    \<Rightarrow> (int \<times> nfd_actions \<times> ('c, 'f) act_world) res" where
  "act_insert E opt act name dp profp counters w =
     (case e_malloc E (\<lambda>p. w_heap w p \<noteq> None) of
        None \<Rightarrow> Inr (0, act, w)
      | Some p \<Rightarrow>
          res_bind (act_free_slot (act_slots act) [0..<nat (act_max act)] (nat (act_max act))) (\<lambda>i.
          let found = i < nat (act_max act);
              a0 = (if found then zero_action\<lparr>a_id := int i\<rparr> else zero_action);
              act1 = (if found then act\<lparr>act_slots := (act_slots act)[i := Some p]\<rparr> else act)
          in if int i = act_max act - 1
             then Inr (0, act1, w\<lparr>w_heap := (w_heap w)(p := None)\<rparr>)
             else
               res_bind (nfd_act_update_dir E opt (Some profp) (act_fill name dp counters (now E w) a0) (tick w))
                 (\<lambda>(r, a1, w1).
                  let (r', w2) = nfd_act_cmd E opt a1 NFD_ACTION_START w1;
                      a2 = a1\<lparr>a_tm_updated := now E w2, a_counters := counters\<rparr>
                  in Inr (1, act1, (tick w2)\<lparr>w_heap := (w_heap w2)(p := Some a2)\<rparr>))))"

definition nfd_act_upsert ::
  "('c, 'r, 'f) act_env \<Rightarrow> 'f nfd_options \<Rightarrow> nfd_actions \<Rightarrow> nfd_dyn_profile option
    \<Rightarrow> 'f nfd_profile option \<Rightarrow> nfd_counter \<Rightarrow> ('c, 'f) act_world
    \<Rightarrow> (int \<times> nfd_actions \<times> ('c, 'f) act_world) res" where
  "nfd_act_upsert E opt act dp profp counters w =
     (case profp of
        None \<Rightarrow> Inl NullDeref
      | Some pr \<Rightarrow>
          res_bind (act_key pr dp) (\<lambda>name.
          res_bind (act_find (w_heap w) (act_slots act) name [0..<nat (act_max act)]) (\<lambda>found.
          case found of
            None \<Rightarrow> act_insert E opt act name dp pr counters w
          | Some p \<Rightarrow>
              res_bind (action_at (w_heap w) p) (\<lambda>a.
              let w1 = tick w;
                  a2 = a\<lparr>a_tm_updated := now E w, a_tm_updated := now E w1, a_counters := counters\<rparr>
              in Inr (1, act, (tick w1)\<lparr>w_heap := (w_heap w1)(p := Some a2)\<rparr>)))))"

text \<open>\<open>nfd_act_expire\<close>, one slot after the other.\<close>

definition act_expire_slot ::
  "('c, 'r, 'f) act_env \<Rightarrow> 'f nfd_options \<Rightarrow> int \<Rightarrow> nat \<Rightarrow> nfd_actions \<times> ('c, 'f) act_world
    \<Rightarrow> (nfd_actions \<times> ('c, 'f) act_world) res" where
  "act_expire_slot E opt expire_time i s =
     (let (act, w) = s in
      res_bind (slot_ptr (act_slots act) i) (\<lambda>sp.
      case sp of
        None \<Rightarrow> Inr (act, w)
      | Some p \<Rightarrow>
          res_bind (action_at (w_heap w) p) (\<lambda>a.
          if a_tm_updated a + expire_time < now E w
          then let (r, w1) = nfd_act_cmd E opt a NFD_ACTION_STOP (tick w)
               in Inr (act\<lparr>act_slots := (act_slots act)[i := None]\<rparr>,
                       w1\<lparr>w_heap := (w_heap w1)(p := None)\<rparr>)
          else Inr (act, tick w))))"

fun act_expire_slots ::
  "('c, 'r, 'f) act_env \<Rightarrow> 'f nfd_options \<Rightarrow> int \<Rightarrow> nat list \<Rightarrow> nfd_actions \<times> ('c, 'f) act_world
    \<Rightarrow> (nfd_actions \<times> ('c, 'f) act_world) res" where
  "act_expire_slots E opt expire_time [] s = Inr s"
| "act_expire_slots E opt expire_time (i # is) s =
     res_bind (act_expire_slot E opt expire_time i s) (act_expire_slots E opt expire_time is)"

definition nfd_act_expire ::
  "('c, 'r, 'f) act_env \<Rightarrow> 'f nfd_options \<Rightarrow> nfd_actions \<Rightarrow> int \<Rightarrow> ('c, 'f) act_world
    \<Rightarrow> (int \<times> nfd_actions \<times> ('c, 'f) act_world) res" where
  "nfd_act_expire E opt act expire_time w =
     res_bind (act_expire_slots E opt expire_time [0..<nat (act_max act)] (act, w)) (\<lambda>(act', w').
     Inr (1, act', w'))"

text \<open>\<open>nfd_act_eval_profile\<close> works on the table of the options.\<close>

definition over_limit :: "u64 \<Rightarrow> u64 \<Rightarrow> int \<Rightarrow> bool res" where
  "over_limit limit c w =
     (if limit \<noteq> 0 then res_bind (u64_div c (u64_of_int w)) (\<lambda>rate. Inr (limit \<le> rate)) else Inr False)"

definition nfd_act_eval_profile ::
  "('c, 'r, 'f) act_env \<Rightarrow> 'f nfd_options \<Rightarrow> 'f nfd_profile \<Rightarrow> nfd_dyn_profile option \<Rightarrow> nfd_counter
    \<Rightarrow> ('c, 'f) act_world \<Rightarrow> (int \<times> 'f nfd_options \<times> ('c, 'f) act_world) res" where
  "nfd_act_eval_profile E opt profp dp c w =
     (let wd = o_last_window_size opt; l = p_limits profp in
      res_bind (over_limit (c_bytes l) (c_bytes c) wd) (\<lambda>b.
      res_bind (over_limit (c_pkts l) (c_pkts c) wd) (\<lambda>p.
      res_bind (over_limit (c_flows l) (c_flows c) wd) (\<lambda>f.
      if \<not> (b \<or> p \<or> f) then Inr (0, opt, w)
      else res_bind (nfd_act_upsert E opt (o_actions opt) dp (Some profp) c w) (\<lambda>(r, act', w').
           Inr (1, opt\<lparr>o_actions := act'\<rparr>, w'))))))"

section \<open>The invariant of the table\<close>

text \<open>
  Row \<open>i\<close> is the action that slot \<open>i\<close> points to. In a well-formed table every pointer points to an
  action that carries the index of its slot, the names of the actions differ, and every action of
  the heap is in the table.
\<close>

definition row :: "nfd_actions \<Rightarrow> ('c, 'f) act_world \<Rightarrow> nat \<Rightarrow> 'f nfd_action option" where
  "row act w i = (if i < length (act_slots act) then Option.bind (act_slots act ! i) (w_heap w) else None)"

definition act_ok :: "nfd_actions \<Rightarrow> ('c, 'f) act_world \<Rightarrow> bool" where
  "act_ok act w \<longleftrightarrow>
     0 \<le> act_max act \<and> length (act_slots act) = nat (act_max act) \<and>
     (\<forall>i < length (act_slots act). \<forall>p. act_slots act ! i = Some p \<longrightarrow>
        (\<exists>a. w_heap w p = Some a \<and> a_id a = int i \<and> terminated (a_name a))) \<and>
     (\<forall>i j a b. row act w i = Some a \<longrightarrow> row act w j = Some b \<longrightarrow> a_name a = a_name b \<longrightarrow> i = j) \<and>
     (\<forall>p. w_heap w p \<noteq> None \<longrightarrow> Some p \<in> set (act_slots act))"

text \<open>What the table promises: for each name, the last counters and the time of the last refresh.\<close>

definition act_list :: "nfd_actions \<Rightarrow> ('c, 'f) act_world \<Rightarrow> 'f nfd_action list" where
  "act_list act w = List.map_filter (row act w) [0..<length (act_slots act)]"

definition act_entry :: "'f nfd_action \<Rightarrow> nfd_counter \<times> int" where
  "act_entry a = (a_counters a, a_tm_updated a)"

definition tracked :: "nfd_actions \<Rightarrow> ('c, 'f) act_world \<Rightarrow> string \<Rightarrow> (nfd_counter \<times> int) option" where
  "tracked act w name = map_option act_entry (find (\<lambda>a. a_name a = name) (act_list act w))"

lemma act_okD:
  assumes "act_ok act w"
  shows "0 \<le> act_max act" "length (act_slots act) = nat (act_max act)"
    "row act w i = Some a \<Longrightarrow> row act w j = Some b \<Longrightarrow> a_name a = a_name b \<Longrightarrow> i = j"
    "i < length (act_slots act) \<Longrightarrow> act_slots act ! i = Some p \<Longrightarrow>
      \<exists>a. w_heap w p = Some a \<and> row act w i = Some a \<and> a_id a = int i \<and> terminated (a_name a)"
    "row act w i = Some a \<Longrightarrow> i < length (act_slots act) \<and> a_id a = int i \<and> terminated (a_name a)"
proof -
  show "0 \<le> act_max act" "length (act_slots act) = nat (act_max act)"
    using assms by (simp_all add: act_ok_def)
  show "row act w i = Some a \<Longrightarrow> row act w j = Some b \<Longrightarrow> a_name a = a_name b \<Longrightarrow> i = j"
    using assms unfolding act_ok_def by blast
  show slot: "\<exists>a. w_heap w p = Some a \<and> row act w i = Some a \<and> a_id a = int i \<and> terminated (a_name a)"
    if "i < length (act_slots act)" "act_slots act ! i = Some p" for i p
    using assms that unfolding act_ok_def by (simp add: row_def)
  show "row act w i = Some a \<Longrightarrow> i < length (act_slots act) \<and> a_id a = int i \<and> terminated (a_name a)"
    using slot [of i] by (auto simp: row_def bind_eq_Some_conv split: if_splits)
qed

lemma row_None:
  assumes "act_ok act w" "i < length (act_slots act)"
  shows "row act w i = None \<longleftrightarrow> act_slots act ! i = None"
  using act_okD(4) [OF assms] assms(2) by (cases "act_slots act ! i") (auto simp: row_def)

lemma slots_distinct:
  assumes "act_ok act w" "i < length (act_slots act)" "j < length (act_slots act)"
    and "act_slots act ! i = Some p" "act_slots act ! j = Some p"
  shows "i = j"
  using act_okD(4) [OF assms(1,2,4)] act_okD(4) [OF assms(1,3,5)] by auto

lemma find_map_filter:
  "find P (List.map_filter f xs) =
    Option.bind (find (\<lambda>x. case f x of None \<Rightarrow> False | Some y \<Rightarrow> P y) xs) f"
  by (induction xs) (auto simp: map_filter_simps split: option.splits)

lemma find_unique:
  assumes "x \<in> set xs" "P x" "\<And>y. y \<in> set xs \<Longrightarrow> P y \<Longrightarrow> y = x"
  shows "find P xs = Some x"
  using assms
proof (induction xs)
  case (Cons z zs)
  show ?case
  proof (cases "P z")
    case True
    then have "z = x" by (intro Cons.prems(3)) simp_all
    with True show ?thesis by simp
  next
    case False
    with Cons.prems(1,2) have "x \<in> set zs" by auto
    then have "find P zs = Some x"
      by (rule Cons.IH [OF _ Cons.prems(2)]) (rule Cons.prems(3); simp)
    with False show ?thesis by simp
  qed
qed simp

lemma tracked_Some:
  assumes "act_ok act w" "row act w i = Some a"
  shows "tracked act w (a_name a) = Some (act_entry a)"
proof -
  note i = act_okD(5) [OF assms]
  have "find (\<lambda>j. case row act w j of None \<Rightarrow> False | Some b \<Rightarrow> a_name b = a_name a)
      [0..<length (act_slots act)] = Some i"
  proof (rule find_unique)
    show "i \<in> set [0..<length (act_slots act)]" using i by simp
    show "case row act w i of None \<Rightarrow> False | Some b \<Rightarrow> a_name b = a_name a" using assms(2) by simp
    show "j = i" if "case row act w j of None \<Rightarrow> False | Some b \<Rightarrow> a_name b = a_name a" for j
      using that act_okD(3) [OF assms(1) _ assms(2), of j] by (cases "row act w j") simp_all
  qed
  then show ?thesis
    using assms(2) by (simp add: tracked_def act_list_def find_map_filter)
qed

lemma tracked_None:
  assumes "\<And>i a. row act w i = Some a \<Longrightarrow> a_name a \<noteq> name"
  shows "tracked act w name = None"
proof -
  have "find (\<lambda>j. case row act w j of None \<Rightarrow> False | Some b \<Rightarrow> a_name b = name)
      [0..<length (act_slots act)] = None"
    using assms by (auto simp: find_None_iff split: option.splits)
  then show ?thesis by (simp add: tracked_def act_list_def find_map_filter)
qed

lemma tracked_eq_Some:
  assumes "act_ok act w"
  shows "tracked act w name = Some e \<longleftrightarrow> (\<exists>i a. row act w i = Some a \<and> a_name a = name \<and> act_entry a = e)"
proof (cases "\<exists>i a. row act w i = Some a \<and> a_name a = name")
  case True
  then obtain i a where a: "row act w i = Some a" "a_name a = name" by blast
  with tracked_Some [OF assms a(1)] show ?thesis
    using act_okD(3) [OF assms _ a(1)] by auto
next
  case False
  then show ?thesis using tracked_None [of act w name] by auto
qed

section \<open>The search loops\<close>

definition named :: "nfd_actions \<Rightarrow> ('c, 'f) act_world \<Rightarrow> string \<Rightarrow> nat \<Rightarrow> bool" where
  "named act w name i = (case row act w i of None \<Rightarrow> False | Some a \<Rightarrow> a_name a = name)"

lemma act_find_find:
  assumes "act_ok act w" "terminated name" "set is \<subseteq> {..<length (act_slots act)}"
  shows "act_find (w_heap w) (act_slots act) name is =
    Inr (Option.bind (find (named act w name) is) ((!) (act_slots act)))"
  using assms(3)
proof (induction "is")
  case (Cons i "is")
  then have i: "i < length (act_slots act)" by simp
  show ?case
  proof (cases "act_slots act ! i")
    case None
    with Cons i show ?thesis by (simp add: slot_ptr_def named_def row_def)
  next
    case (Some p)
    from act_okD(4) [OF assms(1) i this] obtain a where
      "w_heap w p = Some a" "row act w i = Some a" "terminated (a_name a)" by blast
    with Cons i Some assms(2) show ?thesis
      by (simp add: slot_ptr_def named_def action_at_def c_strncmp_eq_terminated)
  qed
qed simp

lemma act_free_slot_find:
  assumes "set is \<subseteq> {..<length ss}"
  shows "act_free_slot ss is n = Inr (case find (\<lambda>i. ss ! i = None) is of None \<Rightarrow> n | Some i \<Rightarrow> i)"
  using assms by (induction "is") (simp_all add: slot_ptr_def)

section \<open>Preparing the directory of a new action\<close>

text \<open>
  What the preparation leaves alone, and when it cannot run into a fault: the strings it reads end
  with a NUL and the flow file can be opened (or \<open>lnf_close\<close> accepts a null handle).
\<close>

definition same_action :: "'f nfd_action \<Rightarrow> 'f nfd_action \<Rightarrow> bool" where
  "same_action a b \<longleftrightarrow> a_name b = a_name a \<and> a_id b = a_id a \<and> a_counters b = a_counters a \<and>
     a_dynamic b = a_dynamic a \<and> a_dp b = a_dp a \<and> a_tm_start b = a_tm_start a"

definition same_control :: "('c, 'f) act_world \<Rightarrow> ('c, 'f) act_world \<Rightarrow> bool" where
  "same_control w v \<longleftrightarrow> w_heap v = w_heap w \<and> w_execs v = w_execs w \<and> w_ticks v = w_ticks w"

lemma same_action_trans: "same_action a b \<Longrightarrow> same_action b c \<Longrightarrow> same_action a c"
  by (simp add: same_action_def)

lemma same_control_trans: "same_control u v \<Longrightarrow> same_control v w \<Longrightarrow> same_control u w"
  by (simp add: same_control_def)

lemma act_make_dir_keeps:
  "act_make_dir E opt a w = (go, a', w') \<Longrightarrow> same_action a a' \<and> same_control w w'"
  by (auto simp: act_make_dir_def Let_def same_action_def same_control_def
      split: option.splits if_splits)

lemma act_build_filter_keeps:
  "act_build_filter E p a = Inr a' \<Longrightarrow> same_action a a' \<and> a_file a' = a_file a \<and> a_action_dir a' = a_action_dir a"
  by (auto simp: act_build_filter_def Let_def same_action_def res_bind_Inr_iff split: if_splits)

lemma act_write_profile_keeps: "act_write_profile E opt p a w = Inr w' \<Longrightarrow> same_control w w'"
  by (auto simp: act_write_profile_def Let_def same_control_def res_bind_Inr_iff split: if_splits)

lemma act_copy_flows_keeps:
  "act_copy_flows E opt a w = Inr (a', w') \<Longrightarrow> same_action a a' \<and> same_control w w' \<and> a_action_dir a' = a_action_dir a"
  by (auto simp: act_copy_flows_def Let_def same_action_def same_control_def split: if_splits prod.splits)

lemma nfd_act_update_dir_keeps:
  assumes "nfd_act_update_dir E opt profp a w = Inr (r, a', w')"
  shows "same_action a a' \<and> same_control w w'"
proof -
  obtain go a1 w1 where md: "act_make_dir E opt a w = (go, a1, w1)"
    by (cases "act_make_dir E opt a w") auto
  note k1 = act_make_dir_keeps [OF md]
  show ?thesis
  proof (cases go)
    case False
    with assms md k1 show ?thesis by (simp add: nfd_act_update_dir_def)
  next
    case True
    with assms md obtain p a2 w2 where
      "act_build_filter E p a1 = Inr a2" "act_write_profile E opt p a2 w1 = Inr w2"
      "act_copy_flows E opt a2 w2 = Inr (a', w')"
      by (auto simp: nfd_act_update_dir_def res_bind_Inr_iff split: option.splits)
    with k1 act_build_filter_keeps act_write_profile_keeps act_copy_flows_keeps show ?thesis
      by (blast intro: same_action_trans same_control_trans)
  qed
qed

definition dyn_ok :: "nfd_dyn_profile option \<Rightarrow> bool" where
  "dyn_ok dp = (case dp of None \<Rightarrow> True | Some d \<Rightarrow> terminated (dp_key d) \<and> terminated (dp_filter_expr d))"

definition prof_ok :: "'f nfd_profile \<Rightarrow> bool" where
  "prof_ok p \<longleftrightarrow> terminated (p_name p) \<and> terminated (p_filter_expr p)"

definition flow_file_ok :: "('c, 'r, 'f) act_env \<Rightarrow> bool" where
  "flow_file_ok E \<longleftrightarrow> e_close_null E \<or> (\<forall>p. lnf_open_write (e_lnf E) p)"

definition action_strings :: "'f nfd_action \<Rightarrow> bool" where
  "action_strings a \<longleftrightarrow> terminated (a_name a) \<and> terminated (dp_key (a_dp a)) \<and>
     terminated (dp_filter_expr (a_dp a))"

lemma nfd_act_dump_total:
  assumes "action_strings a" "terminated (a_filter_expr a)"
  shows "\<exists>r text. nfd_act_dump E opt a = Inr (r, text)"
  using assms by (auto simp: nfd_act_dump_def Let_def action_strings_def split: option.splits)

lemma act_build_filter_total:
  assumes "terminated (p_filter_expr p)" "action_strings a"
  shows "\<exists>a'. act_build_filter E p a = Inr a' \<and> terminated (a_filter_expr a')"
proof -
  define e where "e = (if a_dynamic a \<noteq> 0
    then c_snprintf MAX_STRING (''('' @ p_filter_expr p @ '') and ('' @ dp_filter_expr (a_dp a) @ '')'')
    else p_filter_expr p)"
  have "terminated e" using assms(1) terminated_snprintf by (simp add: e_def)
  moreover have "act_build_filter E p a =
    res_bind (Inr e) (\<lambda>e. if a_filter a = None \<and> e \<noteq> []
      then res_bind (c_str e) (\<lambda>e. Inr (a\<lparr>a_filter_expr := e, a_filter := lnf_filter_init (e_lnf E) e\<rparr>))
      else Inr (a\<lparr>a_filter_expr := e\<rparr>))"
    using assms by (simp add: act_build_filter_def action_strings_def terminated_strncpy e_def)
  ultimately show ?thesis by simp
qed

lemma nfd_act_update_dir_total:
  assumes "terminated (p_filter_expr p)" "action_strings a" "flow_file_ok E"
  shows "\<exists>r a' w'. nfd_act_update_dir E opt (Some p) a w = Inr (r, a', w')"
proof -
  obtain go a1 w1 where md: "act_make_dir E opt a w = (go, a1, w1)"
    by (cases "act_make_dir E opt a w") auto
  have s1: "action_strings a1"
    using act_make_dir_keeps [OF md] assms(2) by (simp add: same_action_def action_strings_def)
  from act_build_filter_total [OF assms(1) this, of E] obtain a2 where
    bf: "act_build_filter E p a1 = Inr a2" "terminated (a_filter_expr a2)" by blast
  have s2: "action_strings a2"
    using act_build_filter_keeps [OF bf(1)] s1 by (simp add: same_action_def action_strings_def)
  from nfd_act_dump_total [OF this bf(2), of E opt]
  have "\<exists>w2. act_write_profile E opt p a2 w1 = Inr w2"
    by (auto simp: act_write_profile_def Let_def)
  then obtain w2 where wp: "act_write_profile E opt p a2 w1 = Inr w2" by blast
  have "\<exists>a3 w3. act_copy_flows E opt a2 w2 = Inr (a3, w3)"
    using assms(3) by (auto simp: act_copy_flows_def Let_def flow_file_ok_def split: prod.splits)
  with md bf wp show ?thesis
    by (cases go) (auto simp: nfd_act_update_dir_def)
qed

section \<open>Writing and clearing a row\<close>

lemma row_set:
  assumes ok: "act_ok act w" and i: "i < length (act_slots act)"
    and p: "act_slots act ! i = Some p \<or> act_slots act ! i = None \<and> w_heap w p = None"
    and w': "w_heap w' = (w_heap w)(p \<mapsto> a)" and act': "act' = act\<lparr>act_slots := (act_slots act)[i := Some p]\<rparr>"
  shows "row act' w' = (row act w)(i \<mapsto> a)"
proof
  fix j
  have "act_slots act ! j \<noteq> Some p" if "j < length (act_slots act)" "j \<noteq> i"
    using p slots_distinct [OF ok i that(1)] act_okD(4) [OF ok that(1)] that(2) by fastforce
  with i w' act' show "row act' w' j = ((row act w)(i \<mapsto> a)) j"
    by (cases "act_slots act ! j") (auto simp: row_def nth_list_update)
qed

lemma act_ok_set:
  assumes ok: "act_ok act w" and i: "i < length (act_slots act)"
    and p: "act_slots act ! i = Some p \<or> act_slots act ! i = None \<and> w_heap w p = None"
    and a: "a_id a = int i" "terminated (a_name a)"
    and names: "\<And>j b. row act w j = Some b \<Longrightarrow> a_name b = a_name a \<longleftrightarrow> j = i"
    and w': "w_heap w' = (w_heap w)(p \<mapsto> a)" and act': "act' = act\<lparr>act_slots := (act_slots act)[i := Some p]\<rparr>"
  shows "act_ok act' w'"
proof -
  note r = row_set [OF ok i p w' act']
  have slot: "\<exists>b. w_heap w' q = Some b \<and> a_id b = int j \<and> terminated (a_name b)"
    if j: "j < length (act_slots act')" "act_slots act' ! j = Some q" for j q
  proof (cases "j = i")
    case True
    with j i a w' act' show ?thesis by simp
  next
    case False
    with j act' have "act_slots act ! j = Some q" "j < length (act_slots act)" by simp_all
    with act_okD(4) [OF ok] obtain b where
      b: "w_heap w q = Some b" "a_id b = int j" "terminated (a_name b)" by blast
    show ?thesis
    proof (cases "q = p")
      case True
      with \<open>act_slots act ! j = Some q\<close> \<open>j < length (act_slots act)\<close> p b(1) slots_distinct [OF ok i] False
      show ?thesis by auto
    qed (use b w' in simp)
  qed
  have "j = k" if "row act' w' j = Some b" "row act' w' k = Some c" "a_name b = a_name c" for j k b c
    using that names [of j b] names [of k c] act_okD(3) [OF ok] unfolding r
    by (auto split: if_splits)
  moreover have "Some q \<in> set (act_slots act')" if "w_heap w' q \<noteq> None" for q
  proof (cases "q = p")
    case True
    with i act' show ?thesis by (auto intro: set_update_memI)
  next
    case False
    with that w' ok have "Some q \<in> set (act_slots act)" by (simp add: act_ok_def)
    then obtain j where "j < length (act_slots act)" "act_slots act ! j = Some q"
      by (auto simp: in_set_conv_nth)
    moreover from this p False have "j \<noteq> i" by auto
    ultimately have "act_slots act' ! j = Some q" "j < length (act_slots act')" using act' by simp_all
    then show ?thesis by (auto simp: in_set_conv_nth)
  qed
  moreover have "0 \<le> act_max act'" "length (act_slots act') = nat (act_max act')"
    using act_okD(1,2) [OF ok] act' by simp_all
  ultimately show ?thesis
    using slot unfolding act_ok_def by blast
qed

lemma tracked_set:
  assumes ok: "act_ok act w" "act_ok act' w'"
    and r: "row act' w' = (row act w)(i \<mapsto> a)"
    and names: "\<And>j b. row act w j = Some b \<Longrightarrow> a_name b = a_name a \<longleftrightarrow> j = i"
  shows "tracked act' w' = (tracked act w)(a_name a \<mapsto> act_entry a)"
proof
  fix name
  show "tracked act' w' name = ((tracked act w)(a_name a \<mapsto> act_entry a)) name"
  proof (cases "name = a_name a")
    case True
    then show ?thesis using tracked_Some [OF ok(2), of i a] by (simp add: r)
  next
    case False
    have "tracked act' w' name = Some e \<longleftrightarrow> tracked act w name = Some e" for e
      unfolding tracked_eq_Some [OF ok(1)] tracked_eq_Some [OF ok(2)] r
      using False names by (metis fun_upd_apply option.inject)
    then have "tracked act' w' name = tracked act w name" by (rule option_eqI)
    with False show ?thesis by simp
  qed
qed

lemma row_clear:
  assumes ok: "act_ok act w" and i: "i < length (act_slots act)" and p: "act_slots act ! i = Some p"
    and w': "w_heap w' = (w_heap w)(p := None)" and act': "act' = act\<lparr>act_slots := (act_slots act)[i := None]\<rparr>"
  shows "row act' w' = (row act w)(i := None)"
proof
  fix j
  have "act_slots act ! j \<noteq> Some p" if "j < length (act_slots act)" "j \<noteq> i"
    using slots_distinct [OF ok i that(1) p] that(2) by auto
  with i w' act' show "row act' w' j = ((row act w)(i := None)) j"
    by (cases "act_slots act ! j") (auto simp: row_def nth_list_update)
qed

lemma act_ok_clear:
  assumes ok: "act_ok act w" and i: "i < length (act_slots act)" and p: "act_slots act ! i = Some p"
    and w': "w_heap w' = (w_heap w)(p := None)" and act': "act' = act\<lparr>act_slots := (act_slots act)[i := None]\<rparr>"
  shows "act_ok act' w'"
proof -
  note r = row_clear [OF ok i p w' act']
  have slot: "\<exists>b. w_heap w' q = Some b \<and> a_id b = int j \<and> terminated (a_name b)"
    if j: "j < length (act_slots act')" "act_slots act' ! j = Some q" for j q
  proof -
    from j i act' have "j \<noteq> i" by auto
    with j act' have "act_slots act ! j = Some q" "j < length (act_slots act)" "j \<noteq> i" by simp_all
    moreover from this have "q \<noteq> p" using slots_distinct [OF ok i _ p] by auto
    ultimately show ?thesis using act_okD(4) [OF ok] w' by fastforce
  qed
  have "j = k" if "row act' w' j = Some b" "row act' w' k = Some c" "a_name b = a_name c" for j k b c
    using that act_okD(3) [OF ok] unfolding r by (auto split: if_splits)
  moreover have "Some q \<in> set (act_slots act')" if "w_heap w' q \<noteq> None" for q
  proof -
    from that w' ok have "Some q \<in> set (act_slots act)" "q \<noteq> p"
      by (auto simp: act_ok_def split: if_splits)
    then obtain j where "j < length (act_slots act)" "act_slots act ! j = Some q"
      by (auto simp: in_set_conv_nth)
    moreover from this p \<open>q \<noteq> p\<close> have "j \<noteq> i" by auto
    ultimately have "act_slots act' ! j = Some q" "j < length (act_slots act')" using act' by simp_all
    then show ?thesis by (auto simp: in_set_conv_nth)
  qed
  moreover have "0 \<le> act_max act'" "length (act_slots act') = nat (act_max act')"
    using act_okD(1,2) [OF ok] act' by simp_all
  ultimately show ?thesis
    using slot unfolding act_ok_def by blast
qed

section \<open>Inserting and refreshing an action\<close>

lemma act_find_None:
  assumes "act_ok act w" "terminated name" "\<And>i a. row act w i = Some a \<Longrightarrow> a_name a \<noteq> name"
  shows "act_find (w_heap w) (act_slots act) name [0..<nat (act_max act)] = Inr None"
proof -
  have "find (named act w name) [0..<nat (act_max act)] = None"
    using assms(3) by (auto simp: find_None_iff named_def split: option.splits)
  with assms(1,2) act_okD(2) [OF assms(1)] show ?thesis
    by (simp add: act_find_find lessThan_atLeast0)
qed

lemma act_find_Some:
  assumes "act_ok act w" "row act w i = Some a" "act_slots act ! i = Some p"
  shows "act_find (w_heap w) (act_slots act) (a_name a) [0..<nat (act_max act)] = Inr (Some p)"
proof -
  note i = act_okD(5) [OF assms(1,2)]
  have "find (named act w (a_name a)) [0..<nat (act_max act)] = Some i"
  proof (rule find_unique)
    show "i \<in> set [0..<nat (act_max act)]" using i act_okD(2) [OF assms(1)] by simp
    show "named act w (a_name a) i" using assms(2) by (simp add: named_def)
    show "j = i" if "named act w (a_name a) j" for j
      using that act_okD(3) [OF assms(1) _ assms(2), of j]
      by (cases "row act w j") (simp_all add: named_def)
  qed
  with assms i act_okD(2) [OF assms(1)] show ?thesis
    by (simp add: act_find_find lessThan_atLeast0)
qed

lemma terminated_key: "act_key pr dp = Inr name \<Longrightarrow> terminated name"
  using terminated_snprintf
  by (auto simp: act_key_def res_bind_Inr_iff split: option.splits)

lemma tick_simps [simp]:
  "w_heap (tick w) = w_heap w" "w_files (tick w) = w_files w" "w_dirs (tick w) = w_dirs w"
  "w_texts (tick w) = w_texts w" "w_execs (tick w) = w_execs w" "w_ticks (tick w) = Suc (w_ticks w)"
  by (simp_all add: tick_def)

text \<open>The world after a refresh of the action \<open>a\<close> at \<open>p\<close>.\<close>

definition refreshed ::
  "('c, 'r, 'f) act_env \<Rightarrow> ptr \<Rightarrow> 'f nfd_action \<Rightarrow> nfd_counter \<Rightarrow> ('c, 'f) act_world \<Rightarrow> ('c, 'f) act_world" where
  "refreshed E p a c w =
     (tick (tick w))\<lparr>w_heap := (w_heap w)(p \<mapsto> a\<lparr>a_tm_updated := now E (tick w), a_counters := c\<rparr>)\<rparr>"

lemma upsert_refresh:
  assumes "act_ok act w" "act_key pr dp = Inr name" "row act w i = Some a" "a_name a = name"
    "act_slots act ! i = Some p"
  shows "nfd_act_upsert E opt act dp (Some pr) c w = Inr (1, act, refreshed E p a c w)"
proof -
  note i = act_okD(5) [OF assms(1,3)]
  with assms(3,5) have "w_heap w p = Some a" by (simp add: row_def)
  with act_find_Some [OF assms(1,3,5)] assms(2,4) show ?thesis
    by (simp add: nfd_act_upsert_def action_at_def refreshed_def Let_def)
qed

lemma upsert_absent:
  assumes "act_ok act w" "act_key pr dp = Inr name" "\<And>i a. row act w i = Some a \<Longrightarrow> a_name a \<noteq> name"
  shows "nfd_act_upsert E opt act dp (Some pr) c w = act_insert E opt act name dp pr c w"
  using act_find_None [OF assms(1) terminated_key [OF assms(2)] assms(3)] assms(2)
  by (simp add: nfd_act_upsert_def)

text \<open>\<open>first_free act i\<close>: slot \<open>i\<close> is empty and the slots before it are not.\<close>

definition first_free :: "nfd_actions \<Rightarrow> nat \<Rightarrow> bool" where
  "first_free act i \<longleftrightarrow> i < length (act_slots act) \<and> act_slots act ! i = None \<and>
     (\<forall>j < i. act_slots act ! j \<noteq> None)"

lemma find_upt_first:
  "i < n \<Longrightarrow> P i \<Longrightarrow> \<forall>j < i. \<not> P j \<Longrightarrow> find P [0..<n] = Some i"
  by (auto simp: find_Some_iff intro!: exI [of _ i])

lemma free_slot_first:
  assumes "act_ok act w" "first_free act i"
  shows "act_free_slot (act_slots act) [0..<nat (act_max act)] (nat (act_max act)) = Inr i"
proof -
  have "find (\<lambda>i. act_slots act ! i = None) [0..<nat (act_max act)] = Some i"
    using assms(2) act_okD(2) [OF assms(1)] by (intro find_upt_first) (auto simp: first_free_def)
  with act_okD(2) [OF assms(1)] show ?thesis
    by (simp add: act_free_slot_find lessThan_atLeast0)
qed

lemma free_slot_full:
  assumes "act_ok act w" "None \<notin> set (act_slots act)"
  shows "act_free_slot (act_slots act) [0..<nat (act_max act)] (nat (act_max act)) = Inr (nat (act_max act))"
proof -
  have "find (\<lambda>i. act_slots act ! i = None) [0..<nat (act_max act)] = None"
    using assms(2) act_okD(2) [OF assms(1)] by (auto simp: find_None_iff) (metis nth_mem option.exhaust)
  with act_okD(2) [OF assms(1)] show ?thesis
    by (simp add: act_free_slot_find lessThan_atLeast0)
qed

lemma first_free_exists: "None \<in> set (act_slots act) \<Longrightarrow> \<exists>i. first_free act i"
proof -
  assume "None \<in> set (act_slots act)"
  then obtain k where "k < length (act_slots act)" "act_slots act ! k = None"
    by (auto simp: in_set_conv_nth)
  then obtain i where "i < length (act_slots act) \<and> act_slots act ! i = None"
    "\<forall>j < i. \<not> (j < length (act_slots act) \<and> act_slots act ! j = None)"
    using exists_least_iff [of "\<lambda>i. i < length (act_slots act) \<and> act_slots act ! i = None"] by blast
  then have "first_free act i" by (auto simp: first_free_def)
  then show ?thesis ..
qed

text \<open>The commands that a call of \<open>nfd_act_cmd\<close> runs.\<close>

definition ran :: "('c, 'r, 'f) act_env \<Rightarrow> string list \<Rightarrow> string \<Rightarrow> string list" where
  "ran E h c = (case e_exec E h c of None \<Rightarrow> [] | Some st \<Rightarrow> [c])"

lemma nfd_act_cmd_world:
  "nfd_act_cmd E opt a cmd w = (r, w') \<Longrightarrow>
    w' = w\<lparr>w_execs := w_execs w @ ran E (w_execs w) (act_command opt a cmd)\<rparr>"
  by (auto simp: nfd_act_cmd_def ran_def Let_def split: option.splits)

lemma act_fill_simps [simp]:
  "a_name (act_fill name dp c t a) = c_strncpy name MAX_STRING"
  "a_id (act_fill name dp c t a) = a_id a"
  "a_counters (act_fill name dp c t a) = c"
  "a_tm_start (act_fill name dp c t a) = t"
  by (simp_all add: act_fill_def Let_def split: option.splits)

lemma act_fill_strings:
  "terminated name \<Longrightarrow> dyn_ok dp \<Longrightarrow> action_strings (act_fill name dp c t (zero_action\<lparr>a_id := n\<rparr>))"
  by (auto simp: act_fill_def action_strings_def dyn_ok_def zero_action_def empty_dyn_def
      terminated_strncpy Let_def split: option.splits)

lemma act_insert_room:
  assumes ok: "act_ok act w" and i: "first_free act i" "int i < act_max act - 1"
    and p: "e_malloc E (\<lambda>p. w_heap w p \<noteq> None) = Some p"
    and safe: "terminated name" "prof_ok pr" "dyn_ok dp" "flow_file_ok E"
  shows "\<exists>a w'. act_insert E opt act name dp pr c w =
      Inr (1, act\<lparr>act_slots := (act_slots act)[i := Some p]\<rparr>, w') \<and>
    w_heap w' = (w_heap w)(p \<mapsto> a) \<and> a_name a = name \<and> a_id a = int i \<and> a_counters a = c \<and>
    a_tm_start a = now E w \<and> a_tm_updated a = e_time E (Suc (w_ticks w)) \<and>
    w_ticks w' = Suc (Suc (w_ticks w)) \<and>
    w_execs w' = w_execs w @ ran E (w_execs w) (act_command opt a NFD_ACTION_START)"
proof -
  let ?a0 = "act_fill name dp c (now E w) (zero_action\<lparr>a_id := int i\<rparr>) :: 'b nfd_action"
  have "action_strings ?a0" by (rule act_fill_strings [OF safe(1,3)])
  from nfd_act_update_dir_total [OF _ this safe(4), where p = pr and opt = opt and w = "tick w"]
  obtain r a1 w1 where ud: "nfd_act_update_dir E opt (Some pr) ?a0 (tick w) = Inr (r, a1, w1)"
    using safe(2) by (auto simp: prof_ok_def)
  note k = nfd_act_update_dir_keeps [OF ud]
  obtain r' w2 where cm: "nfd_act_cmd E opt a1 NFD_ACTION_START w1 = (r', w2)"
    by (cases "nfd_act_cmd E opt a1 NFD_ACTION_START w1") auto
  note w2 = nfd_act_cmd_world [OF cm]
  let ?a = "a1\<lparr>a_tm_updated := now E w2, a_counters := c\<rparr>"
  let ?w = "(tick w2)\<lparr>w_heap := (w_heap w2)(p \<mapsto> ?a)\<rparr>"
  have "act_insert E opt act name dp pr c w =
      Inr (1, act\<lparr>act_slots := (act_slots act)[i := Some p]\<rparr>, ?w)"
    using p i(2) ud cm by (simp add: act_insert_def free_slot_first [OF ok i(1)] zless_nat_eq_int_zless)
  moreover have "act_command opt ?a NFD_ACTION_START = act_command opt a1 NFD_ACTION_START"
    by (simp add: act_command_def)
  ultimately show ?thesis
    using k w2 safe(1)
    by (intro exI [of _ ?a] exI [of _ ?w])
      (simp add: same_action_def same_control_def terminated_strncpy now_def)
qed

lemma act_insert_last:
  assumes ok: "act_ok act w" and i: "first_free act i" "int i = act_max act - 1"
    and p: "e_malloc E (\<lambda>p. w_heap w p \<noteq> None) = Some p"
  shows "act_insert E opt act name dp pr c w =
    Inr (0, act\<lparr>act_slots := (act_slots act)[i := Some p]\<rparr>, w\<lparr>w_heap := (w_heap w)(p := None)\<rparr>)"
  using p i(2) by (simp add: act_insert_def free_slot_first [OF ok i(1)] zless_nat_eq_int_zless)

section \<open>Expiry\<close>

definition expired :: "int \<Rightarrow> int \<Rightarrow> 'f nfd_action option \<Rightarrow> 'f nfd_action option" where
  "expired d t r = (case r of None \<Rightarrow> None | Some a \<Rightarrow> if a_tm_updated a + d < t then Some a else None)"

definition stop_all ::
  "('c, 'r, 'f) act_env \<Rightarrow> 'f nfd_options \<Rightarrow> string list \<Rightarrow> 'f nfd_action list \<Rightarrow> string list" where
  "stop_all E opt = foldl (\<lambda>h a. h @ ran E h (act_command opt a NFD_ACTION_STOP))"

text \<open>The clock stands at \<open>t\<close> from the current reading on.\<close>

definition clock_at :: "('c, 'r, 'f) act_env \<Rightarrow> ('c, 'f) act_world \<Rightarrow> int \<Rightarrow> bool" where
  "clock_at E w t \<longleftrightarrow> (\<forall>n \<ge> w_ticks w. e_time E n = t)"

lemma stop_all_Cons:
  "stop_all E opt h (a # as) = stop_all E opt (h @ ran E h (act_command opt a NFD_ACTION_STOP)) as"
  by (simp add: stop_all_def)

lemma stop_all_Nil [simp]: "stop_all E opt h [] = h"
  by (simp add: stop_all_def)

lemma row_cong: "act_slots act' = act_slots act \<Longrightarrow> w_heap w' = w_heap w \<Longrightarrow> row act' w' = row act w"
  by (rule ext) (simp add: row_def)

lemma act_ok_cong: "act_ok act w \<Longrightarrow> w_heap w' = w_heap w \<Longrightarrow> act_ok act w'"
  unfolding act_ok_def by (simp add: row_cong [of act act w' w])

lemma act_expire_slot_spec:
  assumes ok: "act_ok act w" and i: "i < length (act_slots act)" and t: "clock_at E w t"
  shows "\<exists>act' w'. act_expire_slot E opt d i (act, w) = Inr (act', w') \<and> act_ok act' w' \<and>
    act_max act' = act_max act \<and> length (act_slots act') = length (act_slots act) \<and> clock_at E w' t \<and>
    row act' w' = (if expired d t (row act w i) = None then row act w else (row act w)(i := None)) \<and>
    w_execs w' = (case expired d t (row act w i) of
       None \<Rightarrow> w_execs w
     | Some a \<Rightarrow> w_execs w @ ran E (w_execs w) (act_command opt a NFD_ACTION_STOP))"
proof (cases "act_slots act ! i")
  case None
  with i ok t show ?thesis
    by (simp add: act_expire_slot_def slot_ptr_def row_def expired_def)
next
  case (Some p)
  from act_okD(4) [OF ok i this] obtain a where a: "w_heap w p = Some a" "row act w i = Some a" by blast
  have now: "now E w = t" using t by (simp add: now_def clock_at_def)
  show ?thesis
  proof (cases "a_tm_updated a + d < t")
    case False
    with i a now Some ok t show ?thesis
      by (simp add: act_expire_slot_def slot_ptr_def action_at_def expired_def clock_at_def
          act_ok_cong [of act w] row_cong [of act act "tick w" w])
  next
    case True
    obtain r w1 where cm: "nfd_act_cmd E opt a NFD_ACTION_STOP (tick w) = (r, w1)"
      by (cases "nfd_act_cmd E opt a NFD_ACTION_STOP (tick w)") auto
    note w1 = nfd_act_cmd_world [OF cm]
    let ?act = "act\<lparr>act_slots := (act_slots act)[i := None]\<rparr>"
      and ?w = "w1\<lparr>w_heap := (w_heap w1)(p := None)\<rparr>"
    have "act_expire_slot E opt d i (act, w) = Inr (?act, ?w)"
      using i a now Some True cm by (simp add: act_expire_slot_def slot_ptr_def action_at_def)
    moreover have h: "w_heap ?w = (w_heap w)(p := None)" using w1 by simp
    ultimately show ?thesis
      using act_ok_clear [OF ok i Some h refl] row_clear [OF ok i Some h refl] w1 a True t
      by (simp add: expired_def clock_at_def)
  qed
qed

lemma act_expire_slots_spec:
  assumes "act_ok act w" "set is \<subseteq> {..<length (act_slots act)}" "distinct is" "clock_at E w t"
  shows "\<exists>act' w'. act_expire_slots E opt d is (act, w) = Inr (act', w') \<and> act_ok act' w' \<and>
    act_max act' = act_max act \<and>
    row act' w' = (\<lambda>i. if i \<in> set is \<and> expired d t (row act w i) \<noteq> None then None else row act w i) \<and>
    w_execs w' = stop_all E opt (w_execs w) (List.map_filter (\<lambda>i. expired d t (row act w i)) is)"
  using assms
proof (induction "is" arbitrary: act w)
  case Nil
  then show ?case by (simp add: map_filter_simps)
next
  case (Cons i "is")
  from act_expire_slot_spec [OF Cons.prems(1) _ Cons.prems(4), of i opt d] Cons.prems(2)
  obtain act1 w1 where s: "act_expire_slot E opt d i (act, w) = Inr (act1, w1)" "act_ok act1 w1"
    "act_max act1 = act_max act" "length (act_slots act1) = length (act_slots act)" "clock_at E w1 t"
    "row act1 w1 = (if expired d t (row act w i) = None then row act w else (row act w)(i := None))"
    "w_execs w1 = (case expired d t (row act w i) of
       None \<Rightarrow> w_execs w
     | Some a \<Rightarrow> w_execs w @ ran E (w_execs w) (act_command opt a NFD_ACTION_STOP))"
    by auto
  from Cons.IH [OF s(2) _ _ s(5)] Cons.prems(2,3) s(4) obtain act2 w2 where
    s2: "act_expire_slots E opt d is (act1, w1) = Inr (act2, w2)" "act_ok act2 w2" "act_max act2 = act_max act1"
    "row act2 w2 = (\<lambda>i. if i \<in> set is \<and> expired d t (row act1 w1 i) \<noteq> None then None else row act1 w1 i)"
    "w_execs w2 = stop_all E opt (w_execs w1) (List.map_filter (\<lambda>i. expired d t (row act1 w1 i)) is)"
    by auto
  have other: "row act1 w1 j = row act w j" if "j \<in> set is" for j
    using that Cons.prems(3) s(6) by auto
  have "List.map_filter (\<lambda>i. expired d t (row act1 w1 i)) is = List.map_filter (\<lambda>i. expired d t (row act w i)) is"
    using other by (simp add: List.map_filter_def cong: filter_cong map_cong)
  then have "w_execs w2 = stop_all E opt (w_execs w) (List.map_filter (\<lambda>i. expired d t (row act w i)) (i # is))"
    using s2(5) s(7) by (simp add: map_filter_simps stop_all_Cons split: option.splits)
  moreover have "row act2 w2 =
      (\<lambda>j. if j \<in> set (i # is) \<and> expired d t (row act w j) \<noteq> None then None else row act w j)"
    using s2(4) s(6) Cons.prems(3) by (auto simp: fun_eq_iff expired_def split: option.splits)
  ultimately show ?case using s s2 by simp
qed

lemma tracked_expire:
  assumes "act_ok act w" "act_ok act' w'"
    and "row act' w' = (\<lambda>i. if i < length (act_slots act) \<and> expired d t (row act w i) \<noteq> None then None else row act w i)"
  shows "tracked act' w' =
    (\<lambda>k. case tracked act w k of None \<Rightarrow> None | Some e \<Rightarrow> if snd e + d < t then None else Some e)"
proof (intro ext option_eqI)
  fix name e
  have updated: "a_tm_updated a = snd (act_entry a)" for a :: "'b nfd_action"
    by (simp add: act_entry_def)
  have "tracked act' w' name = Some e \<longleftrightarrow>
      (\<exists>i a. row act w i = Some a \<and> \<not> a_tm_updated a + d < t \<and> a_name a = name \<and> act_entry a = e)"
    unfolding tracked_eq_Some [OF assms(2)] assms(3)
    using act_okD(5) [OF assms(1)] by (auto simp: expired_def split: option.splits if_splits) blast+
  also have "\<dots> \<longleftrightarrow> tracked act w name = Some e \<and> \<not> snd e + d < t"
    unfolding tracked_eq_Some [OF assms(1)] updated by blast
  finally show "tracked act' w' name = Some e \<longleftrightarrow>
      (case tracked act w name of None \<Rightarrow> None | Some e \<Rightarrow> if snd e + d < t then None else Some e) = Some e"
    by (auto split: option.splits)
qed

lemma expired_list:
  "List.map_filter (\<lambda>i. expired d t (row act w i)) xs =
    filter (\<lambda>a. a_tm_updated a + d < t) (List.map_filter (row act w) xs)"
  by (induction xs) (auto simp: map_filter_simps expired_def split: option.splits)

lemma nfd_act_expire_spec:
  assumes "act_ok act w" "clock_at E w t"
  shows "\<exists>act' w'. nfd_act_expire E opt act d w = Inr (1, act', w') \<and> act_ok act' w' \<and>
    act_max act' = act_max act \<and>
    row act' w' = (\<lambda>i. if i < length (act_slots act) \<and> expired d t (row act w i) \<noteq> None then None else row act w i) \<and>
    w_execs w' = stop_all E opt (w_execs w) (filter (\<lambda>a. a_tm_updated a + d < t) (act_list act w))"
  using act_expire_slots_spec [OF assms(1) _ _ assms(2), of "[0..<nat (act_max act)]" opt d]
    act_okD(2) [OF assms(1)]
  by (auto simp: nfd_act_expire_def expired_list act_list_def lessThan_atLeast0)

section \<open>How many actions the table holds\<close>

lemma dom_tracked: "dom (tracked act w) = a_name ` set (act_list act w)"
proof -
  have "tracked act w k = None \<longleftrightarrow> k \<notin> a_name ` set (act_list act w)" for k
    by (auto simp: tracked_def find_None_iff)
  then show ?thesis by (intro set_eqI) (simp only: domIff, blast)
qed

lemma finite_tracked: "finite (dom (tracked act w))"
  by (simp add: dom_tracked)

lemma used_le_tracked:
  assumes ok: "act_ok act w" and k: "k \<le> length (act_slots act)" "\<forall>j < k. act_slots act ! j \<noteq> None"
  shows "k \<le> card (dom (tracked act w))"
proof -
  have "\<forall>j < k. \<exists>a. row act w j = Some a"
    using k row_None [OF ok] by (metis not_None_eq order_less_le_trans)
  then obtain f where f: "\<And>j. j < k \<Longrightarrow> row act w j = Some (f j)" by metis
  have inj: "inj_on (\<lambda>j. a_name (f j)) {..<k}"
    using act_okD(3) [OF ok f f] by (auto intro: inj_onI)
  have "(\<lambda>j. a_name (f j)) ` {..<k} \<subseteq> dom (tracked act w)"
    using tracked_Some [OF ok f] by auto
  from card_inj_on_le [OF inj this finite_tracked] show ?thesis by simp
qed

lemma room_first_free:
  assumes ok: "act_ok act w" and room: "int (card (dom (tracked act w))) < act_max act - 1"
  shows "\<exists>i. first_free act i \<and> int i < act_max act - 1"
proof -
  have "None \<in> set (act_slots act)"
  proof (rule ccontr)
    assume "None \<notin> set (act_slots act)"
    then have "\<forall>j < length (act_slots act). act_slots act ! j \<noteq> None" by (metis nth_mem)
    from used_le_tracked [OF ok order_refl this] act_okD(1,2) [OF ok] room show False by linarith
  qed
  from first_free_exists [OF this] obtain i where i: "first_free act i" ..
  then have "i \<le> card (dom (tracked act w))"
    by (intro used_le_tracked [OF ok]) (auto simp: first_free_def)
  with i room show ?thesis by force
qed

lemma heap_card:
  assumes "act_ok act w"
  shows "finite {p. w_heap w p \<noteq> None}" "card {p. w_heap w p \<noteq> None} \<le> length (act_slots act)"
proof -
  have sub: "{p. w_heap w p \<noteq> None} \<subseteq> the ` set (act_slots act)"
  proof
    fix p assume "p \<in> {p. w_heap w p \<noteq> None}"
    with assms have "Some p \<in> set (act_slots act)" unfolding act_ok_def by blast
    then show "p \<in> the ` set (act_slots act)" by (metis image_eqI option.sel)
  qed
  then show "finite {p. w_heap w p \<noteq> None}" by (rule finite_subset) simp
  from card_mono [OF _ sub] have "card {p. w_heap w p \<noteq> None} \<le> card (the ` set (act_slots act))"
    by simp
  also have "\<dots> \<le> card (set (act_slots act))" by (rule card_image_le) simp
  also have "\<dots> \<le> length (act_slots act)" by (rule card_length)
  finally show "card {p. w_heap w p \<noteq> None} \<le> length (act_slots act)" .
qed

section \<open>The table as a map of limited size\<close>

text \<open>
  The interface that the dump loop relies on: evaluating a profile records the profile when it is
  over its limits and does nothing otherwise, and a sweep forgets the entries that are too old. The
  client lemma reads any sequence of the two on a map, as long as there is room for the keys.
\<close>

datatype 'x table_event = Hit 'x | Sweep int

fun table_step ::
  "('x \<Rightarrow> bool) \<Rightarrow> ('x \<Rightarrow> 'k) \<Rightarrow> ('x \<Rightarrow> 'e) \<Rightarrow> (int \<Rightarrow> 'e \<Rightarrow> bool) \<Rightarrow> ('k \<Rightarrow> 'e option) \<Rightarrow> 'x table_event \<Rightarrow> 'k \<Rightarrow> 'e option" where
  "table_step over key entry old m (Hit x) = (if over x then m(key x \<mapsto> entry x) else m)"
| "table_step over key entry old m (Sweep t) =
     (\<lambda>k. case m k of None \<Rightarrow> None | Some e \<Rightarrow> if old t e then None else Some e)"

fun table_run :: "('x \<Rightarrow> 's \<Rightarrow> 's res) \<Rightarrow> (int \<Rightarrow> 's \<Rightarrow> 's res) \<Rightarrow> 'x table_event list \<Rightarrow> 's \<Rightarrow> 's res" where
  "table_run hit sweep [] s = Inr s"
| "table_run hit sweep (Hit x # es) s = res_bind (hit x s) (table_run hit sweep es)"
| "table_run hit sweep (Sweep t # es) s = res_bind (sweep t s) (table_run hit sweep es)"

fun event_ok :: "('x \<Rightarrow> bool) \<Rightarrow> ('x \<Rightarrow> 'k) \<Rightarrow> 'k set \<Rightarrow> 'x table_event \<Rightarrow> bool" where
  "event_ok good key K (Hit x) \<longleftrightarrow> good x \<and> key x \<in> K"
| "event_ok good key K (Sweep t) \<longleftrightarrow> True"

locale action_table =
  fixes ok :: "'s \<Rightarrow> bool"
    and entries :: "'s \<Rightarrow> 'k \<Rightarrow> 'e option"
    and hit :: "'x \<Rightarrow> 's \<Rightarrow> 's res"
    and sweep :: "int \<Rightarrow> 's \<Rightarrow> 's res"
    and good :: "'x \<Rightarrow> bool"
    and over :: "'x \<Rightarrow> bool"
    and key :: "'x \<Rightarrow> 'k"
    and entry :: "'x \<Rightarrow> 'e"
    and old :: "int \<Rightarrow> 'e \<Rightarrow> bool"
    and room :: nat
  assumes finite_entries: "ok s \<Longrightarrow> finite (dom (entries s))"
    and hit_over: "ok s \<Longrightarrow> good x \<Longrightarrow> over x \<Longrightarrow> card (dom (entries s) - {key x}) < room \<Longrightarrow>
      \<exists>s'. hit x s = Inr s' \<and> ok s' \<and> entries s' = (entries s)(key x \<mapsto> entry x)"
    and hit_under: "ok s \<Longrightarrow> good x \<Longrightarrow> \<not> over x \<Longrightarrow> hit x s = Inr s"
    and sweep_old: "ok s \<Longrightarrow> \<exists>s'. sweep t s = Inr s' \<and> ok s' \<and>
      entries s' = (\<lambda>k. case entries s k of None \<Rightarrow> None | Some e \<Rightarrow> if old t e then None else Some e)"
begin

lemma step_ok:
  assumes "ok s" "event_ok good key K ev" "finite K" "card K \<le> room" "dom (entries s) \<subseteq> K"
  shows "\<exists>s'. table_run hit sweep [ev] s = Inr s' \<and> ok s' \<and> dom (entries s') \<subseteq> K \<and>
    entries s' = table_step over key entry old (entries s) ev"
proof (cases ev)
  case (Hit x)
  show ?thesis
  proof (cases "over x")
    case True
    from Hit assms have "dom (entries s) - {key x} \<subset> K" by auto
    from psubset_card_mono [OF assms(3) this] assms(4)
    have "card (dom (entries s) - {key x}) < room" by simp
    from hit_over [OF assms(1) _ True this] Hit assms True show ?thesis by auto
  qed (use Hit assms hit_under in simp)
next
  case (Sweep t)
  from sweep_old [OF assms(1), of t] obtain s' where s': "sweep t s = Inr s'" "ok s'"
    "entries s' = (\<lambda>k. case entries s k of None \<Rightarrow> None | Some e \<Rightarrow> if old t e then None else Some e)"
    by blast
  then have "dom (entries s') \<subseteq> dom (entries s)"
    by (auto simp: dom_def split: option.splits)
  with s' Sweep assms show ?thesis by auto
qed

lemma run_refines:
  assumes "ok s" "\<forall>ev \<in> set es. event_ok good key K ev" "finite K" "card K \<le> room" "dom (entries s) \<subseteq> K"
  shows "\<exists>s'. table_run hit sweep es s = Inr s' \<and> ok s' \<and>
    entries s' = foldl (table_step over key entry old) (entries s) es"
  using assms(1,2,5)
proof (induction es arbitrary: s)
  case (Cons ev es)
  from step_ok [OF Cons.prems(1) _ assms(3,4) Cons.prems(3), of ev] Cons.prems(2) obtain s1 where
    s1: "table_run hit sweep [ev] s = Inr s1" "ok s1" "dom (entries s1) \<subseteq> K"
    "entries s1 = table_step over key entry old (entries s) ev" by auto
  from Cons.IH [OF s1(2) _ s1(3)] Cons.prems(2) s1(4) obtain s' where
    "table_run hit sweep es s1 = Inr s'" "ok s'"
    "entries s' = foldl (table_step over key entry old) (entries s) (ev # es)" by auto
  with s1(1) show ?case by (cases ev) (auto simp: res_bind_Inr_iff)
qed simp

end

section \<open>The table of the code is such a table\<close>

type_synonym 'f over_event = "int \<times> 'f nfd_profile \<times> nfd_dyn_profile option \<times> nfd_counter"

text \<open>One event happens within a second: the clock shows the time of the event all along.\<close>

definition at :: "int \<Rightarrow> ('c, 'r, 'f) act_env \<Rightarrow> ('c, 'r, 'f) act_env" where
  "at t E = E\<lparr>e_time := \<lambda>_. t\<rparr>"

definition env_ok :: "('c, 'r, 'f) act_env \<Rightarrow> nat \<Rightarrow> bool" where
  "env_ok E n \<longleftrightarrow> flow_file_ok E \<and>
     (\<forall>used p. e_malloc E used = Some p \<longrightarrow> \<not> used p) \<and>
     (\<forall>used. finite (Collect used) \<and> card (Collect used) \<le> n \<longrightarrow> e_malloc E used \<noteq> None)"

definition tracker_ok ::
  "('c, 'r, 'f) act_env \<Rightarrow> nat \<Rightarrow> int \<Rightarrow> int \<Rightarrow> 'f nfd_options \<times> ('c, 'f) act_world \<Rightarrow> bool" where
  "tracker_ok E n win delay s \<longleftrightarrow> env_ok E n \<and> act_ok (o_actions (fst s)) (snd s) \<and>
     act_max (o_actions (fst s)) = int n \<and> o_last_window_size (fst s) = win \<and>
     u64_of_int win \<noteq> 0 \<and> o_stop_delay (fst s) = delay"

definition tracker_entries ::
  "'f nfd_options \<times> ('c, 'f) act_world \<Rightarrow> string \<Rightarrow> (nfd_counter \<times> int) option" where
  "tracker_entries s = tracked (o_actions (fst s)) (snd s)"

definition tracker_hit ::
  "('c, 'r, 'f) act_env \<Rightarrow> 'f over_event \<Rightarrow> 'f nfd_options \<times> ('c, 'f) act_world
    \<Rightarrow> ('f nfd_options \<times> ('c, 'f) act_world) res" where
  "tracker_hit E x s = (case x of (t, pr, dp, c) \<Rightarrow>
     map_sum id snd (nfd_act_eval_profile (at t E) (fst s) pr dp c (snd s)))"

definition tracker_sweep ::
  "('c, 'r, 'f) act_env \<Rightarrow> int \<Rightarrow> 'f nfd_options \<times> ('c, 'f) act_world
    \<Rightarrow> ('f nfd_options \<times> ('c, 'f) act_world) res" where
  "tracker_sweep E t s =
     map_sum id (\<lambda>(r, act', w'). ((fst s)\<lparr>o_actions := act'\<rparr>, w'))
       (nfd_act_expire (at t E) (fst s) (o_actions (fst s)) (o_stop_delay (fst s)) (snd s))"

definition hit_good :: "'f over_event \<Rightarrow> bool" where
  "hit_good x = (case x of (t, pr, dp, c) \<Rightarrow> prof_ok pr \<and> dyn_ok dp)"

definition hit_over :: "int \<Rightarrow> 'f over_event \<Rightarrow> bool" where
  "hit_over win x = (case x of (t, pr, dp, c) \<Rightarrow>
     let l = p_limits pr; wd = u64_of_int win in
     (c_bytes l \<noteq> 0 \<and> c_bytes l \<le> c_bytes c div wd) \<or> (c_pkts l \<noteq> 0 \<and> c_pkts l \<le> c_pkts c div wd) \<or>
     (c_flows l \<noteq> 0 \<and> c_flows l \<le> c_flows c div wd))"

definition hit_key :: "'f over_event \<Rightarrow> string" where
  "hit_key x = (case x of (t, pr, dp, c) \<Rightarrow>
     c_snprintf MAX_STRING (case dp of None \<Rightarrow> p_name pr | Some d \<Rightarrow> p_name pr @ ''/'' @ dp_key d))"

definition hit_entry :: "'f over_event \<Rightarrow> nfd_counter \<times> int" where
  "hit_entry x = (case x of (t, pr, dp, c) \<Rightarrow> (c, t))"

definition too_old :: "int \<Rightarrow> int \<Rightarrow> nfd_counter \<times> int \<Rightarrow> bool" where
  "too_old delay t e \<longleftrightarrow> snd e + delay < t"

lemma at_simps [simp]:
  "e_lnf (at t E) = e_lnf E" "e_time (at t E) n = t" "e_malloc (at t E) = e_malloc E"
  "flow_file_ok (at t E) = flow_file_ok E" "now (at t E) w = t" "clock_at (at t E) w t"
  by (simp_all add: at_def flow_file_ok_def now_def clock_at_def)

lemma act_key_ok:
  "prof_ok pr \<Longrightarrow> dyn_ok dp \<Longrightarrow> act_key pr dp = Inr (hit_key (t, pr, dp, c))"
  by (simp add: act_key_def hit_key_def prof_ok_def dyn_ok_def split: option.splits)

lemma over_limit_nonzero: "u64_of_int wd \<noteq> 0 \<Longrightarrow> over_limit l c wd = Inr (l \<noteq> 0 \<and> l \<le> c div u64_of_int wd)"
  by (simp add: over_limit_def)

lemma eval_profile_cases:
  assumes "u64_of_int (o_last_window_size opt) \<noteq> 0"
  shows "nfd_act_eval_profile E opt pr dp c w =
    (if hit_over (o_last_window_size opt) (t, pr, dp, c)
     then map_sum id (\<lambda>(r, act', w'). (1, opt\<lparr>o_actions := act'\<rparr>, w'))
            (nfd_act_upsert E opt (o_actions opt) dp (Some pr) c w)
     else Inr (0, opt, w))"
  using assms
  by (cases "nfd_act_upsert E opt (o_actions opt) dp (Some pr) c w")
    (auto simp: nfd_act_eval_profile_def over_limit_nonzero hit_over_def Let_def)

lemma malloc_room:
  assumes env: "env_ok E (nat (act_max act))" and ok: "act_ok act w"
  shows "\<exists>p. e_malloc E (\<lambda>p. w_heap w p \<noteq> None) = Some p \<and> w_heap w p = None"
proof -
  have "e_malloc E (\<lambda>p. w_heap w p \<noteq> None) \<noteq> None"
    using env heap_card [OF ok] act_okD(2) [OF ok] unfolding env_ok_def by simp
  then obtain p where p: "e_malloc E (\<lambda>p. w_heap w p \<noteq> None) = Some p" by blast
  with env have "\<not> w_heap w p \<noteq> None" unfolding env_ok_def by blast
  with p show ?thesis by simp
qed

lemma upsert_tracks:
  assumes ok: "act_ok act w" and env: "env_ok E (nat (act_max act))"
    and safe: "prof_ok pr" "dyn_ok dp" and key: "act_key pr dp = Inr name"
    and room: "int (card (dom (tracked act w) - {name})) < act_max act - 1"
  shows "\<exists>act' w'. nfd_act_upsert (at t E) opt act dp (Some pr) c w = Inr (1, act', w') \<and>
    act_ok act' w' \<and> act_max act' = act_max act \<and> tracked act' w' = (tracked act w)(name \<mapsto> (c, t))"
proof (cases "tracked act w name")
  case (Some e)
  then obtain i a where a: "row act w i = Some a" "a_name a = name"
    by (auto simp: tracked_eq_Some [OF ok])
  note i = act_okD(5) [OF ok a(1)]
  then obtain p where p: "act_slots act ! i = Some p" "w_heap w p = Some a"
    using a(1) by (auto simp: row_def bind_eq_Some_conv)
  let ?a = "a\<lparr>a_tm_updated := t, a_counters := c\<rparr>" and ?w = "refreshed (at t E) p a c w"
  note up = upsert_refresh [OF ok key a p(1), of "at t E" opt c]
  have act: "act = act\<lparr>act_slots := (act_slots act)[i := Some p]\<rparr>"
    using p(1) by (metis list_update_id nfd_actions.surjective nfd_actions.update_convs(2))
  have names: "a_name b = a_name ?a \<longleftrightarrow> j = i" if "row act w j = Some b" for j b
    using that a act_okD(3) [OF ok that a(1)] by auto
  have h: "w_heap ?w = (w_heap w)(p \<mapsto> ?a)" by (simp add: refreshed_def)
  have ok': "act_ok act ?w"
    by (rule act_ok_set [OF ok _ disjI1 [OF p(1)] _ _ names h act]) (use i in simp_all)
  moreover have "tracked act ?w = (tracked act w)(name \<mapsto> (c, t))"
    using tracked_set [OF ok ok' row_set [OF ok _ disjI1 [OF p(1)] h act] names] i a(2)
    by (simp add: act_entry_def)
  ultimately show ?thesis using up by blast
next
  case None
  then have absent: "a_name a \<noteq> name" if "row act w i = Some a" for i a
    using tracked_Some [OF ok that] by auto
  from None have "dom (tracked act w) - {name} = dom (tracked act w)" by auto
  with room have "int (card (dom (tracked act w))) < act_max act - 1" by simp
  from room_first_free [OF ok this] obtain i where
    i: "first_free act i" "int i < act_max act - 1" by blast
  from malloc_room [OF env ok] obtain p where
    p: "e_malloc (at t E) (\<lambda>p. w_heap w p \<noteq> None) = Some p" "w_heap w p = None"
    by auto
  have safe': "terminated name" "flow_file_ok (at t E)"
    using terminated_key [OF key] env by (simp_all add: env_ok_def)
  from act_insert_room [OF ok i p(1) safe'(1) safe safe'(2), of opt c] obtain a w' where
    ins: "act_insert (at t E) opt act name dp pr c w =
        Inr (1, act\<lparr>act_slots := (act_slots act)[i := Some p]\<rparr>, w')"
      "w_heap w' = (w_heap w)(p \<mapsto> a)" "a_name a = name" "a_id a = int i" "act_entry a = (c, t)"
    by (auto simp: act_entry_def)
  let ?act = "act\<lparr>act_slots := (act_slots act)[i := Some p]\<rparr>"
  have slot: "i < length (act_slots act)" "act_slots act ! i = None" using i by (simp_all add: first_free_def)
  have names: "a_name b = a_name a \<longleftrightarrow> j = i" if "row act w j = Some b" for j b
  proof
    show "j = i" if "a_name b = a_name a"
      using absent [OF \<open>row act w j = Some b\<close>] that ins(3) by simp
    show "a_name b = a_name a" if "j = i"
      using \<open>row act w j = Some b\<close> that slot by (simp add: row_def)
  qed
  note new = disjI2 [OF conjI [OF slot(2) p(2)]]
  have ok': "act_ok ?act w'"
    by (rule act_ok_set [OF ok slot(1) new _ _ names ins(2) refl]) (use ins safe' in simp_all)
  moreover have "tracked ?act w' = (tracked act w)(name \<mapsto> (c, t))"
    using tracked_set [OF ok ok' row_set [OF ok slot(1) new ins(2) refl] names] ins(3,5) by simp
  moreover have "nfd_act_upsert (at t E) opt act dp (Some pr) c w = act_insert (at t E) opt act name dp pr c w"
    by (rule upsert_absent [OF ok key absent])
  moreover note ins(1)
  ultimately show ?thesis by auto
qed

interpretation nfd_table: action_table "tracker_ok E n win delay" tracker_entries "tracker_hit E"
    "tracker_sweep E" hit_good "hit_over win" hit_key hit_entry "too_old delay" "n - 1"
  for E :: "('c, 'r, 'f) act_env" and n :: nat and win delay :: int
proof (unfold_locales, goal_cases)
  case (1 s)
  show ?case by (simp add: tracker_entries_def finite_tracked)
next
  case (2 s x)
  obtain opt w where s: "s = (opt, w)" by (cases s)
  obtain t pr dp c where x: "x = (t, pr, dp, c)" by (cases x)
  from 2 s x have ok: "act_ok (o_actions opt) w" "env_ok E (nat (act_max (o_actions opt)))"
    "prof_ok pr" "dyn_ok dp" "u64_of_int (o_last_window_size opt) \<noteq> 0"
    by (simp_all add: tracker_ok_def hit_good_def)
  have "int (card (dom (tracked (o_actions opt) w) - {hit_key x})) < act_max (o_actions opt) - 1"
    using 2 s by (simp add: tracker_ok_def tracker_entries_def)
  from upsert_tracks [OF ok(1-4) act_key_ok [OF ok(3,4), of t c], of t opt c] this x
  obtain act' w' where up: "nfd_act_upsert (at t E) opt (o_actions opt) dp (Some pr) c w = Inr (1, act', w')"
    "act_ok act' w'" "act_max act' = act_max (o_actions opt)"
    "tracked act' w' = (tracked (o_actions opt) w)(hit_key x \<mapsto> (c, t))" by auto
  have "tracker_hit E x s = Inr (opt\<lparr>o_actions := act'\<rparr>, w')"
    using 2 s x up(1) eval_profile_cases [OF ok(5), of "at t E" pr dp c w t]
    by (simp add: tracker_hit_def tracker_ok_def)
  with up 2 s x show ?case
    by (simp add: tracker_ok_def tracker_entries_def hit_entry_def)
next
  case (3 s x)
  obtain t pr dp c where x: "x = (t, pr, dp, c)" by (cases x)
  with 3 eval_profile_cases [of "fst s" "at t E" pr dp c "snd s" t] show ?case
    by (simp add: tracker_hit_def tracker_ok_def)
next
  case (4 s t)
  obtain opt w where s: "s = (opt, w)" by (cases s)
  with 4 have ok: "act_ok (o_actions opt) w" by (simp add: tracker_ok_def)
  have "clock_at (at t E) w t" by simp
  from nfd_act_expire_spec [OF ok this, where opt = opt and d = delay] obtain act' w' where
    ex: "nfd_act_expire (at t E) opt (o_actions opt) delay w = Inr (1, act', w')" "act_ok act' w'"
    "act_max act' = act_max (o_actions opt)"
    "row act' w' = (\<lambda>i. if i < length (act_slots (o_actions opt)) \<and> expired delay t (row (o_actions opt) w i) \<noteq> None
       then None else row (o_actions opt) w i)"
    by blast
  from tracked_expire [OF ok ex(2,4)] ex 4 s show ?case
    by (auto simp: tracker_sweep_def tracker_ok_def tracker_entries_def too_old_def fun_eq_iff split: option.splits)
qed

section \<open>A dangling pointer in the table\<close>

lemma expire_dangling:
  assumes "set is \<subseteq> {..<length (act_slots act)}" "i \<in> set is"
    and "act_slots act ! i = Some p" "w_heap w p = None"
  shows "act_expire_slots E opt d is (act, w) = Inl UseAfterFree"
  using assms
proof (induction "is" arbitrary: act w)
  case (Cons j "is")
  show ?case
  proof (cases "j = i")
    case True
    with Cons.prems show ?thesis by (simp add: act_expire_slot_def slot_ptr_def action_at_def)
  next
    case False
    have "act_expire_slot E opt d j (act, w) = Inl UseAfterFree \<or>
      (\<exists>act' w'. act_expire_slot E opt d j (act, w) = Inr (act', w') \<and>
        length (act_slots act') = length (act_slots act) \<and> act_slots act' ! i = Some p \<and> w_heap w' p = None)"
      using Cons.prems False
      by (auto simp: act_expire_slot_def slot_ptr_def action_at_def Let_def
          dest!: nfd_act_cmd_world split: option.splits prod.splits)
    with Cons False show ?thesis by auto
  qed
qed simp

section \<open>Properties\<close>

text \<open>C5. Evaluating profiles and sweeping the table, in any order and number, tracks exactly the
  profiles (with the value of their dynamic fields) that were over a limit, each with the counters
  and the time of its last hit, until a sweep finds the hit older than the stop delay; no run faults
  and the invariant of the table is kept. This holds as long as at most \<open>max_actions - 1\<close> different
  names occur.\<close>

theorem actions_refine_map:
  assumes "tracker_ok E n win delay s" and "\<forall>ev \<in> set es. event_ok hit_good hit_key K ev"
    and "finite K" and "card K \<le> n - 1" and "dom (tracker_entries s) \<subseteq> K"
  shows "\<exists>s'. table_run (tracker_hit E) (tracker_sweep E) es s = Inr s' \<and> tracker_ok E n win delay s' \<and>
    tracker_entries s' = foldl (table_step (hit_over win) hit_key hit_entry (too_old delay)) (tracker_entries s) es"
  using assms by (rule nfd_table.run_refines)

text \<open>C25. A profile that is not in the table yet is put into the first free slot (unless that is the
  last one): the new action carries the index of its slot, the name and the counters, and the only
  external command is the start command with the directory of the action.\<close>

theorem nfd_act_upsert_new:
  assumes "act_ok act w" and "act_key pr dp = Inr name" and "tracked act w name = None"
    and "first_free act i" and "int i < act_max act - 1"
    and "e_malloc E (\<lambda>p. w_heap w p \<noteq> None) = Some p" and "w_heap w p = None"
    and "prof_ok pr" and "dyn_ok dp" and "flow_file_ok E"
  shows "\<exists>a act' w'. nfd_act_upsert E opt act dp (Some pr) c w = Inr (1, act', w') \<and> act_ok act' w' \<and>
    row act' w' = (row act w)(i \<mapsto> a) \<and> a_name a = name \<and> a_id a = int i \<and> a_counters a = c \<and>
    a_tm_start a = now E w \<and>
    w_execs w' = w_execs w @ ran E (w_execs w) (act_command opt a NFD_ACTION_START)"
proof -
  have absent: "a_name a \<noteq> name" if "row act w i = Some a" for i a
    using tracked_Some [OF assms(1) that] assms(3) by auto
  note slot = assms(4) [unfolded first_free_def]
  from act_insert_room [OF assms(1,4,5,6) terminated_key [OF assms(2)] assms(8-10), of opt c]
  obtain a w' where ins: "act_insert E opt act name dp pr c w =
      Inr (1, act\<lparr>act_slots := (act_slots act)[i := Some p]\<rparr>, w')"
    "w_heap w' = (w_heap w)(p \<mapsto> a)" "a_name a = name" "a_id a = int i" "a_counters a = c"
    "a_tm_start a = now E w"
    "w_execs w' = w_execs w @ ran E (w_execs w) (act_command opt a NFD_ACTION_START)" by blast
  have names: "a_name b = a_name a \<longleftrightarrow> j = i" if "row act w j = Some b" for j b
  proof
    show "j = i" if "a_name b = a_name a"
      using absent [OF \<open>row act w j = Some b\<close>] that ins(3) by simp
    show "a_name b = a_name a" if "j = i"
      using \<open>row act w j = Some b\<close> that slot by (simp add: row_def)
  qed
  have new: "act_slots act ! i = Some p \<or> act_slots act ! i = None \<and> w_heap w p = None"
    and i: "i < length (act_slots act)"
    using slot assms(7) by auto
  have "act_ok (act\<lparr>act_slots := (act_slots act)[i := Some p]\<rparr>) w'"
    by (rule act_ok_set [OF assms(1) i new _ _ names ins(2) refl])
      (use ins terminated_key [OF assms(2)] in simp_all)
  moreover note row_set [OF assms(1) i new ins(2) refl]
  moreover have "nfd_act_upsert E opt act dp (Some pr) c w = act_insert E opt act name dp pr c w"
    by (rule upsert_absent [OF assms(1,2) absent])
  ultimately show ?thesis using ins by auto
qed

text \<open>A profile that is in the table already gets its counters and its refresh time replaced and
  nothing else: no external command runs, no file changes, the table and the other actions stay.\<close>

theorem nfd_act_upsert_known:
  assumes "act_ok act w" and "act_key pr dp = Inr name" and "row act w i = Some a" and "a_name a = name"
  shows "\<exists>w'. nfd_act_upsert E opt act dp (Some pr) c w = Inr (1, act, w') \<and> act_ok act w' \<and>
    row act w' = (row act w)(i \<mapsto> a\<lparr>a_tm_updated := e_time E (Suc (w_ticks w)), a_counters := c\<rparr>) \<and>
    w_execs w' = w_execs w \<and> w_files w' = w_files w \<and> w_texts w' = w_texts w \<and> w_dirs w' = w_dirs w"
proof -
  note i = act_okD(5) [OF assms(1,3)]
  then obtain p where p: "act_slots act ! i = Some p" "w_heap w p = Some a"
    using assms(3) by (auto simp: row_def bind_eq_Some_conv)
  let ?a = "a\<lparr>a_tm_updated := e_time E (Suc (w_ticks w)), a_counters := c\<rparr>"
  have act: "act = act\<lparr>act_slots := (act_slots act)[i := Some p]\<rparr>"
    using p(1) by (metis list_update_id nfd_actions.surjective nfd_actions.update_convs(2))
  have names: "a_name b = a_name ?a \<longleftrightarrow> j = i" if "row act w j = Some b" for j b
    using that assms(3) act_okD(3) [OF assms(1) that assms(3)] by auto
  have h: "w_heap (refreshed E p a c w) = (w_heap w)(p \<mapsto> ?a)" by (simp add: refreshed_def now_def)
  have "act_ok act (refreshed E p a c w)"
    by (rule act_ok_set [OF assms(1) _ disjI1 [OF p(1)] _ _ names h act]) (use i in simp_all)
  with upsert_refresh [OF assms p(1), of E opt c] row_set [OF assms(1) _ disjI1 [OF p(1)] h act] i
  show ?thesis by (intro exI [of _ "refreshed E p a c w"]) (simp add: refreshed_def)
qed

text \<open>C26. While the clock shows \<open>t\<close>, a sweep removes exactly the actions whose last refresh plus the
  delay is before \<open>t\<close>, runs the stop command of each of them once, in the order of their slots, and
  leaves every other action as it was.\<close>

theorem nfd_act_expire_stops:
  assumes "act_ok act w" and "clock_at E w t"
  shows "\<exists>act' w'. nfd_act_expire E opt act d w = Inr (1, act', w') \<and> act_ok act' w' \<and>
    (\<forall>i. row act' w' i = (case row act w i of
       None \<Rightarrow> None | Some a \<Rightarrow> if a_tm_updated a + d < t then None else Some a)) \<and>
    w_execs w' = stop_all E opt (w_execs w) (filter (\<lambda>a. a_tm_updated a + d < t) (act_list act w))"
proof -
  from nfd_act_expire_spec [OF assms, of opt d] obtain act' w' where
    ex: "nfd_act_expire E opt act d w = Inr (1, act', w')" "act_ok act' w'"
    "row act' w' = (\<lambda>i. if i < length (act_slots act) \<and> expired d t (row act w i) \<noteq> None then None else row act w i)"
    "w_execs w' = stop_all E opt (w_execs w) (filter (\<lambda>a. a_tm_updated a + d < t) (act_list act w))"
    by blast
  have "row act' w' i = (case row act w i of
       None \<Rightarrow> None | Some a \<Rightarrow> if a_tm_updated a + d < t then None else Some a)" for i
    using ex(3) act_okD(5) [OF assms(1), of i] by (auto simp: expired_def split: option.splits)
  with ex show ?thesis by blast
qed

text \<open>Finding only the last slot free, \<open>nfd_act_upsert\<close> takes the table for full: it returns 0
  and frees the new action after the slot was made to point to it. The next sweep reads freed
  memory.\<close>

theorem nfd_act_upsert_last_slot:
  assumes "act_ok act w" and "act_key pr dp = Inr name" and "tracked act w name = None"
    and "first_free act i" and "int i = act_max act - 1"
    and "e_malloc E (\<lambda>p. w_heap w p \<noteq> None) = Some p" and "w_heap w p = None"
  shows "\<exists>act' w'. nfd_act_upsert E opt act dp (Some pr) c w = Inr (0, act', w') \<and>
    act_slots act' ! i = Some p \<and> w_heap w' p = None \<and> w_execs w' = w_execs w \<and>
    nfd_act_expire E opt act' d w' = Inl UseAfterFree"
proof -
  have absent: "a_name a \<noteq> name" if "row act w i = Some a" for i a
    using tracked_Some [OF assms(1) that] assms(3) by auto
  have ins: "nfd_act_upsert E opt act dp (Some pr) c w = act_insert E opt act name dp pr c w"
    by (rule upsert_absent [OF assms(1,2) absent])
  let ?act = "act\<lparr>act_slots := (act_slots act)[i := Some p]\<rparr>" and ?w = "w\<lparr>w_heap := (w_heap w)(p := None)\<rparr>"
  have i: "i < length (act_slots act)" using assms(4) by (simp add: first_free_def)
  have "act_expire_slots E opt d [0..<nat (act_max ?act)] (?act, ?w) = Inl UseAfterFree"
    using i act_okD(2) [OF assms(1)] by (intro expire_dangling [where i = i and p = p]) auto
  then have "nfd_act_expire E opt ?act d ?w = Inl UseAfterFree"
    by (simp add: nfd_act_expire_def)
  moreover have "nfd_act_upsert E opt act dp (Some pr) c w = Inr (0, ?act, ?w)"
    unfolding ins by (rule act_insert_last [OF assms(1,4-6)])
  ultimately show ?thesis using i by (intro exI [of _ ?act] exI [of _ ?w]) simp
qed

text \<open>With every slot in use the code does not notice that the table is full: the action is
  created, its start command is run, and no slot points to it, so no sweep ever stops it. Its id is
  0, the id of the action in the first slot. The table is as before, so the profile is started again
  the next time.\<close>

theorem nfd_act_upsert_full:
  assumes "act_ok act w" and "act_key pr dp = Inr name" and "tracked act w name = None"
    and "None \<notin> set (act_slots act)" and "0 < act_max act"
    and "e_malloc E (\<lambda>p. w_heap w p \<noteq> None) = Some p" and "w_heap w p = None"
    and "prof_ok pr" and "dyn_ok dp" and "flow_file_ok E"
  shows "\<exists>a w'. nfd_act_upsert E opt act dp (Some pr) c w = Inr (1, act, w') \<and>
    w_heap w' = (w_heap w)(p \<mapsto> a) \<and> a_name a = name \<and> a_id a = 0 \<and>
    row act w' = row act w \<and> tracked act w' name = None \<and>
    w_execs w' = w_execs w @ ran E (w_execs w) (act_command opt a NFD_ACTION_START)"
proof -
  have absent: "a_name a \<noteq> name" if "row act w i = Some a" for i a
    using tracked_Some [OF assms(1) that] assms(3) by auto
  have ins: "nfd_act_upsert E opt act dp (Some pr) c w = act_insert E opt act name dp pr c w"
    by (rule upsert_absent [OF assms(1,2) absent])
  have name: "terminated name" by (rule terminated_key [OF assms(2)])
  let ?a0 = "act_fill name dp c (now E w) zero_action"
  have zero: "zero_action\<lparr>a_id := int 0\<rparr> = zero_action" by (simp add: zero_action_def)
  have "action_strings ?a0"
    by (rule act_fill_strings [OF name assms(9), of c "now E w" "int 0", unfolded zero])
  from nfd_act_update_dir_total [OF _ this assms(10), where p = pr and opt = opt and w = "tick w"]
  obtain r a1 w1 where ud: "nfd_act_update_dir E opt (Some pr) ?a0 (tick w) = Inr (r, a1, w1)"
    using assms(8) by (auto simp: prof_ok_def)
  note k = nfd_act_update_dir_keeps [OF ud]
  obtain r' w2 where cm: "nfd_act_cmd E opt a1 NFD_ACTION_START w1 = (r', w2)"
    by (cases "nfd_act_cmd E opt a1 NFD_ACTION_START w1") auto
  note w2 = nfd_act_cmd_world [OF cm]
  let ?a = "a1\<lparr>a_tm_updated := now E w2, a_counters := c\<rparr>"
  let ?w = "(tick w2)\<lparr>w_heap := (w_heap w2)(p \<mapsto> ?a)\<rparr>"
  have up: "nfd_act_upsert E opt act dp (Some pr) c w = Inr (1, act, ?w)"
    using ins assms(5,6) ud cm
    by (simp add: act_insert_def free_slot_full [OF assms(1,4)])
  have unused: "act_slots act ! j \<noteq> Some p" if "j < length (act_slots act)" for j
    using act_okD(4) [OF assms(1) that] assms(7) by fastforce
  have row: "row act ?w = row act w"
  proof
    fix j show "row act ?w j = row act w j"
      using unused [of j] k w2
      by (cases "act_slots act ! j") (auto simp: row_def same_control_def)
  qed
  then have "tracked act ?w = tracked act w"
    by (intro ext) (simp only: tracked_def act_list_def)
  moreover have "act_command opt ?a NFD_ACTION_START = act_command opt a1 NFD_ACTION_START"
    by (simp add: act_command_def)
  ultimately show ?thesis
    using up row k w2 name assms(3)
    by (intro exI [of _ ?a] exI [of _ ?w])
      (simp add: same_action_def same_control_def terminated_strncpy zero_action_def)
qed

text \<open>The directory of a new action gets a flow file with exactly the flows of the last
  \<open>queue_backtrack\<close> closed windows that match the filter of the action, oldest window first; an
  action without a filter gets all of them.\<close>

theorem act_copy_flows_windows:
  assumes "libnf_laws (e_lnf E)" and "lnf_rec_init (e_lnf E)" and "a_file a = None"
    and "lnf_open_write (e_lnf E) buf" and "buf = c_snprintf MAX_STRING (path_join (a_action_dir a) ''nfcap'')"
    and "\<forall>i. buf \<noteq> queue_file_name (o_queue_dir opt) (int i)"
  shows "\<exists>out w'. act_copy_flows E opt a w = Inr (a, w') \<and> w_files w' = (w_files w)(buf \<mapsto> out) \<and>
    lnf_records (e_lnf E) out =
      Some (filter (\<lambda>r. case a_filter a of None \<Rightarrow> True | Some f \<Rightarrow> lnf_filter_match (e_lnf E) f r)
        (closed_windows (e_lnf E) (o_queue_dir opt) (w_files w) (nat (min (o_queue_backtrack opt) (o_queue_num opt)))))"
proof -
  let ?L = "e_lnf E" and ?fs = "(w_files w)(buf \<mapsto> lnf_new (e_lnf E))"
    and ?k = "nat (min (o_queue_backtrack opt) (o_queue_num opt))"
  obtain out where out: "nfd_queue_add_flow ?L opt buf (a_filter a) (o_queue_backtrack opt) ?fs = (1, ?fs(buf \<mapsto> out))"
    "lnf_records ?L out = Some ([] @
      filter (\<lambda>r. case a_filter a of None \<Rightarrow> True | Some f \<Rightarrow> lnf_filter_match ?L f r)
        (closed_windows ?L (o_queue_dir opt) ?fs ?k))"
    using add_flow_closed [OF assms(1,2), of ?fs buf "lnf_new ?L" "[]" "o_queue_backtrack opt" opt "a_filter a"]
      assms(1,6) by (auto simp: libnf_laws_def)
  have "queue_file_name (o_queue_dir opt) (int x) \<noteq> buf" for x
    using assms(6) by metis
  then have "closed_windows ?L (o_queue_dir opt) ?fs ?k = closed_windows ?L (o_queue_dir opt) (w_files w) ?k"
    unfolding closed_windows_def
    by (intro arg_cong [of _ _ concat] map_cong) (simp_all add: queue_win_def window_def)
  with out assms(3-5) show ?thesis
    by (intro exI [of _ out] exI [of _ "w\<lparr>w_files := ?fs(buf \<mapsto> out)\<rparr>"])
      (simp add: act_copy_flows_def Let_def)
qed

text \<open>Evaluating a profile divides by the length of the last window. With an empty window a
  profile that has any limit makes the division fault; otherwise the action of the profile is
  inserted or refreshed exactly when one of the limits that are set is at most the rate, and nothing
  happens when none is.\<close>

theorem nfd_act_eval_profile_limits:
  "nfd_act_eval_profile E opt pr dp c w =
    (if u64_of_int (o_last_window_size opt) = 0
     then if c_bytes (p_limits pr) = 0 \<and> c_pkts (p_limits pr) = 0 \<and> c_flows (p_limits pr) = 0
          then Inr (0, opt, w) else Inl DivZero
     else if hit_over (o_last_window_size opt) (t, pr, dp, c)
     then map_sum id (\<lambda>(r, act', w'). (1, opt\<lparr>o_actions := act'\<rparr>, w'))
            (nfd_act_upsert E opt (o_actions opt) dp (Some pr) c w)
     else Inr (0, opt, w))"
proof (cases "u64_of_int (o_last_window_size opt) = 0")
  case True
  then have "over_limit l x (o_last_window_size opt) = (if l = 0 then Inr False else Inl DivZero)" for l x
    by (simp add: over_limit_def u64_div_def)
  with True show ?thesis by (simp add: nfd_act_eval_profile_def Let_def)
qed (use eval_profile_cases [of opt E pr dp c w t] in simp)

section \<open>The properties on a concrete table\<close>

definition sample_env :: "(nat list, nat, nat) act_env" where
  "sample_env = \<lparr>e_lnf = sample_libnf, e_time = (\<lambda>_. 100),
     e_malloc = (\<lambda>used. find (\<lambda>p. \<not> used p) [0..<64]),
     e_localtime = (\<lambda>_ _. Some ''noon''), e_mkdir = (\<lambda>_. True), e_fopen = (\<lambda>_. True),
     e_exec = (\<lambda>_ _. Some 0), e_prof_dump = (\<lambda>_ _. ''''), e_close_null = False\<rparr>"

definition sample_world :: "(nat list, nat) act_world" where
  "sample_world = \<lparr>w_heap = (\<lambda>_. None), w_files = (\<lambda>_. None), w_dirs = (\<lambda>_. False),
     w_texts = (\<lambda>_. None), w_execs = [], w_ticks = 0\<rparr>"

definition sample_opt :: "nat \<Rightarrow> nat nfd_options" where
  "sample_opt n = default_options\<lparr>o_last_window_size := 10,
     o_actions := \<lparr>act_max = int n, act_slots = replicate n None\<rparr>\<rparr>"

definition sample_profile :: "string \<Rightarrow> nat nfd_profile" where
  "sample_profile name = \<lparr>p_id = '''', p_name = name, p_filter_expr = '''', p_dynamic_fields_expr = '''',
     p_filter = None, p_counters = zero_counter, p_limits = \<lparr>c_bytes = 0, c_pkts = 100, c_flows = 0\<rparr>,
     p_dynamic_fields = [], p_next = None, p_parent = None\<rparr>"

definition sample_counter :: "u64 \<Rightarrow> nfd_counter" where
  "sample_counter n = \<lparr>c_bytes = 0, c_pkts = n, c_flows = 0\<rparr>"

lemma sample_env_simps [simp]:
  "e_lnf sample_env = sample_libnf" "e_time sample_env n = 100"
  "e_exec sample_env h c = Some 0" "flow_file_ok sample_env"
  "e_malloc sample_env used = find (\<lambda>p. \<not> used p) [0..<64]"
  by (simp_all add: sample_env_def flow_file_ok_def)

lemma sample_env_ok: "n < 64 \<Longrightarrow> env_ok sample_env n"
proof -
  assume n: "n < 64"
  have "find (\<lambda>p. \<not> used p) [0..<64] \<noteq> None" if "finite (Collect used)" "card (Collect used) \<le> n" for used :: "ptr \<Rightarrow> bool"
  proof
    assume "find (\<lambda>p. \<not> used p) [0..<64] = None"
    then have "{0..<64} \<subseteq> Collect used" by (auto simp: find_None_iff)
    from card_mono [OF that(1) this] that(2) n show False by simp
  qed
  then show ?thesis by (auto simp: env_ok_def find_Some_iff)
qed

lemma sample_ok: "act_ok (o_actions (sample_opt n)) sample_world"
  by (auto simp: act_ok_def row_def sample_opt_def sample_world_def)

lemma sample_row: "row (o_actions (sample_opt n)) sample_world i = None"
  by (simp add: row_def sample_opt_def sample_world_def)

lemma sample_profile_ok: "length name < 1024 \<Longrightarrow> prof_ok (sample_profile name)"
  by (simp add: prof_ok_def sample_profile_def terminated_def MAX_STRING_def)

lemma sample_tracker_ok: "n < 64 \<Longrightarrow> tracker_ok sample_env n 10 90 (sample_opt n, sample_world)"
  using sample_ok [of n] sample_env_ok [of n]
  by (simp add: tracker_ok_def) (simp add: sample_opt_def)

lemma sample_entries: "tracker_entries (sample_opt n, sample_world) = (\<lambda>_. None)"
  using tracked_None [of "o_actions (sample_opt n)" sample_world] sample_row
  by (auto simp: tracker_entries_def fun_eq_iff)

text \<open>Profile \<open>a\<close> at 100, profile \<open>b\<close> under its limit, a sweep at 190 that keeps \<open>a\<close>, and one at 191
  that forgets it.\<close>

theorem actions_refine_map_witness:
  "\<exists>s'. table_run (tracker_hit sample_env) (tracker_sweep sample_env)
      [Hit (100, sample_profile ''a'', None, sample_counter 2000),
       Hit (120, sample_profile ''b'', None, sample_counter 10), Sweep 190]
      (sample_opt 3, sample_world) = Inr s' \<and>
    tracker_entries s' = [''a'' \<mapsto> (sample_counter 2000, 100)]"
proof -
  let ?es = "[Hit (100, sample_profile ''a'', None, sample_counter 2000),
       Hit (120, sample_profile ''b'', None, sample_counter 10), Sweep 190] :: nat over_event table_event list"
  have key: "hit_key (t, sample_profile name, None, c) = name" if "length name < 1023" for t name c
    using that by (simp add: hit_key_def sample_profile_def c_snprintf_fits MAX_STRING_def)
  have "\<forall>ev \<in> set ?es. event_ok hit_good hit_key {''a'', ''b''} ev"
    using sample_profile_ok by (simp add: hit_good_def key dyn_ok_def)
  note ref = actions_refine_map [OF sample_tracker_ok [of 3] this]
  have "\<exists>s'. table_run (tracker_hit sample_env) (tracker_sweep sample_env) ?es (sample_opt 3, sample_world) = Inr s' \<and>
    tracker_ok sample_env 3 10 90 s' \<and> tracker_entries s' =
      foldl (table_step (hit_over 10) hit_key hit_entry (too_old 90)) (tracker_entries (sample_opt 3, sample_world)) ?es"
    by (rule ref) (simp_all add: sample_entries)
  then obtain s' where
    "table_run (tracker_hit sample_env) (tracker_sweep sample_env) ?es (sample_opt 3, sample_world) = Inr s'"
    "tracker_entries s' = foldl (table_step (hit_over 10) hit_key hit_entry (too_old 90)) (\<lambda>_. None) ?es"
    unfolding sample_entries by blast
  moreover have "hit_over 10 (100, sample_profile ''a'', None, sample_counter 2000)"
    "\<not> hit_over 10 (120, sample_profile ''b'', None, sample_counter 10)"
    by (simp_all add: hit_over_def sample_profile_def sample_counter_def word_le_nat_alt)
  then have "foldl (table_step (hit_over 10) hit_key hit_entry (too_old 90)) (\<lambda>_. None) ?es
      = [''a'' \<mapsto> (sample_counter 2000, 100)]"
    by (auto simp: key hit_entry_def too_old_def fun_eq_iff)
  ultimately show ?thesis by auto
qed

lemma sample_key: "length name < 1023 \<Longrightarrow> act_key (sample_profile name) None = Inr name"
  by (simp add: act_key_def sample_profile_def terminated_def c_snprintf_fits MAX_STRING_def)

lemma sample_first_free: "0 < n \<Longrightarrow> first_free (o_actions (sample_opt n)) 0"
  by (simp add: first_free_def sample_opt_def)

lemma sample_tracked: "tracked (o_actions (sample_opt n)) sample_world name = None"
  using sample_row by (intro tracked_None) simp

lemma sample_malloc: "find (\<lambda>p. \<not> w_heap sample_world p \<noteq> None) [0..<64] = Some 0"
  by (simp add: sample_world_def upt_conv_Cons)

lemma sample_malloc_env: "e_malloc sample_env (\<lambda>p. w_heap sample_world p \<noteq> None) = Some 0"
  using sample_malloc by simp

lemma sample_room:
  "first_free (o_actions (sample_opt 3)) 0" "int 0 < act_max (o_actions (sample_opt 3)) - 1"
  "e_malloc sample_env (\<lambda>p. w_heap sample_world p \<noteq> None) = Some 0" "w_heap sample_world 0 = None"
proof -
  show "first_free (o_actions (sample_opt 3)) 0" by (rule sample_first_free) simp
  show "int 0 < act_max (o_actions (sample_opt 3)) - 1" by (simp add: sample_opt_def)
  show "e_malloc sample_env (\<lambda>p. w_heap sample_world p \<noteq> None) = Some 0" by (rule sample_malloc_env)
  show "w_heap sample_world 0 = None" by (simp add: sample_world_def)
qed

lemma sample_safe: "prof_ok (sample_profile ''a'')" "dyn_ok None" "flow_file_ok sample_env"
  by (simp_all add: sample_profile_ok dyn_ok_def)

lemma sample_ran: "ran sample_env h c = [c]"
  by (simp add: ran_def)

theorem nfd_act_upsert_new_witness:
  "\<exists>a act' w'. nfd_act_upsert sample_env (sample_opt 3) (o_actions (sample_opt 3)) None
      (Some (sample_profile ''a'')) (sample_counter 2000) sample_world = Inr (1, act', w') \<and>
    row act' w' 0 = Some a \<and> a_name a = ''a'' \<and>
    w_execs w' = [act_command (sample_opt 3) a NFD_ACTION_START]"
proof -
  have key: "act_key (sample_profile ''a'') None = Inr ''a''" by (simp add: sample_key)
  from nfd_act_upsert_new [OF sample_ok key sample_tracked sample_room sample_safe, of "sample_opt 3" "sample_counter 2000"]
  obtain a act' w' where up: "nfd_act_upsert sample_env (sample_opt 3) (o_actions (sample_opt 3)) None
      (Some (sample_profile ''a'')) (sample_counter 2000) sample_world = Inr (1, act', w')"
    "row act' w' = (row (o_actions (sample_opt 3)) sample_world)(0 \<mapsto> a)" "a_name a = ''a''"
    "w_execs w' = w_execs sample_world @ ran sample_env (w_execs sample_world) (act_command (sample_opt 3) a NFD_ACTION_START)"
    by blast
  from up(4) have "w_execs w' = [act_command (sample_opt 3) a NFD_ACTION_START]"
    unfolding sample_ran by (simp add: sample_world_def)
  with up(1-3) show ?thesis by auto
qed

theorem nfd_act_upsert_last_slot_witness:
  "\<exists>act' w'. nfd_act_upsert sample_env (sample_opt 1) (o_actions (sample_opt 1)) None
      (Some (sample_profile ''a'')) (sample_counter 2000) sample_world = Inr (0, act', w') \<and>
    nfd_act_expire sample_env (sample_opt 1) act' 90 w' = Inl UseAfterFree"
proof -
  have key: "act_key (sample_profile ''a'') None = Inr ''a''" by (simp add: sample_key)
  have last: "first_free (o_actions (sample_opt 1)) 0" "int 0 = act_max (o_actions (sample_opt 1)) - 1"
    by (rule sample_first_free) (simp_all add: sample_opt_def)
  from nfd_act_upsert_last_slot [OF sample_ok key sample_tracked last sample_room(3,4),
      of "sample_opt 1" "sample_counter 2000" 90]
  show ?thesis by blast
qed

text \<open>A table of one slot whose action \<open>a\<close> was refreshed at 0.\<close>

definition busy_act :: nfd_actions where
  "busy_act = \<lparr>act_max = 1, act_slots = [Some 5]\<rparr>"

definition busy_action :: "nat nfd_action" where
  "busy_action = zero_action\<lparr>a_name := ''a'', a_action_dir := ''d''\<rparr>"

definition busy_world :: "(nat list, nat) act_world" where
  "busy_world = sample_world\<lparr>w_heap := [5 \<mapsto> busy_action]\<rparr>"

lemma busy_row: "row busy_act busy_world = [0 \<mapsto> busy_action]"
  by (auto simp: row_def busy_act_def busy_world_def fun_eq_iff)

lemma busy_ok: "act_ok busy_act busy_world"
  unfolding act_ok_def busy_row
  by (simp add: busy_act_def busy_world_def busy_action_def zero_action_def terminated_def
      MAX_STRING_def sample_world_def)

lemma busy_list: "act_list busy_act busy_world = [busy_action]"
  unfolding act_list_def busy_row by (simp add: busy_act_def map_filter_simps)

theorem nfd_act_upsert_known_witness:
  "\<exists>w'. nfd_act_upsert sample_env (sample_opt 1) busy_act None (Some (sample_profile ''a''))
      (sample_counter 2000) busy_world = Inr (1, busy_act, w') \<and>
    row busy_act w' 0 = Some (busy_action\<lparr>a_tm_updated := 100, a_counters := sample_counter 2000\<rparr>) \<and>
    w_execs w' = []"
proof -
  have key: "act_key (sample_profile ''a'') None = Inr ''a''" by (simp add: sample_key)
  have row: "row busy_act busy_world 0 = Some busy_action" "a_name busy_action = ''a''"
    by (simp_all add: busy_row) (simp add: busy_action_def)
  from nfd_act_upsert_known [OF busy_ok key row, of sample_env "sample_opt 1" "sample_counter 2000"]
  show ?thesis by (auto simp: busy_world_def sample_world_def)
qed

theorem nfd_act_expire_stops_witness:
  "\<exists>act' w'. nfd_act_expire sample_env (sample_opt 1) busy_act 90 busy_world = Inr (1, act', w') \<and>
    row act' w' 0 = None \<and> w_execs w' = [act_command (sample_opt 1) busy_action NFD_ACTION_STOP]"
proof -
  have clock: "clock_at sample_env busy_world 100" by (simp add: clock_at_def)
  have execs: "w_execs busy_world = []" by (simp add: busy_world_def sample_world_def)
  have old: "a_tm_updated busy_action + 90 < 100" by (simp add: busy_action_def zero_action_def)
  from nfd_act_expire_stops [OF busy_ok clock, of "sample_opt 1" 90] obtain act' w' where ex:
    "nfd_act_expire sample_env (sample_opt 1) busy_act 90 busy_world = Inr (1, act', w')"
    "\<forall>i. row act' w' i = (case row busy_act busy_world i of
       None \<Rightarrow> None | Some a \<Rightarrow> if a_tm_updated a + 90 < 100 then None else Some a)"
    "w_execs w' = stop_all sample_env (sample_opt 1) (w_execs busy_world)
       (filter (\<lambda>a. a_tm_updated a + 90 < 100) (act_list busy_act busy_world))"
    by blast
  have "row act' w' 0 = None" using ex(2) old by (simp add: busy_row)
  moreover have "w_execs w' = [act_command (sample_opt 1) busy_action NFD_ACTION_STOP]"
    using ex(3) old execs by (simp add: busy_list stop_all_Cons sample_ran)
  ultimately show ?thesis using ex(1) by blast
qed

theorem nfd_act_upsert_full_witness:
  "\<exists>a w'. nfd_act_upsert sample_env (sample_opt 1) busy_act None (Some (sample_profile ''b''))
      (sample_counter 2000) busy_world = Inr (1, busy_act, w') \<and>
    tracked busy_act w' ''b'' = None \<and> w_execs w' = [act_command (sample_opt 1) a NFD_ACTION_START]"
proof -
  have key: "act_key (sample_profile ''b'') None = Inr ''b''" by (simp add: sample_key)
  have absent: "tracked busy_act busy_world ''b'' = None"
    by (rule tracked_None) (auto simp: busy_row busy_action_def split: if_splits)
  have full: "None \<notin> set (act_slots busy_act)" "0 < act_max busy_act" by (simp_all add: busy_act_def)
  have p: "e_malloc sample_env (\<lambda>p. w_heap busy_world p \<noteq> None) = Some 0" "w_heap busy_world 0 = None"
    by (simp_all add: busy_world_def sample_world_def upt_conv_Cons)
  have safe: "prof_ok (sample_profile ''b'')" by (simp add: sample_profile_ok)
  from nfd_act_upsert_full [OF busy_ok key absent full p safe sample_safe(2,3),
      of "sample_opt 1" "sample_counter 2000"]
  show ?thesis by (auto simp: sample_ran busy_world_def sample_world_def)
qed

theorem act_copy_flows_windows_witness:
  "\<exists>out w'. act_copy_flows sample_env (sample_opt 1) busy_action (sample_world\<lparr>w_files := sample_files\<rparr>)
      = Inr (busy_action, w') \<and> w_files w' ''d/nfcap'' = Some out \<and>
    lnf_records sample_libnf out = Some [4, 5, 6]"
proof -
  let ?w = "sample_world\<lparr>w_files := sample_files\<rparr>"
  have buf: "''d/nfcap'' = c_snprintf MAX_STRING (path_join (a_action_dir busy_action) ''nfcap'')"
    by (simp add: busy_action_def path_join_def c_snprintf_def MAX_STRING_def)
  have other: "\<forall>i. ''d/nfcap'' \<noteq> queue_file_name (o_queue_dir (sample_opt 1)) (int i)"
    by (simp add: queue_file_name_def sample_opt_def path_join_def c_snprintf_def MAX_STRING_def)
  have env: "libnf_laws (e_lnf sample_env)" "lnf_rec_init (e_lnf sample_env)" "a_file busy_action = None"
    "lnf_open_write (e_lnf sample_env) ''d/nfcap''"
    by (simp_all add: sample_libnf_laws) (simp add: busy_action_def zero_action_def)
  have "closed_windows sample_libnf sample_dir sample_files (Suc 0) = [4, 5, 6]"
    using sample_files_window by (simp add: closed_windows_def queue_win_def)
  then have closed: "closed_windows (e_lnf sample_env) (o_queue_dir (sample_opt 1)) (w_files ?w)
      (nat (min (o_queue_backtrack (sample_opt 1)) (o_queue_num (sample_opt 1)))) = [4, 5, 6]"
    by (simp add: sample_opt_def)
  have none: "a_filter busy_action = None" by (simp add: busy_action_def zero_action_def)
  from act_copy_flows_windows [OF env buf other, of ?w] show ?thesis
    unfolding closed none by auto
qed

end
