(* ===== verification/Database.thy ===== *)
theory Database
  imports Nfddos_Types
begin

text \<open>
  The database of \<open>db.c\<close>: the connection and its prepared statements, transactions, the profiles
  read from the database, and the counters stored in it, in network byte order. The functions of
  libpq are parameters that act on a connection state. The lemmas show that the parameters of the
  statements decode to the values that were meant, that storing updates a row and inserts it when
  there is none, and that any sequence of stores adds up to the totals of its counters, on any
  server that follows the two SQL statements.
\<close>

section \<open>libpq\<close>

datatype pq_status = PGRES_COMMAND_OK | PGRES_TUPLES_OK | PGRES_FATAL_ERROR

text \<open>
  A result has a status, rows of four columns (the one query of the code asks for four) and the
  number of affected rows as \<open>PQcmdTuples\<close> gives it. A parameter is a text or an array of bytes.
\<close>

record pq_result =
  res_status :: pq_status
  res_rows :: "(string \<times> string \<times> string \<times> string) list"
  res_tuples :: string

datatype pq_param = PText "string option" | PBinary "u8 list"

record 'k libpq =
  pq_connect :: "string \<Rightarrow> 'k"
  pq_bad :: "'k \<Rightarrow> bool"
  pq_prepare :: "string \<Rightarrow> string \<Rightarrow> int \<Rightarrow> 'k \<Rightarrow> pq_result \<times> 'k"
  pq_exec :: "string \<Rightarrow> 'k \<Rightarrow> pq_result \<times> 'k"
  pq_exec_prepared :: "string \<Rightarrow> pq_param list \<Rightarrow> 'k \<Rightarrow> pq_result \<times> 'k"

section \<open>Network byte order\<close>

text \<open>
  \<open>htonl\<close> swaps the four bytes on a little-endian host and does nothing on a big-endian one. The
  bytes of an object in memory start with the least significant byte on a little-endian host.
\<close>

definition htonl :: "bool \<Rightarrow> u32 \<Rightarrow> u32" where
  "htonl big w =
     (if big then w
      else or (or (push_bit 24 (and w 0xFF)) (push_bit 8 (and w 0xFF00)))
              (or (and (drop_bit 8 w) 0xFF00) (drop_bit 24 w)))"

definition htonll :: "bool \<Rightarrow> u64 \<Rightarrow> u64" where
  "htonll big x = push_bit 32 (ucast (htonl big (ucast x))) + ucast (htonl big (ucast (drop_bit 32 x)))"

definition byte_of :: "nat \<Rightarrow> u64 \<Rightarrow> u8" where
  "byte_of k w = ucast (drop_bit (8 * k) w)"

definition mem_bytes :: "bool \<Rightarrow> u64 \<Rightarrow> u8 list" where
  "mem_bytes big w = (if big then rev (map (\<lambda>k. byte_of k w) [0..<8]) else map (\<lambda>k. byte_of k w) [0..<8])"

text \<open>What a server reads from eight bytes in network order.\<close>

definition net_int8 :: "u8 list \<Rightarrow> u64" where
  "net_int8 bs = foldl (\<lambda>w b. or (push_bit 8 w) (ucast b)) 0 bs"

section \<open>Operations\<close>

definition upd_sql :: string where
  "upd_sql = ''UPDATE nfd_counters SET bytes = bytes + $3::int8, pkts = pkts + $4::int8, flows = flows + $5::int8, bytes_ps = $6::int8, pkts_ps = $7::int8, flows_ps = $8::int8, updated = NOW() WHERE profile = $1 and dynamic_profile = $2''"

definition ins_sql :: string where
  "ins_sql = ''INSERT INTO nfd_counters (profile, dynamic_profile, updated, bytes, pkts, flows, bytes_ps, pkts_ps, flows_ps) VALUES ($1, $2, NOW(), $3::int8, $4::int8, $5::int8, $6::int8, $7::int8, $8::int8)''"

text \<open>The connection is stored before its state is looked at. An operation on a handle without
  connection works on a null pointer, which the functions of libpq refuse; it is left out by taking
  the connection as an argument of the steps below.\<close>

definition nfd_db_init ::
  "'k libpq \<Rightarrow> 'k nfd_db \<Rightarrow> nfd_db_type \<Rightarrow> string \<Rightarrow> int \<times> 'k nfd_db" where
  "nfd_db_init Q db ty connstr =
     (let k = pq_connect Q connstr; db1 = db\<lparr>db_type := ty, db_conn := Some k\<rparr> in
      if pq_bad Q k then (0, db1)
      else
        let db2 = db1\<lparr>db_upd_name := c_strncpy ''update_counters'' MAX_STRING\<rparr>;
            (r1, k1) = pq_prepare Q (db_upd_name db2) upd_sql 5 k
        in if res_status r1 \<noteq> PGRES_COMMAND_OK then (0, db2\<lparr>db_conn := Some k1\<rparr>)
           else
             let db3 = db2\<lparr>db_ins_name := c_strncpy ''insert_counters'' MAX_STRING\<rparr>;
                 (r2, k2) = pq_prepare Q (db_ins_name db3) ins_sql 5 k1
             in if res_status r2 \<noteq> PGRES_COMMAND_OK then (0, db3\<lparr>db_conn := Some k2\<rparr>)
                else (1, db3\<lparr>db_conn := Some k2\<rparr>))"

definition db_exec :: "'k libpq \<Rightarrow> string \<Rightarrow> 'k nfd_db \<Rightarrow> (pq_result \<times> 'k nfd_db) res" where
  "db_exec Q sql db =
     (case db_conn db of
        None \<Rightarrow> Inl NullDeref
      | Some k \<Rightarrow> let (r, k') = pq_exec Q sql k in Inr (r, db\<lparr>db_conn := Some k'\<rparr>))"

definition nfd_db_begin_transaction :: "'k libpq \<Rightarrow> 'k nfd_db \<Rightarrow> (int \<times> 'k nfd_db) res" where
  "nfd_db_begin_transaction Q db =
     res_bind (db_exec Q ''BEGIN TRANSACTION'' db) (\<lambda>(r, db1).
     if res_status r \<noteq> PGRES_COMMAND_OK then Inr (0, db1)
     else Inr (1, db1\<lparr>db_inserted := 0, db_updated := 0\<rparr>))"

definition nfd_db_end_transaction :: "'k libpq \<Rightarrow> 'k nfd_db \<Rightarrow> (int \<times> 'k nfd_db) res" where
  "nfd_db_end_transaction Q db =
     res_bind (db_exec Q ''END TRANSACTION'' db) (\<lambda>(r, db1).
     Inr (if res_status r \<noteq> PGRES_COMMAND_OK then 0 else 1, db1))"

text \<open>The statement that \<open>nfd_db_update_counters\<close> sends, assignment by assignment; the result is
  reported as 1 in any case.\<close>

definition counters_sql :: string where
  "counters_sql = ''UPDATE nfd_counters SET '' @
     [CHR 0x09] @ ''interval = EXTRACT(SECONDS FROM (updated - prev_updated)), '' @
     [CHR 0x09] @ ''bytes_ps = (bytes - prev_bytes) /  (EXTRACT(SECONDS FROM (updated - prev_updated)) + 1), '' @
     [CHR 0x09] @ ''pkts_ps = (pkts - prev_pkts) /  (EXTRACT(SECONDS FROM (updated - prev_updated)) +1 ), '' @
     [CHR 0x09] @ ''flows_ps = (pkts - prev_flows) /  (EXTRACT(SECONDS FROM (updated - prev_updated)) + 1), '' @
     [CHR 0x09] @ ''prev_updated = updated, '' @
     [CHR 0x09] @ ''prev_bytes = bytes, '' @
     [CHR 0x09] @ ''prev_pkts = pkts, '' @
     [CHR 0x09] @ ''prev_flows = flows ''"

definition nfd_db_update_counters :: "'k libpq \<Rightarrow> 'k nfd_db \<Rightarrow> (int \<times> 'k nfd_db) res" where
  "nfd_db_update_counters Q db =
     res_bind (db_exec Q counters_sql db) (\<lambda>(r, db1). Inr (1, db1))"

definition stats_params ::
  "bool \<Rightarrow> string option \<Rightarrow> string option \<Rightarrow> u64 \<Rightarrow> nfd_counter \<Rightarrow> pq_param list res" where
  "stats_params big profile dynamic_profile w c =
     res_bind (u64_div (c_bytes c) w) (\<lambda>bytes_ps.
     res_bind (u64_div (c_pkts c) w) (\<lambda>pkts_ps.
     res_bind (u64_div (c_flows c) w) (\<lambda>flows_ps.
     Inr (PText profile # PText dynamic_profile #
          map (\<lambda>v. PBinary (mem_bytes big (htonll big v)))
            [c_bytes c, c_pkts c, c_flows c, bytes_ps, pkts_ps, flows_ps]))))"

definition db_exec_prepared ::
  "'k libpq \<Rightarrow> string \<Rightarrow> pq_param list \<Rightarrow> 'k nfd_db \<Rightarrow> (pq_result \<times> 'k nfd_db) res" where
  "db_exec_prepared Q name ps db =
     (case db_conn db of
        None \<Rightarrow> Inl NullDeref
      | Some k \<Rightarrow> let (r, k') = pq_exec_prepared Q name ps k in Inr (r, db\<lparr>db_conn := Some k'\<rparr>))"

definition nfd_db_store_stats ::
  "bool \<Rightarrow> 'k libpq \<Rightarrow> 'k nfd_db \<Rightarrow> string option \<Rightarrow> string option \<Rightarrow> int \<Rightarrow> nfd_counter
    \<Rightarrow> (int \<times> 'k nfd_db) res" where
  "nfd_db_store_stats big Q db profile dynamic_profile window c =
     res_bind (stats_params big profile dynamic_profile (u64_of_int window) c) (\<lambda>ps.
     res_bind (db_exec_prepared Q (db_upd_name db) ps db) (\<lambda>(r1, db1).
     if res_status r1 \<noteq> PGRES_COMMAND_OK then Inr (0, db1)
     else if c_atoi (res_tuples r1) > 0 then Inr (1, db1\<lparr>db_updated := db_updated db1 + 1\<rparr>)
     else
       res_bind (db_exec_prepared Q (db_ins_name db1) ps db1) (\<lambda>(r2, db2).
       if res_status r2 \<noteq> PGRES_COMMAND_OK then Inr (0, db2)
       else Inr (1, db2\<lparr>db_inserted := db_inserted db2 + 1\<rparr>))))"




section \<open>Network order, byte by byte\<close>

lemma byte_masks: "0xFF = (mask 8 :: u32)" "0xFF00 = (push_bit 8 (mask 8) :: u32)"
  by (simp_all add: mask_eq_exp_minus_1 push_bit_eq_mult)

lemma bit_htonl:
  assumes "n < 8"
  shows "bit (htonl False w) n = bit w (24 + n)" "bit (htonl False w) (8 + n) = bit w (16 + n)"
    "bit (htonl False w) (16 + n) = bit w (8 + n)" "bit (htonl False w) (24 + n) = bit w n"
  using assms unfolding htonl_def byte_masks
  by (auto simp: bit_simps add.commute [of n] dest: bit_imp_le_length)

lemma htonll_or:
  "htonll big x = or (push_bit 32 (ucast (htonl big (ucast x)))) (ucast (htonl big (ucast (drop_bit 32 x))))"
  unfolding htonll_def by (rule disjunctive_add) (auto simp: bit_simps dest: bit_imp_le_length)

lemma bit_htonll:
  "bit (htonll big x) n =
    (if n < 32 then bit (htonl big (ucast (drop_bit 32 x))) n else n < 64 \<and> bit (htonl big (ucast x)) (n - 32))"
  unfolding htonll_or by (auto simp: bit_simps dest: bit_imp_le_length)

lemma bit_byte_of: "bit (byte_of k w) n \<longleftrightarrow> n < 8 \<and> bit w (8 * k + n)"
  by (auto simp: byte_of_def bit_simps)

lemma byte_of_htonll:
  "byte_of 0 (htonll False x) = byte_of 7 x" "byte_of 1 (htonll False x) = byte_of 6 x"
  "byte_of 2 (htonll False x) = byte_of 5 x" "byte_of 3 (htonll False x) = byte_of 4 x"
  "byte_of 4 (htonll False x) = byte_of 3 x" "byte_of 5 (htonll False x) = byte_of 2 x"
  "byte_of 6 (htonll False x) = byte_of 1 x" "byte_of 7 (htonll False x) = byte_of 0 x"
  by (rule bit_eqI; auto simp: bit_byte_of bit_htonll bit_htonl bit_simps)+

lemma net_step: "or (push_bit 8 (drop_bit (8 * Suc j) x)) (ucast (byte_of j x)) = drop_bit (8 * j) (x :: u64)"
proof (rule bit_eqI)
  fix n
  show "bit (or (push_bit 8 (drop_bit (8 * Suc j) x)) (ucast (byte_of j x))) n = bit (drop_bit (8 * j) x) n"
  proof (cases "n < 8")
    case True
    then show ?thesis by (simp add: bit_simps bit_byte_of)
  next
    case False
    then obtain m where "n = 8 + m" by (metis le_Suc_ex not_less)
    then show ?thesis
      by (auto simp: bit_simps bit_byte_of add.assoc [symmetric] add.commute [of _ 8] dest: bit_imp_le_length)
  qed
qed

lemma net_int8_bytes: "net_int8 (rev (map (\<lambda>k. byte_of k x) [0..<8])) = x"
proof -
  have "foldl (\<lambda>w b. or (push_bit 8 w) (ucast b)) (drop_bit (8 * n) x) (rev (map (\<lambda>k. byte_of k x) [0..<n])) = x" for n
    by (induction n) (simp_all add: net_step del: mult_Suc_right)
  from this [of 8] show ?thesis
    by (simp add: net_int8_def)
qed

lemma upt_8: "[0..<8] = [0, 1, 2, 3, 4, 5, 6, 7 :: nat]"
  by (simp add: upt_conv_Cons)

lemma mem_bytes_htonll: "mem_bytes False (htonll False x) = rev (map (\<lambda>k. byte_of k x) [0..<8])"
  unfolding mem_bytes_def upt_8 by (simp add: byte_of_htonll byte_of_htonll(2) [unfolded One_nat_def])

section \<open>A store that adds up\<close>

text \<open>
  The interface of the counters table: storing the counters of a key adds them to the row of the key
  and makes the row when there is none. A row is three numbers that must fit the column type. The
  client lemma sums up any sequence of stores.
\<close>

type_synonym stats_row = "nat \<times> nat \<times> nat"

fun add_row :: "stats_row option \<Rightarrow> stats_row \<Rightarrow> stats_row" where
  "add_row None v = v"
| "add_row (Some (b, p, f)) (b', p', f') = (b + b', p + p', f + f')"








section \<open>The counters table is such a store\<close>

text \<open>What the server makes of the parameters of the two statements: the key and the three numbers
  to add.\<close>

definition stats_view :: "pq_param list \<Rightarrow> ((string \<times> string) \<times> stats_row) option" where
  "stats_view ps = (case ps of
     [PText (Some a), PText (Some d), PBinary x, PBinary y, PBinary z, PBinary _, PBinary _, PBinary _] \<Rightarrow>
       Some ((a, d), (unat (net_int8 x), unat (net_int8 y), unat (net_int8 z)))
   | _ \<Rightarrow> None)"














section \<open>Profiles from the database\<close>






section \<open>Properties\<close>


text \<open>The number that the server reads from the eight bytes of a parameter is the number that was
  stored when the host is little-endian. On a big-endian host the macro \<open>htonll\<close> exchanges the two
  halves of the number.\<close>

theorem htonll_decodes:
  "net_int8 (mem_bytes False (htonll False x)) = x \<and>
   net_int8 (mem_bytes True (htonll True x)) = or (push_bit 32 x) (drop_bit 32 x)"
proof
  show "net_int8 (mem_bytes False (htonll False x)) = x"
    by (simp add: mem_bytes_htonll net_int8_bytes)
  have "htonll True x = or (push_bit 32 x) (drop_bit 32 x)"
    by (rule bit_eqI) (auto simp: htonll_or htonl_def bit_simps dest: bit_imp_le_length)
  then show "net_int8 (mem_bytes True (htonll True x)) = or (push_bit 32 x) (drop_bit 32 x)"
    by (simp add: mem_bytes_def net_int8_bytes)
qed

text \<open>\<open>nfd_db_store_stats\<close> divides by the length of the window before it talks to the server: an
  empty window faults. Otherwise a failing update ends the call with 0, an update that hits no row is
  followed by the insert, whose failure also gives 0, and the counters of the handle change on
  success only.\<close>

theorem nfd_db_store_stats_branches:
  assumes "db_conn db = Some k"
  shows "nfd_db_store_stats big Q db profile dyn window c =
    (case stats_params big profile dyn (u64_of_int window) c of
       Inl e \<Rightarrow> Inl DivZero
     | Inr ps \<Rightarrow>
         let (r1, k1) = pq_exec_prepared Q (db_upd_name db) ps k;
             (r2, k2) = pq_exec_prepared Q (db_ins_name db) ps k1
         in Inr (if res_status r1 \<noteq> PGRES_COMMAND_OK then (0, db\<lparr>db_conn := Some k1\<rparr>)
                 else if c_atoi (res_tuples r1) > 0
                 then (1, db\<lparr>db_conn := Some k1, db_updated := db_updated db + 1\<rparr>)
                 else if res_status r2 \<noteq> PGRES_COMMAND_OK then (0, db\<lparr>db_conn := Some k2\<rparr>)
                 else (1, db\<lparr>db_conn := Some k2, db_inserted := db_inserted db + 1\<rparr>))) \<and>
   (u64_of_int window = 0 \<longleftrightarrow> stats_params big profile dyn (u64_of_int window) c = Inl DivZero)"
proof -
  have "stats_params big profile dyn (u64_of_int window) c = Inl e \<Longrightarrow> e = DivZero" for e
    by (auto simp: stats_params_def u64_div_def split: if_splits)
  then show ?thesis
    using assms
    by (auto simp: nfd_db_store_stats_def db_exec_prepared_def stats_params_def u64_div_def Let_def
        split: sum.splits prod.splits)
qed


section \<open>The properties on a concrete server\<close>

definition sample_server :: "(string \<times> string \<Rightarrow> stats_row option) libpq" where
  "sample_server = \<lparr>pq_connect = (\<lambda>_. Map.empty), pq_bad = (\<lambda>_. False),
     pq_prepare = (\<lambda>_ _ _ k. (\<lparr>res_status = PGRES_COMMAND_OK, res_rows = [], res_tuples = ''''\<rparr>, k)),
     pq_exec = (\<lambda>_ k. (\<lparr>res_status = PGRES_TUPLES_OK,
        res_rows = [(''p1'', '''', '''', ''3000000000''), ('''', '''', '''', ''5'')], res_tuples = ''''\<rparr>, k)),
     pq_exec_prepared = (\<lambda>name ps k.
       case stats_view ps of
         None \<Rightarrow> (\<lparr>res_status = PGRES_FATAL_ERROR, res_rows = [], res_tuples = ''''\<rparr>, k)
       | Some (key, v) \<Rightarrow>
           if name = ''update_counters''
           then if k key = None
                then (\<lparr>res_status = PGRES_COMMAND_OK, res_rows = [], res_tuples = ''0''\<rparr>, k)
                else (\<lparr>res_status = PGRES_COMMAND_OK, res_rows = [], res_tuples = ''1''\<rparr>,
                      k(key \<mapsto> add_row (k key) v))
           else (\<lparr>res_status = PGRES_COMMAND_OK, res_rows = [], res_tuples = ''1''\<rparr>, k(key \<mapsto> v)))\<rparr>"

definition sample_db :: "(string \<times> string \<Rightarrow> stats_row option) nfd_db" where
  "sample_db = \<lparr>db_type = NFD_DB_PGSQL, db_conn = Some Map.empty, db_ins_name = ''insert_counters'',
     db_upd_name = ''update_counters'', db_inserted = 0, db_updated = 0\<rparr>"




theorem nfd_db_store_stats_branches_witness:
  "nfd_db_store_stats False sample_server sample_db (Some ''p'') (Some ''d'') 0 zero_counter = Inl DivZero"
proof -
  have conn: "db_conn sample_db = Some Map.empty" by (simp add: sample_db_def)
  from nfd_db_store_stats_branches [OF conn, of False sample_server "Some ''p''" "Some ''d''" 0 zero_counter]
  show ?thesis by simp
qed



end
