(* ===== verification/Parser_Tables.thy ===== *)
theory Parser_Tables
  imports Prelude
begin

text \<open>
  The token codes, the constants and the tables of \<open>config.tab.c\<close>, the parser that Bison generated
  from \<open>config.y\<close>, and reading a table at an index. What the tables decode to is shown in the theory
  \<open>Parser\<close>.
\<close>

section \<open>Tokens\<close>

datatype yytokentype =
    OBRACE | EBRACE | SEMICOLON | PROFILETOK | LIMITTOK | FILTERTOK | BITPSTOK | PPSTOK |
    FPSTOK | FILETOK | STARTTOK | STOPTOK | OPTIONSTOK | DEBUGTOK | PIDTOK | ACTIONTOK |
    WHENTOK | TRACKTOK | LEVELTOK | COMMANDTOK | NEWTOK | DELTOK | HASHTOK | BUCKETSTOK |
    DSTIPTOK | WINDOWTOK | DYNAMICTOK | SLOTSTOK | TIMETOK | SIZETOK | EXPIRETOK | DELAYTOK |
    INPUTTOK | SHMTOK | DBTOK | CONNECTTOK | EXPORTTOK | INTERVALTOK | MINTOK | NUMBER |
    FACTOR | STRING

primrec token_code :: "yytokentype \<Rightarrow> int" where
  "token_code OBRACE = 258"
| "token_code EBRACE = 259"
| "token_code SEMICOLON = 260"
| "token_code PROFILETOK = 261"
| "token_code LIMITTOK = 262"
| "token_code FILTERTOK = 263"
| "token_code BITPSTOK = 264"
| "token_code PPSTOK = 265"
| "token_code FPSTOK = 266"
| "token_code FILETOK = 267"
| "token_code STARTTOK = 268"
| "token_code STOPTOK = 269"
| "token_code OPTIONSTOK = 270"
| "token_code DEBUGTOK = 271"
| "token_code PIDTOK = 272"
| "token_code ACTIONTOK = 273"
| "token_code WHENTOK = 274"
| "token_code TRACKTOK = 275"
| "token_code LEVELTOK = 276"
| "token_code COMMANDTOK = 277"
| "token_code NEWTOK = 278"
| "token_code DELTOK = 279"
| "token_code HASHTOK = 280"
| "token_code BUCKETSTOK = 281"
| "token_code DSTIPTOK = 282"
| "token_code WINDOWTOK = 283"
| "token_code DYNAMICTOK = 284"
| "token_code SLOTSTOK = 285"
| "token_code TIMETOK = 286"
| "token_code SIZETOK = 287"
| "token_code EXPIRETOK = 288"
| "token_code DELAYTOK = 289"
| "token_code INPUTTOK = 290"
| "token_code SHMTOK = 291"
| "token_code DBTOK = 292"
| "token_code CONNECTTOK = 293"
| "token_code EXPORTTOK = 294"
| "token_code INTERVALTOK = 295"
| "token_code MINTOK = 296"
| "token_code NUMBER = 297"
| "token_code FACTOR = 298"
| "token_code STRING = 299"

section \<open>Constants\<close>

definition YYEMPTY :: int where "YYEMPTY = - 2"
definition YYEOF :: int where "YYEOF = 0"
definition YYTERROR :: int where "YYTERROR = 1"
definition YYFINAL :: int where "YYFINAL = 5"
definition YYLAST :: int where "YYLAST = 60"
definition YYNTOKENS :: int where "YYNTOKENS = 45"
definition YYUNDEFTOK :: int where "YYUNDEFTOK = 2"
definition YYMAXUTOK :: int where "YYMAXUTOK = 299"
definition YYPACT_NINF :: int where "YYPACT_NINF = - 30"
definition YYINITDEPTH :: nat where "YYINITDEPTH = 200"
definition YYMAXDEPTH :: nat where "YYMAXDEPTH = 10000"

section \<open>Tables\<close>

definition yytranslate :: "int list" where
  "yytranslate = [
   0, 2, 2, 2, 2, 2, 2, 2, 2, 2, 2, 2, 2, 2, 2, 2, 2, 2, 2, 2, 2, 2, 2, 2, 2, 2, 2, 2, 2, 2, 2,
   2, 2, 2, 2, 2, 2, 2, 2, 2, 2, 2, 2, 2, 2, 2, 2, 2, 2, 2, 2, 2, 2, 2, 2, 2, 2, 2, 2, 2, 2, 2,
   2, 2, 2, 2, 2, 2, 2, 2, 2, 2, 2, 2, 2, 2, 2, 2, 2, 2, 2, 2, 2, 2, 2, 2, 2, 2, 2, 2, 2, 2, 2,
   2, 2, 2, 2, 2, 2, 2, 2, 2, 2, 2, 2, 2, 2, 2, 2, 2, 2, 2, 2, 2, 2, 2, 2, 2, 2, 2, 2, 2, 2, 2,
   2, 2, 2, 2, 2, 2, 2, 2, 2, 2, 2, 2, 2, 2, 2, 2, 2, 2, 2, 2, 2, 2, 2, 2, 2, 2, 2, 2, 2, 2, 2,
   2, 2, 2, 2, 2, 2, 2, 2, 2, 2, 2, 2, 2, 2, 2, 2, 2, 2, 2, 2, 2, 2, 2, 2, 2, 2, 2, 2, 2, 2, 2,
   2, 2, 2, 2, 2, 2, 2, 2, 2, 2, 2, 2, 2, 2, 2, 2, 2, 2, 2, 2, 2, 2, 2, 2, 2, 2, 2, 2, 2, 2, 2,
   2, 2, 2, 2, 2, 2, 2, 2, 2, 2, 2, 2, 2, 2, 2, 2, 2, 2, 2, 2, 2, 2, 2, 2, 2, 2, 2, 2, 2, 2, 2,
   2, 2, 2, 2, 2, 2, 2, 2, 1, 2, 3, 4, 5, 6, 7, 8, 9, 10, 11, 12, 13, 14, 15, 16, 17, 18, 19,
   20, 21, 22, 23, 24, 25, 26, 27, 28, 29, 30, 31, 32, 33, 34, 35, 36, 37, 38, 39, 40, 41, 42,
   43, 44]"

definition yyr1 :: "int list" where
  "yyr1 = [
   0, 45, 46, 47, 48, 48, 49, 49, 49, 49, 49, 49, 49, 49, 49, 49, 49, 49, 50, 50, 51, 52, 51,
   51, 53, 54, 53, 55, 55, 55, 55, 55, 55, 55, 55, 55]"

definition yyr2 :: "int list" where
  "yyr2 = [
   0, 2, 2, 4, 0, 3, 0, 3, 3, 3, 3, 3, 3, 4, 5, 4, 4, 4, 0, 2, 0, 0, 6, 3, 0, 0, 4, 0, 2, 2, 3,
   3, 3, 4, 4, 4]"

definition yydefact :: "int list" where
  "yydefact = [
   0, 0, 0, 18, 4, 1, 2, 6, 0, 19, 3, 0, 0, 0, 0, 0, 0, 0, 0, 0, 0, 0, 0, 0, 0, 0, 0, 0, 0, 5,
   23, 21, 7, 8, 0, 0, 0, 9, 11, 10, 12, 0, 0, 24, 15, 16, 17, 13, 0, 25, 14, 22, 27, 0, 0, 0,
   0, 0, 28, 29, 26, 30, 31, 32, 0, 33, 34, 35]"

definition yydefgoto :: "int list" where
  "yydefgoto = [
   - 1, 2, 3, 7, 17, 6, 9, 43, 49, 52, 56]"

definition yypact :: "int list" where
  "yypact = [
   - 6, 21, 25, - 30, - 30, - 30, 20, 0, - 29, - 30, - 30, 8, 18, 7, 4, - 5, - 25, 27, 28, 35,
   - 3, - 4, 19, - 15, 2, - 1, 3, 5, - 18, - 30, - 30, - 30, - 30, - 30, 6, 9, 10, - 30, - 30,
   - 30, - 30, 12, 32, - 30, - 30, - 30, - 30, - 30, 13, 41, - 30, - 30, - 2, 14, 15, 16, 43,
   - 9, - 30, - 30, - 30, - 30, - 30, - 30, 1, - 30, - 30, - 30]"

definition yypgoto :: "int list" where
  "yypgoto = [
   - 30, - 30, - 30, - 30, - 30, - 30, - 30, - 30, - 30, - 30, - 30]"

definition yytable :: "int list" where
  "yytable = [
   61, 62, 63, 25, 10, 53, 54, 35, 18, 1, 65, 66, 67, 27, 28, 19, 11, 12, 13, 36, 22, 23, 41,
   42, 4, 5, 8, 55, 14, 20, 21, 26, 29, 30, 64, 15, 24, 16, 31, 32, 33, 34, 48, 38, 37, 51, 0,
   39, 60, 40, 44, 0, 46, 45, 47, 50, 57, 0, 0, 58, 59]"

definition yycheck :: "int list" where
  "yycheck = [
   9, 10, 11, 8, 4, 7, 8, 22, 37, 15, 9, 10, 11, 38, 39, 44, 16, 17, 18, 34, 13, 14, 40, 41, 3,
   0, 6, 29, 28, 21, 12, 36, 5, 5, 43, 35, 32, 37, 3, 42, 44, 22, 10, 44, 42, 4, - 1, 44, 5,
   44, 44, - 1, 42, 44, 42, 42, 42, - 1, - 1, 44, 44]"

definition yystos :: "int list" where
  "yystos = [
   0, 15, 46, 47, 3, 0, 50, 48, 6, 51, 4, 16, 17, 18, 28, 35, 37, 49, 37, 44, 21, 12, 13, 14,
   32, 8, 36, 38, 39, 5, 5, 3, 42, 44, 22, 22, 34, 42, 44, 44, 44, 40, 41, 52, 44, 44, 42, 42,
   10, 53, 42, 4, 54, 7, 8, 29, 55, 42, 44, 44, 5, 9, 10, 11, 43, 9, 10, 11]"

text \<open>An index outside a table is a fault.\<close>

definition tbl :: "int list \<Rightarrow> int \<Rightarrow> int res" where
  "tbl xs i = (if 0 \<le> i \<and> i < int (length xs) then Inr (xs ! nat i) else Inl OutOfBounds)"

definition yytranslate_code :: "int \<Rightarrow> int res" where
  "yytranslate_code c =
     (if unat (word_of_int c :: u32) \<le> nat YYMAXUTOK then tbl yytranslate c else Inr YYUNDEFTOK)"

end
