(* ===== verification/Lexer_Tables.thy ===== *)
theory Lexer_Tables
  imports Parser_Tables
begin

text \<open>
  The tables of \<open>lex.yy.c\<close>, the scanner that flex generated from \<open>config.l\<close>, and one transition of
  its automaton. The tables are compressed: a state keeps only the transitions in which it differs
  from the state that \<open>yy_def\<close> names, and the templates 181 to 183 work on the classes of \<open>yy_meta\<close>.
  The decoded automaton has one row for each state; that the tables decode to it, without reading
  outside a table, is checked row by row.
\<close>

section \<open>Tables\<close>

definition yy_accept :: "int list" where
  "yy_accept = [
   0, 0, 0, 51, 50, 49, 48, 50, 1, 47, 4, 45, 46, 50, 50, 50, 50, 50, 50, 50, 50, 50, 46, 50,
   50, 50, 50, 50, 50, 2, 45, 3, 49, 0, 36, 0, 1, 47, 0, 0, 0, 0, 0, 29, 0, 0, 0, 0, 0, 0, 0,
   0, 0, 0, 0, 0, 0, 0, 0, 0, 0, 0, 0, 0, 0, 0, 0, 0, 0, 0, 0, 0, 36, 0, 0, 38, 37, 0, 0, 0, 0,
   0, 0, 0, 0, 41, 0, 0, 42, 0, 0, 0, 0, 32, 0, 0, 40, 6, 39, 0, 22, 0, 0, 0, 0, 0, 0, 0, 0, 0,
   0, 0, 0, 0, 0, 0, 0, 0, 0, 7, 0, 0, 25, 0, 0, 0, 0, 0, 0, 16, 0, 0, 13, 15, 0, 23, 0, 0, 0,
   0, 0, 8, 18, 27, 0, 0, 0, 0, 0, 43, 21, 9, 35, 0, 0, 0, 14, 12, 24, 0, 10, 0, 0, 0, 0, 17,
   31, 19, 44, 0, 0, 0, 28, 26, 11, 30, 34, 33, 5, 20, 0]"

definition yy_ec :: "int list" where
  "yy_ec = [
   0, 1, 1, 1, 1, 1, 1, 1, 1, 2, 3, 1, 1, 1, 1, 1, 1, 1, 1, 1, 1, 1, 1, 1, 1, 1, 1, 1, 1, 1, 1,
   1, 2, 1, 4, 5, 1, 1, 1, 1, 1, 1, 1, 1, 1, 1, 1, 6, 7, 7, 7, 7, 7, 7, 7, 7, 7, 7, 1, 8, 1, 1,
   1, 1, 1, 1, 1, 1, 1, 1, 1, 1, 1, 1, 1, 9, 1, 10, 1, 1, 1, 1, 1, 1, 1, 1, 1, 1, 1, 1, 1, 1,
   11, 1, 1, 1, 1, 12, 13, 14, 15, 16, 17, 18, 19, 20, 1, 21, 22, 23, 24, 25, 26, 1, 27, 28,
   29, 30, 31, 32, 33, 34, 35, 36, 37, 38, 1, 1, 1, 1, 1, 1, 1, 1, 1, 1, 1, 1, 1, 1, 1, 1, 1,
   1, 1, 1, 1, 1, 1, 1, 1, 1, 1, 1, 1, 1, 1, 1, 1, 1, 1, 1, 1, 1, 1, 1, 1, 1, 1, 1, 1, 1, 1, 1,
   1, 1, 1, 1, 1, 1, 1, 1, 1, 1, 1, 1, 1, 1, 1, 1, 1, 1, 1, 1, 1, 1, 1, 1, 1, 1, 1, 1, 1, 1, 1,
   1, 1, 1, 1, 1, 1, 1, 1, 1, 1, 1, 1, 1, 1, 1, 1, 1, 1, 1, 1, 1, 1, 1, 1, 1, 1, 1, 1, 1, 1, 1,
   1, 1, 1, 1, 1, 1, 1, 1, 1, 1, 1, 1, 1, 1, 1, 1, 1, 1, 1, 1]"

definition yy_meta :: "int list" where
  "yy_meta = [
   0, 1, 1, 2, 1, 1, 1, 1, 1, 1, 1, 1, 1, 1, 1, 1, 1, 1, 1, 1, 1, 1, 1, 1, 1, 1, 1, 1, 1, 1, 1,
   1, 1, 1, 1, 1, 1, 1, 1]"

definition yy_base :: "int list" where
  "yy_base = [
   0, 0, 0, 201, 202, 198, 202, 35, 0, 192, 202, 202, 202, 184, 34, 172, 28, 163, 37, 183, 170,
   29, 173, 163, 165, 41, 50, 28, 31, 202, 202, 202, 188, 54, 202, 70, 0, 182, 159, 159, 158,
   171, 29, 202, 53, 155, 159, 156, 153, 158, 154, 150, 149, 150, 144, 151, 149, 156, 142, 142,
   154, 140, 142, 143, 130, 139, 59, 140, 150, 145, 136, 72, 74, 83, 139, 202, 202, 137, 134,
   132, 125, 142, 133, 140, 57, 202, 64, 119, 202, 131, 119, 132, 127, 202, 119, 125, 202, 202,
   202, 127, 202, 127, 113, 114, 114, 123, 124, 113, 121, 110, 118, 121, 116, 113, 96, 103,
   105, 100, 99, 202, 109, 62, 202, 95, 101, 93, 90, 95, 99, 202, 90, 88, 202, 202, 95, 202,
   90, 90, 84, 88, 97, 202, 202, 202, 90, 93, 79, 80, 78, 202, 202, 202, 202, 93, 80, 81, 202,
   202, 202, 70, 202, 73, 85, 70, 78, 202, 202, 202, 202, 69, 61, 38, 202, 202, 202, 202, 202,
   202, 202, 202, 202, 94, 41, 96]"

definition yy_def :: "int list" where
  "yy_def = [
   0, 180, 1, 180, 180, 180, 180, 181, 182, 180, 180, 180, 180, 180, 180, 180, 180, 180, 180,
   180, 180, 180, 180, 180, 180, 180, 180, 180, 180, 180, 180, 180, 180, 181, 180, 183, 182,
   180, 180, 180, 180, 180, 180, 180, 180, 180, 180, 180, 180, 180, 180, 180, 180, 180, 180,
   180, 180, 180, 180, 180, 180, 180, 180, 180, 180, 180, 180, 180, 180, 180, 180, 181, 181,
   183, 180, 180, 180, 180, 180, 180, 180, 180, 180, 180, 180, 180, 180, 180, 180, 180, 180,
   180, 180, 180, 180, 180, 180, 180, 180, 180, 180, 180, 180, 180, 180, 180, 180, 180, 180,
   180, 180, 180, 180, 180, 180, 180, 180, 180, 180, 180, 180, 180, 180, 180, 180, 180, 180,
   180, 180, 180, 180, 180, 180, 180, 180, 180, 180, 180, 180, 180, 180, 180, 180, 180, 180,
   180, 180, 180, 180, 180, 180, 180, 180, 180, 180, 180, 180, 180, 180, 180, 180, 180, 180,
   180, 180, 180, 180, 180, 180, 180, 180, 180, 180, 180, 180, 180, 180, 180, 180, 180, 0, 180,
   180, 180]"

definition yy_nxt :: "int list" where
  "yy_nxt = [
   0, 4, 5, 6, 7, 8, 4, 9, 10, 11, 12, 4, 13, 14, 15, 16, 17, 18, 4, 19, 20, 11, 21, 22, 23,
   24, 25, 4, 26, 27, 4, 4, 28, 4, 4, 4, 29, 30, 31, 34, 39, 43, 36, 48, 44, 54, 35, 59, 67,
   55, 69, 70, 78, 79, 179, 68, 45, 49, 34, 50, 40, 60, 46, 51, 41, 35, 80, 61, 62, 63, 64,
   103, 65, 33, 72, 81, 34, 117, 34, 66, 119, 73, 118, 35, 104, 35, 33, 72, 148, 178, 149, 177,
   176, 120, 73, 33, 33, 71, 71, 175, 174, 173, 172, 171, 170, 169, 168, 167, 166, 165, 164,
   163, 162, 161, 160, 159, 158, 157, 156, 155, 154, 153, 152, 151, 150, 147, 146, 145, 144,
   143, 142, 141, 140, 139, 138, 137, 136, 135, 134, 133, 132, 131, 130, 129, 128, 127, 126,
   125, 124, 123, 122, 121, 116, 115, 114, 113, 112, 111, 110, 109, 108, 107, 106, 105, 102,
   101, 100, 99, 98, 97, 96, 95, 94, 93, 92, 91, 90, 89, 88, 87, 86, 85, 84, 83, 82, 77, 76,
   75, 74, 37, 32, 58, 57, 56, 53, 52, 47, 42, 38, 37, 32, 180, 3, 180, 180, 180, 180, 180,
   180, 180, 180, 180, 180, 180, 180, 180, 180, 180, 180, 180, 180, 180, 180, 180, 180, 180,
   180, 180, 180, 180, 180, 180, 180, 180, 180, 180, 180, 180, 180, 180, 180]"

definition yy_chk :: "int list" where
  "yy_chk = [
   0, 1, 1, 1, 1, 1, 1, 1, 1, 1, 1, 1, 1, 1, 1, 1, 1, 1, 1, 1, 1, 1, 1, 1, 1, 1, 1, 1, 1, 1, 1,
   1, 1, 1, 1, 1, 1, 1, 1, 7, 14, 16, 182, 18, 16, 21, 7, 25, 27, 21, 28, 28, 42, 42, 171, 27,
   16, 18, 33, 18, 14, 25, 16, 18, 14, 33, 44, 25, 25, 26, 26, 66, 26, 35, 35, 44, 71, 84, 72,
   26, 86, 35, 84, 71, 66, 72, 73, 73, 121, 170, 121, 169, 164, 86, 73, 181, 181, 183, 183,
   163, 162, 161, 159, 155, 154, 153, 148, 147, 146, 145, 144, 140, 139, 138, 137, 136, 134,
   131, 130, 128, 127, 126, 125, 124, 123, 120, 118, 117, 116, 115, 114, 113, 112, 111, 110,
   109, 108, 107, 106, 105, 104, 103, 102, 101, 99, 95, 94, 92, 91, 90, 89, 87, 83, 82, 81, 80,
   79, 78, 77, 74, 70, 69, 68, 67, 65, 64, 63, 62, 61, 60, 59, 58, 57, 56, 55, 54, 53, 52, 51,
   50, 49, 48, 47, 46, 45, 41, 40, 39, 38, 37, 32, 24, 23, 22, 20, 19, 17, 15, 13, 9, 5, 3,
   180, 180, 180, 180, 180, 180, 180, 180, 180, 180, 180, 180, 180, 180, 180, 180, 180, 180,
   180, 180, 180, 180, 180, 180, 180, 180, 180, 180, 180, 180, 180, 180, 180, 180, 180, 180,
   180, 180, 180]"

definition yy_rule_can_match_eol :: "int list" where
  "yy_rule_can_match_eol = [
   0, 0, 0, 0, 0, 0, 0, 0, 0, 0, 0, 0, 0, 0, 0, 0, 0, 0, 0, 0, 0, 0, 0, 0, 0, 0, 0, 0, 0, 0, 0,
   0, 0, 0, 0, 0, 1, 0, 0, 0, 0, 0, 0, 0, 0, 0, 0, 0, 1, 0, 0]"

text \<open>Codes: the rule of a buffer that ends, the state that jams, the end of a buffer.\<close>

definition YY_NUM_RULES :: int where
  "YY_NUM_RULES = 50"

definition YY_END_OF_BUFFER :: int where
  "YY_END_OF_BUFFER = 51"

definition YY_JAM :: int where
  "YY_JAM = 180"

definition YY_JAM_BASE :: int where
  "YY_JAM_BASE = 202"

definition YY_FIRST_TEMPLATE :: int where
  "YY_FIRST_TEMPLATE = 181"

section \<open>A transition\<close>

text \<open>
  The loop over \<open>yy_def\<close>, with the number of its rounds bounded; no state has more than two states
  above it.
\<close>

fun yy_chain :: "nat \<Rightarrow> int \<Rightarrow> int \<Rightarrow> int res" where
  "yy_chain 0 s c = Inl OutOfBounds"
| "yy_chain (Suc n) s c =
     res_bind (tbl yy_base s) (\<lambda>b.
     res_bind (tbl yy_chk (b + c)) (\<lambda>k.
     if k = s then tbl yy_nxt (b + c)
     else
       res_bind (tbl yy_def s) (\<lambda>s'.
       res_bind (if s' \<ge> YY_FIRST_TEMPLATE then tbl yy_meta c else Inr c) (\<lambda>c'.
       yy_chain n s' c'))))"

definition yy_transition :: "int \<Rightarrow> int \<Rightarrow> int res" where
  "yy_transition s c = yy_chain 3 s c"

section \<open>The automaton behind the tables\<close>

text \<open>
  For each state the states that classes of characters lead to, and the state that all other
  classes lead to. The class 0 is that of the end of a buffer and leads to the state 3 unless the
  row says otherwise.
\<close>
definition lex_rows :: "((int \<times> int) list \<times> int) list" where
  "lex_rows = [
   ([], 0), ([(1, 4), (2, 5), (3, 6), (4, 7), (5, 8), (6, 4), (7, 9), (8, 10), (9, 11), (10,
   12), (11, 4), (12, 13), (13, 14), (14, 15), (15, 16), (16, 17), (17, 18), (18, 4), (19, 19),
   (20, 20), (21, 11), (22, 21), (23, 22), (24, 23), (25, 24), (26, 25), (27, 4), (28, 26),
   (29, 27), (30, 4), (31, 4), (32, 28), (33, 4), (34, 4), (35, 4), (36, 29), (37, 30), (38,
   31)], 180), ([(1, 4), (2, 5), (3, 6), (4, 7), (5, 8), (6, 4), (7, 9), (8, 10), (9, 11), (10,
   12), (11, 4), (12, 13), (13, 14), (14, 15), (15, 16), (16, 17), (17, 18), (18, 4), (19, 19),
   (20, 20), (21, 11), (22, 21), (23, 22), (24, 23), (25, 24), (26, 25), (27, 4), (28, 26),
   (29, 27), (30, 4), (31, 4), (32, 28), (33, 4), (34, 4), (35, 4), (36, 29), (37, 30), (38,
   31)], 180), ([(0, 180)], 180), ([], 180), ([(2, 32)], 180), ([], 180), ([(4, 34), (11, 35)],
   33), ([(3, 180)], 36), ([(7, 37)], 180), ([], 180), ([], 180), ([], 180), ([(14, 38)], 180),
   ([(6, 39), (26, 40), (30, 41)], 180), ([(25, 42)], 180), ([(13, 43), (16, 44), (28, 45),
   (34, 46)], 180), ([(33, 47)], 180), ([(6, 48), (20, 49), (22, 50), (26, 51)], 180), ([(12,
   52)], 180), ([(24, 53)], 180), ([(16, 54), (20, 55)], 180), ([(20, 56)], 180), ([(29, 57)],
   180), ([(26, 58)], 180), ([(6, 59), (20, 60), (26, 61), (27, 62)], 180), ([(19, 63), (20,
   64), (22, 65), (29, 66)], 180), ([(20, 67), (27, 68)], 180), ([(19, 69), (20, 70)], 180),
   ([], 180), ([], 180), ([], 180), ([(2, 32)], 180), ([(4, 34), (11, 35)], 33), ([], 180),
   ([(3, 33), (4, 72), (11, 73)], 71), ([(3, 180)], 36), ([(7, 37)], 180), ([(29, 74)], 180),
   ([(28, 75)], 180), ([(28, 76)], 180), ([(14, 77)], 180), ([(23, 78), (24, 79)], 180), ([],
   180), ([(13, 80), (22, 81)], 180), ([(29, 82)], 180), ([(24, 83)], 180), ([(26, 84)], 180),
   ([(28, 85)], 180), ([(22, 86)], 180), ([(25, 87)], 180), ([(28, 88)], 180), ([(28, 89)],
   180), ([(26, 90)], 180), ([(31, 91)], 180), ([(23, 92)], 180), ([(24, 93)], 180), ([(16,
   94)], 180), ([(29, 95)], 180), ([(28, 96)], 180), ([(15, 97)], 180), ([(28, 98)], 180),
   ([(25, 99)], 180), ([(23, 100)], 180), ([(35, 101)], 180), ([(25, 102)], 180), ([(12, 103),
   (25, 104)], 180), ([(23, 105)], 180), ([(12, 106)], 180), ([(16, 107)], 180), ([(24, 108)],
   180), ([(4, 34), (11, 35)], 33), ([(4, 34), (11, 35)], 33), ([(3, 33), (4, 72), (11, 73)],
   71), ([(20, 109)], 180), ([], 180), ([], 180), ([(21, 110)], 180), ([(23, 111)], 180),
   ([(24, 112)], 180), ([(30, 113)], 180), ([(12, 114)], 180), ([(20, 115)], 180), ([(12,
   116)], 180), ([(20, 117), (25, 118)], 180), ([], 180), ([(16, 119), (29, 120)], 180), ([(32,
   121)], 180), ([], 180), ([(19, 122)], 180), ([(30, 123)], 180), ([(16, 124)], 180), ([(20,
   125)], 180), ([], 180), ([(27, 126)], 180), ([(20, 127)], 180), ([], 180), ([], 180), ([],
   180), ([(17, 128)], 180), ([], 180), ([(16, 129)], 180), ([(29, 130)], 180), ([(27, 131)],
   180), ([(26, 132)], 180), ([(16, 133)], 180), ([(14, 134)], 180), ([(24, 135)], 180), ([(15,
   136)], 180), ([(25, 137)], 180), ([(16, 138)], 180), ([(12, 139)], 180), ([(16, 140)], 180),
   ([(18, 141)], 180), ([(34, 142)], 180), ([(26, 143)], 180), ([(23, 144)], 180), ([(27,
   145)], 180), ([(27, 146)], 180), ([], 180), ([(16, 147)], 180), ([(26, 148), (28, 149)],
   180), ([], 180), ([(29, 150)], 180), ([(22, 151)], 180), ([(29, 152)], 180), ([(31, 153)],
   180), ([(25, 154)], 180), ([(20, 155)], 180), ([], 180), ([(28, 156)], 180), ([(29, 157)],
   180), ([], 180), ([], 180), ([(21, 158)], 180), ([], 180), ([(25, 159)], 180), ([(24, 160)],
   180), ([(29, 161)], 180), ([(24, 162)], 180), ([(14, 163)], 180), ([], 180), ([], 180), ([],
   180), ([(20, 164)], 180), ([(16, 165)], 180), ([(29, 166)], 180), ([(27, 167)], 180), ([(28,
   168)], 180), ([], 180), ([], 180), ([], 180), ([], 180), ([(12, 169)], 180), ([(24, 170)],
   180), ([(22, 171)], 180), ([], 180), ([], 180), ([], 180), ([(32, 172)], 180), ([], 180),
   ([(28, 173)], 180), ([(15, 174)], 180), ([(29, 175)], 180), ([(14, 176)], 180), ([], 180),
   ([], 180), ([], 180), ([], 180), ([(22, 177)], 180), ([(28, 178)], 180), ([(16, 179)], 180),
   ([], 180), ([], 180), ([], 180), ([], 180), ([], 180), ([], 180), ([], 180), ([], 180), ([],
   180)]"

definition lex_target :: "(int \<times> int) list \<times> int \<Rightarrow> int \<Rightarrow> int" where
  "lex_target row c =
     (case map_of (fst row) c of Some t \<Rightarrow> t | None \<Rightarrow> if c = 0 then 3 else snd row)"

definition lex_step :: "int \<Rightarrow> int \<Rightarrow> int" where
  "lex_step s c = lex_target (lex_rows ! nat s) c"

text \<open>
  A row against the tables: \<open>explicit\<close> are the transitions that the state has itself, from its
  place in \<open>yy_chk\<close> and \<open>yy_nxt\<close> on; the rest comes from the state above it.
\<close>
fun explicit :: "int \<Rightarrow> int list \<Rightarrow> int list \<Rightarrow> int list \<Rightarrow> (int \<times> int) list" where
  "explicit s (c # cs) (k # ks) (n # ns) =
     (if k = s then (c, n) # explicit s cs ks ns else explicit s cs ks ns)"
| "explicit s cs ks ns = map (\<lambda>c. (- 1, c)) cs"

fun explicit_at :: "nat \<Rightarrow> int \<Rightarrow> int list \<Rightarrow> int list \<Rightarrow> (int \<times> int) list" where
  "explicit_at 0 s ks ns = explicit s [0..38] ks ns"
| "explicit_at (Suc i) s (k # ks) (n # ns) = explicit_at i s ks ns"
| "explicit_at i s ks ns = [(- 1, - 1)]"

definition default_of :: "int \<Rightarrow> int" where
  "default_of d = (if d = 181 then 33 else if d = 182 then 36 else if d = 183 then 71 else 180)"

definition extra_of :: "int \<Rightarrow> (int \<times> int) list" where
  "extra_of d = (if d = 182 then [(3, 180)] else [])"

definition row_matches :: "int list \<Rightarrow> int list \<Rightarrow> int \<Rightarrow> int \<Rightarrow> int \<Rightarrow> (int \<times> int) list \<times> int \<Rightarrow> bool" where
  "row_matches ks ns s b d r \<longleftrightarrow>
     (if d = 0 then s = 0 \<or> s = 180
      else if d = 1 then s = 2 \<and> b = 0 \<and> explicit_at (nat b) s ks ns = []
      else 180 \<le> d \<and> d \<le> 183 \<and> 0 \<le> b \<and> explicit_at (nat b) s ks ns @ extra_of d = fst r \<and>
        snd r = default_of d)"

fun rows_match ::
  "int list \<Rightarrow> int list \<Rightarrow> int \<Rightarrow> int list \<Rightarrow> int list \<Rightarrow> ((int \<times> int) list \<times> int) list \<Rightarrow> bool" where
  "rows_match ks ns s (b # bs) (d # ds) (r # rs) \<longleftrightarrow>
     row_matches ks ns s b d r \<and> rows_match ks ns (s + 1) bs ds rs"
| "rows_match ks ns s bs ds [] \<longleftrightarrow> True"
| "rows_match ks ns s bs ds (r # rs) \<longleftrightarrow> False"

lemma weak_congs:
  "s = s' \<Longrightarrow> explicit s cs ks ns = explicit s' cs ks ns"
  "n = n' \<Longrightarrow> explicit_at n s ks ns = explicit_at n' s ks ns"
  "s = s' \<Longrightarrow> rows_match ks ns s bs ds rs = rows_match ks ns s' bs ds rs"
  by simp_all

lemma explicit_at_eqs:
  "explicit_at 0 s ks ns = explicit s [0, 1, 2, 3, 4, 5, 6, 7, 8, 9, 10, 11, 12, 13, 14, 15, 16, 17,
     18, 19, 20, 21, 22, 23, 24, 25, 26, 27, 28, 29, 30, 31, 32, 33, 34, 35, 36, 37, 38] ks ns"
  "explicit_at (numeral v) s (k # ks) (n # ns) = explicit_at (pred_numeral v) s ks ns"
  by (simp_all add: numeral_eq_Suc upto_rec1)

lemmas row_simps = rows_match.simps row_matches_def explicit.simps explicit_at_eqs pred_numeral_simps list.map
  BitM.simps nat_numeral nat_0 rel_simps arith_simps arith_special if_False if_True fst_conv snd_conv
  append_Nil2 append_Nil append_Cons default_of_def extra_of_def
  simp_thms list.inject list.distinct prod.inject

lemma tables_match_rows:
  "rows_match yy_chk yy_nxt 0 yy_base yy_def lex_rows"
  unfolding yy_chk_def yy_nxt_def yy_base_def yy_def_def lex_rows_def
  by (simp only: row_simps cong: weak_congs if_weak_cong)

lemma explicit_spec:
  assumes "explicit s cs ks ns = es" "- 1 \<notin> fst ` set es" "distinct cs"
  shows "length cs \<le> length ks \<and> length cs \<le> length ns \<and>
    (\<forall>i < length cs. map_of es (cs ! i) = (if ks ! i = s then Some (ns ! i) else None)) \<and>
    (\<forall>a b. (a, b) \<in> set es \<longrightarrow> a \<in> set cs)"
  using assms
proof (induction s cs ks ns arbitrary: es rule: explicit.induct)
  case (1 s c cs k ks n ns)
  have "length cs \<le> length ks \<and> length cs \<le> length ns \<and>
    (\<forall>i < length cs. map_of (explicit s cs ks ns) (cs ! i) = (if ks ! i = s then Some (ns ! i) else None)) \<and>
    (\<forall>a b. (a, b) \<in> set (explicit s cs ks ns) \<longrightarrow> a \<in> set cs)"
    using 1 by (cases "k = s") (auto, blast?)
  moreover from this 1(5) have "map_of (explicit s cs ks ns) c = None"
    by (auto simp: map_of_eq_None_iff)
  ultimately show ?case
    using 1(3) 1(5) by (cases "k = s") (auto simp: nth_Cons less_Suc_eq_0_disj split: nat.splits, blast?)
qed (auto simp: image_constant_conv image_image split: if_splits)

lemma explicit_at_spec:
  assumes "explicit_at j s ks ns = es" "- 1 \<notin> fst ` set es"
  shows "j + 38 < length ks \<and> j + 38 < length ns \<and>
    (\<forall>c. 0 \<le> c \<and> c \<le> 38 \<longrightarrow>
      map_of es c = (if ks ! (j + nat c) = s then Some (ns ! (j + nat c)) else None))"
  using assms
proof (induction j s ks ns rule: explicit_at.induct)
  case (1 s ks ns)
  have "length ks \<ge> 39 \<and> length ns \<ge> 39 \<and>
    (\<forall>i < 39. map_of es ([0..38] ! i) = (if ks ! i = s then Some (ns ! i) else None))"
    using explicit_spec [of s "[0..38]" ks ns es] 1 by simp
  moreover have "map_of es c = (if ks ! nat c = s then Some (ns ! nat c) else None)" if "0 \<le> c" "c \<le> 38" for c
  proof -
    have "[0..38] ! nat c = c" "nat c < 39" using that by (auto simp: nth_upto)
    with calculation show ?thesis by metis
  qed
  ultimately show ?case by simp
qed auto

lemma rows_match_nth:
  assumes "rows_match ks ns s bs ds rs" "i < length rs"
  shows "i < length bs \<and> i < length ds \<and> row_matches ks ns (s + int i) (bs ! i) (ds ! i) (rs ! i)"
  using assms
proof (induction ks ns s bs ds rs arbitrary: i rule: rows_match.induct)
  case (1 ks ns s b bs d ds r rs)
  then show ?case
    by (cases i) (auto simp: algebra_simps)
qed auto

lemma yy_chain_step:
  assumes "explicit_at (nat b) s yy_chk yy_nxt = es" "- 1 \<notin> fst ` set es"
    "tbl yy_base s = Inr b" "0 \<le> b" "0 \<le> c" "c \<le> 38"
  shows "yy_chain (Suc n) s c =
    (case map_of es c of Some t \<Rightarrow> Inr t
     | None \<Rightarrow> res_bind (tbl yy_def s) (\<lambda>s'.
         res_bind (if s' \<ge> YY_FIRST_TEMPLATE then tbl yy_meta c else Inr c) (yy_chain n s')))"
proof -
  have *: "nat b + 38 < length yy_chk" "nat b + 38 < length yy_nxt"
    "map_of es c = (if yy_chk ! (nat b + nat c) = s then Some (yy_nxt ! (nat b + nat c)) else None)"
    using explicit_at_spec [OF assms(1,2)] assms(5,6) by auto
  moreover have "nat (b + c) = nat b + nat c" "b + c < int (length yy_chk)" "b + c < int (length yy_nxt)"
    using * assms(4-6) by (auto simp: nat_add_distrib)
  ultimately show ?thesis
    using assms(3-6) by (simp add: tbl_def)
qed

lemma template_rows:
  "explicit_at 202 180 yy_chk yy_nxt = [(0, 3), (1, 180), (2, 180), (3, 180), (4, 180), (5, 180),
    (6, 180), (7, 180), (8, 180), (9, 180), (10, 180), (11, 180), (12, 180), (13, 180), (14, 180),
    (15, 180), (16, 180), (17, 180), (18, 180), (19, 180), (20, 180), (21, 180), (22, 180),
    (23, 180), (24, 180), (25, 180), (26, 180), (27, 180), (28, 180), (29, 180), (30, 180),
    (31, 180), (32, 180), (33, 180), (34, 180), (35, 180), (36, 180), (37, 180), (38, 180)]"
  "explicit_at 94 181 yy_chk yy_nxt = [(1, 33), (2, 33)]"
  "explicit_at 41 182 yy_chk yy_nxt = [(1, 36)]"
  "explicit_at 96 183 yy_chk yy_nxt = [(1, 71), (2, 71)]"
  unfolding yy_chk_def yy_nxt_def
  by (simp only: row_simps cong: weak_congs if_weak_cong)+

lemma template_bases:
  "tbl yy_base 180 = Inr 202" "tbl yy_base 181 = Inr 94" "tbl yy_base 182 = Inr 41" "tbl yy_base 183 = Inr 96"
  "tbl yy_def 181 = Inr 180" "tbl yy_def 182 = Inr 180" "tbl yy_def 183 = Inr 180"
  by (simp_all add: tbl_def yy_base_def yy_def_def)

lemma class_cases:
  assumes "0 \<le> c" "c \<le> (38 :: int)"
  shows "c \<in> set [0..38]"
  using assms by simp

lemma tbl_yy_meta:
  assumes "0 \<le> c" "c \<le> 38"
  shows "tbl yy_meta c = Inr (if c = 0 then 0 else if c = 3 then 2 else 1)"
  using class_cases [OF assms] by (auto simp: upto_rec1 tbl_def yy_meta_def)

lemma yy_chain_180:
  assumes "0 \<le> c" "c \<le> 38"
  shows "yy_chain (Suc n) 180 c = Inr (if c = 0 then 3 else 180)"
  using yy_chain_step [of 202 180 _ c n, unfolded nat_numeral, OF template_rows(1) _ template_bases(1)] assms
    class_cases [OF assms]
  by (auto simp: upto_rec1)

lemma yy_chain_templates:
  assumes "0 \<le> c" "c \<le> 38" "m = (if c = 0 then 0 else if c = 3 then 2 else 1)"
  shows "yy_chain (Suc (Suc n)) 181 m = Inr (if c = 0 then 3 else 33)"
    "yy_chain (Suc (Suc n)) 182 m = Inr (if c = 0 then 3 else if c = 3 then 180 else 36)"
    "yy_chain (Suc (Suc n)) 183 m = Inr (if c = 0 then 3 else 71)"
  using yy_chain_step [of 94 181 _ m "Suc n", unfolded nat_numeral, OF template_rows(2) _ template_bases(2)]
    yy_chain_step [of 41 182 _ m "Suc n", unfolded nat_numeral, OF template_rows(3) _ template_bases(3)]
    yy_chain_step [of 96 183 _ m "Suc n", unfolded nat_numeral, OF template_rows(4) _ template_bases(4)]
    assms yy_chain_180 [of 0 n] yy_chain_180 [of 1 n] yy_chain_180 [of 2 n]
  by (auto simp: template_bases YY_FIRST_TEMPLATE_def simp del: yy_chain.simps)

lemma table_sizes:
  "length lex_rows = 181" "length yy_base = 184" "length yy_def = 184" "length yy_meta = 39"
  by (simp_all add: lex_rows_def yy_base_def yy_def_def yy_meta_def)

lemma lex_rows_classes: "\<forall>r \<in> set lex_rows. - 1 \<notin> fst ` set (fst r)"
  unfolding lex_rows_def by simp

lemma state_row:
  assumes "0 < s" "s < 180"
  shows "row_matches yy_chk yy_nxt s (yy_base ! nat s) (yy_def ! nat s) (lex_rows ! nat s)"
    "tbl yy_base s = Inr (yy_base ! nat s)" "tbl yy_def s = Inr (yy_def ! nat s)"
    "- 1 \<notin> fst ` set (fst (lex_rows ! nat s))"
proof -
  have "nat s < length lex_rows" "nat s < 184" using assms by (simp_all add: table_sizes)
  then show "row_matches yy_chk yy_nxt s (yy_base ! nat s) (yy_def ! nat s) (lex_rows ! nat s)"
    "- 1 \<notin> fst ` set (fst (lex_rows ! nat s))"
    "tbl yy_base s = Inr (yy_base ! nat s)" "tbl yy_def s = Inr (yy_def ! nat s)"
    using rows_match_nth [OF tables_match_rows, of "nat s"] lex_rows_classes assms
    by (auto simp: tbl_def table_sizes)
qed

lemma state_1:
  "yy_def ! 1 = 180" "yy_base ! 1 = 0" "explicit_at 0 1 yy_chk yy_nxt = fst (lex_rows ! 1)"
  "snd (lex_rows ! 1) = 180" "lex_rows ! 2 = lex_rows ! 1"
proof -
  show *: "yy_def ! 1 = 180" "yy_base ! 1 = 0" "lex_rows ! 2 = lex_rows ! 1"
    by (simp_all add: yy_def_def yy_base_def lex_rows_def)
  show "explicit_at 0 1 yy_chk yy_nxt = fst (lex_rows ! 1)" "snd (lex_rows ! 1) = 180"
    using state_row(1) [of 1] * by (simp_all add: row_matches_def extra_of_def default_of_def)
qed

lemma yy_chain_1:
  assumes "0 \<le> c" "c \<le> 38"
  shows "yy_chain (Suc (Suc n)) 1 c = Inr (lex_step 1 c)"
proof -
  have "tbl yy_base 1 = Inr 0" "tbl yy_def 1 = Inr 180" "- 1 \<notin> fst ` set (fst (lex_rows ! 1))"
    using state_row [of 1] state_1 by simp_all
  with yy_chain_step [of 0 1 _ c "Suc n", unfolded nat_0, OF state_1(3)] show ?thesis
    using assms yy_chain_180 [OF assms, of n] state_1
    by (auto simp: lex_step_def lex_target_def YY_FIRST_TEMPLATE_def simp del: yy_chain.simps split: option.splits)
qed

lemma yy_transition_row:
  assumes "0 < s" "s < 180" "0 \<le> c" "c \<le> 38"
  shows "yy_transition s c = Inr (lex_step s c)"
proof -
  define b where "b = yy_base ! nat s"
  define d where "d = yy_def ! nat s"
  define r where "r = lex_rows ! nat s"
  note row = state_row [OF assms(1,2), folded b_def d_def r_def]
  note chain = yy_chain_step [of b s _ c 2, OF _ _ row(2) _ assms(3,4)]
  note top = yy_chain_180 [OF assms(3,4), of 1] yy_chain_templates [OF assms(3,4) refl, of 0]
  have "d \<noteq> 0" using row(1) assms by (auto simp: row_matches_def)
  then have "d = 1 \<or> 180 \<le> d \<and> d \<le> 183"
    using row(1) by (auto simp: row_matches_def split: if_splits)
  then have "d = 1 \<or> d = 180 \<or> d = 181 \<or> d = 182 \<or> d = 183" by arith
  then consider "d = 1" | "d = 180" | "d = 181" | "d = 182" | "d = 183" by blast
  then show ?thesis
  proof cases
    case 1
    then have "s = 2" "b = 0" "explicit_at (nat b) s yy_chk yy_nxt = []"
      using row(1) by (auto simp: row_matches_def)
    then show ?thesis
      using chain row(3) 1 yy_chain_1 [OF assms(3,4), of 0] state_1(5)
      by (simp add: yy_transition_def YY_FIRST_TEMPLATE_def lex_step_def numeral_2_eq_2 numeral_3_eq_3 del: yy_chain.simps)
  next
    case 2
    then have e: "explicit_at (nat b) s yy_chk yy_nxt = fst r" "snd r = 180" "0 \<le> b"
      using row(1) by (auto simp: row_matches_def extra_of_def default_of_def)
    show ?thesis
      using chain [OF e(1) row(4) e(3)] row(3) 2 e(2) top(1)
      by (auto simp add: yy_transition_def YY_FIRST_TEMPLATE_def lex_step_def lex_target_def numeral_2_eq_2
          numeral_3_eq_3 r_def simp del: yy_chain.simps split: option.splits if_splits)
  next
    case 3
    then have e: "explicit_at (nat b) s yy_chk yy_nxt = fst r" "snd r = 33" "0 \<le> b"
      using row(1) by (auto simp: row_matches_def extra_of_def default_of_def)
    show ?thesis
      using chain [OF e(1) row(4) e(3)] row(3) 3 e(2) top(2) tbl_yy_meta [OF assms(3,4)]
      by (auto simp add: yy_transition_def YY_FIRST_TEMPLATE_def lex_step_def lex_target_def numeral_2_eq_2
          numeral_3_eq_3 r_def simp del: yy_chain.simps split: option.splits if_splits)
  next
    case 4
    then have e: "explicit_at (nat b) s yy_chk yy_nxt @ [(3, 180)] = fst r" "snd r = 36" "0 \<le> b"
      using row(1) by (auto simp: row_matches_def extra_of_def default_of_def)
    have m: "- 1 \<notin> fst ` set (explicit_at (nat b) s yy_chk yy_nxt)"
      using row(4) by (auto simp flip: e(1))
    show ?thesis
      using chain [OF refl m e(3)] row(3) 4 e(2) top(3) tbl_yy_meta [OF assms(3,4)]
      by (auto simp add: yy_transition_def YY_FIRST_TEMPLATE_def lex_step_def lex_target_def numeral_2_eq_2
          numeral_3_eq_3 map_add_def map_of_append e(1) [symmetric] r_def [symmetric] simp del: yy_chain.simps
          split: option.splits if_splits)
  next
    case 5
    then have e: "explicit_at (nat b) s yy_chk yy_nxt = fst r" "snd r = 71" "0 \<le> b"
      using row(1) by (auto simp: row_matches_def extra_of_def default_of_def)
    show ?thesis
      using chain [OF e(1) row(4) e(3)] row(3) 5 e(2) top(4) tbl_yy_meta [OF assms(3,4)]
      by (auto simp add: yy_transition_def YY_FIRST_TEMPLATE_def lex_step_def lex_target_def numeral_2_eq_2
          numeral_3_eq_3 r_def simp del: yy_chain.simps split: option.splits if_splits)
  qed
qed

end
