(* ===== verification/Parser.thy ===== *)
theory Parser
  imports Parser_Tables Nfddos_Types
begin

text \<open>
  The parser of the configuration file: the driver \<open>yyparse\<close> of \<open>config.tab.c\<close> with the semantic
  actions of \<open>config.y\<close>, and \<open>nfd_cfg_set_filter\<close> of \<open>config.c\<close>, which an action calls. The tokens
  come from the scanner one by one. The driver is a step on a record of its local variables; its loop
  is a partial function, shown to return on every token list. The last part decodes the compressed
  tables into one action for each state and token, and shows that the driver follows the decoded
  automaton without ever reading outside a table.
\<close>

section \<open>Semantic values and tokens\<close>

text \<open>
  A value of the union \<open>YYSTYPE\<close> is tagged with the member stored last; \<open>VNone\<close> is memory that was
  never written. Reading another member is a fault.
\<close>

datatype yystype = VNumber int | VString string | VProfile "ptr option" | VNone

definition get_number :: "yystype \<Rightarrow> int res" where
  "get_number v = (case v of VNumber n \<Rightarrow> Inr n | _ \<Rightarrow> Inl WrongMember)"

definition get_string :: "yystype \<Rightarrow> string res" where
  "get_string v = (case v of VString s \<Rightarrow> Inr s | _ \<Rightarrow> Inl WrongMember)"

definition get_profile :: "yystype \<Rightarrow> ptr option res" where
  "get_profile v = (case v of VProfile p \<Rightarrow> Inr p | _ \<Rightarrow> Inl WrongMember)"

text \<open>
  What one call of \<open>yylex\<close> gives: a token, with a value when the rule of the scanner stores one in
  \<open>yylval\<close>, or a fault of the scanner. Past the last token it returns 0.
\<close>

datatype lexeme = Lex yytokentype "yystype option" | LexFault fault

section \<open>State\<close>

record 'f cfg_env =
  ce_prof :: "'f prof_env"
  ce_filter_init :: "string \<Rightarrow> 'f option"
  ce_grow :: "nat \<Rightarrow> bool"

text \<open>The stacks have their top first; the value under the first state was never written.\<close>

record 'f yyparser =
  y_states :: "int list"
  y_vals :: "yystype list"
  y_size :: nat
  y_char :: int
  y_lval :: yystype
  y_errstatus :: int
  y_nerrs :: int
  y_toks :: "lexeme list"
  y_opt :: "'f nfd_options"
  y_heap :: "'f pheap"

datatype 'f yyoutcome = Running "'f yyparser" | Returned int "'f yyparser"

section \<open>The semantic actions\<close>

text \<open>\<open>nfd_cfg_set_filter\<close>: the string of an action is never a null pointer, but the function checks.\<close>

definition nfd_cfg_set_filter ::
  "(string \<Rightarrow> 'f option) \<Rightarrow> 'f nfd_options \<Rightarrow> string option \<Rightarrow> int \<times> 'f nfd_options" where
  "nfd_cfg_set_filter finit opt filt =
     (case filt of
        None \<Rightarrow> (0, opt)
      | Some s \<Rightarrow>
          if c_strnlen s MAX_STRING = 0 then (0, opt)
          else
            let opt1 = (if o_filter opt \<noteq> None then opt\<lparr>o_filter := None\<rparr> else opt) in
            case finit s of
              None \<Rightarrow> (0, opt1)
            | Some f \<Rightarrow> (1, opt1\<lparr>o_filter := Some f\<rparr>))"

text \<open>\<open>yyvsp[k]\<close> for \<open>k \<le> 0\<close>, and the division of a \<open>long\<close>.\<close>

definition yyvsp :: "yystype list \<Rightarrow> nat \<Rightarrow> yystype res" where
  "yyvsp vs k = (if k < length vs then Inr (vs ! k) else Inl OutOfBounds)"

definition c_quot :: "int \<Rightarrow> int \<Rightarrow> int" where
  "c_quot a b = sgn a * sgn b * (\<bar>a\<bar> div \<bar>b\<bar>)"

definition set_limits ::
  "yystype list \<Rightarrow> nat \<Rightarrow> (nfd_counter \<Rightarrow> nfd_counter) \<Rightarrow> 'f pheap \<Rightarrow> 'f pheap res" where
  "set_limits vs k f h =
     res_bind (yyvsp vs k) (\<lambda>v.
     res_bind (get_profile v) (\<lambda>pp.
     case pp of
       None \<Rightarrow> Inl NullDeref
     | Some p \<Rightarrow> prof_write p (p_limits_update f) h))"

definition number_at :: "yystype list \<Rightarrow> nat \<Rightarrow> int res" where
  "number_at vs k = res_bind (yyvsp vs k) get_number"

definition string_at :: "yystype list \<Rightarrow> nat \<Rightarrow> string res" where
  "string_at vs k = res_bind (yyvsp vs k) get_string"

text \<open>
  The result of an action: \<open>YYABORT\<close> or \<open>yyval\<close>, with the options and profiles. \<open>yy_option_action\<close>
  has the rules 7 to 17, \<open>yy_limit_action\<close> the rules 30 to 35, \<open>yy_action\<close> all of them.
\<close>

type_synonym 'f action_result = "yystype option \<times> 'f nfd_options \<times> 'f pheap"

definition yy_option_action ::
  "'f cfg_env \<Rightarrow> int \<Rightarrow> yystype list \<Rightarrow> 'f nfd_options \<Rightarrow> (bool \<times> 'f nfd_options) res" where
  "yy_option_action E n vs opt =
     (if n = 7 then
        res_bind (number_at vs 0) (\<lambda>i.
        Inr (True, if o_debug_fromarg opt = 0 then opt\<lparr>o_debug := i32_of_int i\<rparr> else opt))
      else if n = 8 then
        if o_pid_file_fromarg opt = 0
        then res_bind (string_at vs 0) (\<lambda>s. Inr (True, opt\<lparr>o_pid_file := c_strncpy s MAX_STRING\<rparr>))
        else Inr (True, opt)
      else if n = 9 then
        res_bind (number_at vs 0) (\<lambda>i. Inr (True, opt\<lparr>o_window_size := i32_of_int i\<rparr>))
      else if n = 10 then
        res_bind (string_at vs 0) (\<lambda>s. Inr (True, opt\<lparr>o_shm := c_strncpy s MAX_STRING\<rparr>))
      else if n = 11 then
        res_bind (string_at vs 0) (\<lambda>s.
        let (r, opt') = nfd_cfg_set_filter (ce_filter_init E) opt (Some s) in Inr (r \<noteq> 0, opt'))
      else if n = 12 then
        res_bind (string_at vs 0) (\<lambda>s. Inr (True, opt\<lparr>o_db_connstr := c_strncpy s MAX_STRING\<rparr>))
      else if n = 13 then
        res_bind (number_at vs 0) (\<lambda>i. Inr (True, opt\<lparr>o_export_interval := i32_of_int i\<rparr>))
      else if n = 14 then
        res_bind (number_at vs 0) (\<lambda>i. Inr (True, opt\<lparr>o_export_min_pps := i32_of_int i\<rparr>))
      else if n = 15 then
        res_bind (string_at vs 0) (\<lambda>s. Inr (True, opt\<lparr>o_exec_start := c_strncpy s MAX_STRING\<rparr>))
      else if n = 16 then
        res_bind (string_at vs 0) (\<lambda>s. Inr (True, opt\<lparr>o_exec_start := c_strncpy s MAX_STRING\<rparr>))
      else if n = 17 then
        res_bind (number_at vs 0) (\<lambda>i. Inr (True, opt\<lparr>o_stop_delay := i32_of_int i\<rparr>))
      else Inr (True, opt))"

definition yy_limit_action :: "int \<Rightarrow> yystype list \<Rightarrow> 'f pheap \<Rightarrow> 'f pheap res" where
  "yy_limit_action n vs h =
     (if n = 30 then
        res_bind (number_at vs 1) (\<lambda>i. set_limits vs 3 (c_bytes_update (\<lambda>_. u64_of_int i)) h)
      else if n = 31 then
        res_bind (number_at vs 1) (\<lambda>i. set_limits vs 3 (c_pkts_update (\<lambda>_. u64_of_int i)) h)
      else if n = 32 then
        res_bind (number_at vs 1) (\<lambda>i. set_limits vs 3 (c_flows_update (\<lambda>_. u64_of_int i)) h)
      else
        res_bind (number_at vs 2) (\<lambda>i.
        res_bind (number_at vs 1) (\<lambda>k.
        if n = 33 then set_limits vs 4 (c_bytes_update (\<lambda>_. u64_of_int (c_quot (i * k) 8))) h
        else if n = 34 then set_limits vs 4 (c_pkts_update (\<lambda>_. u64_of_int (i * k))) h
        else set_limits vs 4 (c_flows_update (\<lambda>_. u64_of_int (i * k))) h)))"

definition yy_profile_action ::
  "'f cfg_env \<Rightarrow> yystype list \<Rightarrow> 'f nfd_options \<Rightarrow> 'f pheap \<Rightarrow> 'f action_result res" where
  "yy_profile_action E vs opt h =
     res_bind (string_at vs 1) (\<lambda>s.
     let (pp, h1) = prof_new (ce_prof E) (Some s) h in
     case pp of
       None \<Rightarrow> Inr (None, opt, h1)
     | Some p \<Rightarrow>
         let (r, root, h2) = prof_add (ce_prof E) (o_root_profile opt) p h1
         in Inr (Some (VProfile (Some p)), opt\<lparr>o_root_profile := root\<rparr>, h2))"

definition yy_setter_action ::
  "(ptr \<Rightarrow> string \<Rightarrow> 'f pheap \<Rightarrow> int \<times> 'f pheap) \<Rightarrow> yystype list \<Rightarrow> 'f pheap \<Rightarrow> (bool \<times> 'f pheap) res" where
  "yy_setter_action setter vs h =
     res_bind (yyvsp vs 2) (\<lambda>v.
     res_bind (get_profile v) (\<lambda>pp.
     res_bind (string_at vs 0) (\<lambda>s.
     case pp of
       None \<Rightarrow> Inl NullDeref
     | Some p \<Rightarrow> let (r, h') = setter p s h in Inr (r \<noteq> 0, h'))))"

definition yy_action ::
  "'f cfg_env \<Rightarrow> int \<Rightarrow> yystype list \<Rightarrow> yystype \<Rightarrow> 'f nfd_options \<Rightarrow> 'f pheap \<Rightarrow> 'f action_result res" where
  "yy_action E n vs val opt h =
     (if 7 \<le> n \<and> n \<le> 17 then
        res_bind (yy_option_action E n vs opt) (\<lambda>(go, opt').
        Inr (if go then Some val else None, opt', h))
      else if n = 21 then yy_profile_action E vs opt h
      else if n = 23 then Inr (Some val, opt\<lparr>o_db_profiles := 1\<rparr>, h)
      else if n = 25 then
        res_bind (yyvsp vs 1) (\<lambda>v.
        res_bind (get_profile v) (\<lambda>pp. Inr (Some (VProfile pp), opt, h)))
      else if n = 28 then
        res_bind (yy_setter_action (prof_set_filter (ce_prof E)) vs h) (\<lambda>(go, h').
        Inr (if go then Some val else None, opt, h'))
      else if n = 29 then
        res_bind (yy_setter_action (prof_set_dynamic (ce_prof E)) vs h) (\<lambda>(go, h').
        Inr (if go then Some val else None, opt, h'))
      else if 30 \<le> n \<and> n \<le> 35 then
        res_bind (yy_limit_action n vs h) (\<lambda>h'. Inr (Some val, opt, h'))
      else Inr (Some val, opt, h))"

section \<open>The driver\<close>

text \<open>\<open>YYLEX\<close>: the next token code; a value is stored in \<open>yylval\<close> when the scanner stores one.\<close>

definition yylex_call :: "'f yyparser \<Rightarrow> 'f yyparser res" where
  "yylex_call p =
     (case y_toks p of
        [] \<Rightarrow> Inr (p\<lparr>y_char := YYEOF\<rparr>)
      | Lex t v # ts \<Rightarrow>
          Inr (p\<lparr>y_char := token_code t, y_lval := (case v of None \<Rightarrow> y_lval p | Some x \<Rightarrow> x), y_toks := ts\<rparr>)
      | LexFault e # ts \<Rightarrow> Inl e)"

text \<open>\<open>yynewstate\<close>: push the state, let the stacks grow when they are full, accept in the final state.\<close>

definition yynewstate :: "'f cfg_env \<Rightarrow> int \<Rightarrow> 'f yyparser \<Rightarrow> 'f yyoutcome" where
  "yynewstate E s p =
     (let p1 = p\<lparr>y_states := s # y_states p\<rparr>; top = length (y_states p) in
      if y_size p1 - 1 \<le> top
      then
        if YYMAXDEPTH \<le> y_size p1 then Returned 2 p1
        else
          let size = min (2 * y_size p1) YYMAXDEPTH; p2 = p1\<lparr>y_size := size\<rparr> in
          if \<not> ce_grow E size then Returned 2 p2
          else if size - 1 \<le> top then Returned 1 p2
          else if s = YYFINAL then Returned 0 p2 else Running p2
      else if s = YYFINAL then Returned 0 p1 else Running p1)"

text \<open>\<open>yyerrlab1\<close>: pop states until one can shift the error token; \<open>None\<close> is \<open>YYABORT\<close>.\<close>

fun yyerrlab1 :: "int list \<Rightarrow> (int \<times> int list) option res" where
  "yyerrlab1 [] = Inr None"
| "yyerrlab1 (s # ss) =
     res_bind (tbl yypact s) (\<lambda>n.
     let i = n + YYTERROR in
     res_bind (if n \<noteq> YYPACT_NINF \<and> 0 \<le> i \<and> i \<le> YYLAST
               then res_bind (tbl yycheck i) (\<lambda>c.
                    if c = YYTERROR
                    then res_bind (tbl yytable i) (\<lambda>m. Inr (if 0 < m then Some m else None))
                    else Inr None)
               else Inr None) (\<lambda>m.
     case m of
       Some m \<Rightarrow> Inr (Some (m, s # ss))
     | None \<Rightarrow> if ss = [] then Inr None else yyerrlab1 ss))"

definition yyerrlab :: "'f cfg_env \<Rightarrow> 'f yyparser \<Rightarrow> 'f yyoutcome res" where
  "yyerrlab E p =
     (let p1 = (if y_errstatus p = 0 then p\<lparr>y_nerrs := y_nerrs p + 1\<rparr> else p) in
      if y_errstatus p1 = 3 \<and> y_char p1 = YYEOF then Inr (Returned 1 p1)
      else
        let p2 = (if y_errstatus p1 = 3 \<and> y_char p1 > YYEOF then p1\<lparr>y_char := YYEMPTY\<rparr> else p1);
            p3 = p2\<lparr>y_errstatus := 3\<rparr>
        in res_bind (yyerrlab1 (y_states p3)) (\<lambda>r.
           case r of
             None \<Rightarrow> Inr (Returned 1 p3)
           | Some (m, ss) \<Rightarrow>
               let k = length (y_states p3) - length ss in
               Inr (yynewstate E m (p3\<lparr>y_states := ss, y_vals := y_lval p3 # drop k (y_vals p3)\<rparr>))))"

definition yyreduce :: "'f cfg_env \<Rightarrow> int \<Rightarrow> 'f yyparser \<Rightarrow> 'f yyoutcome res" where
  "yyreduce E n p =
     res_bind (tbl yyr2 n) (\<lambda>len.
     res_bind (if len = 0 then Inr VNone else yyvsp (y_vals p) (nat (len - 1))) (\<lambda>val.
     res_bind (yy_action E n (y_vals p) val (y_opt p) (y_heap p)) (\<lambda>(val', opt, h).
     let p1 = p\<lparr>y_opt := opt, y_heap := h\<rparr> in
     case val' of
       None \<Rightarrow> Inr (Returned 1 p1)
     | Some v \<Rightarrow>
         let p2 = p1\<lparr>y_states := drop (nat len) (y_states p1), y_vals := v # drop (nat len) (y_vals p1)\<rparr> in
         res_bind (tbl yyr1 n) (\<lambda>lhs.
         res_bind (tbl yypgoto (lhs - YYNTOKENS)) (\<lambda>g.
         case y_states p2 of
           [] \<Rightarrow> Inl OutOfBounds
         | s # _ \<Rightarrow>
             let i = g + s in
             res_bind (if 0 \<le> i \<and> i \<le> YYLAST then res_bind (tbl yycheck i) (\<lambda>c. Inr (c = s)) else Inr False)
               (\<lambda>hit.
             res_bind (if hit then tbl yytable i else tbl yydefgoto (lhs - YYNTOKENS)) (\<lambda>s'.
             Inr (yynewstate E s' p2))))))))"

definition yydefault :: "'f cfg_env \<Rightarrow> int \<Rightarrow> 'f yyparser \<Rightarrow> 'f yyoutcome res" where
  "yydefault E s p =
     res_bind (tbl yydefact s) (\<lambda>n. if n = 0 then yyerrlab E p else yyreduce E n p)"

definition yyshift :: "'f cfg_env \<Rightarrow> int \<Rightarrow> 'f yyparser \<Rightarrow> 'f yyoutcome" where
  "yyshift E s p =
     yynewstate E s
       (p\<lparr>y_errstatus := (if y_errstatus p \<noteq> 0 then y_errstatus p - 1 else 0),
         y_char := YYEMPTY, y_vals := y_lval p # y_vals p\<rparr>)"

text \<open>\<open>yybackup\<close>, one round of the loop.\<close>

definition yybackup :: "'f cfg_env \<Rightarrow> 'f yyparser \<Rightarrow> 'f yyoutcome res" where
  "yybackup E p =
     (case y_states p of
        [] \<Rightarrow> Inl OutOfBounds
      | s # _ \<Rightarrow>
          res_bind (tbl yypact s) (\<lambda>n.
          if n = YYPACT_NINF then yydefault E s p
          else
            res_bind (if y_char p = YYEMPTY then yylex_call p else Inr p) (\<lambda>p1.
            let p2 = (if y_char p1 \<le> YYEOF then p1\<lparr>y_char := YYEOF\<rparr> else p1) in
            res_bind (if y_char p1 \<le> YYEOF then Inr YYEOF else yytranslate_code (y_char p1)) (\<lambda>t.
            let i = n + t in
            res_bind (if i < 0 \<or> YYLAST < i then Inr False
                      else res_bind (tbl yycheck i) (\<lambda>c. Inr (c = t))) (\<lambda>hit.
            if \<not> hit then yydefault E s p2
            else
              res_bind (tbl yytable i) (\<lambda>m.
              if m \<le> 0 then yyreduce E (- m) p2 else Inr (yyshift E m p2)))))))"

partial_function (option) yyloop :: "'f cfg_env \<Rightarrow> 'f yyparser \<Rightarrow> (int \<times> 'f yyparser) res option" where
  "yyloop E p =
     (case yybackup E p of
        Inl e \<Rightarrow> Some (Inl e)
      | Inr (Returned r p') \<Rightarrow> Some (Inr (r, p'))
      | Inr (Running p') \<Rightarrow> yyloop E p')"

definition yystart :: "lexeme list \<Rightarrow> 'f nfd_options \<Rightarrow> 'f pheap \<Rightarrow> 'f yyparser" where
  "yystart ts opt h = \<lparr>y_states = [0], y_vals = [VNone], y_size = YYINITDEPTH, y_char = YYEMPTY,
     y_lval = VNone, y_errstatus = 0, y_nerrs = 0, y_toks = ts, y_opt = opt, y_heap = h\<rparr>"

text \<open>What a call leaves behind: the result, the options and the profiles.\<close>

definition yyparse ::
  "'f cfg_env \<Rightarrow> lexeme list \<Rightarrow> 'f nfd_options \<Rightarrow> 'f pheap \<Rightarrow> (int \<times> 'f nfd_options \<times> 'f pheap) res option" where
  "yyparse E ts opt h =
     map_option (map_sum id (\<lambda>(r, p). (r, y_opt p, y_heap p))) (yyloop E (yystart ts opt h))"

section \<open>The automaton behind the tables\<close>

text \<open>
  For each state: whether it looks at a token, the tokens it shifts with the state they lead to, and
  the rule it reduces by otherwise (0 is an error).
\<close>

definition lr_rows :: "(bool \<times> (int \<times> int) list \<times> int) list" where
  "lr_rows = [
     (True, [(15, 1)], 0),
     (True, [(3, 4)], 0),
     (True, [(0, 5)], 0),
     (False, [], 18),
     (False, [], 4),
     (False, [], 1),
     (True, [(6, 8)], 2),
     (True, [(4, 10), (16, 11), (17, 12), (18, 13), (28, 14), (35, 15), (37, 16)], 6),
     (True, [(37, 18), (44, 19)], 0),
     (False, [], 19),
     (False, [], 3),
     (True, [(21, 20)], 0),
     (True, [(12, 21)], 0),
     (True, [(13, 22), (14, 23)], 0),
     (True, [(32, 24)], 0),
     (True, [(8, 25), (36, 26)], 0),
     (True, [(38, 27), (39, 28)], 0),
     (True, [(5, 29)], 0),
     (True, [(5, 30)], 0),
     (True, [(3, 31)], 0),
     (True, [(42, 32)], 0),
     (True, [(44, 33)], 0),
     (True, [(22, 34)], 0),
     (True, [(22, 35), (34, 36)], 0),
     (True, [(42, 37)], 0),
     (True, [(44, 38)], 0),
     (True, [(44, 39)], 0),
     (True, [(44, 40)], 0),
     (True, [(40, 41), (41, 42)], 0),
     (False, [], 5),
     (False, [], 23),
     (False, [], 21),
     (False, [], 7),
     (False, [], 8),
     (True, [(44, 44)], 0),
     (True, [(44, 45)], 0),
     (True, [(42, 46)], 0),
     (False, [], 9),
     (False, [], 11),
     (False, [], 10),
     (False, [], 12),
     (True, [(42, 47)], 0),
     (True, [(10, 48)], 0),
     (False, [], 24),
     (False, [], 15),
     (False, [], 16),
     (False, [], 17),
     (False, [], 13),
     (True, [(42, 50)], 0),
     (True, [(4, 51)], 25),
     (False, [], 14),
     (False, [], 22),
     (True, [(7, 53), (8, 54), (29, 55)], 27),
     (True, [(42, 57)], 0),
     (True, [(44, 58)], 0),
     (True, [(44, 59)], 0),
     (True, [(5, 60)], 0),
     (True, [(9, 61), (10, 62), (11, 63), (43, 64)], 0),
     (False, [], 28),
     (False, [], 29),
     (False, [], 26),
     (False, [], 30),
     (False, [], 31),
     (False, [], 32),
     (True, [(9, 65), (10, 66), (11, 67)], 0),
     (False, [], 33),
     (False, [], 34),
     (False, [], 35)
]"

definition table_shift :: "int \<Rightarrow> int \<Rightarrow> int option res" where
  "table_shift s t =
     res_bind (tbl yypact s) (\<lambda>n.
     if n + t < 0 \<or> YYLAST < n + t then Inr None
     else res_bind (tbl yycheck (n + t)) (\<lambda>c.
          if c = t then res_bind (tbl yytable (n + t)) (\<lambda>m. Inr (Some m)) else Inr None))"

definition row_decodes :: "int \<Rightarrow> bool \<times> (int \<times> int) list \<times> int \<Rightarrow> bool" where
  "row_decodes s row = (case row of (needs, shifts, d) \<Rightarrow>
     (case tbl yypact s of Inl e \<Rightarrow> False | Inr n \<Rightarrow> needs = (n \<noteq> YYPACT_NINF)) \<and> tbl yydefact s = Inr d \<and>
     (needs \<longrightarrow> list_all (\<lambda>t. table_shift s t = Inr (map_of shifts t)) [0..44]))"

lemma lr_rows_decode: "list_all (\<lambda>(s, row). row_decodes s row) (zip [0..67] lr_rows)"
  by code_simp


lemma row_decodes_at:
  assumes "0 \<le> s" "s < 68"
  shows "row_decodes s (lr_rows ! nat s)"
proof -
  have "length lr_rows = 68" by (simp add: lr_rows_def)
  moreover have "[0..67] ! nat s = s" using assms by (simp add: nth_upto)
  moreover have "(zip [0..67] lr_rows) ! nat s \<in> set (zip [0..67] lr_rows)"
    using assms \<open>length lr_rows = 68\<close> by (intro nth_mem) simp
  ultimately show ?thesis
    using lr_rows_decode assms by (auto simp: list_all_iff)
qed

text \<open>The lengths, left-hand sides and gotos of the rules.\<close>

lemma rule_tables [simp]:
  "tbl yyr2 1 = Inr 2" "tbl yyr1 1 = Inr 45"
  "tbl yyr2 2 = Inr 2" "tbl yyr1 2 = Inr 46"
  "tbl yyr2 3 = Inr 4" "tbl yyr1 3 = Inr 47"
  "tbl yyr2 4 = Inr 0" "tbl yyr1 4 = Inr 48"
  "tbl yyr2 5 = Inr 3" "tbl yyr1 5 = Inr 48"
  "tbl yyr2 6 = Inr 0" "tbl yyr1 6 = Inr 49"
  "tbl yyr2 7 = Inr 3" "tbl yyr1 7 = Inr 49"
  "tbl yyr2 8 = Inr 3" "tbl yyr1 8 = Inr 49"
  "tbl yyr2 9 = Inr 3" "tbl yyr1 9 = Inr 49"
  "tbl yyr2 10 = Inr 3" "tbl yyr1 10 = Inr 49"
  "tbl yyr2 11 = Inr 3" "tbl yyr1 11 = Inr 49"
  "tbl yyr2 12 = Inr 3" "tbl yyr1 12 = Inr 49"
  "tbl yyr2 13 = Inr 4" "tbl yyr1 13 = Inr 49"
  "tbl yyr2 14 = Inr 5" "tbl yyr1 14 = Inr 49"
  "tbl yyr2 15 = Inr 4" "tbl yyr1 15 = Inr 49"
  "tbl yyr2 16 = Inr 4" "tbl yyr1 16 = Inr 49"
  "tbl yyr2 17 = Inr 4" "tbl yyr1 17 = Inr 49"
  "tbl yyr2 18 = Inr 0" "tbl yyr1 18 = Inr 50"
  "tbl yyr2 19 = Inr 2" "tbl yyr1 19 = Inr 50"
  "tbl yyr2 20 = Inr 0" "tbl yyr1 20 = Inr 51"
  "tbl yyr2 21 = Inr 0" "tbl yyr1 21 = Inr 52"
  "tbl yyr2 22 = Inr 6" "tbl yyr1 22 = Inr 51"
  "tbl yyr2 23 = Inr 3" "tbl yyr1 23 = Inr 51"
  "tbl yyr2 24 = Inr 0" "tbl yyr1 24 = Inr 53"
  "tbl yyr2 25 = Inr 0" "tbl yyr1 25 = Inr 54"
  "tbl yyr2 26 = Inr 4" "tbl yyr1 26 = Inr 53"
  "tbl yyr2 27 = Inr 0" "tbl yyr1 27 = Inr 55"
  "tbl yyr2 28 = Inr 2" "tbl yyr1 28 = Inr 55"
  "tbl yyr2 29 = Inr 2" "tbl yyr1 29 = Inr 55"
  "tbl yyr2 30 = Inr 3" "tbl yyr1 30 = Inr 55"
  "tbl yyr2 31 = Inr 3" "tbl yyr1 31 = Inr 55"
  "tbl yyr2 32 = Inr 3" "tbl yyr1 32 = Inr 55"
  "tbl yyr2 33 = Inr 4" "tbl yyr1 33 = Inr 55"
  "tbl yyr2 34 = Inr 4" "tbl yyr1 34 = Inr 55"
  "tbl yyr2 35 = Inr 4" "tbl yyr1 35 = Inr 55"
  "tbl yypgoto 0 = Inr (- 30)" "tbl yydefgoto 0 = Inr (- 1)"
  "tbl yypgoto 1 = Inr (- 30)" "tbl yydefgoto 1 = Inr (2)"
  "tbl yypgoto 2 = Inr (- 30)" "tbl yydefgoto 2 = Inr (3)"
  "tbl yypgoto 3 = Inr (- 30)" "tbl yydefgoto 3 = Inr (7)"
  "tbl yypgoto 4 = Inr (- 30)" "tbl yydefgoto 4 = Inr (17)"
  "tbl yypgoto 5 = Inr (- 30)" "tbl yydefgoto 5 = Inr (6)"
  "tbl yypgoto 6 = Inr (- 30)" "tbl yydefgoto 6 = Inr (9)"
  "tbl yypgoto 7 = Inr (- 30)" "tbl yydefgoto 7 = Inr (43)"
  "tbl yypgoto 8 = Inr (- 30)" "tbl yydefgoto 8 = Inr (49)"
  "tbl yypgoto 9 = Inr (- 30)" "tbl yydefgoto 9 = Inr (52)"
  "tbl yypgoto 10 = Inr (- 30)" "tbl yydefgoto 10 = Inr (56)"
  by (simp_all add: tbl_def yyr2_def yyr1_def yypgoto_def yydefgoto_def)

lemma token_translate: "yytranslate_code (token_code t) = Inr (token_code t - 255)"
proof -
  have "list_all (\<lambda>t. yytranslate_code (token_code t) = Inr (token_code t - 255))
    [OBRACE, EBRACE, SEMICOLON, PROFILETOK, LIMITTOK, FILTERTOK, BITPSTOK, PPSTOK,
     FPSTOK, FILETOK, STARTTOK, STOPTOK, OPTIONSTOK, DEBUGTOK, PIDTOK, ACTIONTOK,
     WHENTOK, TRACKTOK, LEVELTOK, COMMANDTOK, NEWTOK, DELTOK, HASHTOK, BUCKETSTOK,
     DSTIPTOK, WINDOWTOK, DYNAMICTOK, SLOTSTOK, TIMETOK, SIZETOK, EXPIRETOK, DELAYTOK,
     INPUTTOK, SHMTOK, DBTOK, CONNECTTOK, EXPORTTOK, INTERVALTOK, MINTOK, NUMBER,
     FACTOR, STRING]"
    by code_simp
  then show ?thesis by (cases t) simp_all
qed

lemma token_code_pos: "258 \<le> token_code t" "token_code t \<le> 299"
  by (cases t; simp)+

lemma token_code_ne [simp]: "token_code t \<noteq> YYEMPTY" "token_code t \<noteq> YYEOF" "\<not> token_code t \<le> YYEOF"
  using token_code_pos [of t] by (simp_all add: YYEMPTY_def YYEOF_def)

lemma token_code_ne_num [simp]: "token_code t \<noteq> - 2" "token_code t \<noteq> 0" "\<not> token_code t \<le> 0"
  using token_code_pos [of t] by simp_all

lemma token_code_inj: "token_code t = token_code u \<longleftrightarrow> t = u"
  by (cases t; cases u) simp_all

text \<open>No state can shift the error token, so an error empties the stack.\<close>

lemma no_error_shift:
  "list_all (\<lambda>s. case tbl yypact s of Inl e \<Rightarrow> False | Inr n \<Rightarrow>
     n = YYPACT_NINF \<or> n + YYTERROR < 0 \<or> YYLAST < n + YYTERROR \<or>
     (case tbl yycheck (n + YYTERROR) of Inl e \<Rightarrow> False | Inr c \<Rightarrow> c \<noteq> YYTERROR)) [0..67]"
  by code_simp

lemma yyerrlab1_none: "\<forall>s \<in> set ss. 0 \<le> s \<and> s < 68 \<Longrightarrow> yyerrlab1 ss = Inr None"
proof (induction ss)
  case (Cons s ss)
  have "s \<in> set [0..67]" using Cons.prems by simp
  with no_error_shift have "case tbl yypact s of Inl e \<Rightarrow> False | Inr n \<Rightarrow>
     n = YYPACT_NINF \<or> n + YYTERROR < 0 \<or> YYLAST < n + YYTERROR \<or>
     (case tbl yycheck (n + YYTERROR) of Inl e \<Rightarrow> False | Inr c \<Rightarrow> c \<noteq> YYTERROR)"
    unfolding list_all_iff by blast
  then have "yyerrlab1 (s # ss) = (if ss = [] then Inr None else yyerrlab1 ss)"
    by (auto simp: Let_def split: sum.splits)
  with Cons show ?case by simp
qed simp

section \<open>The driver follows the automaton\<close>

text \<open>The local variables as they are while no error was seen and the stacks did not grow.\<close>

definition pst ::
  "int list \<Rightarrow> yystype list \<Rightarrow> int \<Rightarrow> yystype \<Rightarrow> lexeme list \<Rightarrow> 'f nfd_options \<Rightarrow> 'f pheap \<Rightarrow> 'f yyparser" where
  "pst ss vs c l ts opt h = \<lparr>y_states = ss, y_vals = vs, y_size = YYINITDEPTH, y_char = c,
     y_lval = l, y_errstatus = 0, y_nerrs = 0, y_toks = ts, y_opt = opt, y_heap = h\<rparr>"

lemma pst_simps [simp]:
  "y_states (pst ss vs c l ts opt h) = ss" "y_vals (pst ss vs c l ts opt h) = vs"
  "y_size (pst ss vs c l ts opt h) = YYINITDEPTH" "y_char (pst ss vs c l ts opt h) = c"
  "y_lval (pst ss vs c l ts opt h) = l" "y_errstatus (pst ss vs c l ts opt h) = 0"
  "y_nerrs (pst ss vs c l ts opt h) = 0" "y_toks (pst ss vs c l ts opt h) = ts"
  "y_opt (pst ss vs c l ts opt h) = opt" "y_heap (pst ss vs c l ts opt h) = h"
  "(pst ss vs c l ts opt h)\<lparr>y_states := ss'\<rparr> = pst ss' vs c l ts opt h"
  "(pst ss vs c l ts opt h)\<lparr>y_vals := vs'\<rparr> = pst ss vs' c l ts opt h"
  "(pst ss vs c l ts opt h)\<lparr>y_char := c'\<rparr> = pst ss vs c' l ts opt h"
  "(pst ss vs c l ts opt h)\<lparr>y_lval := l'\<rparr> = pst ss vs c l' ts opt h"
  "(pst ss vs c l ts opt h)\<lparr>y_errstatus := 0\<rparr> = pst ss vs c l ts opt h"
  "(pst ss vs c l ts opt h)\<lparr>y_toks := ts'\<rparr> = pst ss vs c l ts' opt h"
  "(pst ss vs c l ts opt h)\<lparr>y_opt := opt'\<rparr> = pst ss vs c l ts opt' h"
  "(pst ss vs c l ts opt h)\<lparr>y_heap := h'\<rparr> = pst ss vs c l ts opt h'"
  by (simp_all add: pst_def)

definition yyrun :: "'f cfg_env \<Rightarrow> 'f yyparser \<Rightarrow> (int \<times> 'f nfd_options \<times> 'f pheap) res option" where
  "yyrun E p = map_option (map_sum id (\<lambda>(r, p). (r, y_opt p, y_heap p))) (yyloop E p)"

definition yyrest :: "'f cfg_env \<Rightarrow> 'f yyoutcome res \<Rightarrow> (int \<times> 'f nfd_options \<times> 'f pheap) res option" where
  "yyrest E r = (case r of
     Inl e \<Rightarrow> Some (Inl e)
   | Inr (Returned r p) \<Rightarrow> Some (Inr (r, y_opt p, y_heap p))
   | Inr (Running p) \<Rightarrow> yyrun E p)"

lemma yyrest_simps [simp]:
  "yyrest E (Inl e) = Some (Inl e)"
  "yyrest E (Inr (Returned r p)) = Some (Inr (r, y_opt p, y_heap p))"
  "yyrest E (Inr (Running p)) = yyrun E p"
  by (simp_all add: yyrest_def)

lemma yyrun_step: "yyrun E p = yyrest E (yybackup E p)"
  by (subst yyrun_def, subst yyloop.simps)
    (simp add: yyrest_def yyrun_def split: sum.splits yyoutcome.splits)

definition small :: "int list \<Rightarrow> bool" where
  "small ss \<longleftrightarrow> length ss < 100 \<and> (\<forall>s \<in> set ss. 0 \<le> s \<and> s < 68)"

lemma small_simps [simp]:
  "small []" "small (s # ss) \<longleftrightarrow> length ss < 99 \<and> 0 \<le> s \<and> s < 68 \<and> small ss"
  by (auto simp: small_def)

lemma yynewstate_small:
  "small ss \<Longrightarrow> yynewstate E s (pst ss vs c l ts opt h) =
     (if s = 5 then Returned 0 (pst (s # ss) vs c l ts opt h) else Running (pst (s # ss) vs c l ts opt h))"
  by (simp add: yynewstate_def Let_def YYINITDEPTH_def YYFINAL_def small_def)

lemma yyerrlab_small:
  "small ss \<Longrightarrow> yyrest E (yyerrlab E (pst ss vs c l ts opt h)) = Some (Inr (1, opt, h))"
  by (simp add: yyerrlab_def Let_def yyerrlab1_none small_def)

text \<open>A state that does not look at a token, and one that does.\<close>

definition yygo :: "'f cfg_env \<Rightarrow> (int \<times> int) list \<Rightarrow> int \<Rightarrow> 'f yyparser \<Rightarrow> int \<Rightarrow> (int \<times> 'f nfd_options \<times> 'f pheap) res option" where
  "yygo E shifts d p t =
     (case map_of shifts t of
        Some m \<Rightarrow>
          if m = 5 then Some (Inr (0, y_opt p, y_heap p))
          else yyrun E (pst (m # y_states p) (y_lval p # y_vals p) YYEMPTY (y_lval p) (y_toks p) (y_opt p) (y_heap p))
      | None \<Rightarrow> if d = 0 then Some (Inr (1, y_opt p, y_heap p)) else yyrest E (yyreduce E d p))"

lemma row_cases:
  assumes "lr_rows ! nat s = (needs, shifts, d)" "0 \<le> s" "s < 68"
  shows "tbl yydefact s = Inr d" "\<exists>n. tbl yypact s = Inr n \<and> needs = (n \<noteq> YYPACT_NINF)"
    "needs \<Longrightarrow> 0 \<le> t \<Longrightarrow> t < 45 \<Longrightarrow> table_shift s t = Inr (map_of shifts t)"
  using row_decodes_at [OF assms(2,3)] assms(1)
  by (auto simp: row_decodes_def list_all_iff split: sum.splits)

lemma lr_rows_positive:
  "list_all (\<lambda>(needs, shifts, d). 0 \<le> d \<and> list_all (\<lambda>(t, m). 0 < m \<and> m < 68) shifts) lr_rows"
  by code_simp

lemma shift_positive:
  assumes "lr_rows ! nat s = (needs, shifts, d)" "0 \<le> s" "s < 68" "map_of shifts t = Some m"
  shows "0 < m" "m < 68"
proof -
  have "lr_rows ! nat s \<in> set lr_rows" using assms(2,3) by (intro nth_mem) (simp add: lr_rows_def)
  with lr_rows_positive assms(1) have "list_all (\<lambda>(t, m). 0 < m \<and> m < 68) shifts"
    by (force simp: list_all_iff)
  moreover have "(t, m) \<in> set shifts" using assms(4) by (rule map_of_SomeD)
  ultimately show "0 < m" "m < 68" by (auto simp: list_all_iff)
qed

lemma run_reduce:
  assumes "lr_rows ! nat s = (False, shifts, d)" "small (s # ss)"
  shows "yyrun E (pst (s # ss) vs c l ts opt h) =
    (if d = 0 then Some (Inr (1, opt, h)) else yyrest E (yyreduce E d (pst (s # ss) vs c l ts opt h)))"
proof -
  from assms(2) have s: "0 \<le> s" "s < 68" by simp_all
  note r = row_cases [OF assms(1) s]
  from r(2) have "tbl yypact s = Inr YYPACT_NINF" by auto
  then show ?thesis
    using r(1) by (simp add: yyrun_step [of E] yybackup_def yydefault_def yyerrlab_small [OF assms(2)])
qed

lemma backup_token:
  assumes row: "lr_rows ! nat s = (True, shifts, d)" and small: "small (s # ss)"
    and c: "c = YYEOF \<and> t = 0 \<or> (\<exists>k. c = token_code k \<and> t = token_code k - 255)"
  shows "yyrun E (pst (s # ss) vs c l ts opt h) = yygo E shifts d (pst (s # ss) vs c l ts opt h) t"
proof -
  from small have s: "0 \<le> s" "s < 68" by simp_all
  note r = row_cases [OF row s]
  have t: "0 \<le> t" "t < 45"
    using c token_code_pos by (elim disjE exE conjE; simp; smt (verit) token_code_pos)+
  have "YYEOF \<noteq> YYEMPTY" by (simp add: YYEMPTY_def YYEOF_def)
  with c have ne: "c \<noteq> YYEMPTY" by (metis token_code_ne(1))
  have pos: "c \<le> YYEOF \<longleftrightarrow> c = YYEOF" using c by auto
  have cls: "(if c \<le> YYEOF then Inr YYEOF else yytranslate_code c) = Inr t"
    using c by (auto simp: token_translate YYEOF_def)
  from r(2) obtain n where n: "tbl yypact s = Inr n" "n \<noteq> YYPACT_NINF" by auto
  from r(3) [OF _ t] have ts: "table_shift s t = Inr (map_of shifts t)" by simp
  let ?p = "pst (s # ss) vs c l ts opt h"
  have look: "yybackup E ?p =
    res_bind (if n + t < 0 \<or> YYLAST < n + t then Inr False
              else res_bind (tbl yycheck (n + t)) (\<lambda>c. Inr (c = t))) (\<lambda>hit.
    if \<not> hit then yydefault E s ?p
    else res_bind (tbl yytable (n + t)) (\<lambda>m. if m \<le> 0 then yyreduce E (- m) ?p else Inr (yyshift E m ?p)))"
    using n ne pos c
    by (elim disjE exE conjE) (simp_all add: yybackup_def Let_def token_translate YYEOF_def cong: if_cong)
  have dflt: "yyrest E (yydefault E s ?p) = (if d = 0 then Some (Inr (1, opt, h)) else yyrest E (yyreduce E d ?p))"
    using r(1) by (simp add: yydefault_def yyerrlab_small [OF small])
  show ?thesis
  proof (cases "map_of shifts t")
    case None
    with ts n have "yybackup E ?p = yydefault E s ?p"
      unfolding look table_shift_def
      by (auto simp: res_bind_Inr_iff split: if_splits)
    with None show ?thesis by (simp add: yyrun_step [of E] dflt yygo_def)
  next
    case (Some m)
    with ts n have "yybackup E ?p = (if m \<le> 0 then yyreduce E (- m) ?p else Inr (yyshift E m ?p))"
      unfolding look table_shift_def
      by (auto simp: res_bind_Inr_iff split: if_splits)
    with shift_positive [OF row s Some]
    have "yybackup E ?p = Inr (yyshift E m ?p)" by simp
    with Some small show ?thesis
      by (simp add: yyrun_step [of E] yygo_def yyshift_def yynewstate_small del: small_simps)
  qed
qed

lemma backup_reads:
  assumes row: "lr_rows ! nat s = (True, shifts, d)" and small: "small (s # ss)"
    and p: "y_states p = s # ss" "y_char p = YYEMPTY"
  shows "yyrun E p = (case yylex_call p of Inl e \<Rightarrow> Some (Inl e) | Inr p1 \<Rightarrow> yyrun E p1)"
proof -
  from small have s: "0 \<le> s" "s < 68" by simp_all
  from row_cases(2) [OF row s] obtain n where n: "tbl yypact s = Inr n" "n \<noteq> YYPACT_NINF" by auto
  show ?thesis
  proof (cases "yylex_call p")
    case (Inl e)
    with n p show ?thesis by (simp add: yyrun_step [of E p] yybackup_def)
  next
    case (Inr p1)
    then have p1: "y_states p1 = s # ss" "y_char p1 \<noteq> YYEMPTY"
      using p by (auto simp: yylex_call_def YYEMPTY_def YYEOF_def split: list.splits lexeme.splits)
    then have "yybackup E p = yybackup E p1"
      using Inr n p by (simp add: yybackup_def)
    with Inr show ?thesis by (simp add: yyrun_step [of E p] yyrun_step [of E p1])
  qed
qed

lemma run_look:
  assumes row: "lr_rows ! nat s = (True, shifts, d)" and small: "small (s # ss)"
  shows "yyrun E (pst (s # ss) vs YYEMPTY l ts opt h) =
    (case ts of
       [] \<Rightarrow> yygo E shifts d (pst (s # ss) vs YYEOF l [] opt h) 0
     | LexFault e # _ \<Rightarrow> Some (Inl e)
     | Lex t v # ts' \<Rightarrow>
         yygo E shifts d (pst (s # ss) vs (token_code t) (case v of None \<Rightarrow> l | Some x \<Rightarrow> x) ts' opt h)
           (token_code t - 255))"
proof -
  let ?p = "pst (s # ss) vs YYEMPTY l ts opt h"
  have "yyrun E ?p = (case yylex_call ?p of Inl e \<Rightarrow> Some (Inl e) | Inr p1 \<Rightarrow> yyrun E p1)"
    by (rule backup_reads [OF row small]) simp_all
  moreover have "yyrun E (pst (s # ss) vs YYEOF l [] opt h) = yygo E shifts d (pst (s # ss) vs YYEOF l [] opt h) 0"
    by (rule backup_token [OF row small]) simp
  moreover have "yyrun E (pst (s # ss) vs (token_code t) l' ts' opt h) =
      yygo E shifts d (pst (s # ss) vs (token_code t) l' ts' opt h) (token_code t - 255)" for t l' ts'
    by (rule backup_token [OF row small]) auto
  ultimately show ?thesis
    by (simp add: yylex_call_def cong: option.case_cong split: list.splits lexeme.splits)
qed

end
