(* ===== verification/Lexer.thy ===== *)
theory Lexer
  imports Lexer_Tables Parser
begin

text \<open>
  The scanner of \<open>lex.yy.c\<close>: its state, the buffer that is filled from the file piece by piece, the
  automaton that runs over the buffer, the actions of the rules of \<open>config.l\<close> and the end of a
  buffer. A pointer into \<open>yy_ch_buf\<close> is its offset. The loop of \<open>yylex\<close> with its labels is a step
  on a program point and the state. Memory is always granted, a read of the file does not fail, and
  the scanner has the one buffer that \<open>yylex\<close> creates.
\<close>

section \<open>State\<close>

datatype yy_status = YY_BUFFER_NEW | YY_BUFFER_NORMAL | YY_BUFFER_EOF_PENDING

text \<open>
  The fields that start with \<open>b_\<close> and \<open>yy_ch_buf\<close> are those of the current buffer. \<open>yyin\<close> is what
  the file still has, \<open>yyin_tty\<close> whether it is a terminal, \<open>yyout\<close> what was written.
\<close>

record yyguts =
  yy_ch_buf :: string
  b_buf_pos :: nat
  b_buf_size :: nat
  b_n_chars :: nat
  b_is_interactive :: bool
  b_fill_buffer :: bool
  b_status :: yy_status
  b_lineno :: int
  yyin :: string
  yyin_tty :: bool
  yyout :: string
  yy_hold_char :: char
  yy_n_chars :: nat
  yyleng :: nat
  yy_c_buf_p :: nat
  yytext_ptr :: nat
  yy_init :: bool
  yy_start :: int
  yy_last_state :: int
  yy_last_cpos :: nat

definition NUL :: char where
  "NUL = CHR 0x00"

definition LF :: char where
  "LF = CHR 0x0A"

definition YY_BUF_SIZE :: nat where
  "YY_BUF_SIZE = 16384"

definition YY_READ_BUF_SIZE :: nat where
  "YY_READ_BUF_SIZE = 8192"

text \<open>Reading and writing a character of the buffer.\<close>

definition peek :: "yyguts \<Rightarrow> nat \<Rightarrow> char res" where
  "peek g i = (if i < length (yy_ch_buf g) then Inr (yy_ch_buf g ! i) else Inl OutOfBounds)"

definition poke :: "nat \<Rightarrow> char \<Rightarrow> yyguts \<Rightarrow> yyguts res" where
  "poke i c g =
     (if i < length (yy_ch_buf g) then Inr (g\<lparr>yy_ch_buf := (yy_ch_buf g)[i := c]\<rparr>) else Inl OutOfBounds)"

section \<open>Buffers\<close>

text \<open>A scanner as \<open>yylex_init\<close> and \<open>yyset_in\<close> leave it.\<close>

definition yylex_init :: "string \<Rightarrow> bool \<Rightarrow> yyguts" where
  "yylex_init file tty =
     \<lparr>yy_ch_buf = [], b_buf_pos = 0, b_buf_size = 0, b_n_chars = 0, b_is_interactive = False,
      b_fill_buffer = False, b_status = YY_BUFFER_NEW, b_lineno = 0, yyin = file, yyin_tty = tty,
      yyout = [], yy_hold_char = NUL, yy_n_chars = 0, yyleng = 0, yy_c_buf_p = 0, yytext_ptr = 0,
      yy_init = False, yy_start = 0, yy_last_state = 0, yy_last_cpos = 0\<rparr>"

definition yy_load_buffer_state :: "yyguts \<Rightarrow> yyguts res" where
  "yy_load_buffer_state g =
     res_bind (peek g (b_buf_pos g)) (\<lambda>c.
     Inr (g\<lparr>yy_n_chars := b_n_chars g, yytext_ptr := b_buf_pos g, yy_c_buf_p := b_buf_pos g,
       yy_hold_char := c\<rparr>))"

text \<open>\<open>current\<close> says whether the buffer is the current one already.\<close>

definition yy_flush_buffer :: "bool \<Rightarrow> yyguts \<Rightarrow> yyguts res" where
  "yy_flush_buffer current g =
     res_bind (poke 0 NUL (g\<lparr>b_n_chars := 0\<rparr>)) (\<lambda>g1.
     res_bind (poke 1 NUL g1) (\<lambda>g2.
     let g3 = g2\<lparr>b_buf_pos := 0, b_status := YY_BUFFER_NEW\<rparr> in
     if current then yy_load_buffer_state g3 else Inr g3))"

definition yy_init_buffer :: "bool \<Rightarrow> yyguts \<Rightarrow> yyguts res" where
  "yy_init_buffer current g =
     res_bind (yy_flush_buffer current g) (\<lambda>g1.
     let g2 = g1\<lparr>b_fill_buffer := True\<rparr>;
         g3 = (if current then g2 else g2\<lparr>b_lineno := 1\<rparr>)
     in Inr (g3\<lparr>b_is_interactive := yyin_tty g3\<rparr>))"

text \<open>The characters that \<open>yyalloc\<close> leaves in a new buffer are arbitrary; here they are NUL.\<close>

definition yy_create_buffer :: "nat \<Rightarrow> yyguts \<Rightarrow> yyguts res" where
  "yy_create_buffer sz g =
     yy_init_buffer False (g\<lparr>b_buf_size := sz, yy_ch_buf := replicate (sz + 2) NUL\<rparr>)"

definition yyrestart :: "yyguts \<Rightarrow> yyguts res" where
  "yyrestart g = res_bind (yy_init_buffer True g) yy_load_buffer_state"

section \<open>Reading the file\<close>

text \<open>
  \<open>YY_INPUT\<close>: from a terminal at most a line, from a file as much as is asked for. The result is
  what is read and what is left.
\<close>

definition read_line :: "nat \<Rightarrow> string \<Rightarrow> string" where
  "read_line n s =
     (let l = takeWhile (\<lambda>c. c \<noteq> LF) s in
      if n \<le> length l then take n s
      else if length l < length s then l @ [LF] else l)"

definition YY_INPUT :: "bool \<Rightarrow> nat \<Rightarrow> string \<Rightarrow> string \<times> string" where
  "YY_INPUT interactive n s =
     (let l = (if interactive then read_line n s else take n s) in (l, drop (length l) s))"

text \<open>A block of characters stored in the buffer from an offset on.\<close>

fun poke_all :: "nat \<Rightarrow> string \<Rightarrow> yyguts \<Rightarrow> yyguts res" where
  "poke_all i [] g = Inr g"
| "poke_all i (c # cs) g = res_bind (poke i c g) (poke_all (Suc i) cs)"

text \<open>The loop that moves the characters of the current token to the start of the buffer.\<close>

fun move_chars :: "nat \<Rightarrow> nat \<Rightarrow> nat \<Rightarrow> yyguts \<Rightarrow> yyguts res" where
  "move_chars 0 dest source g = Inr g"
| "move_chars (Suc n) dest source g =
     res_bind (peek g source) (\<lambda>c. res_bind (poke dest c g) (move_chars n (Suc dest) (Suc source)))"

text \<open>
  The size of a buffer and the number of characters to read are 64-bit numbers without sign; the
  number of characters to move is an \<open>int\<close>. The buffer grows as long as there is no room; one round
  is enough unless the size wraps.
\<close>

definition size_t :: "int \<Rightarrow> nat" where
  "size_t i = nat (i mod 2 ^ 64)"

definition num_to_read :: "yyguts \<Rightarrow> int \<Rightarrow> nat" where
  "num_to_read g moved = size_t (int (b_buf_size g) - moved - 1)"

definition grown :: "nat \<Rightarrow> nat" where
  "grown sz =
     (let new_size = size_t (2 * int sz) in
      if new_size = 0 then size_t (int sz + int sz div 8) else new_size)"

definition grow_buffer :: "yyguts \<Rightarrow> yyguts" where
  "grow_buffer g =
     (let sz = grown (b_buf_size g) in
      g\<lparr>b_buf_size := sz, yy_ch_buf := take (sz + 2) (yy_ch_buf g) @ replicate (sz + 2 - length (yy_ch_buf g)) NUL\<rparr>)"

fun make_room :: "nat \<Rightarrow> int \<Rightarrow> yyguts \<Rightarrow> yyguts" where
  "make_room 0 moved g = g"
| "make_room (Suc fuel) moved g = (if num_to_read g moved = 0 then make_room fuel moved (grow_buffer g) else g)"

definition yy_fill :: "int \<Rightarrow> yyguts \<Rightarrow> yyguts res" where
  "yy_fill moved g =
     (let g1 = make_room 64 moved g;
          n = min (num_to_read g1 moved) YY_READ_BUF_SIZE;
          (l, rest) = YY_INPUT (b_is_interactive g1) n (yyin g1)
      in map_sum id (\<lambda>g2. g2\<lparr>yy_n_chars := length l, b_n_chars := length l, yyin := rest\<rparr>)
           (poke_all (nat moved) l g1))"

datatype eob_act = EOB_ACT_CONTINUE_SCAN | EOB_ACT_END_OF_FILE | EOB_ACT_LAST_MATCH

text \<open>\<open>yy_fatal_error\<close> for an end of buffer that was missed is a fault of the model.\<close>

definition yy_refill :: "int \<Rightarrow> yyguts \<Rightarrow> (eob_act \<times> yyguts) res" where
  "yy_refill moved g =
     res_bind
       (if b_status g = YY_BUFFER_EOF_PENDING then Inr (g\<lparr>b_n_chars := 0, yy_n_chars := 0\<rparr>) else yy_fill moved g)
       (\<lambda>g1.
     if yy_n_chars g1 = 0 then
       if moved = 0 then map_sum id (\<lambda>g2. (EOB_ACT_END_OF_FILE, g2)) (yyrestart g1)
       else Inr (EOB_ACT_LAST_MATCH, g1\<lparr>b_status := YY_BUFFER_EOF_PENDING\<rparr>)
     else Inr (EOB_ACT_CONTINUE_SCAN, g1))"

definition yy_extend :: "int \<Rightarrow> yyguts \<Rightarrow> yyguts" where
  "yy_extend moved g =
     (if size_t (int (yy_n_chars g) + moved) > b_buf_size g then
        let sz = size_t (int (yy_n_chars g) + moved + int (yy_n_chars g) div 2) in
        g\<lparr>yy_ch_buf := take sz (yy_ch_buf g) @ replicate (sz - length (yy_ch_buf g)) NUL\<rparr>
      else g)"

definition yy_get_next_buffer :: "yyguts \<Rightarrow> (eob_act \<times> yyguts) res" where
  "yy_get_next_buffer g =
     (if yy_c_buf_p g > yy_n_chars g + 1 then Inl OutOfBounds
      else if \<not> b_fill_buffer g then
        Inr (if int (yy_c_buf_p g) - int (yytext_ptr g) = 1 then EOB_ACT_END_OF_FILE else EOB_ACT_LAST_MATCH, g)
      else
        let moved = i32_of_int (int (yy_c_buf_p g) - int (yytext_ptr g)) - 1 in
        res_bind (move_chars (nat moved) 0 (yytext_ptr g) g) (\<lambda>g1.
        res_bind (yy_refill moved g1) (\<lambda>(act, g2).
        let g3 = yy_extend moved g2;
            n = size_t (int (yy_n_chars g3) + moved)
        in res_bind (poke n NUL (g3\<lparr>yy_n_chars := n\<rparr>)) (\<lambda>g4.
           res_bind (poke (n + 1) NUL g4) (\<lambda>g5.
           Inr (act, g5\<lparr>yytext_ptr := 0\<rparr>))))))"

section \<open>The automaton over the buffer\<close>

definition yy_class :: "char \<Rightarrow> int res" where
  "yy_class c = tbl yy_ec (int (of_char c))"

text \<open>
  The loop from \<open>yy_match\<close> on, over the characters from the offset on: the state it leaves with, the
  offset, and the last accepting state and its offset.
\<close>

definition last_accepting :: "int \<Rightarrow> nat \<Rightarrow> int \<times> nat \<Rightarrow> (int \<times> nat) res" where
  "last_accepting s cp la = res_bind (tbl yy_accept s) (\<lambda>a. Inr (if a \<noteq> 0 then (s, cp) else la))"

fun yy_match :: "string \<Rightarrow> int \<Rightarrow> nat \<Rightarrow> int \<times> nat \<Rightarrow> (int \<times> nat \<times> int \<times> nat) res" where
  "yy_match [] s cp la = Inl OutOfBounds"
| "yy_match (c # cs) s cp la =
     res_bind (yy_class c) (\<lambda>k.
     res_bind (last_accepting s cp la) (\<lambda>la'.
     res_bind (yy_transition s k) (\<lambda>s'.
     res_bind (tbl yy_base s') (\<lambda>b.
     if b = YY_JAM_BASE then Inr (s', cp + 1, la') else yy_match cs s' (cp + 1) la'))))"

fun yy_previous :: "string \<Rightarrow> int \<Rightarrow> nat \<Rightarrow> int \<times> nat \<Rightarrow> (int \<times> int \<times> nat) res" where
  "yy_previous [] s cp la = Inr (s, la)"
| "yy_previous (c # cs) s cp la =
     res_bind (if c \<noteq> NUL then yy_class c else Inr 1) (\<lambda>k.
     res_bind (last_accepting s cp la) (\<lambda>la'.
     res_bind (yy_transition s k) (\<lambda>s'.
     yy_previous cs s' (cp + 1) la')))"

definition yy_get_previous_state :: "yyguts \<Rightarrow> (int \<times> yyguts) res" where
  "yy_get_previous_state g =
     (if yy_c_buf_p g > length (yy_ch_buf g) then Inl OutOfBounds
      else
        res_bind (yy_previous (take (yy_c_buf_p g - yytext_ptr g) (drop (yytext_ptr g) (yy_ch_buf g)))
            (yy_start g) (yytext_ptr g) (yy_last_state g, yy_last_cpos g)) (\<lambda>(s, ls, lc).
        Inr (s, g\<lparr>yy_last_state := ls, yy_last_cpos := lc\<rparr>)))"

text \<open>The result 0 stands for a jam.\<close>

definition yy_try_NUL_trans :: "int \<Rightarrow> yyguts \<Rightarrow> (int \<times> yyguts) res" where
  "yy_try_NUL_trans s g =
     res_bind (last_accepting s (yy_c_buf_p g) (yy_last_state g, yy_last_cpos g)) (\<lambda>(ls, lc).
     res_bind (yy_transition s 1) (\<lambda>s'.
     Inr (if s' = YY_JAM then 0 else s', g\<lparr>yy_last_state := ls, yy_last_cpos := lc\<rparr>)))"

section \<open>Actions\<close>

definition YY_DO_BEFORE_ACTION :: "nat \<Rightarrow> nat \<Rightarrow> yyguts \<Rightarrow> yyguts res" where
  "YY_DO_BEFORE_ACTION bp cp g =
     res_bind (peek g cp) (\<lambda>c.
     map_sum id (\<lambda>g1. g1\<lparr>yy_c_buf_p := cp\<rparr>)
       (poke cp NUL (g\<lparr>yytext_ptr := bp, yyleng := cp - bp, yy_hold_char := c\<rparr>)))"

definition yytext :: "yyguts \<Rightarrow> string" where
  "yytext g = take (yyleng g) (drop (yytext_ptr g) (yy_ch_buf g))"

definition count_lines :: "int \<Rightarrow> yyguts \<Rightarrow> yyguts res" where
  "count_lines act g =
     (if act = YY_END_OF_BUFFER then Inr g
      else
        res_bind (tbl yy_rule_can_match_eol act) (\<lambda>e.
        Inr (if e \<noteq> 0 then g\<lparr>b_lineno := b_lineno g + int (count_list (yytext g) LF)\<rparr> else g)))"

text \<open>The rules whose action only returns a token.\<close>

definition rule_token :: "int \<Rightarrow> yytokentype option" where
  "rule_token act =
     map_of [(2, OBRACE), (3, EBRACE), (4, SEMICOLON), (5, OPTIONSTOK), (6, PIDTOK), (7, FILETOK),
       (8, DEBUGTOK), (9, LEVELTOK), (10, ACTIONTOK), (11, COMMANDTOK), (12, STARTTOK), (13, STOPTOK),
       (14, SLOTSTOK), (15, TIMETOK), (16, SIZETOK), (17, EXPIRETOK), (18, DELAYTOK), (19, FILTERTOK),
       (20, PROFILETOK), (21, INPUTTOK), (22, SHMTOK), (23, WHENTOK), (24, TRACKTOK), (25, HASHTOK),
       (26, BUCKETSTOK), (27, DSTIPTOK), (28, WINDOWTOK), (29, DBTOK), (30, CONNECTTOK),
       (31, EXPORTTOK), (32, MINTOK), (33, INTERVALTOK), (34, DYNAMICTOK), (35, LIMITTOK),
       (37, BITPSTOK), (38, BITPSTOK), (39, PPSTOK), (40, PPSTOK), (41, FPSTOK), (42, FPSTOK),
       (43, FPSTOK), (44, FPSTOK)] act"

text \<open>
  The string of rule 36: \<open>strncpy\<close> stops at a NUL of the text, and the terminator that is stored
  after the last character may be past the end of the array.
\<close>

definition string_value :: "string \<Rightarrow> string res" where
  "string_value text =
     (if length text - 2 < MAX_STRING then
        Inr (take (length text - 2) (takeWhile (\<lambda>c. c \<noteq> NUL) (take (MAX_STRING - 1) (drop 1 text))))
      else Inl BufferOverflow)"

datatype yypoint = AtToken | AtMatch int nat nat | AtAction int nat nat

datatype yynext = Goto yypoint yyguts | Return lexeme yyguts | Eof yyguts

text \<open>The actions of the rules; \<open>ECHO\<close> writes the text, a comment or white space is left out.\<close>

definition do_rule :: "int \<Rightarrow> nat \<Rightarrow> nat \<Rightarrow> yyguts \<Rightarrow> yynext res" where
  "do_rule act bp cp g =
     (if act = 1 \<or> act = 48 \<or> act = 49 then Inr (Goto AtToken g)
      else if act = 36 then
        Inr (case string_value (yytext g) of Inl e \<Rightarrow> Return (LexFault e) g
             | Inr s \<Rightarrow> Return (Lex STRING (Some (VString s))) g)
      else if act = 45 then Inr (Return (Lex FACTOR (Some (VNumber 1000))) g)
      else if act = 46 then Inr (Return (Lex FACTOR (Some (VNumber (1000 * 1000)))) g)
      else if act = 47 then Inr (Return (Lex NUMBER (Some (VNumber (c_atoi (yytext g))))) g)
      else if act = 50 then Inr (Goto AtToken (g\<lparr>yyout := yyout g @ yytext g\<rparr>))
      else if act = 43 then
        res_bind (poke cp (yy_hold_char g) g) (\<lambda>g1.
        res_bind (YY_DO_BEFORE_ACTION bp (bp + 4) (g1\<lparr>yy_c_buf_p := bp + 4\<rparr>)) (\<lambda>g2.
        Inr (Return (Lex FPSTOK None) g2)))
      else case rule_token act of
        Some t \<Rightarrow> Inr (Return (Lex t None) g)
      | None \<Rightarrow> Inl OutOfBounds)"

text \<open>The action of the end of a buffer: a NUL of the text, or a buffer that has to be filled.\<close>

definition do_NUL :: "nat \<Rightarrow> yyguts \<Rightarrow> yynext res" where
  "do_NUL here g =
     res_bind (yy_get_previous_state (g\<lparr>yy_c_buf_p := here\<rparr>)) (\<lambda>(s, g1).
     res_bind (yy_try_NUL_trans s g1) (\<lambda>(s', g2).
     if s' \<noteq> 0 then
       Inr (Goto (AtMatch s' (here + 1) (yytext_ptr g2)) (g2\<lparr>yy_c_buf_p := here + 1\<rparr>))
     else Inr (Goto (AtAction s here (yytext_ptr g2)) g2)))"

definition do_END_OF_BUFFER :: "nat \<Rightarrow> yyguts \<Rightarrow> yynext res" where
  "do_END_OF_BUFFER cp g =
     (let matched = i32_of_int (int cp - int (yytext_ptr g)) - 1 in
      res_bind (poke cp (yy_hold_char g) g) (\<lambda>g1.
      let g2 = (if b_status g1 = YY_BUFFER_NEW
          then g1\<lparr>yy_n_chars := b_n_chars g1, b_status := YY_BUFFER_NORMAL\<rparr> else g1)
      in
      if yy_c_buf_p g2 \<le> yy_n_chars g2 then do_NUL (nat (int (yytext_ptr g2) + matched)) g2
      else
        res_bind (yy_get_next_buffer g2) (\<lambda>(act, g3).
        case act of
          EOB_ACT_END_OF_FILE \<Rightarrow> Inr (Eof (g3\<lparr>yy_c_buf_p := yytext_ptr g3\<rparr>))
        | EOB_ACT_CONTINUE_SCAN \<Rightarrow>
            let here = nat (int (yytext_ptr g3) + matched) in
            res_bind (yy_get_previous_state (g3\<lparr>yy_c_buf_p := here\<rparr>)) (\<lambda>(s, g4).
            Inr (Goto (AtMatch s here (yytext_ptr g4)) g4))
        | EOB_ACT_LAST_MATCH \<Rightarrow>
            res_bind (yy_get_previous_state (g3\<lparr>yy_c_buf_p := yy_n_chars g3\<rparr>)) (\<lambda>(s, g4).
            Inr (Goto (AtAction s (yy_c_buf_p g4) (yytext_ptr g4)) g4)))))"

text \<open>From \<open>yy_find_action\<close> on: back up when the state accepts nothing, then the action.\<close>

definition yy_find_action :: "int \<Rightarrow> nat \<Rightarrow> nat \<Rightarrow> yyguts \<Rightarrow> yynext res" where
  "yy_find_action s cp bp g =
     res_bind (tbl yy_accept s) (\<lambda>a.
     let (s', cp') = (if a = 0 then (yy_last_state g, yy_last_cpos g) else (s, cp)) in
     res_bind (tbl yy_accept s') (\<lambda>act.
     res_bind (YY_DO_BEFORE_ACTION bp cp' g) (\<lambda>g1.
     res_bind (count_lines act g1) (\<lambda>g2.
     if act = YY_END_OF_BUFFER then do_END_OF_BUFFER cp' g2 else do_rule act bp cp' g2))))"

section \<open>The scanner\<close>

definition yystep :: "yypoint \<Rightarrow> yyguts \<Rightarrow> yynext res" where
  "yystep pt g =
     (case pt of
        AtToken \<Rightarrow>
          res_bind (poke (yy_c_buf_p g) (yy_hold_char g) g) (\<lambda>g1.
          Inr (Goto (AtMatch (yy_start g1) (yy_c_buf_p g1) (yy_c_buf_p g1)) g1))
      | AtMatch s cp bp \<Rightarrow>
          res_bind (yy_match (drop cp (yy_ch_buf g)) s cp (yy_last_state g, yy_last_cpos g))
            (\<lambda>(s', cp', ls, lc).
          Inr (Goto (AtAction s' cp' bp) (g\<lparr>yy_last_state := ls, yy_last_cpos := lc\<rparr>)))
      | AtAction s cp bp \<Rightarrow> yy_find_action s cp bp g)"

partial_function (option) yyscan :: "yypoint \<Rightarrow> yyguts \<Rightarrow> (lexeme option \<times> yyguts) res option" where
  "yyscan pt g =
     (case yystep pt g of
        Inl e \<Rightarrow> Some (Inl e)
      | Inr (Goto pt' g') \<Rightarrow> yyscan pt' g'
      | Inr (Return x g') \<Rightarrow> Some (Inr (Some x, g'))
      | Inr (Eof g') \<Rightarrow> Some (Inr (None, g')))"

text \<open>\<open>yylex\<close>: the first call creates the buffer.\<close>

definition yylex :: "yyguts \<Rightarrow> (lexeme option \<times> yyguts) res option" where
  "yylex g =
     (if yy_init g then yyscan AtToken g
      else
        case res_bind (yy_create_buffer YY_BUF_SIZE (g\<lparr>yy_init := True, yy_start := 1\<rparr>)) yy_load_buffer_state of
          Inl e \<Rightarrow> Some (Inl e)
        | Inr g1 \<Rightarrow> yyscan AtToken g1)"

text \<open>
  The tokens of a file: calls of \<open>yylex\<close> until it returns 0 or a call faults. A caller that stops
  earlier uses a prefix of them.
\<close>

partial_function (option) yylex_all :: "yyguts \<Rightarrow> (lexeme list \<times> yyguts) option" where
  "yylex_all g =
     Option.bind (yylex g) (\<lambda>r.
     case r of
       Inl e \<Rightarrow> Some ([LexFault e], g)
     | Inr (None, g') \<Rightarrow> Some ([], g')
     | Inr (Some x, g') \<Rightarrow> Option.bind (yylex_all g') (\<lambda>(xs, g''). Some (x # xs, g'')))"

declare yyscan.simps [code] yylex_all.simps [code]

end
