(* ===== verification/Lexer_Automaton.thy ===== *)
theory Lexer_Automaton
  imports Lexer
begin

text \<open>
  The automaton of the scanner over a text: what the loops of \<open>yylex\<close> and \<open>yy_get_previous_state\<close>
  compute when they run over the characters of the text, and the longest match from a state.
\<close>

section \<open>Classes and states\<close>

text \<open>A NUL of the text has the class 1; the class 0 is that of the end of the buffer.\<close>

definition cls :: "char \<Rightarrow> int" where
  "cls c = (if c = NUL then 1 else yy_ec ! of_char c)"

definition acc :: "int \<Rightarrow> int" where
  "acc s = yy_accept ! nat s"

definition dead :: "int \<Rightarrow> bool" where
  "dead s \<longleftrightarrow> yy_base ! nat s = YY_JAM_BASE"

text \<open>The states that a text leads to before the automaton jams.\<close>

definition ok :: "int \<Rightarrow> bool" where
  "ok s \<longleftrightarrow> 0 < s \<and> s < 180 \<and> s \<noteq> 3"

lemma yy_ec_facts: "length yy_ec = 256" "yy_ec ! 0 = 0" "\<forall>k \<in> set (tl yy_ec). 1 \<le> k \<and> k \<le> 38"
  by (simp_all add: yy_ec_def)

lemma of_char_less_256: "of_char c < (256 :: nat)"
  by simp

lemma of_char_eq_0: "of_char c = (0 :: nat) \<longleftrightarrow> c = NUL"
proof -
  have "of_char NUL = (0 :: nat)" by (simp add: NUL_def)
  then show ?thesis by (metis of_char_eq_iff)
qed

lemma cls_range: "1 \<le> cls c" "cls c \<le> 38"
proof -
  have "1 \<le> cls c \<and> cls c \<le> 38"
  proof (cases "c = NUL")
    case False
    then have "0 < (of_char c :: nat)" using of_char_eq_0 [of c] by simp
    then obtain i where i: "of_char c = Suc i" by (cases "of_char c :: nat") auto
    then have "i < length (tl yy_ec)" using of_char_less_256 [of c] by (simp add: yy_ec_facts)
    then have "tl yy_ec ! i \<in> set (tl yy_ec)" by (rule nth_mem)
    moreover have "yy_ec ! of_char c = tl yy_ec ! i" using i \<open>i < length (tl yy_ec)\<close> by (simp add: nth_tl)
    ultimately show ?thesis using yy_ec_facts(3) False by (simp add: cls_def)
  qed (simp add: cls_def)
  then show "1 \<le> cls c" "cls c \<le> 38" by auto
qed

lemma yy_class_eq: "yy_class c = Inr (if c = NUL then 0 else cls c)"
  using of_char_less_256 [of c] of_char_eq_0 [of c]
  by (auto simp: yy_class_def tbl_def cls_def yy_ec_facts)

lemma accept_facts: "length yy_accept = 181" "\<forall>a \<in> set yy_accept. 0 \<le> a \<and> a \<le> 51"
  by (simp_all add: yy_accept_def)

lemma acc_simps: "acc 1 = 0" "acc 3 = 51" "acc 180 = 0"
  by (simp_all add: acc_def yy_accept_def)

lemma tbl_accept: "0 \<le> s \<Longrightarrow> s \<le> 180 \<Longrightarrow> tbl yy_accept s = Inr (acc s)"
  by (simp add: tbl_def acc_def accept_facts)

lemma acc_range: "0 \<le> s \<Longrightarrow> s \<le> 180 \<Longrightarrow> 0 \<le> acc s \<and> acc s \<le> 51"
  using accept_facts by (simp add: acc_def)

lemma accept_51: "51 \<notin> set (take 3 yy_accept)" "51 \<notin> set (drop 4 yy_accept)"
  by (simp_all add: yy_accept_def)

lemma nth_neq_around:
  assumes "x \<notin> set (take n xs)" "x \<notin> set (drop (Suc n) xs)" "i < length xs" "i \<noteq> n"
  shows "xs ! i \<noteq> x"
proof (cases "i < n")
  case True
  then show ?thesis using assms(1,3) by (auto simp: in_set_conv_nth)
next
  case False
  then have "xs ! i = drop (Suc n) xs ! (i - Suc n)" "i - Suc n < length (drop (Suc n) xs)"
    using assms(3,4) by auto
  then show ?thesis using assms(2) by (metis nth_mem)
qed

lemma acc_eq_51: "0 \<le> s \<Longrightarrow> s \<le> 180 \<Longrightarrow> acc s = 51 \<longleftrightarrow> s = 3"
  using nth_neq_around [OF accept_51(1), of "nat s"] accept_51(2) acc_simps(2) accept_facts(1)
  by (auto simp: acc_def nat_eq_iff nat_less_iff)

lemma tbl_base: "0 \<le> s \<Longrightarrow> s \<le> 180 \<Longrightarrow> tbl yy_base s = Inr (yy_base ! nat s)"
  by (simp add: tbl_def table_sizes)

lemma dead_180: "dead 180" and not_dead_3: "\<not> dead 3" and not_dead_1: "\<not> dead 1"
  by (simp_all add: dead_def YY_JAM_BASE_def yy_base_def)

lemma rows_targets:
  "\<forall>r \<in> set (tl lex_rows). snd r \<in> {4..180} \<and> (\<forall>p \<in> set (fst r). fst p \<noteq> 0 \<longrightarrow> snd p \<in> {4..180})"
  by (simp add: lex_rows_def)

lemma dead_rows: "list_all2 (\<lambda>b r. b = 202 \<longrightarrow> r = ([], 180)) (take 181 yy_base) lex_rows"
  by (simp add: yy_base_def lex_rows_def)

lemma lex_step_range:
  assumes "0 < s" "s \<le> 180" "1 \<le> k"
  shows "4 \<le> lex_step s k" "lex_step s k \<le> 180"
proof -
  have "lex_rows ! nat s \<in> set (tl lex_rows)"
  proof -
    obtain i where "nat s = Suc i" using assms by (cases "nat s") auto
    moreover from this have "i < length (tl lex_rows)" using assms by (simp add: table_sizes)
    ultimately show ?thesis using nth_mem [of i "tl lex_rows"] by (simp add: nth_tl)
  qed
  with rows_targets have r: "snd (lex_rows ! nat s) \<in> {4..180}"
    "\<forall>p \<in> set (fst (lex_rows ! nat s)). fst p \<noteq> 0 \<longrightarrow> snd p \<in> {4..180}" by blast+
  have "lex_step s k \<in> {4..180}"
    using r assms(3) by (auto simp: lex_step_def lex_target_def dest!: map_of_SomeD split: option.splits)
  then show "4 \<le> lex_step s k" "lex_step s k \<le> 180" by auto
qed

lemma dead_step:
  assumes "0 < s" "s \<le> 180" "dead s" "1 \<le> k"
  shows "lex_step s k = 180"
proof -
  have "nat s < length (take 181 yy_base)" using assms by (simp add: table_sizes)
  from list_all2_nthD [OF dead_rows this] have "lex_rows ! nat s = ([], 180)"
    using assms by (simp add: dead_def YY_JAM_BASE_def)
  then show ?thesis using assms by (simp add: lex_step_def lex_target_def)
qed

lemma class_0_rows:
  "\<forall>r \<in> set (take 3 lex_rows). map_of (fst r) 0 = None" "\<forall>r \<in> set (drop 4 lex_rows). map_of (fst r) 0 = None"
  "lex_rows ! 3 = ([(0, 180)], 180)"
  by (simp_all add: lex_rows_def)

lemma lex_step_0:
  assumes "ok s"
  shows "lex_step s 0 = 3"
proof -
  have "lex_rows ! nat s \<in> set (take 3 lex_rows) \<union> set (drop 4 lex_rows)"
    using nth_neq_around [of "lex_rows ! nat s" 3 lex_rows "nat s"] assms by (auto simp: ok_def table_sizes nat_eq_iff nat_less_iff)
  then show ?thesis
    using class_0_rows by (auto simp: lex_step_def lex_target_def)
qed

lemma lex_step_3: "lex_step 3 k = 180" if "0 \<le> k"
  using that class_0_rows(3) by (auto simp: lex_step_def lex_target_def)

text \<open>A transition of the program over a character of the text, and over the end of the buffer.\<close>

lemma yy_transition_cls:
  "ok s \<Longrightarrow> yy_transition s (cls c) = Inr (lex_step s (cls c))"
  "ok s \<Longrightarrow> yy_transition s 1 = Inr (lex_step s (cls NUL))"
  "ok s \<Longrightarrow> yy_transition s 0 = Inr 3"
  "0 \<le> k \<Longrightarrow> k \<le> 38 \<Longrightarrow> yy_transition 3 k = Inr 180"
  using yy_transition_row [of s "cls c"] yy_transition_row [of s 1] yy_transition_row [of s 0]
    yy_transition_row [of 3 k] cls_range [of c] lex_step_0 [of s] lex_step_3 [of k]
  by (auto simp: ok_def cls_def)

lemma lex_step_ok: "ok s \<Longrightarrow> \<not> dead (lex_step s (cls c)) \<Longrightarrow> ok (lex_step s (cls c))"
  using lex_step_range [of s "cls c"] cls_range [of c] dead_180
  by (cases "lex_step s (cls c) = 180") (auto simp: ok_def)

lemma step_bounds: "ok s \<Longrightarrow> 4 \<le> lex_step s (cls c) \<and> lex_step s (cls c) \<le> 180"
  using lex_step_range [of s "cls c"] cls_range [of c] by (auto simp: ok_def)

section \<open>Runs\<close>

fun lex_run :: "int \<Rightarrow> string \<Rightarrow> int" where
  "lex_run s [] = s"
| "lex_run s (c # w) = lex_run (lex_step s (cls c)) w"

fun run_ok :: "int \<Rightarrow> string \<Rightarrow> bool" where
  "run_ok s [] \<longleftrightarrow> ok s"
| "run_ok s (c # w) \<longleftrightarrow> ok s \<and> run_ok (lex_step s (cls c)) w"

text \<open>The last accepting state among those before the characters of a text, with its place.\<close>

fun last_acc :: "int \<Rightarrow> string \<Rightarrow> nat \<Rightarrow> int \<times> nat \<Rightarrow> int \<times> nat" where
  "last_acc s [] cp la = la"
| "last_acc s (c # w) cp la =
     last_acc (lex_step s (cls c)) w (Suc cp) (if acc s \<noteq> 0 then (s, cp) else la)"

lemma lex_run_append [simp]: "lex_run s (u @ v) = lex_run (lex_run s u) v"
  by (induction u arbitrary: s) auto

lemma run_ok_append [simp]: "run_ok s (u @ v) \<longleftrightarrow> run_ok s u \<and> run_ok (lex_run s u) v"
  by (induction u arbitrary: s) (auto elim: run_ok.elims)

lemma run_ok_last: "run_ok s u \<Longrightarrow> ok (lex_run s u)"
  by (induction u arbitrary: s) auto

lemma last_acc_append [simp]:
  "last_acc s (u @ v) cp la = last_acc (lex_run s u) v (cp + length u) (last_acc s u cp la)"
  by (induction u arbitrary: s cp la) auto

lemma last_accepting_ok: "ok s \<Longrightarrow> last_accepting s cp la = Inr (if acc s \<noteq> 0 then (s, cp) else la)"
  by (simp add: last_accepting_def tbl_accept ok_def)

text \<open>The longest match: the rule and the number of characters.\<close>

fun lex_best :: "int \<Rightarrow> string \<Rightarrow> (int \<times> nat) option" where
  "lex_best s [] = (if acc s \<noteq> 0 then Some (acc s, 0) else None)"
| "lex_best s (c # w) =
     (case lex_best (lex_step s (cls c)) w of
        Some (r, k) \<Rightarrow> Some (r, Suc k)
      | None \<Rightarrow> if acc s \<noteq> 0 then Some (acc s, 0) else None)"

lemma lex_best_dead:
  assumes "0 < s" "s \<le> 180" "dead s"
  shows "lex_best s w = (if acc s \<noteq> 0 then Some (acc s, 0) else None)"
proof (cases w)
  case (Cons c v)
  have "lex_best 180 v = None" for v
  proof (induction v)
    case (Cons c v)
    then show ?case using dead_step [of 180 "cls c"] dead_180 cls_range by (simp add: acc_simps)
  qed (simp add: acc_simps)
  then show ?thesis
    using Cons dead_step [of s "cls c"] assms cls_range by simp
qed simp

text \<open>
  The longest match from the start of a text: what is found after a part of it that the automaton has
  run over, or else the last accepting state before a character of that part.
\<close>

fun back_up :: "int \<Rightarrow> string \<Rightarrow> (int \<times> nat) option" where
  "back_up s [] = None"
| "back_up s (c # w) =
     (case back_up (lex_step s (cls c)) w of
        Some (r, k) \<Rightarrow> Some (r, Suc k)
      | None \<Rightarrow> if acc s \<noteq> 0 then Some (acc s, 0) else None)"

lemma lex_best_append:
  "lex_best s (u @ v) =
     (case lex_best (lex_run s u) v of Some (r, k) \<Rightarrow> Some (r, length u + k) | None \<Rightarrow> back_up s u)"
  by (induction u arbitrary: s) (auto split: option.splits)

lemma back_up_last_acc:
  assumes "run_ok s u \<or> (\<exists>w c. u = w @ [c] \<and> run_ok s w)" "back_up s u = Some (r, k)"
  shows "\<exists>s'. last_acc s u cp la = (s', cp + k) \<and> acc s' = r \<and> ok s' \<and> r \<noteq> 0"
  using assms
proof (induction u arbitrary: s r k cp la)
  case (Cons c w)
  have s: "ok s" using Cons.prems(1) by (auto simp: Cons_eq_append_conv)
  have w: "w = [] \<or> run_ok (lex_step s (cls c)) w \<or> (\<exists>w' c'. w = w' @ [c'] \<and> run_ok (lex_step s (cls c)) w')"
    using Cons.prems(1) by (auto simp: Cons_eq_append_conv)
  show ?case
  proof (cases "back_up (lex_step s (cls c)) w")
    case None
    then have "last_acc (lex_step s (cls c)) w cp' la' = la'" for cp' la'
    proof (induction w arbitrary: cp' la' s c)
      case (Cons d w)
      then show ?case by (auto split: option.splits if_splits)
    qed simp
    with None Cons.prems(2) s show ?thesis by (auto split: if_splits)
  next
    case (Some p)
    then obtain r' k' where p: "back_up (lex_step s (cls c)) w = Some (r', k')" by (cases p) auto
    with Cons.prems(2) have "r = r'" "k = Suc k'" by auto
    moreover have "w \<noteq> []" using p by auto
    ultimately show ?thesis using Cons.IH [of "lex_step s (cls c)" r' k' "Suc cp"] w p by auto
  qed
qed simp

lemma row_1_facts:
  "map fst (fst (lex_rows ! 1)) = [1..38]" "\<forall>p \<in> set (fst (lex_rows ! 1)). 4 \<le> snd p \<and> snd p < 32"
  "0 \<notin> set (take 28 (drop 4 yy_accept))"
  by (simp_all add: lex_rows_def yy_accept_def upto_rec1)

lemma acc_step_1: "acc (lex_step 1 (cls c)) \<noteq> 0"
proof -
  have "cls c \<in> set (map fst (fst (lex_rows ! 1)))"
    using cls_range [of c] unfolding row_1_facts(1) by simp
  then obtain t where t: "map_of (fst (lex_rows ! 1)) (cls c) = Some t"
    by (metis list.set_map map_of_eq_None_iff option.exhaust)
  then have "4 \<le> t" "t < 32"
    using bspec [OF row_1_facts(2) map_of_SomeD [OF t]] by simp_all
  then have "take 28 (drop 4 yy_accept) ! (nat t - 4) = yy_accept ! nat t" "nat t - 4 < 28"
    by (auto simp: accept_facts nat_less_iff)
  then have "yy_accept ! nat t \<in> set (take 28 (drop 4 yy_accept))"
    using nth_mem [of "nat t - 4" "take 28 (drop 4 yy_accept)"] accept_facts(1) by simp
  then show ?thesis
    using row_1_facts(3) t by (auto simp: acc_def lex_step_def lex_target_def)
qed

lemma ok_1 [simp]: "ok 1"
  by (simp add: ok_def)

lemma back_up_1: "2 \<le> length u \<Longrightarrow> back_up 1 u \<noteq> None"
  using acc_step_1 by (cases u; cases "tl u") (auto split: option.splits)

lemma lex_best_1: "w \<noteq> [] \<Longrightarrow> \<exists>r k. lex_best 1 w = Some (r, Suc k)"
proof (cases w)
  case (Cons c v)
  have "lex_best (lex_step 1 (cls c)) v \<noteq> None"
    using acc_step_1 [of c] by (cases v) (auto split: option.splits)
  then show ?thesis using Cons by auto
qed simp

lemma lex_best_bounds: "lex_best s w = Some (r, k) \<Longrightarrow> k \<le> length w \<and> r \<noteq> 0"
  by (induction s w arbitrary: r k rule: lex_best.induct) (auto split: option.splits if_splits)

section \<open>The loops of the scanner\<close>

lemma yy_previous_run:
  "run_ok s u \<Longrightarrow> yy_previous u s cp la = Inr (lex_run s u, last_acc s u cp la)"
proof (induction u arbitrary: s cp la)
  case (Cons c u)
  moreover have "(if c \<noteq> NUL then yy_class c else Inr 1) = Inr (cls c)"
    by (simp add: yy_class_eq cls_def)
  ultimately show ?case
    by (simp add: last_accepting_ok yy_transition_cls)
qed simp

text \<open>
  The loop over the rest of the text in the buffer, which two NUL characters follow: either it stops
  after a character that leads to a state without transitions, or it runs into a NUL, of the text or
  of the end of the buffer, and reports the state 3.
\<close>

definition jams :: "int \<Rightarrow> string \<Rightarrow> string \<Rightarrow> bool" where
  "jams s w u \<longleftrightarrow> (\<exists>v c. u = v @ [c] \<and> run_ok s v \<and> dead (lex_run s u)) \<and> (\<exists>x. w = u @ x)"

definition meets_NUL :: "int \<Rightarrow> string \<Rightarrow> string \<Rightarrow> bool" where
  "meets_NUL s w u \<longleftrightarrow> run_ok s u \<and> (w = u \<or> (\<exists>x. w = u @ NUL # x))"

lemma jams_Cons: "jams (lex_step s (cls c)) w u \<Longrightarrow> ok s \<Longrightarrow> jams s (c # w) (c # u)"
  unfolding jams_def by (metis append_Cons lex_run.simps(2) run_ok.simps(2))

lemma meets_NUL_Cons: "meets_NUL (lex_step s (cls c)) w u \<Longrightarrow> ok s \<Longrightarrow> meets_NUL s (c # w) (c # u)"
  by (auto simp: meets_NUL_def)

lemma yy_match_NUL:
  assumes "ok s"
  shows "yy_match (NUL # d # z) s cp la = Inr (180, cp + 2, 3, Suc cp)"
proof -
  have "yy_transition 3 (if d = NUL then 0 else cls d) = Inr 180"
    using cls_range [of d] by (intro yy_transition_cls) auto
  moreover have "tbl yy_base 3 = Inr (yy_base ! 3)" "yy_base ! 3 \<noteq> YY_JAM_BASE"
    "tbl yy_base 180 = Inr YY_JAM_BASE"
    using not_dead_3 dead_180 tbl_base [of 3] tbl_base [of 180] by (auto simp: dead_def)
  moreover have "last_accepting 3 (Suc cp) la' = Inr (3, Suc cp)" for la'
    by (simp add: last_accepting_def tbl_accept acc_simps)
  ultimately show ?thesis
    using assms yy_transition_cls(3) [OF assms] last_accepting_ok [OF assms, of cp la]
    by (simp add: yy_class_eq)
qed

lemma yy_match_text:
  assumes "ok s"
  obtains (jam) u where "jams s w u"
      "yy_match (w @ NUL # NUL # z) s cp la = Inr (lex_run s u, cp + length u, last_acc s u cp la)"
    | (eob) u where "meets_NUL s w u"
      "yy_match (w @ NUL # NUL # z) s cp la = Inr (180, cp + length u + 2, 3, cp + length u + 1)"
  using assms
proof (induction w arbitrary: s cp la thesis)
  case Nil
  then show ?case
    using yy_match_NUL [of s NUL z cp la] Nil(2) [of "[]"] by (simp add: meets_NUL_def)
next
  case (Cons c w)
  show ?case
  proof (cases "c = NUL")
    case True
    have "meets_NUL s (c # w) []" using True Cons.prems(3) by (simp add: meets_NUL_def)
    moreover have "yy_match ((c # w) @ NUL # NUL # z) s cp la = Inr (180, cp + 2, 3, Suc cp)"
      using yy_match_NUL [OF Cons.prems(3)] True by (cases w) simp_all
    ultimately show ?thesis using Cons.prems(2) [of "[]"] by simp
  next
    case False
    let ?t = "lex_step s (cls c)" and ?la = "if acc s \<noteq> 0 then (s, cp) else la"
    have step: "yy_match ((c # w) @ NUL # NUL # z) s cp la =
      (if dead ?t then Inr (?t, Suc cp, ?la) else yy_match (w @ NUL # NUL # z) ?t (Suc cp) ?la)"
      using Cons.prems(3) False step_bounds [OF Cons.prems(3), of c]
      by (simp add: yy_class_eq last_accepting_ok yy_transition_cls tbl_base dead_def)
    show ?thesis
    proof (cases "dead ?t")
      case True
      then have "jams s (c # w) [c]" using Cons.prems(3) by (auto simp: jams_def)
      then show ?thesis using Cons.prems(1) [of "[c]"] step True by simp
    next
      case False
      from lex_step_ok [OF Cons.prems(3) this] show ?thesis
      proof (rule Cons.IH [rotated 2])
        fix u
        assume "jams ?t w u"
          "yy_match (w @ NUL # NUL # z) ?t (Suc cp) ?la = Inr (lex_run ?t u, Suc cp + length u, last_acc ?t u (Suc cp) ?la)"
        then show thesis
          using Cons.prems(1) [of "c # u"] jams_Cons Cons.prems(3) step False by simp
      next
        fix u
        assume "meets_NUL ?t w u"
          "yy_match (w @ NUL # NUL # z) ?t (Suc cp) ?la = Inr (180, Suc cp + length u + 2, 3, Suc cp + length u + 1)"
        then show thesis
          using Cons.prems(2) [of "c # u"] meets_NUL_Cons Cons.prems(3) step False by simp
      qed
    qed
  qed
qed

lemma lex_best_jams:
  assumes "jams s w u"
  shows "lex_best (lex_run s u) v = (if acc (lex_run s u) \<noteq> 0 then Some (acc (lex_run s u), 0) else None)"
proof -
  from assms obtain x c where "u = x @ [c]" "run_ok s x" "dead (lex_run s u)"
    by (auto simp: jams_def)
  moreover from this have "4 \<le> lex_run s u \<and> lex_run s u \<le> 180"
    using step_bounds [OF run_ok_last] by auto
  ultimately show ?thesis by (intro lex_best_dead) auto
qed

end
