(* ===== verification/Lexer_Buffer.thy ===== *)
theory Lexer_Buffer
  imports Lexer_Automaton
begin

text \<open>
  The buffer of the scanner: what is well formed about it, the text it holds together with what the
  file still has, and what filling it does to both.
\<close>

section \<open>Well-formed buffers\<close>

definition wf :: "yyguts \<Rightarrow> bool" where
  "wf g \<longleftrightarrow> length (yy_ch_buf g) = b_buf_size g + 2 \<and> yy_n_chars g < b_buf_size g \<and>
     yy_ch_buf g ! yy_n_chars g = NUL \<and> yy_ch_buf g ! Suc (yy_n_chars g) = NUL \<and>
     yy_start g = 1 \<and> b_fill_buffer g \<and> yy_init g \<and>
     yy_n_chars g + length (yyin g) < 2 ^ 29 \<and> b_buf_size g \<le> 2 ^ 30 \<and>
     (b_status g = YY_BUFFER_NEW \<longrightarrow> b_n_chars g = yy_n_chars g) \<and>
     (b_status g = YY_BUFFER_EOF_PENDING \<longrightarrow> yyin g = [])"

text \<open>The text in the buffer, and all that is left from an offset on.\<close>

definition held :: "yyguts \<Rightarrow> string" where
  "held g = take (yy_n_chars g) (yy_ch_buf g)"

definition left_from :: "nat \<Rightarrow> yyguts \<Rightarrow> string" where
  "left_from i g = drop i (held g) @ yyin g"

text \<open>What filling a buffer leaves alone.\<close>

definition kept :: "yyguts \<Rightarrow> string \<times> int \<times> int \<times> nat" where
  "kept g = (yyout g, b_lineno g, yy_last_state g, yy_last_cpos g)"

lemma wf_buffer:
  assumes "wf g"
  shows "\<exists>z. yy_ch_buf g = held g @ NUL # NUL # z" "length (held g) = yy_n_chars g"
proof -
  let ?B = "yy_ch_buf g" and ?n = "yy_n_chars g"
  from assms have "Suc ?n < length ?B" "?B ! ?n = NUL" "?B ! Suc ?n = NUL" by (auto simp: wf_def)
  then have "drop ?n ?B = NUL # NUL # drop (Suc (Suc ?n)) ?B"
    by (metis Cons_nth_drop_Suc Suc_lessD)
  then have "?B = held g @ NUL # NUL # drop (Suc (Suc ?n)) ?B"
    by (metis append_take_drop_id held_def)
  then show "\<exists>z. ?B = held g @ NUL # NUL # z" by blast
  show "length (held g) = ?n" using assms by (auto simp: wf_def held_def)
qed

section \<open>Moving and storing characters\<close>

lemma take_update: "k \<le> i \<Longrightarrow> take k (xs[i := x]) = take k xs"
  by (simp add: take_update_cancel)

lemma list_update_split: "i < length xs \<Longrightarrow> xs[i := x] = take i xs @ x # drop (Suc i) xs"
  by (simp add: upd_conv_take_nth_drop)

lemma poke_all_eq:
  assumes "i + length l \<le> length (yy_ch_buf g)"
  shows "poke_all i l g =
    Inr (g\<lparr>yy_ch_buf := take i (yy_ch_buf g) @ l @ drop (i + length l) (yy_ch_buf g)\<rparr>)"
  using assms
proof (induction l arbitrary: i g)
  case (Cons c l)
  then have "i < length (yy_ch_buf g)" by simp
  then show ?case
    using Cons.prems Cons.IH [of "Suc i" "g\<lparr>yy_ch_buf := (yy_ch_buf g)[i := c]\<rparr>"]
    by (simp add: poke_def list_update_split take_Suc_conv_app_nth add.commute)
qed simp

lemma move_chars_eq:
  assumes "d + b + n \<le> length (yy_ch_buf g)"
  shows "move_chars n d (d + b) g =
    Inr (g\<lparr>yy_ch_buf := take d (yy_ch_buf g) @ take n (drop (d + b) (yy_ch_buf g)) @ drop (d + n) (yy_ch_buf g)\<rparr>)"
  using assms
proof (induction n arbitrary: d g)
  case (Suc n)
  let ?B = "yy_ch_buf g" and ?g = "g\<lparr>yy_ch_buf := (yy_ch_buf g)[d := yy_ch_buf g ! (d + b)]\<rparr>"
  have d: "d < length ?B" "d + b < length ?B" using Suc.prems by auto
  have "drop (Suc d + b) (?B[d := ?B ! (d + b)]) = drop (Suc d + b) ?B" by simp
  moreover have "take (Suc n) (drop (d + b) ?B) = ?B ! (d + b) # take n (drop (Suc d + b) ?B)"
    using d(2) by (simp add: take_Suc_conv_app_nth flip: Cons_nth_drop_Suc)
  moreover have "take (Suc d) (?B[d := ?B ! (d + b)]) = take d ?B @ [?B ! (d + b)]"
    using d by (simp add: take_Suc_conv_app_nth)
  moreover have "drop (Suc d + n) (?B[d := ?B ! (d + b)]) = drop (d + Suc n) ?B"
    by simp
  ultimately show ?case
    using Suc.prems Suc.IH [of "Suc d" ?g] d by (simp add: peek_def poke_def)
qed simp

section \<open>Reading\<close>

lemma read_line_spec:
  assumes "0 < n"
  shows "read_line n s = take (length (read_line n s)) s" "length (read_line n s) \<le> n"
    "read_line n s = [] \<longleftrightarrow> s = []"
proof -
  let ?l = "takeWhile (\<lambda>c. c \<noteq> LF) s"
  have l: "?l = take (length ?l) s" by (metis takeWhile_eq_take)
  have LF: "?l @ [LF] = take (Suc (length ?l)) s" if "length ?l < length s"
    using that l nth_length_takeWhile [of "\<lambda>c. c \<noteq> LF" s] by (simp add: take_Suc_conv_app_nth)
  show "read_line n s = take (length (read_line n s)) s"
    using l LF by (auto simp: read_line_def Let_def length_takeWhile_le min_def)
  show "length (read_line n s) \<le> n" by (auto simp: read_line_def Let_def)
  show "read_line n s = [] \<longleftrightarrow> s = []"
    using assms by (cases s) (auto simp: read_line_def Let_def)
qed

lemma YY_INPUT_spec:
  assumes "0 < n" "YY_INPUT tty n s = (l, r)"
  shows "s = l @ r" "length l \<le> n" "l = [] \<longleftrightarrow> s = []"
proof -
  have "l = take (length l) s \<and> r = drop (length l) s \<and> length l \<le> n \<and> (l = [] \<longleftrightarrow> s = [])"
    using assms read_line_spec [OF assms(1), of s] by (auto simp: YY_INPUT_def Let_def min_def split: if_splits)
  then show "s = l @ r" "length l \<le> n" "l = [] \<longleftrightarrow> s = []"
    by (metis append_take_drop_id)+
qed

lemma size_t_small: "0 \<le> i \<Longrightarrow> i < 2 ^ 64 \<Longrightarrow> size_t i = nat i"
  by (simp add: size_t_def)

text \<open>Making room: the buffer keeps its characters and has room for at least one more.\<close>

lemma make_room_spec:
  assumes "length (yy_ch_buf g) = b_buf_size g + 2" "m < b_buf_size g" "b_buf_size g \<le> 2 ^ 30" "m < 2 ^ 29"
  shows "\<exists>sz z. make_room 64 (int m) g = g\<lparr>b_buf_size := sz, yy_ch_buf := yy_ch_buf g @ z\<rparr> \<and>
    length (yy_ch_buf g @ z) = sz + 2 \<and> b_buf_size g \<le> sz \<and> sz \<le> 2 ^ 30 \<and> Suc m < sz \<and>
    num_to_read (make_room 64 (int m) g) (int m) = sz - m - 1"
proof (cases "num_to_read g (int m) = 0")
  case False
  have "num_to_read g (int m) = b_buf_size g - m - 1"
    using assms by (simp add: num_to_read_def size_t_small of_nat_diff nat_diff_distrib)
  with False have "make_room 64 (int m) g = g" "Suc m < b_buf_size g"
    by (simp_all add: numeral_eq_Suc)
  moreover have "g = g\<lparr>b_buf_size := b_buf_size g, yy_ch_buf := yy_ch_buf g @ []\<rparr>" by simp
  ultimately show ?thesis
    using assms \<open>num_to_read g (int m) = b_buf_size g - m - 1\<close>
    by (intro exI [of _ "b_buf_size g"] exI [of _ "[]"]) simp
next
  case True
  then have m: "b_buf_size g = Suc m"
    using assms by (simp add: num_to_read_def size_t_small of_nat_diff nat_diff_distrib)
  have gr: "grown (Suc m) = 2 * Suc m"
    using assms by (simp add: grown_def Let_def size_t_small)
  let ?z = "replicate (2 * Suc m + 2 - length (yy_ch_buf g)) NUL"
  let ?g = "g\<lparr>b_buf_size := 2 * Suc m, yy_ch_buf := yy_ch_buf g @ ?z\<rparr>"
  have g: "grow_buffer g = ?g"
    using gr m assms by (simp add: grow_buffer_def Let_def)
  have n: "num_to_read ?g (int m) = 2 * Suc m - m - 1"
    using assms m by (simp add: num_to_read_def size_t_small nat_diff_distrib)
  have "make_room 64 (int m) g = ?g"
    using True g n by (simp add: numeral_eq_Suc)
  then show ?thesis
    using n m assms by (intro exI [of _ "2 * Suc m"] exI [of _ ?z]) simp
qed

text \<open>Filling a buffer whose first characters are the part of the token that was read.\<close>

lemma yy_fill_spec:
  assumes "yy_ch_buf g = u @ y" "length (yy_ch_buf g) = b_buf_size g + 2" "length u < b_buf_size g"
    "b_buf_size g \<le> 2 ^ 30" "length u < 2 ^ 29"
  shows "\<exists>sz l rest z. yy_fill (int (length u)) g =
      Inr (g\<lparr>b_buf_size := sz, yy_ch_buf := u @ l @ z, yy_n_chars := length l, b_n_chars := length l, yyin := rest\<rparr>) \<and>
    yyin g = l @ rest \<and> (l = [] \<longleftrightarrow> yyin g = []) \<and> length (u @ l @ z) = sz + 2 \<and>
    length u + length l < sz \<and> sz \<le> 2 ^ 30"
proof -
  from make_room_spec [OF assms(2-5)] obtain sz z where
    room: "make_room 64 (int (length u)) g = g\<lparr>b_buf_size := sz, yy_ch_buf := yy_ch_buf g @ z\<rparr>"
    "length (yy_ch_buf g @ z) = sz + 2" "sz \<le> 2 ^ 30" "Suc (length u) < sz"
    "num_to_read (make_room 64 (int (length u)) g) (int (length u)) = sz - length u - 1"
    by blast
  define n where "n = min (sz - length u - 1) YY_READ_BUF_SIZE"
  obtain l rest where io: "YY_INPUT (b_is_interactive g) n (yyin g) = (l, rest)" by fastforce
  have "0 < n" using room(4) by (simp add: n_def YY_READ_BUF_SIZE_def)
  note io' = YY_INPUT_spec [OF this io]
  have le: "length u + length l \<le> length (yy_ch_buf g @ z)" "length u + length l < sz"
    using io'(2) room(2,4) by (auto simp: n_def)
  have "yy_fill (int (length u)) g =
    Inr (g\<lparr>b_buf_size := sz, yy_ch_buf := u @ l @ drop (length u + length l) (yy_ch_buf g @ z),
      yy_n_chars := length l, b_n_chars := length l, yyin := rest\<rparr>)"
    using room io le assms(1)
    by (simp add: yy_fill_def Let_def n_def poke_all_eq)
  then show ?thesis
    using io' le room(2,3) by (intro exI conjI) auto
qed

lemma yyrestart_spec:
  assumes "length (yy_ch_buf g) = b_buf_size g + 2"
  shows "yyrestart g = Inr (g\<lparr>yy_ch_buf := NUL # NUL # drop 2 (yy_ch_buf g), b_n_chars := 0, b_buf_pos := 0,
    b_status := YY_BUFFER_NEW, yy_n_chars := 0, yytext_ptr := 0, yy_c_buf_p := 0, yy_hold_char := NUL,
    b_fill_buffer := True, b_is_interactive := yyin_tty g\<rparr>)"
proof -
  obtain a b z where "yy_ch_buf g = a # b # z"
    using assms by (cases "yy_ch_buf g"; cases "tl (yy_ch_buf g)") auto
  then show ?thesis
    by (simp add: yyrestart_def yy_init_buffer_def yy_flush_buffer_def yy_load_buffer_state_def poke_def peek_def Let_def)
qed

text \<open>A buffer that holds a text and the two NUL characters after it.\<close>

lemma wf_refilled:
  assumes "yy_ch_buf g = t @ NUL # NUL # z" "yy_n_chars g = length t" "length t < b_buf_size g"
    "length (yy_ch_buf g) = b_buf_size g + 2" "yy_start g = 1" "b_fill_buffer g" "yy_init g"
    "length t + length (yyin g) < 2 ^ 29" "b_buf_size g \<le> 2 ^ 30"
    "b_status g = YY_BUFFER_NEW \<longrightarrow> b_n_chars g = yy_n_chars g"
    "b_status g = YY_BUFFER_EOF_PENDING \<longrightarrow> yyin g = []"
  shows "wf g" "held g = t"
  using assms by (auto simp: wf_def held_def nth_append)

lemma pokes_at_end:
  assumes "yy_ch_buf g = t @ a # b # z" "n = length t"
  shows "res_bind (poke n NUL g) (\<lambda>g4. res_bind (poke (n + 1) NUL g4) (\<lambda>g5. Inr (act, g5\<lparr>yytext_ptr := 0\<rparr>)))
    = Inr (act, g\<lparr>yy_ch_buf := t @ NUL # NUL # z, yytext_ptr := 0\<rparr>)"
  using assms by (simp add: poke_def list_update_append)

lemma list_end:
  assumes "length xs = n + Suc (Suc k)" "n = length t" "xs = t @ y"
  shows "\<exists>a b z. xs = t @ a # b # z"
  using assms by (cases y; cases "tl y") auto

section \<open>The next buffer\<close>

text \<open>
  What \<open>yy_get_next_buffer\<close> does when the end of the buffer is reached inside a token: the part
  \<open>u\<close> of the token is moved to the start. More characters follow it when the file has any; otherwise
  the token ends with the file.
\<close>

lemma get_next_buffer_unfold:
  assumes "wf g" "yytext_ptr g \<le> yy_n_chars g" "yy_c_buf_p g = Suc (yy_n_chars g)" "u = drop (yytext_ptr g) (held g)"
  shows "yy_get_next_buffer g =
    res_bind (yy_refill (int (length u)) (g\<lparr>yy_ch_buf := u @ drop (length u) (yy_ch_buf g)\<rparr>)) (\<lambda>(act, g2).
      let g3 = yy_extend (int (length u)) g2; n = size_t (int (yy_n_chars g3) + int (length u))
      in res_bind (poke n NUL (g3\<lparr>yy_n_chars := n\<rparr>)) (\<lambda>g4.
         res_bind (poke (n + 1) NUL g4) (\<lambda>g5. Inr (act, g5\<lparr>yytext_ptr := 0\<rparr>))))"
proof -
  have u: "length u = yy_n_chars g - yytext_ptr g" using wf_buffer(2) [OF assms(1)] assms(4) by simp
  have n: "yy_n_chars g < 2 ^ 29" "b_fill_buffer g" using assms(1) by (auto simp: wf_def)
  have moved: "i32_of_int (int (yy_c_buf_p g) - int (yytext_ptr g)) - 1 = int (length u)"
    using n u assms(2,3) by (subst i32_of_int_small) (simp_all add: of_nat_diff)
  have "take (length u) (drop (yytext_ptr g) (yy_ch_buf g)) = u"
    using assms(4) u by (simp add: held_def drop_take)
  moreover have "yytext_ptr g + length u \<le> length (yy_ch_buf g)"
    using assms(1,2) u by (auto simp: wf_def)
  ultimately have "move_chars (length u) 0 (yytext_ptr g) g = Inr (g\<lparr>yy_ch_buf := u @ drop (length u) (yy_ch_buf g)\<rparr>)"
    using move_chars_eq [of 0 "yytext_ptr g" "length u" g] by simp
  then show ?thesis
    using n assms(3) moved by (simp add: yy_get_next_buffer_def Let_def)
qed

lemma moved_buffer:
  assumes "wf g" "u = drop (yytext_ptr g) (held g)"
  shows "length (u @ drop (length u) (yy_ch_buf g)) = b_buf_size g + 2" "length u < b_buf_size g" "length u < 2 ^ 29"
    "length u + length (yyin g) < 2 ^ 29"
  using assms wf_buffer(2) [OF assms(1)] by (auto simp: wf_def)

lemma next_buffer_continue:
  assumes "wf g" "yytext_ptr g \<le> yy_n_chars g" "yy_c_buf_p g = Suc (yy_n_chars g)" "u = drop (yytext_ptr g) (held g)"
    and "b_status g \<noteq> YY_BUFFER_NEW" "yyin g \<noteq> []"
  shows "\<exists>g' l. yy_get_next_buffer g = Inr (EOB_ACT_CONTINUE_SCAN, g') \<and> wf g' \<and> l \<noteq> [] \<and> held g' = u @ l \<and>
    yyin g = l @ yyin g' \<and> yytext_ptr g' = 0 \<and> kept g' = kept g \<and> b_status g' \<noteq> YY_BUFFER_NEW"
proof -
  let ?g = "g\<lparr>yy_ch_buf := u @ drop (length u) (yy_ch_buf g)\<rparr>"
  have st: "b_status g = YY_BUFFER_NORMAL" using assms(1,5,6) by (cases "b_status g") (auto simp: wf_def)
  note mb = moved_buffer [OF assms(1,4)]
  from yy_fill_spec [of ?g u "drop (length u) (yy_ch_buf g)"] obtain sz l rest z where
    fill: "yy_fill (int (length u)) ?g =
      Inr (?g\<lparr>b_buf_size := sz, yy_ch_buf := u @ l @ z, yy_n_chars := length l, b_n_chars := length l, yyin := rest\<rparr>)"
    "yyin g = l @ rest" "l \<noteq> []" "length (u @ l @ z) = sz + 2" "length u + length l < sz" "sz \<le> 2 ^ 30"
    using mb assms(1,6) by (auto simp: wf_def)
  let ?g2 = "?g\<lparr>b_buf_size := sz, yy_ch_buf := u @ l @ z, yy_n_chars := length l, b_n_chars := length l, yyin := rest\<rparr>"
  have refill: "yy_refill (int (length u)) ?g = Inr (EOB_ACT_CONTINUE_SCAN, ?g2)"
    using fill st by (simp add: yy_refill_def)
  have n: "size_t (int (length l) + int (length u)) = length u + length l"
    using fill(5,6) by (simp add: size_t_small nat_add_distrib)
  obtain a b y where z: "z = a # b # y"
    using fill(4,5) by (cases z; cases "tl z") auto
  let ?g3 = "?g2\<lparr>yy_n_chars := length u + length l, yy_ch_buf := (u @ l) @ NUL # NUL # y, yytext_ptr := 0\<rparr>"
  have ext: "yy_extend (int (length u)) ?g2 = ?g2"
    using n fill(5) by (simp add: yy_extend_def)
  have "yy_get_next_buffer g = Inr (EOB_ACT_CONTINUE_SCAN, ?g3)"
    unfolding get_next_buffer_unfold [OF assms(1-4)] refill res_bind_simps prod.case ext Let_def
    using n z by (simp add: poke_def list_update_append)
  moreover have "wf ?g3" "held ?g3 = u @ l"
    using fill z mb(4) assms(1) st by (intro wf_refilled [of _ "u @ l" y]; auto simp: wf_def)+
  moreover have "yyin ?g3 = rest" "yytext_ptr ?g3 = 0" "kept ?g3 = kept g" "b_status ?g3 \<noteq> YY_BUFFER_NEW"
    using st by (simp_all add: kept_def)
  ultimately show ?thesis
    using fill(2,3) by (intro exI [of _ ?g3] exI [of _ l] conjI; (assumption | simp))
qed

lemma next_buffer_last:
  assumes "wf g" "yytext_ptr g \<le> yy_n_chars g" "yy_c_buf_p g = Suc (yy_n_chars g)" "u = drop (yytext_ptr g) (held g)"
    and "b_status g \<noteq> YY_BUFFER_NEW" "yyin g = []"
  shows "\<exists>g'. yy_get_next_buffer g = Inr (if u = [] then EOB_ACT_END_OF_FILE else EOB_ACT_LAST_MATCH, g') \<and>
    wf g' \<and> held g' = u \<and> yyin g' = [] \<and> yytext_ptr g' = 0 \<and> kept g' = kept g \<and>
    (u = [] \<longrightarrow> yy_hold_char g' = NUL)"
proof -
  let ?g = "g\<lparr>yy_ch_buf := u @ drop (length u) (yy_ch_buf g)\<rparr>"
  note mb = moved_buffer [OF assms(1,4)]
  have "\<exists>sz z. (if b_status ?g = YY_BUFFER_EOF_PENDING then Inr (?g\<lparr>b_n_chars := 0, yy_n_chars := 0\<rparr>)
        else yy_fill (int (length u)) ?g) =
      Inr (?g\<lparr>b_buf_size := sz, yy_ch_buf := u @ z, yy_n_chars := 0, b_n_chars := 0\<rparr>) \<and>
    length (u @ z) = sz + 2 \<and> length u < sz \<and> sz \<le> 2 ^ 30"
  proof (cases "b_status g = YY_BUFFER_EOF_PENDING")
    case True
    then show ?thesis
      using mb assms(1) by (intro exI [of _ "b_buf_size g"] exI [of _ "drop (length u) (yy_ch_buf g)"]) (auto simp: wf_def)
  next
    case False
    from yy_fill_spec [of ?g u "drop (length u) (yy_ch_buf g)"] obtain sz l rest z where
      "yy_fill (int (length u)) ?g =
        Inr (?g\<lparr>b_buf_size := sz, yy_ch_buf := u @ l @ z, yy_n_chars := length l, b_n_chars := length l, yyin := rest\<rparr>)"
      "yyin g = l @ rest" "length (u @ l @ z) = sz + 2" "length u + length l < sz" "sz \<le> 2 ^ 30"
      using mb assms(1) by (auto simp: wf_def)
    with False assms(6) show ?thesis by (intro exI [of _ sz] exI [of _ z]) simp
  qed
  then obtain sz z where fill: "(if b_status ?g = YY_BUFFER_EOF_PENDING then Inr (?g\<lparr>b_n_chars := 0, yy_n_chars := 0\<rparr>)
        else yy_fill (int (length u)) ?g) =
      Inr (?g\<lparr>b_buf_size := sz, yy_ch_buf := u @ z, yy_n_chars := 0, b_n_chars := 0\<rparr>)"
    and sz: "length (u @ z) = sz + 2" "length u < sz" "sz \<le> 2 ^ 30" by blast
  let ?g1 = "?g\<lparr>b_buf_size := sz, yy_ch_buf := u @ z, yy_n_chars := 0, b_n_chars := 0\<rparr>"
  obtain a b y where z: "z = a # b # y"
    using sz(1,2) by (cases z; cases "tl z") auto
  have n: "size_t (int (length u)) = length u" "size_t 0 = 0"
    using mb(3) by (simp_all add: size_t_small)
  show ?thesis
  proof (cases "u = []")
    case True
    let ?g2 = "?g1\<lparr>yy_ch_buf := NUL # NUL # drop 2 z, b_n_chars := 0, b_buf_pos := 0,
      b_status := YY_BUFFER_NEW, yy_n_chars := 0, yytext_ptr := 0, yy_c_buf_p := 0, yy_hold_char := NUL,
      b_fill_buffer := True, b_is_interactive := yyin_tty g\<rparr>"
    let ?g3 = "?g2\<lparr>yy_n_chars := 0, yy_ch_buf := NUL # NUL # drop 2 z, yytext_ptr := 0\<rparr>"
    have "yy_refill (int (length u)) ?g = Inr (EOB_ACT_END_OF_FILE, ?g2)"
      unfolding yy_refill_def fill using yyrestart_spec [of ?g1] sz(1) True by simp
    then have "yy_get_next_buffer g = Inr (EOB_ACT_END_OF_FILE, ?g3)"
      using n True get_next_buffer_unfold [OF assms(1-4)] by (simp add: yy_extend_def Let_def poke_def)
    moreover have "wf ?g3" "held ?g3 = []"
      using sz z assms(1,6) True by (intro wf_refilled [of _ "[]" y]; auto simp: wf_def)+
    moreover have "yyin ?g3 = []" "yytext_ptr ?g3 = 0" "kept ?g3 = kept g"
      using assms(6) by (simp_all add: kept_def)
    ultimately show ?thesis using True by (intro exI [of _ ?g3] conjI; (assumption | simp))
  next
    case False
    let ?g2 = "?g1\<lparr>b_status := YY_BUFFER_EOF_PENDING\<rparr>"
    let ?g3 = "?g2\<lparr>yy_n_chars := length u, yy_ch_buf := u @ NUL # NUL # y, yytext_ptr := 0\<rparr>"
    have "yy_refill (int (length u)) ?g = Inr (EOB_ACT_LAST_MATCH, ?g2)"
      unfolding yy_refill_def fill using False by simp
    then have "yy_get_next_buffer g = Inr (EOB_ACT_LAST_MATCH, ?g3)"
      using pokes_at_end [of "?g2\<lparr>yy_n_chars := length u\<rparr>" u a b y "length u"] n z sz(2) get_next_buffer_unfold [OF assms(1-4)]
      by (simp add: yy_extend_def Let_def)
    moreover have "wf ?g3" "held ?g3 = u"
      using sz z assms(1,6) mb(3) by (intro wf_refilled [of _ u y]; auto simp: wf_def)+
    moreover have "yyin ?g3 = []" "yytext_ptr ?g3 = 0" "kept ?g3 = kept g"
      using assms(6) by (simp_all add: kept_def)
    ultimately show ?thesis using False by (intro exI [of _ ?g3] conjI; (assumption | simp))
  qed
qed

end
