(* ===== verification/Lexer_Rules.thy ===== *)
theory Lexer_Rules
  imports Lexer_Automaton
begin

text \<open>
  The rules of \<open>config.l\<close> as regular expressions, and what flex promises of its scanner: from the
  current place the longest text that a rule matches is taken, and the first rule among those that
  match it. The automaton in the tables computes this: each of its states stands for what is left to
  match of each rule.
\<close>

section \<open>Regular expressions\<close>

datatype rexp = Eps | Chars string | NotChars string | Seq rexp rexp | Alt rexp rexp | Star rexp

function (sequential) rmatch :: "rexp \<Rightarrow> string \<Rightarrow> bool" where
  "rmatch Eps w \<longleftrightarrow> w = []"
| "rmatch (Chars cs) w \<longleftrightarrow> (case w of [c] \<Rightarrow> c \<in> set cs | _ \<Rightarrow> False)"
| "rmatch (NotChars cs) w \<longleftrightarrow> (case w of [c] \<Rightarrow> c \<notin> set cs | _ \<Rightarrow> False)"
| "rmatch (Seq a b) w \<longleftrightarrow> (\<exists>i \<in> set [0..<Suc (length w)]. rmatch a (take i w) \<and> rmatch b (drop i w))"
| "rmatch (Alt a b) w \<longleftrightarrow> rmatch a w \<or> rmatch b w"
| "rmatch (Star a) w \<longleftrightarrow>
     w = [] \<or> (\<exists>i \<in> set [1..<Suc (length w)]. rmatch a (take i w) \<and> rmatch (Star a) (drop i w))"
  by pat_completeness auto
termination
  by (relation "measures [\<lambda>(e, w). size e, \<lambda>(e, w). length w]") auto

fun lit :: "string \<Rightarrow> rexp" where
  "lit [] = Eps"
| "lit (c # cs) = Seq (Chars [c]) (lit cs)"

definition rplus :: "rexp \<Rightarrow> rexp" where
  "rplus e = Seq e (Star e)"

text \<open>\<open>.\<close> matches all characters but a newline; \<open>any\<close> is the default rule.\<close>

definition dot :: rexp where
  "dot = NotChars [LF]"

definition any :: rexp where
  "any = NotChars []"

text \<open>The characters that have no printable form, and the quotes.\<close>

definition TAB :: char where
  "TAB = CHR 0x09"

definition QUOTE :: char where
  "QUOTE = CHR 0x22"

definition BACKSLASH :: char where
  "BACKSLASH = CHR 0x5C"

text \<open>
  The rules in the order of \<open>config.l\<close>, each with its trailing context; the first has the number 1.
  The rule for \<open>flow/s\<close> is \<open>flow\<close> before an \<open>s\<close>.
\<close>

definition config_rules :: "(rexp \<times> rexp) list" where
  "config_rules =
     [(Seq (Chars ''#'') (Star dot), Eps),
      (lit ''{'', Eps),
      (lit ''}'', Eps),
      (lit '';'', Eps),
      (lit ''options'', Eps),
      (lit ''pid'', Eps),
      (lit ''file'', Eps),
      (lit ''debug'', Eps),
      (lit ''level'', Eps),
      (lit ''action'', Eps),
      (lit ''command'', Eps),
      (lit ''start'', Eps),
      (lit ''stop'', Eps),
      (lit ''slots'', Eps),
      (lit ''time'', Eps),
      (lit ''size'', Eps),
      (lit ''expire'', Eps),
      (lit ''delay'', Eps),
      (lit ''filter'', Eps),
      (lit ''profile'', Eps),
      (lit ''input'', Eps),
      (lit ''shm'', Eps),
      (lit ''when'', Eps),
      (lit ''track'', Eps),
      (lit ''hash'', Eps),
      (lit ''buckets'', Eps),
      (lit ''dstip'', Eps),
      (lit ''window'', Eps),
      (lit ''db'', Eps),
      (lit ''connect'', Eps),
      (lit ''export'', Eps),
      (lit ''min'', Eps),
      (lit ''nterval'', Eps),
      (lit ''dynamic'', Eps),
      (lit ''limit'', Eps),
      (Seq (Chars [QUOTE]) (Seq (Star (Alt (Seq (Chars [BACKSLASH]) dot) (NotChars [QUOTE]))) (Chars [QUOTE])), Eps),
      (lit ''bps'', Eps),
      (lit ''b/s'', Eps),
      (lit ''pps'', Eps),
      (lit ''p/s'', Eps),
      (lit ''f/s'', Eps),
      (lit ''fps'', Eps),
      (lit ''flow'', lit ''s''),
      (lit ''flowps'', Eps),
      (Chars ''K|k'', Eps),
      (Chars ''M|m'', Eps),
      (rplus (Chars ''0123456789''), Eps),
      (Chars [LF], Eps),
      (rplus (Chars [CHR '' '', TAB]), Eps),
      (any, Eps)]"

definition rule_matches :: "rexp \<times> rexp \<Rightarrow> string \<Rightarrow> bool" where
  "rule_matches p u \<longleftrightarrow> rmatch (Seq (fst p) (snd p)) u"

text \<open>The number of the first rule that matches a text, 0 when none does.\<close>

fun first_rule :: "int \<Rightarrow> (rexp \<times> rexp) list \<Rightarrow> string \<Rightarrow> int" where
  "first_rule r [] u = 0"
| "first_rule r (p # ps) u = (if rule_matches p u then r else first_rule (r + 1) ps u)"

definition rule_of :: "string \<Rightarrow> int" where
  "rule_of u = first_rule 1 config_rules u"

text \<open>The longest match among the first \<open>n\<close> characters.\<close>

fun longest :: "(string \<Rightarrow> int) \<Rightarrow> nat \<Rightarrow> string \<Rightarrow> (int \<times> nat) option" where
  "longest f 0 w = (if f [] \<noteq> 0 then Some (f [], 0) else None)"
| "longest f (Suc n) w =
     (if f (take (Suc n) w) \<noteq> 0 then Some (f (take (Suc n) w), Suc n) else longest f n w)"

definition longest_match :: "string \<Rightarrow> (int \<times> nat) option" where
  "longest_match w = longest rule_of (length w) w"

section \<open>What is left to match\<close>

text \<open>
  What is left of a rule, over the classes of characters: a sequence of sets of classes, or a place in
  one of the rules with a repetition. \<open>Esc\<close> is the place after a backslash in a string, which may
  have been the whole of a character or the first half of one; \<open>EndOrBody\<close> follows a quote there.
\<close>

datatype pat = Word "int list list" | Hash | Comment | Quote | Body | Esc | EndOrBody | Digit | Digits |
  Blank | Blanks | Any

fun has :: "int \<Rightarrow> int list \<Rightarrow> bool" where
  "has k [] \<longleftrightarrow> False"
| "has k (x # xs) \<longleftrightarrow> x = k \<or> has k xs"

fun deriv :: "int \<Rightarrow> pat \<Rightarrow> pat option" where
  "deriv k (Word []) = None"
| "deriv k (Word (ks # w)) = (if has k ks then Some (Word w) else None)"
| "deriv k Hash = (if k = 5 then Some Comment else None)"
| "deriv k Comment = (if k = 3 then None else Some Comment)"
| "deriv k Quote = (if k = 4 then Some Body else None)"
| "deriv k Body = Some (if k = 4 then Word [] else if k = 11 then Esc else Body)"
| "deriv k Esc = Some (if k = 4 then EndOrBody else if k = 11 then Esc else Body)"
| "deriv k EndOrBody = Some (if k = 4 then Word [] else if k = 11 then Esc else Body)"
| "deriv k Digit = (if k = 7 then Some Digits else None)"
| "deriv k Digits = (if k = 7 then Some Digits else None)"
| "deriv k Blank = (if k = 2 then Some Blanks else None)"
| "deriv k Blanks = (if k = 2 then Some Blanks else None)"
| "deriv k Any = Some (Word [])"

fun nullable :: "pat \<Rightarrow> bool" where
  "nullable (Word w) \<longleftrightarrow> (case w of [] \<Rightarrow> True | _ # _ \<Rightarrow> False)"
| "nullable Hash \<longleftrightarrow> False"
| "nullable Comment \<longleftrightarrow> True"
| "nullable Quote \<longleftrightarrow> False"
| "nullable Body \<longleftrightarrow> False"
| "nullable Esc \<longleftrightarrow> False"
| "nullable EndOrBody \<longleftrightarrow> True"
| "nullable Digit \<longleftrightarrow> False"
| "nullable Digits \<longleftrightarrow> True"
| "nullable Blank \<longleftrightarrow> False"
| "nullable Blanks \<longleftrightarrow> True"
| "nullable Any \<longleftrightarrow> False"

fun derivs :: "int \<Rightarrow> (int \<times> pat) list \<Rightarrow> (int \<times> pat) list" where
  "derivs k [] = []"
| "derivs k ((r, p) # P) = (case deriv k p of None \<Rightarrow> derivs k P | Some q \<Rightarrow> (r, q) # derivs k P)"

fun accepted :: "(int \<times> pat) list \<Rightarrow> int" where
  "accepted [] = 0"
| "accepted ((r, p) # P) = (if nullable p then r else accepted P)"

text \<open>For each state what is left of which rule.\<close>

definition pats_0 :: "(int \<times> pat) list list" where
  "pats_0 = [
   [], [(1, Hash), (2, Word [[36]]), (3, Word [[38]]), (4, Word [[8]]), (5, Word [[25], [26],
   [29], [20], [25], [24], [28]]), (6, Word [[26], [20], [15]]), (7, Word [[17], [20], [22],
   [16]]), (8, Word [[15], [16], [13], [30], [18]]), (9, Word [[22], [16], [31], [16], [22]]),
   (10, Word [[12], [14], [29], [20], [25], [24]]), (11, Word [[14], [25], [23], [23], [12],
   [24], [15]]), (12, Word [[28], [29], [12], [27], [29]]), (13, Word [[28], [29], [25],
   [26]]), (14, Word [[28], [22], [25], [29], [28]]), (15, Word [[29], [20], [23], [16]]), (16,
   Word [[28], [20], [35], [16]]), (17, Word [[16], [33], [26], [20], [27], [16]]), (18, Word
   [[15], [16], [22], [12], [34]]), (19, Word [[17], [20], [22], [29], [16], [27]]), (20, Word
   [[26], [27], [25], [17], [20], [22], [16]]), (21, Word [[20], [24], [26], [30], [29]]), (22,
   Word [[28], [19], [23]]), (23, Word [[32], [19], [16], [24]]), (24, Word [[29], [27], [12],
   [14], [21]]), (25, Word [[19], [12], [28], [19]]), (26, Word [[13], [30], [14], [21], [16],
   [29], [28]]), (27, Word [[15], [28], [29], [20], [26]]), (28, Word [[32], [20], [24], [15],
   [25], [32]]), (29, Word [[15], [13]]), (30, Word [[14], [25], [24], [24], [16], [14],
   [29]]), (31, Word [[16], [33], [26], [25], [27], [29]]), (32, Word [[23], [20], [24]]), (33,
   Word [[24], [29], [16], [27], [31], [12], [22]]), (34, Word [[15], [34], [24], [12], [23],
   [20], [14]]), (35, Word [[22], [20], [23], [20], [29]]), (36, Quote), (37, Word [[13], [26],
   [28]]), (38, Word [[13], [6], [28]]), (39, Word [[26], [26], [28]]), (40, Word [[26], [6],
   [28]]), (41, Word [[17], [6], [28]]), (42, Word [[17], [26], [28]]), (43, Word [[17], [22],
   [25], [32], [28]]), (44, Word [[17], [22], [25], [32], [26], [28]]), (45, Word [[9, 21,
   37]]), (46, Word [[10, 23, 37]]), (47, Digit), (48, Word [[3]]), (49, Blank), (50, Any)],
   [(1, Hash), (2, Word [[36]]), (3, Word [[38]]), (4, Word [[8]]), (5, Word [[25], [26], [29],
   [20], [25], [24], [28]]), (6, Word [[26], [20], [15]]), (7, Word [[17], [20], [22], [16]]),
   (8, Word [[15], [16], [13], [30], [18]]), (9, Word [[22], [16], [31], [16], [22]]), (10,
   Word [[12], [14], [29], [20], [25], [24]]), (11, Word [[14], [25], [23], [23], [12], [24],
   [15]]), (12, Word [[28], [29], [12], [27], [29]]), (13, Word [[28], [29], [25], [26]]), (14,
   Word [[28], [22], [25], [29], [28]]), (15, Word [[29], [20], [23], [16]]), (16, Word [[28],
   [20], [35], [16]]), (17, Word [[16], [33], [26], [20], [27], [16]]), (18, Word [[15], [16],
   [22], [12], [34]]), (19, Word [[17], [20], [22], [29], [16], [27]]), (20, Word [[26], [27],
   [25], [17], [20], [22], [16]]), (21, Word [[20], [24], [26], [30], [29]]), (22, Word [[28],
   [19], [23]]), (23, Word [[32], [19], [16], [24]]), (24, Word [[29], [27], [12], [14],
   [21]]), (25, Word [[19], [12], [28], [19]]), (26, Word [[13], [30], [14], [21], [16], [29],
   [28]]), (27, Word [[15], [28], [29], [20], [26]]), (28, Word [[32], [20], [24], [15], [25],
   [32]]), (29, Word [[15], [13]]), (30, Word [[14], [25], [24], [24], [16], [14], [29]]), (31,
   Word [[16], [33], [26], [25], [27], [29]]), (32, Word [[23], [20], [24]]), (33, Word [[24],
   [29], [16], [27], [31], [12], [22]]), (34, Word [[15], [34], [24], [12], [23], [20], [14]]),
   (35, Word [[22], [20], [23], [20], [29]]), (36, Quote), (37, Word [[13], [26], [28]]), (38,
   Word [[13], [6], [28]]), (39, Word [[26], [26], [28]]), (40, Word [[26], [6], [28]]), (41,
   Word [[17], [6], [28]]), (42, Word [[17], [26], [28]]), (43, Word [[17], [22], [25], [32],
   [28]]), (44, Word [[17], [22], [25], [32], [26], [28]]), (45, Word [[9, 21, 37]]), (46, Word
   [[10, 23, 37]]), (47, Digit), (48, Word [[3]]), (49, Blank), (50, Any)], [], [(50, Word
   [])], [(49, Blanks), (50, Word [])], [(48, Word []), (50, Word [])], [(36, Body), (50, Word
   [])]]"

definition pats_1 :: "(int \<times> pat) list list" where
  "pats_1 = [
   [(1, Comment), (50, Word [])], [(47, Digits), (50, Word [])], [(4, Word []), (50, Word [])],
   [(45, Word []), (50, Word [])], [(46, Word []), (50, Word [])], [(10, Word [[14], [29],
   [20], [25], [24]]), (50, Word [])], [(26, Word [[30], [14], [21], [16], [29], [28]]), (37,
   Word [[26], [28]]), (38, Word [[6], [28]]), (50, Word [])], [(11, Word [[25], [23], [23],
   [12], [24], [15]]), (30, Word [[25], [24], [24], [16], [14], [29]]), (50, Word [])]]"

definition pats_2 :: "(int \<times> pat) list list" where
  "pats_2 = [
   [(8, Word [[16], [13], [30], [18]]), (18, Word [[16], [22], [12], [34]]), (27, Word [[28],
   [29], [20], [26]]), (29, Word [[13]]), (34, Word [[34], [24], [12], [23], [20], [14]]), (50,
   Word [])], [(17, Word [[33], [26], [20], [27], [16]]), (31, Word [[33], [26], [25], [27],
   [29]]), (50, Word [])], [(7, Word [[20], [22], [16]]), (19, Word [[20], [22], [29], [16],
   [27]]), (41, Word [[6], [28]]), (42, Word [[26], [28]]), (43, Word [[22], [25], [32],
   [28]]), (44, Word [[22], [25], [32], [26], [28]]), (50, Word [])], [(25, Word [[12], [28],
   [19]]), (50, Word [])], [(21, Word [[24], [26], [30], [29]]), (50, Word [])], [(9, Word
   [[16], [31], [16], [22]]), (35, Word [[20], [23], [20], [29]]), (50, Word [])], [(32, Word
   [[20], [24]]), (46, Word []), (50, Word [])], [(33, Word [[29], [16], [27], [31], [12],
   [22]]), (50, Word [])]]"

definition pats_3 :: "(int \<times> pat) list list" where
  "pats_3 = [
   [(5, Word [[26], [29], [20], [25], [24], [28]]), (50, Word [])], [(6, Word [[20], [15]]),
   (20, Word [[27], [25], [17], [20], [22], [16]]), (39, Word [[26], [28]]), (40, Word [[6],
   [28]]), (50, Word [])], [(12, Word [[29], [12], [27], [29]]), (13, Word [[29], [25], [26]]),
   (14, Word [[22], [25], [29], [28]]), (16, Word [[20], [35], [16]]), (22, Word [[19], [23]]),
   (50, Word [])], [(15, Word [[20], [23], [16]]), (24, Word [[27], [12], [14], [21]]), (50,
   Word [])], [(23, Word [[19], [16], [24]]), (28, Word [[20], [24], [15], [25], [32]]), (50,
   Word [])], [(2, Word []), (50, Word [])], [(45, Word []), (46, Word []), (50, Word [])],
   [(3, Word []), (50, Word [])]]"

definition pats_4 :: "(int \<times> pat) list list" where
  "pats_4 = [
   [(49, Blanks)], [(36, Body)], [(36, Word [])], [(36, Esc)], [(1, Comment)], [(47, Digits)],
   [(10, Word [[29], [20], [25], [24]])], [(38, Word [[28]])]]"

definition pats_5 :: "(int \<times> pat) list list" where
  "pats_5 = [
   [(37, Word [[28]])], [(26, Word [[14], [21], [16], [29], [28]])], [(11, Word [[23], [23],
   [12], [24], [15]]), (30, Word [[24], [24], [16], [14], [29]])], [(29, Word [])], [(8, Word
   [[13], [30], [18]]), (18, Word [[22], [12], [34]])], [(27, Word [[29], [20], [26]])], [(34,
   Word [[24], [12], [23], [20], [14]])], [(17, Word [[26], [20], [27], [16]]), (31, Word
   [[26], [25], [27], [29]])]]"

definition pats_6 :: "(int \<times> pat) list list" where
  "pats_6 = [
   [(41, Word [[28]])], [(7, Word [[22], [16]]), (19, Word [[22], [29], [16], [27]])], [(43,
   Word [[25], [32], [28]]), (44, Word [[25], [32], [26], [28]])], [(42, Word [[28]])], [(25,
   Word [[28], [19]])], [(21, Word [[26], [30], [29]])], [(9, Word [[31], [16], [22]])], [(35,
   Word [[23], [20], [29]])]]"

definition pats_7 :: "(int \<times> pat) list list" where
  "pats_7 = [
   [(32, Word [[24]])], [(33, Word [[16], [27], [31], [12], [22]])], [(5, Word [[29], [20],
   [25], [24], [28]])], [(40, Word [[28]])], [(6, Word [[15]])], [(39, Word [[28]])], [(20,
   Word [[25], [17], [20], [22], [16]])], [(22, Word [[23]])]]"

definition pats_8 :: "(int \<times> pat) list list" where
  "pats_8 = [
   [(16, Word [[35], [16]])], [(14, Word [[25], [29], [28]])], [(12, Word [[12], [27], [29]]),
   (13, Word [[25], [26]])], [(15, Word [[23], [16]])], [(24, Word [[12], [14], [21]])], [(23,
   Word [[16], [24]])], [(28, Word [[24], [15], [25], [32]])], [(36, Body)]]"

definition pats_9 :: "(int \<times> pat) list list" where
  "pats_9 = [
   [(36, EndOrBody)], [(36, Esc)], [(10, Word [[20], [25], [24]])], [(38, Word [])], [(37, Word
   [])], [(26, Word [[21], [16], [29], [28]])], [(11, Word [[23], [12], [24], [15]])], [(30,
   Word [[24], [16], [14], [29]])]]"

definition pats_10 :: "(int \<times> pat) list list" where
  "pats_10 = [
   [(8, Word [[30], [18]])], [(18, Word [[12], [34]])], [(27, Word [[20], [26]])], [(34, Word
   [[12], [23], [20], [14]])], [(17, Word [[20], [27], [16]]), (31, Word [[25], [27], [29]])],
   [(41, Word [])], [(7, Word [[16]]), (19, Word [[29], [16], [27]])], [(43, Word [[32],
   [28]]), (44, Word [[32], [26], [28]])]]"

definition pats_11 :: "(int \<times> pat) list list" where
  "pats_11 = [
   [(42, Word [])], [(25, Word [[19]])], [(21, Word [[30], [29]])], [(9, Word [[16], [22]])],
   [(35, Word [[20], [29]])], [(32, Word [])], [(33, Word [[27], [31], [12], [22]])], [(5, Word
   [[20], [25], [24], [28]])]]"

definition pats_12 :: "(int \<times> pat) list list" where
  "pats_12 = [
   [(40, Word [])], [(6, Word [])], [(39, Word [])], [(20, Word [[17], [20], [22], [16]])],
   [(22, Word [])], [(16, Word [[16]])], [(14, Word [[29], [28]])], [(12, Word [[27], [29]])]]"

definition pats_13 :: "(int \<times> pat) list list" where
  "pats_13 = [
   [(13, Word [[26]])], [(15, Word [[16]])], [(24, Word [[14], [21]])], [(23, Word [[24]])],
   [(28, Word [[15], [25], [32]])], [(10, Word [[25], [24]])], [(26, Word [[16], [29], [28]])],
   [(11, Word [[12], [24], [15]])]]"

definition pats_14 :: "(int \<times> pat) list list" where
  "pats_14 = [
   [(30, Word [[16], [14], [29]])], [(8, Word [[18]])], [(18, Word [[34]])], [(27, Word
   [[26]])], [(34, Word [[23], [20], [14]])], [(17, Word [[27], [16]])], [(31, Word [[27],
   [29]])], [(7, Word [])]]"

definition pats_15 :: "(int \<times> pat) list list" where
  "pats_15 = [
   [(19, Word [[16], [27]])], [(43, Word [[28]]), (44, Word [[26], [28]])], [(25, Word [])],
   [(21, Word [[29]])], [(9, Word [[22]])], [(35, Word [[29]])], [(33, Word [[31], [12],
   [22]])], [(5, Word [[25], [24], [28]])]]"

definition pats_16 :: "(int \<times> pat) list list" where
  "pats_16 = [
   [(20, Word [[20], [22], [16]])], [(16, Word [])], [(14, Word [[28]])], [(12, Word [[29]])],
   [(13, Word [])], [(15, Word [])], [(24, Word [[21]])], [(23, Word [])]]"

definition pats_17 :: "(int \<times> pat) list list" where
  "pats_17 = [
   [(28, Word [[25], [32]])], [(10, Word [[24]])], [(26, Word [[29], [28]])], [(11, Word [[24],
   [15]])], [(30, Word [[14], [29]])], [(8, Word [])], [(18, Word [])], [(27, Word [])]]"

definition pats_18 :: "(int \<times> pat) list list" where
  "pats_18 = [
   [(34, Word [[20], [14]])], [(17, Word [[16]])], [(31, Word [[29]])], [(19, Word [[27]])],
   [(44, Word [[28]])], [(43, Word [])], [(21, Word [])], [(9, Word [])]]"

definition pats_19 :: "(int \<times> pat) list list" where
  "pats_19 = [
   [(35, Word [])], [(33, Word [[12], [22]])], [(5, Word [[24], [28]])], [(20, Word [[22],
   [16]])], [(14, Word [])], [(12, Word [])], [(24, Word [])], [(28, Word [[32]])]]"

definition pats_20 :: "(int \<times> pat) list list" where
  "pats_20 = [
   [(10, Word [])], [(26, Word [[28]])], [(11, Word [[15]])], [(30, Word [[29]])], [(34, Word
   [[14]])], [(17, Word [])], [(31, Word [])], [(19, Word [])]]"

definition pats_21 :: "(int \<times> pat) list list" where
  "pats_21 = [
   [(44, Word [])], [(33, Word [[22]])], [(5, Word [[28]])], [(20, Word [[16]])], [(28, Word
   [])], [(26, Word [])], [(11, Word [])], [(30, Word [])]]"

definition pats_22 :: "(int \<times> pat) list list" where
  "pats_22 = [
   [(34, Word [])], [(33, Word [])], [(5, Word [])], [(20, Word [])], []]"

definition lex_pats :: "(int \<times> pat) list list list" where
  "lex_pats = [pats_0, pats_1, pats_2, pats_3, pats_4, pats_5, pats_6, pats_7, pats_8, pats_9, pats_10,
     pats_11, pats_12, pats_13, pats_14, pats_15, pats_16, pats_17, pats_18, pats_19, pats_20,
     pats_21, pats_22]"

section \<open>The states against the rules\<close>

fun pick :: "nat \<Rightarrow> (int \<times> pat) list list \<Rightarrow> (int \<times> pat) list" where
  "pick 0 (x # xs) = x"
| "pick (Suc n) (x # xs) = pick n xs"
| "pick n [] = []"

fun pick_block :: "int \<Rightarrow> (int \<times> pat) list list list \<Rightarrow> (int \<times> pat) list" where
  "pick_block i [] = []"
| "pick_block i (b # bs) = (if i < 8 then pick (nat i) b else pick_block (i - 8) bs)"

definition pats :: "int \<Rightarrow> (int \<times> pat) list" where
  "pats s = (if s = 180 then [] else pick_block s lex_pats)"

fun look :: "int \<Rightarrow> int \<Rightarrow> (int \<times> int) list \<Rightarrow> int" where
  "look k d [] = d"
| "look k d ((a, t) # es) = (if a = k then t else look k d es)"

fun row_sim :: "(int \<times> pat) list \<Rightarrow> (int \<times> int) list \<Rightarrow> int \<Rightarrow> int list \<Rightarrow> bool" where
  "row_sim P es d [] \<longleftrightarrow> True"
| "row_sim P es d (k # ks) \<longleftrightarrow> derivs k P = pats (look k d es) \<and> row_sim P es d ks"

fun rows_sim :: "(int \<times> pat) list list \<Rightarrow> ((int \<times> int) list \<times> int) list \<Rightarrow> bool" where
  "rows_sim (P # Ps) (r # rs) \<longleftrightarrow> row_sim P (fst r) (snd r) [1..38] \<and> rows_sim Ps rs"
| "rows_sim Ps rs \<longleftrightarrow> Ps = [] \<and> rs = []"

lemma sim_weak_congs:
  "n = m \<Longrightarrow> pick n T = pick m T"
  "i = j \<Longrightarrow> pick_block i T' = pick_block j T'"
  "k = k' \<Longrightarrow> d = d' \<Longrightarrow> look k d es = look k' d' es"
  "ks = ks' \<Longrightarrow> row_sim P es d ks = row_sim P es d ks'"
  "rows_sim Ps rs = rows_sim Ps rs"
  "k = k' \<Longrightarrow> derivs k P = derivs k' P"
  "r = r' \<Longrightarrow> option.case_option a b r = option.case_option a b r'"
  by simp_all

lemma pick_numeral: "pick (numeral v) (x # xs) = pick (pred_numeral v) xs"
  by (simp add: numeral_eq_Suc)

lemma rows_sim_eqs:
  "rows_sim (P # Ps) ((es, d) # rs) \<longleftrightarrow> row_sim P es d [1, 2, 3, 4, 5, 6, 7, 8, 9, 10, 11, 12, 13,
     14, 15, 16, 17, 18, 19, 20, 21, 22, 23, 24, 25, 26, 27, 28, 29, 30, 31, 32, 33, 34, 35, 36, 37, 38] \<and>
     rows_sim Ps rs"
  "rows_sim [] [] \<longleftrightarrow> True"
  by (simp_all add: upto_rec1)

lemma pick_1: "pick (nat 1) (x # xs) = pick 0 xs"
  by simp

lemmas pick_blocks =
  arg_cong [where f = "pick n", OF pats_0_def]
  arg_cong [where f = "pick n", OF pats_1_def]
  arg_cong [where f = "pick n", OF pats_2_def]
  arg_cong [where f = "pick n", OF pats_3_def]
  arg_cong [where f = "pick n", OF pats_4_def]
  arg_cong [where f = "pick n", OF pats_5_def]
  arg_cong [where f = "pick n", OF pats_6_def]
  arg_cong [where f = "pick n", OF pats_7_def]
  arg_cong [where f = "pick n", OF pats_8_def]
  arg_cong [where f = "pick n", OF pats_9_def]
  arg_cong [where f = "pick n", OF pats_10_def]
  arg_cong [where f = "pick n", OF pats_11_def]
  arg_cong [where f = "pick n", OF pats_12_def]
  arg_cong [where f = "pick n", OF pats_13_def]
  arg_cong [where f = "pick n", OF pats_14_def]
  arg_cong [where f = "pick n", OF pats_15_def]
  arg_cong [where f = "pick n", OF pats_16_def]
  arg_cong [where f = "pick n", OF pats_17_def]
  arg_cong [where f = "pick n", OF pats_18_def]
  arg_cong [where f = "pick n", OF pats_19_def]
  arg_cong [where f = "pick n", OF pats_20_def]
  arg_cong [where f = "pick n", OF pats_21_def]
  arg_cong [where f = "pick n", OF pats_22_def]
  for n

lemma pats_eq:
  "pats s = (if s = 180 then [] else pick_block s [pats_0, pats_1, pats_2, pats_3, pats_4, pats_5, pats_6, pats_7, pats_8, pats_9, pats_10,
     pats_11, pats_12, pats_13, pats_14, pats_15, pats_16, pats_17, pats_18, pats_19, pats_20,
     pats_21, pats_22])"
  by (simp only: pats_def lex_pats_def)

lemmas sim_simps = rows_sim_eqs row_sim.simps pick.simps(1) pick_numeral pick_1 pick_blocks pick_block.simps
  pats_eq pred_numeral_simps look.simps derivs.simps deriv.simps has.simps option.case BitM.simps nat_numeral nat_0
  rel_simps arith_simps arith_special diff_numeral_simps if_False if_True fst_conv snd_conv simp_thms
  list.inject list.distinct prod.inject pat.inject pat.distinct

lemma states_match_rules:
  "rows_sim (concat lex_pats) lex_rows"
  unfolding lex_pats_def lex_rows_def concat.simps
  pats_0_def pats_1_def pats_2_def pats_3_def pats_4_def pats_5_def pats_6_def pats_7_def
  pats_8_def pats_9_def pats_10_def pats_11_def pats_12_def pats_13_def pats_14_def pats_15_def
  pats_16_def pats_17_def pats_18_def pats_19_def pats_20_def pats_21_def pats_22_def
  unfolding append_Cons append_Nil append_Nil2
  by (simp only: sim_simps cong: sim_weak_congs if_weak_cong)

text \<open>The states by their numbers.\<close>

lemma pick_nth: "n < length T \<Longrightarrow> pick n T = T ! n"
  by (induction n T rule: pick.induct) auto

lemma pick_block_nth:
  "0 \<le> i \<Longrightarrow> nat i < length (concat bs) \<Longrightarrow> \<forall>b \<in> set (butlast bs). length b = 8 \<Longrightarrow>
    bs \<noteq> [] \<Longrightarrow> length (last bs) \<le> 8 \<Longrightarrow> pick_block i bs = concat bs ! nat i"
proof (induction i bs rule: pick_block.induct)
  case (2 i b bs)
  show ?case
  proof (cases "bs = []")
    case True
    with 2 have "nat i < length b" "i < 8" by auto
    then show ?thesis using True by (simp add: pick_nth)
  next
    case False
    with 2(4) have "length b = 8" "\<forall>b \<in> set (butlast bs). length b = 8" by auto
    then show ?thesis
      using False 2 by (cases "i < 8") (auto simp: pick_nth nth_append nat_diff_distrib nat_less_iff)
  qed
qed simp

lemma lex_pats_sizes:
  "\<forall>b \<in> set (butlast lex_pats). length b = 8" "lex_pats \<noteq> []" "length (last lex_pats) \<le> 8"
  "length (concat lex_pats) = 181" "concat lex_pats ! 180 = []"
  by (simp_all add: lex_pats_def pats_0_def pats_1_def pats_2_def pats_3_def pats_4_def pats_5_def pats_6_def
    pats_7_def pats_8_def pats_9_def pats_10_def pats_11_def pats_12_def pats_13_def pats_14_def pats_15_def
    pats_16_def pats_17_def pats_18_def pats_19_def pats_20_def pats_21_def pats_22_def)

lemma pats_nth: "0 \<le> s \<Longrightarrow> s \<le> 180 \<Longrightarrow> pats s = concat lex_pats ! nat s"
  using pick_block_nth [of s lex_pats] lex_pats_sizes by (auto simp: pats_def)

lemma rows_sim_nth:
  "rows_sim Ps rs \<Longrightarrow> i < length Ps \<Longrightarrow> row_sim (Ps ! i) (fst (rs ! i)) (snd (rs ! i)) [1..38]"
  by (induction Ps rs arbitrary: i rule: rows_sim.induct) (auto simp: nth_Cons split: nat.splits)

lemma row_sim_all: "row_sim P es d ks \<longleftrightarrow> (\<forall>k \<in> set ks. derivs k P = pats (look k d es))"
  by (induction ks) auto

lemma look_target: "k \<noteq> 0 \<Longrightarrow> look k d es = lex_target (es, d) k"
  by (induction es) (auto simp: lex_target_def split: option.splits)

lemma pats_step:
  assumes "0 \<le> s" "s \<le> 180" "1 \<le> k" "k \<le> 38"
  shows "pats (lex_step s k) = derivs k (pats s)"
  using rows_sim_nth [OF states_match_rules, of "nat s"] assms look_target [of k "snd (lex_rows ! nat s)" "fst (lex_rows ! nat s)"]
  by (simp add: row_sim_all pats_nth lex_pats_sizes lex_step_def)

fun accepts_sim :: "int list \<Rightarrow> (int \<times> pat) list list \<Rightarrow> bool" where
  "accepts_sim (a # as) (P # Ps) \<longleftrightarrow> (if a = 51 then True else accepted P = a) \<and> accepts_sim as Ps"
| "accepts_sim as Ps \<longleftrightarrow> as = [] \<and> Ps = []"

lemma accepts_sim_weak_congs:
  "accepts_sim as Ps = accepts_sim as Ps" "accepted P = accepted P"
  "accepts_sim [] [] \<longleftrightarrow> True"
  by simp_all

lemma states_accept_rules: "accepts_sim yy_accept (concat lex_pats)"
  unfolding lex_pats_def yy_accept_def concat.simps
  pats_0_def pats_1_def pats_2_def pats_3_def pats_4_def pats_5_def pats_6_def pats_7_def
  pats_8_def pats_9_def pats_10_def pats_11_def pats_12_def pats_13_def pats_14_def pats_15_def
  pats_16_def pats_17_def pats_18_def pats_19_def pats_20_def pats_21_def pats_22_def
  unfolding append_Cons append_Nil append_Nil2
  by (simp only: accepts_sim.simps(1) accepts_sim_weak_congs(3) accepted.simps nullable.simps list.case rel_simps
    if_True if_False simp_thms cong: accepts_sim_weak_congs(1,2) if_weak_cong)

lemma accepts_sim_nth: "accepts_sim as Ps \<Longrightarrow> i < length Ps \<Longrightarrow> as ! i = 51 \<or> accepted (Ps ! i) = as ! i"
  by (induction as Ps arbitrary: i rule: accepts_sim.induct) (auto simp: nth_Cons split: nat.splits if_splits)

lemma acc_pats: "0 \<le> s \<Longrightarrow> s \<le> 180 \<Longrightarrow> s \<noteq> 3 \<Longrightarrow> acc s = accepted (pats s)"
  using accepts_sim_nth [OF states_accept_rules, of "nat s"] acc_eq_51 [of s]
  by (auto simp: pats_nth lex_pats_sizes acc_def)

section \<open>The classes of the characters\<close>

text \<open>The characters that are alone in their class, by their codes.\<close>

definition letters :: "(nat \<times> int) list" where
  "letters = [
     (10, 3), (34, 4), (35, 5), (47, 6), (59, 8), (75, 9), (77, 10), (92, 11), (97, 12), (98,
     13), (99, 14), (100, 15), (101, 16), (102, 17), (103, 18), (104, 19), (105, 20), (107,
     21), (108, 22), (109, 23), (110, 24), (111, 25), (112, 26), (114, 27), (115, 28), (116,
     29), (117, 30), (118, 31), (119, 32), (120, 33), (121, 34), (122, 35), (123, 36), (124,
     37), (125, 38)]"

lemma letters_alone:
  "\<forall>(n, k) \<in> set letters. yy_ec ! n = k \<and> k \<notin> set (take n yy_ec) \<and> k \<notin> set (drop (Suc n) yy_ec) \<and> k \<noteq> 1 \<and> 0 < n"
  by (simp add: letters_def yy_ec_def)

lemma cls_letter:
  assumes "(of_char x, k) \<in> set letters"
  shows "cls c = k \<longleftrightarrow> c = x"
proof -
  have k: "yy_ec ! of_char x = k" "k \<notin> set (take (of_char x) yy_ec)" "k \<notin> set (drop (Suc (of_char x)) yy_ec)"
    "k \<noteq> 1" "0 < (of_char x :: nat)"
    using letters_alone assms by fastforce+
  have "x \<noteq> NUL" using k(5) of_char_eq_0 [of x] by auto
  show ?thesis
  proof
    assume c: "cls c = k"
    then have "c \<noteq> NUL" using k(4) by (auto simp: cls_def)
    then have "yy_ec ! of_char c = k" using c by (simp add: cls_def)
    then have "(of_char c :: nat) = of_char x"
      using nth_neq_around [OF k(2,3), of "of_char c"] of_char_less_256 [of c] by (auto simp: yy_ec_facts)
    then show "c = x" by simp
  qed (use k(1) \<open>x \<noteq> NUL\<close> in \<open>simp add: cls_def\<close>)
qed

lemma cls_singles:
  "cls c = 3 \<longleftrightarrow> c = LF" "cls c = 4 \<longleftrightarrow> c = QUOTE" "cls c = 5 \<longleftrightarrow> c = CHR ''#''" "cls c = 11 \<longleftrightarrow> c = BACKSLASH"
  "cls c = 9 \<longleftrightarrow> c = CHR ''K''" "cls c = 21 \<longleftrightarrow> c = CHR ''k''" "cls c = 37 \<longleftrightarrow> c = CHR ''|''"
  "cls c = 10 \<longleftrightarrow> c = CHR ''M''" "cls c = 23 \<longleftrightarrow> c = CHR ''m''"
  by (rule cls_letter; simp add: letters_def LF_def QUOTE_def BACKSLASH_def)+

lemma yy_ec_blocks:
  "7 \<notin> set (take 48 yy_ec)" "7 \<notin> set (drop 58 yy_ec)" "\<forall>k \<in> set (take 10 (drop 48 yy_ec)). k = 7"
  "2 \<notin> set (take 9 yy_ec)" "2 \<notin> set (take 22 (drop 10 yy_ec))" "2 \<notin> set (drop 33 yy_ec)"
  "yy_ec ! 9 = 2" "yy_ec ! 32 = 2"
  by (simp_all add: yy_ec_def)

lemma nth_in_take: "i < n \<Longrightarrow> i < length xs \<Longrightarrow> xs ! i \<in> set (take n xs)"
  by (auto simp: in_set_conv_nth)

lemma nth_in_drop: "n \<le> i \<Longrightarrow> i < length xs \<Longrightarrow> xs ! i \<in> set (drop n xs)"
  using nth_mem [of "i - n" "drop n xs"] by simp

lemma cls_digit: "cls c = 7 \<longleftrightarrow> c \<in> set ''0123456789''"
proof -
  let ?n = "of_char c :: nat"
  have n: "?n < length yy_ec" by (simp add: yy_ec_facts)
  have "yy_ec ! ?n = 7 \<longleftrightarrow> 48 \<le> ?n \<and> ?n < 58"
  proof
    assume "yy_ec ! ?n = 7"
    then show "48 \<le> ?n \<and> ?n < 58"
      using nth_in_take [OF _ n, of 48] nth_in_drop [OF _ n, of 58] yy_ec_blocks(1,2) by (metis not_le)
  next
    assume "48 \<le> ?n \<and> ?n < 58"
    then have "yy_ec ! ?n = take 10 (drop 48 yy_ec) ! (?n - 48)" "?n - 48 < 10"
      using n by (auto simp: yy_ec_facts)
    moreover have "take 10 (drop 48 yy_ec) ! (?n - 48) \<in> set (take 10 (drop 48 yy_ec))"
      using calculation n by (intro nth_mem) (simp add: yy_ec_facts)
    ultimately show "yy_ec ! ?n = 7" using yy_ec_blocks(3) by simp
  qed
  moreover have "c \<in> set ''0123456789'' \<longleftrightarrow> ?n = 48 \<or> ?n = 49 \<or> ?n = 50 \<or> ?n = 51 \<or> ?n = 52 \<or> ?n = 53 \<or>
      ?n = 54 \<or> ?n = 55 \<or> ?n = 56 \<or> ?n = 57"
    by (simp flip: of_char_eq_iff [where 'a = nat])
  moreover have "48 \<le> ?n \<and> ?n < 58 \<longleftrightarrow> ?n = 48 \<or> ?n = 49 \<or> ?n = 50 \<or> ?n = 51 \<or> ?n = 52 \<or> ?n = 53 \<or>
      ?n = 54 \<or> ?n = 55 \<or> ?n = 56 \<or> ?n = 57" by arith
  moreover have "c = NUL \<Longrightarrow> c \<notin> set ''0123456789''" by (auto simp: NUL_def)
  ultimately have "yy_ec ! ?n = 7 \<longleftrightarrow> c \<in> set ''0123456789''" by blast
  moreover have "NUL \<notin> set ''0123456789''" by (simp add: NUL_def)
  ultimately show ?thesis by (cases "c = NUL") (simp_all only: cls_def if_True if_False, simp)
qed

lemma cls_blank: "cls c = 2 \<longleftrightarrow> c = CHR '' '' \<or> c = TAB"
proof -
  let ?n = "of_char c :: nat"
  have n: "?n < length yy_ec" by (simp add: yy_ec_facts)
  have "yy_ec ! ?n = 2 \<longleftrightarrow> ?n = 9 \<or> ?n = 32"
  proof
    assume e: "yy_ec ! ?n = 2"
    have "?n \<le> 9 \<or> 32 \<le> ?n"
    proof (rule ccontr)
      assume h: "\<not> (?n \<le> 9 \<or> 32 \<le> ?n)"
      then have "yy_ec ! ?n = drop 10 yy_ec ! (?n - 10)" "?n - 10 < 22" "?n - 10 < length (drop 10 yy_ec)"
        using n by (auto simp: yy_ec_facts)
      then show False using nth_in_take [of "?n - 10" 22 "drop 10 yy_ec"] e yy_ec_blocks(5) by simp
    qed
    moreover have "\<not> ?n < 9" using e nth_in_take [OF _ n, of 9] yy_ec_blocks(4) by auto
    moreover have "\<not> 33 \<le> ?n" using e nth_in_drop [OF _ n, of 33] yy_ec_blocks(6) by auto
    ultimately show "?n = 9 \<or> ?n = 32" by arith
  qed (auto simp: yy_ec_blocks)
  moreover have "?n = 9 \<longleftrightarrow> c = TAB"
    using of_char_eq_iff [of c TAB, where 'a = nat] by (simp add: TAB_def)
  moreover have "?n = 32 \<longleftrightarrow> c = CHR '' ''"
    using of_char_eq_iff [of c "CHR '' ''", where 'a = nat] by simp
  moreover have "TAB \<noteq> NUL" "CHR '' '' \<noteq> NUL" by (simp_all add: TAB_def NUL_def)
  moreover have "c \<noteq> NUL \<Longrightarrow> cls c = yy_ec ! ?n" "cls NUL \<noteq> 2" by (simp_all add: cls_def)
  ultimately show ?thesis by metis
qed

section \<open>What the patterns match\<close>

fun pmatch :: "pat \<Rightarrow> int list \<Rightarrow> bool" where
  "pmatch p [] \<longleftrightarrow> nullable p"
| "pmatch p (k # ks) \<longleftrightarrow> (case deriv k p of None \<Rightarrow> False | Some q \<Rightarrow> pmatch q ks)"

fun first_match :: "(int \<times> pat) list \<Rightarrow> int list \<Rightarrow> int" where
  "first_match [] ks = 0"
| "first_match ((r, p) # P) ks = (if pmatch p ks then r else first_match P ks)"

lemma first_match_Nil: "first_match P [] = accepted P"
  by (induction P rule: accepted.induct) auto

lemma first_match_derivs: "first_match (derivs k P) ks = first_match P (k # ks)"
  by (induction P) (auto split: option.splits)

lemma acc_run:
  "0 < s \<Longrightarrow> s \<le> 180 \<Longrightarrow> s \<noteq> 3 \<Longrightarrow> acc (lex_run s u) = first_match (pats s) (map cls u)"
proof (induction u arbitrary: s)
  case Nil
  then show ?case by (simp add: first_match_Nil acc_pats)
next
  case (Cons c u)
  have "4 \<le> lex_step s (cls c)" "lex_step s (cls c) \<le> 180"
    using lex_step_range [of s "cls c"] cls_range [of c] Cons.prems by auto
  then show ?case
    using Cons.IH [of "lex_step s (cls c)"] Cons.prems pats_step [of s "cls c"] cls_range [of c]
    by (simp add: first_match_derivs)
qed

lemma lex_best_longest:
  "(\<And>u. acc (lex_run s u) = f u) \<Longrightarrow> lex_best s w = longest f (length w) w"
proof (induction w arbitrary: s f)
  case Nil
  from Nil [of "[]"] show ?case by simp
next
  case (Cons c w)
  have "longest f (Suc n) (c # w) =
      (case longest (\<lambda>u. f (c # u)) n w of Some (r, k) \<Rightarrow> Some (r, Suc k)
       | None \<Rightarrow> if f [] \<noteq> 0 then Some (f [], 0) else None)" for n
    by (induction n) auto
  moreover have "lex_best (lex_step s (cls c)) w = longest (\<lambda>u. f (c # u)) (length w) w"
    by (rule Cons.IH) (simp flip: Cons.prems)
  ultimately show ?case
    using Cons.prems [of "[]"] by (simp del: longest.simps cong: option.case_cong if_cong)
qed

text \<open>The regular expressions, decomposed.\<close>

declare rmatch.simps(4,6) [simp del]

lemma rmatch_Seq: "rmatch (Seq a b) w \<longleftrightarrow> (\<exists>x y. w = x @ y \<and> rmatch a x \<and> rmatch b y)"
proof
  assume "rmatch (Seq a b) w"
  then obtain i where "rmatch a (take i w)" "rmatch b (drop i w)"
    by (auto dest!: iffD1 [OF rmatch.simps(4)])
  then show "\<exists>x y. w = x @ y \<and> rmatch a x \<and> rmatch b y"
    by (intro exI [of _ "take i w"] exI [of _ "drop i w"]) simp
next
  assume "\<exists>x y. w = x @ y \<and> rmatch a x \<and> rmatch b y"
  then obtain x y where "w = x @ y" "rmatch a x" "rmatch b y" by blast
  then show "rmatch (Seq a b) w"
    by (intro iffD2 [OF rmatch.simps(4)] bexI [of _ "length x"]) simp_all
qed

lemma rmatch_Star_Nil [simp]: "rmatch (Star a) []"
  by (rule iffD2 [OF rmatch.simps(6)]) simp

lemma rmatch_Star:
  "rmatch (Star a) w \<longleftrightarrow> w = [] \<or> (\<exists>x y. w = x @ y \<and> x \<noteq> [] \<and> rmatch a x \<and> rmatch (Star a) y)"
proof
  assume "rmatch (Star a) w"
  then have "w = [] \<or> (\<exists>i \<in> set [1..<Suc (length w)]. rmatch a (take i w) \<and> rmatch (Star a) (drop i w))"
    by (rule iffD1 [OF rmatch.simps(6)])
  then show "w = [] \<or> (\<exists>x y. w = x @ y \<and> x \<noteq> [] \<and> rmatch a x \<and> rmatch (Star a) y)"
  proof
    assume "\<exists>i \<in> set [1..<Suc (length w)]. rmatch a (take i w) \<and> rmatch (Star a) (drop i w)"
    then obtain i where "1 \<le> i" "i \<le> length w" "rmatch a (take i w)" "rmatch (Star a) (drop i w)" by auto
    then show ?thesis
      by (intro disjI2 exI [of _ "take i w"] exI [of _ "drop i w"]) auto
  qed simp
next
  assume "w = [] \<or> (\<exists>x y. w = x @ y \<and> x \<noteq> [] \<and> rmatch a x \<and> rmatch (Star a) y)"
  then show "rmatch (Star a) w"
  proof
    assume "\<exists>x y. w = x @ y \<and> x \<noteq> [] \<and> rmatch a x \<and> rmatch (Star a) y"
    then obtain x y where x: "w = x @ y" "x \<noteq> []" "rmatch a x" "rmatch (Star a) y" by blast
    then have "length x \<in> set [1..<Suc (length w)]" by (simp add: Suc_le_eq del: upt_Suc)
    with x show ?thesis
      by (intro iffD2 [OF rmatch.simps(6)] disjI2 bexI [of _ "length x"]) simp_all
  qed simp
qed

lemma rmatch_Chars: "rmatch (Chars cs) w \<longleftrightarrow> (\<exists>c. w = [c] \<and> c \<in> set cs)"
  "rmatch (NotChars cs) w \<longleftrightarrow> (\<exists>c. w = [c] \<and> c \<notin> set cs)"
  by (auto split: list.splits)

declare rmatch.simps(2,3) [simp del]

lemma rmatch_Star_class:
  assumes "\<And>w. rmatch a w \<longleftrightarrow> (\<exists>c. w = [c] \<and> p c)"
  shows "rmatch (Star a) w \<longleftrightarrow> (\<forall>c \<in> set w. p c)"
proof (induction w)
  case (Cons c w)
  have "(\<exists>x y. c # w = x @ y \<and> x \<noteq> [] \<and> rmatch a x \<and> rmatch (Star a) y) \<longleftrightarrow> p c \<and> rmatch (Star a) w"
  proof
    assume "p c \<and> rmatch (Star a) w"
    then show "\<exists>x y. c # w = x @ y \<and> x \<noteq> [] \<and> rmatch a x \<and> rmatch (Star a) y"
      by (intro exI [of _ "[c]"] exI [of _ w]) (simp add: assms)
  qed (auto simp: assms)
  then show ?case
    using rmatch_Star [of a "c # w"] Cons by simp
qed simp

lemma rmatch_lit: "rmatch (lit x) w \<longleftrightarrow> w = x"
  by (induction x arbitrary: w) (auto simp: rmatch_Seq rmatch_Chars)

text \<open>A word, over the characters and over their classes.\<close>

definition word_pat :: "string \<Rightarrow> pat" where
  "word_pat x = Word (map (\<lambda>c. [cls c]) x)"

definition plain :: "char \<Rightarrow> bool" where
  "plain x \<longleftrightarrow> (\<forall>c. cls c = cls x \<longleftrightarrow> c = x)"

lemma has_iff: "has k ks \<longleftrightarrow> k \<in> set ks"
  by (induction ks) auto

lemma pmatch_word: "list_all plain x \<Longrightarrow> pmatch (word_pat x) (map cls u) \<longleftrightarrow> u = x"
proof (induction x arbitrary: u)
  case Nil
  show ?case by (cases u) (simp_all add: word_pat_def)
next
  case (Cons a x)
  then show ?case
    by (cases u) (auto simp: word_pat_def plain_def)
qed

lemma pmatch_done [simp]: "pmatch (Word []) ks \<longleftrightarrow> ks = []"
  by (cases ks) simp_all

lemma pmatch_class: "pmatch (Word [ks]) (map cls u) \<longleftrightarrow> (\<exists>c. u = [c] \<and> cls c \<in> set ks)"
  by (cases u) (auto simp: has_iff)

lemma pmatch_any: "pmatch Any (map cls u) \<longleftrightarrow> (\<exists>c. u = [c])"
  by (cases u) auto

lemma pmatch_comment: "pmatch Comment (map cls u) \<longleftrightarrow> (\<forall>c \<in> set u. c \<noteq> LF)"
  by (induction u) (auto simp: cls_singles)

lemma pmatch_digits: "pmatch Digits (map cls u) \<longleftrightarrow> (\<forall>c \<in> set u. c \<in> set ''0123456789'')"
  by (induction u) (simp_all add: cls_digit)

lemma pmatch_blanks: "pmatch Blanks (map cls u) \<longleftrightarrow> (\<forall>c \<in> set u. c = CHR '' '' \<or> c = TAB)"
  by (induction u) (simp_all add: cls_blank)

text \<open>The body of a string: what may come before the quote that ends it.\<close>

definition string_body :: rexp where
  "string_body = Alt (Seq (Chars [BACKSLASH]) dot) (NotChars [QUOTE])"

definition closes :: "string \<Rightarrow> bool" where
  "closes u \<longleftrightarrow> rmatch (Seq (Star string_body) (Chars [QUOTE])) u"

lemma rmatch_string_body:
  "rmatch string_body w \<longleftrightarrow> (\<exists>d. w = [BACKSLASH, d] \<and> d \<noteq> LF) \<or> (\<exists>c. w = [c] \<and> c \<noteq> QUOTE)"
  by (auto simp: string_body_def dot_def rmatch_Seq rmatch_Chars)

lemma closes_Nil: "\<not> closes []"
  by (simp add: closes_def rmatch_Seq rmatch_Chars)

lemma closes_snoc: "closes w \<longleftrightarrow> (\<exists>x. w = x @ [QUOTE] \<and> rmatch (Star string_body) x)"
  by (auto simp: closes_def rmatch_Seq rmatch_Chars)

lemma body_star:
  "rmatch (Star string_body) x \<longleftrightarrow> x = [] \<or>
    (\<exists>d y. x = BACKSLASH # d # y \<and> d \<noteq> LF \<and> rmatch (Star string_body) y) \<or>
    (\<exists>c y. x = c # y \<and> c \<noteq> QUOTE \<and> rmatch (Star string_body) y)" (is "?l x \<longleftrightarrow> ?r x")
proof
  assume "?r x"
  then show "?l x"
  proof (elim disjE exE conjE)
    fix d y
    assume "x = BACKSLASH # d # y" "d \<noteq> LF" "rmatch (Star string_body) y"
    then show ?thesis
      by (intro iffD2 [OF rmatch_Star] disjI2 exI [of _ "[BACKSLASH, d]"] exI [of _ y]) (simp add: rmatch_string_body)
  next
    fix c y
    assume "x = c # y" "c \<noteq> QUOTE" "rmatch (Star string_body) y"
    then show ?thesis
      by (intro iffD2 [OF rmatch_Star] disjI2 exI [of _ "[c]"] exI [of _ y]) (simp add: rmatch_string_body)
  qed simp
next
  assume "?l x"
  from iffD1 [OF rmatch_Star this] show "?r x"
    by (auto simp: rmatch_string_body)
qed

lemma closes_Cons:
  "closes (c # u) \<longleftrightarrow> c = QUOTE \<and> u = [] \<or> c \<noteq> QUOTE \<and> closes u \<or>
     c = BACKSLASH \<and> (\<exists>d v. u = d # v \<and> d \<noteq> LF \<and> closes v)" (is "?l \<longleftrightarrow> ?r")
proof
  assume ?l
  then obtain x where x: "c # u = x @ [QUOTE]" "rmatch (Star string_body) x"
    unfolding closes_snoc by blast
  from iffD1 [OF body_star x(2)] x(1) show ?r
    unfolding closes_snoc by auto
next
  assume ?r
  then show ?l
  proof (elim disjE exE conjE)
    assume "c \<noteq> QUOTE" "closes u"
    then obtain x where "u = x @ [QUOTE]" "rmatch (Star string_body) x" unfolding closes_snoc by blast
    then show ?thesis
      using \<open>c \<noteq> QUOTE\<close> iffD2 [OF body_star [of "c # x"]] unfolding closes_snoc by auto
  next
    fix d v
    assume h: "c = BACKSLASH" "u = d # v" "d \<noteq> LF" "closes v"
    then obtain x where "v = x @ [QUOTE]" "rmatch (Star string_body) x" unfolding closes_snoc by blast
    then show ?thesis
      using h iffD2 [OF body_star [of "c # d # x"]] unfolding closes_snoc by auto
  qed (simp add: closes_snoc)
qed

lemma quote_neq: "QUOTE \<noteq> BACKSLASH" "BACKSLASH \<noteq> QUOTE" "QUOTE \<noteq> LF" "BACKSLASH \<noteq> LF"
  by (simp_all add: QUOTE_def BACKSLASH_def LF_def)

lemma pmatch_string:
  "pmatch Body (map cls u) \<longleftrightarrow> closes u"
  "pmatch Esc (map cls u) \<longleftrightarrow> closes u \<or> (\<exists>d v. u = d # v \<and> d \<noteq> LF \<and> closes v)"
  "pmatch EndOrBody (map cls u) \<longleftrightarrow> u = [] \<or> closes u"
proof (induction u)
  case (Cons c u)
  note step = closes_Cons [of c u]
  case 1
  show ?case using Cons step by (cases "c = QUOTE"; cases "c = BACKSLASH") (simp_all add: cls_singles quote_neq)
  case 2
  show ?case using Cons step by (cases "c = QUOTE"; cases "c = BACKSLASH") (auto simp add: cls_singles quote_neq)
  case 3
  show ?case using Cons step by (cases "c = QUOTE"; cases "c = BACKSLASH") (simp_all add: cls_singles quote_neq)
qed (simp_all add: closes_Nil)

section \<open>The tables compute the longest match of the rules\<close>

lemma rule_matches_simple: "rule_matches (e, Eps) u \<longleftrightarrow> rmatch e u"
  by (simp add: rule_matches_def rmatch_Seq)

lemma cls_of_letter:
  assumes "(of_char x, k) \<in> set letters"
  shows "cls x = k" "plain x"
proof -
  have alone: "cls c = k \<longleftrightarrow> c = x" for c by (rule cls_letter [OF assms])
  then show x: "cls x = k" by blast
  show "plain x" unfolding plain_def x by (intro allI alone)
qed

lemma cls_letters:
  "cls CHR ''/'' = 6" "cls CHR '';'' = 8" "cls CHR ''a'' = 12" "cls CHR ''b'' = 13" "cls
  CHR ''c'' = 14" "cls CHR ''d'' = 15" "cls CHR ''e'' = 16" "cls CHR ''f'' = 17" "cls CHR ''g''
  = 18" "cls CHR ''h'' = 19" "cls CHR ''i'' = 20" "cls CHR ''k'' = 21" "cls CHR ''l'' = 22"
  "cls CHR ''m'' = 23" "cls CHR ''n'' = 24" "cls CHR ''o'' = 25" "cls CHR ''p'' = 26" "cls
  CHR ''r'' = 27" "cls CHR ''s'' = 28" "cls CHR ''t'' = 29" "cls CHR ''u'' = 30" "cls CHR ''v''
  = 31" "cls CHR ''w'' = 32" "cls CHR ''x'' = 33" "cls CHR ''y'' = 34" "cls CHR ''z'' = 35"
  "cls CHR ''{'' = 36" "cls CHR ''}'' = 38"
  by (rule cls_of_letter(1), simp add: letters_def)+

lemma plain_letters:
  "plain CHR ''/''" "plain CHR '';''" "plain CHR ''a''" "plain CHR ''b''" "plain CHR ''c''"
  "plain CHR ''d''" "plain CHR ''e''" "plain CHR ''f''" "plain CHR ''g''" "plain CHR ''h''"
  "plain CHR ''i''" "plain CHR ''k''" "plain CHR ''l''" "plain CHR ''m''" "plain CHR ''n''"
  "plain CHR ''o''" "plain CHR ''p''" "plain CHR ''r''" "plain CHR ''s''" "plain CHR ''t''"
  "plain CHR ''u''" "plain CHR ''v''" "plain CHR ''w''" "plain CHR ''x''" "plain CHR ''y''"
  "plain CHR ''z''" "plain CHR ''{''" "plain CHR ''}''"
  by (rule cls_of_letter(2), simp add: letters_def)+

text \<open>What is left of the rules before the first character is the rules themselves.\<close>

lemma pats_start:
  "pats 1 = [
     (1, Hash), (2, word_pat ''{''), (3, word_pat ''}''), (4, word_pat '';''), (5, word_pat
     ''options''), (6, word_pat ''pid''), (7, word_pat ''file''), (8, word_pat ''debug''), (9,
     word_pat ''level''), (10, word_pat ''action''), (11, word_pat ''command''), (12, word_pat
     ''start''), (13, word_pat ''stop''), (14, word_pat ''slots''), (15, word_pat ''time''),
     (16, word_pat ''size''), (17, word_pat ''expire''), (18, word_pat ''delay''), (19,
     word_pat ''filter''), (20, word_pat ''profile''), (21, word_pat ''input''), (22, word_pat
     ''shm''), (23, word_pat ''when''), (24, word_pat ''track''), (25, word_pat ''hash''), (26,
     word_pat ''buckets''), (27, word_pat ''dstip''), (28, word_pat ''window''), (29, word_pat
     ''db''), (30, word_pat ''connect''), (31, word_pat ''export''), (32, word_pat ''min''),
     (33, word_pat ''nterval''), (34, word_pat ''dynamic''), (35, word_pat ''limit''), (36,
     Quote), (37, word_pat ''bps''), (38, word_pat ''b/s''), (39, word_pat ''pps''), (40,
     word_pat ''p/s''), (41, word_pat ''f/s''), (42, word_pat ''fps''), (43, word_pat
     ''flows''), (44, word_pat ''flowps''), (45, Word [[9, 21, 37]]), (46, Word [[10, 23,
     37]]), (47, Digit), (48, Word [[3]]), (49, Blank), (50, Any)]"
  by (simp add: pats_eq pats_0_def word_pat_def cls_letters)

fun agree :: "int \<Rightarrow> (int \<times> pat) list \<Rightarrow> (rexp \<times> rexp) list \<Rightarrow> string \<Rightarrow> bool" where
  "agree r ((r', p) # P) (e # es) u \<longleftrightarrow>
     r' = r \<and> pmatch p (map cls u) = rule_matches e u \<and> agree (r + 1) P es u"
| "agree r P es u \<longleftrightarrow> P = [] \<and> es = []"

lemma first_match_agree: "agree r P es u \<Longrightarrow> first_match P (map cls u) = first_rule r es u"
  by (induction r P es u rule: agree.induct) auto

lemma word_rule:
  "list_all plain x \<Longrightarrow> pmatch (word_pat x) (map cls u) = rule_matches (lit x, Eps) u"
  "list_all plain (x @ y) \<Longrightarrow> pmatch (word_pat (x @ y)) (map cls u) = rule_matches (lit x, lit y) u"
  by (simp_all add: pmatch_word rule_matches_simple rmatch_lit) (auto simp: rule_matches_def rmatch_Seq rmatch_lit pmatch_word)

lemma class_rules:
  "pmatch (Word [[9, 21, 37]]) (map cls u) = rule_matches (Chars ''K|k'', Eps) u"
  "pmatch (Word [[10, 23, 37]]) (map cls u) = rule_matches (Chars ''M|m'', Eps) u"
  "pmatch (Word [[3]]) (map cls u) = rule_matches (Chars [LF], Eps) u"
  "pmatch Any (map cls u) = rule_matches (any, Eps) u"
  unfolding pmatch_class pmatch_any rule_matches_simple any_def rmatch_Chars
  by (auto simp: cls_singles)

lemma comment_rule: "pmatch Hash (map cls u) = rule_matches (Seq (Chars ''#'') (Star dot), Eps) u"
  using rmatch_Star_class [of dot "\<lambda>c. c \<noteq> LF"]
  by (cases u) (auto simp: rule_matches_simple rmatch_Seq rmatch_Chars dot_def cls_singles pmatch_comment)

lemma rmatch_plus: "rmatch (rplus (Chars cs)) u \<longleftrightarrow> u \<noteq> [] \<and> (\<forall>c \<in> set u. c \<in> set cs)"
proof -
  have "rmatch (Star (Chars cs)) w \<longleftrightarrow> (\<forall>c \<in> set w. c \<in> set cs)" for w
    by (rule rmatch_Star_class) (rule rmatch_Chars(1))
  moreover have "rmatch (rplus (Chars cs)) (a # w) \<longleftrightarrow> a \<in> set cs \<and> rmatch (Star (Chars cs)) w" for a w
    by (auto simp: rplus_def rmatch_Seq rmatch_Chars) (metis append_Cons append_Nil)
  moreover have "\<not> rmatch (rplus (Chars cs)) []"
    by (simp add: rplus_def rmatch_Seq rmatch_Chars)
  ultimately show ?thesis by (cases u) auto
qed

lemma plus_rules:
  "pmatch Digit (map cls u) = rule_matches (rplus (Chars ''0123456789''), Eps) u"
  "pmatch Blank (map cls u) = rule_matches (rplus (Chars [CHR '' '', TAB]), Eps) u"
proof -
  show "pmatch Digit (map cls u) = rule_matches (rplus (Chars ''0123456789''), Eps) u"
    unfolding rule_matches_simple rmatch_plus by (cases u) (simp_all only: list.map pmatch.simps deriv.simps nullable.simps
      cls_digit pmatch_digits option.case split: if_splits, auto)
  show "pmatch Blank (map cls u) = rule_matches (rplus (Chars [CHR '' '', TAB]), Eps) u"
    unfolding rule_matches_simple rmatch_plus by (cases u) (auto simp: cls_blank pmatch_blanks)
qed

lemma string_rule:
  "pmatch Quote (map cls u) = rule_matches
     (Seq (Chars [QUOTE]) (Seq (Star (Alt (Seq (Chars [BACKSLASH]) dot) (NotChars [QUOTE]))) (Chars [QUOTE])), Eps) u"
  by (cases u) (auto simp: rule_matches_simple rmatch_Seq [of "Chars [QUOTE]"] rmatch_Chars cls_singles pmatch_string
    closes_def string_body_def)

lemma flow_rule: "pmatch (word_pat ''flows'') (map cls u) = rule_matches (lit ''flow'', lit ''s'') u"
  using word_rule(2) [of "''flow''" "''s''" u] plain_letters by (simp del: lit.simps)

lemma rules_agree: "agree 1 (pats 1) config_rules u"
  unfolding pats_start config_rules_def
  by (simp add: class_rules comment_rule plus_rules string_rule flow_rule plain_letters word_rule(1)
    del: pmatch.simps lit.simps)

lemma acc_run_1: "acc (lex_run 1 u) = rule_of u"
  using acc_run [of 1 u] first_match_agree [OF rules_agree] by (simp add: rule_of_def)

lemma lex_best_1_longest: "lex_best 1 w = longest_match w"
  unfolding longest_match_def by (rule lex_best_longest) (rule acc_run_1)

end
