(* ===== verification/Lexer_Scan.thy ===== *)
theory Lexer_Scan
  imports Lexer_Buffer Lexer_Rules
begin

text \<open>
  The scanner against its specification. The specification takes the longest match of the rules from
  the text that is left, performs the action of the rule and goes on behind it; it knows no buffer
  and no tables. One call of \<open>yylex\<close> does the same, however the file comes into the buffer.
\<close>

section \<open>Specification\<close>

text \<open>
  What the action of a rule gives for the matched text: a token or none, what it writes, and how many
  characters of the text it takes (the rule with a trailing context gives one back).
\<close>

definition rule_result :: "int \<Rightarrow> string \<Rightarrow> lexeme option \<times> string \<times> nat" where
  "rule_result r t =
     (if r = 1 \<or> r = 48 \<or> r = 49 then (None, [], length t)
      else if r = 36 then
        (Some (case string_value t of Inl e \<Rightarrow> LexFault e | Inr s \<Rightarrow> Lex STRING (Some (VString s))), [], length t)
      else if r = 45 then (Some (Lex FACTOR (Some (VNumber 1000))), [], length t)
      else if r = 46 then (Some (Lex FACTOR (Some (VNumber (1000 * 1000)))), [], length t)
      else if r = 47 then (Some (Lex NUMBER (Some (VNumber (c_atoi t)))), [], length t)
      else if r = 50 then (None, t, length t)
      else if r = 43 then (Some (Lex FPSTOK None), [], 4)
      else (map_option (\<lambda>t. Lex t None) (rule_token r), [], length t))"

function scan_text :: "string \<Rightarrow> lexeme list \<times> string" where
  "scan_text w =
     (if w = [] then ([], [])
      else case longest_match w of
        None \<Rightarrow> ([], [])
      | Some (r, k) \<Rightarrow>
          (let (x, e, n) = rule_result r (take k w); (xs, es) = scan_text (drop (max 1 n) w)
           in (case x of None \<Rightarrow> xs | Some l \<Rightarrow> l # xs, e @ es)))"
  by auto
termination
  by (relation "measure length") auto

declare scan_text.simps [simp del]

section \<open>Between two tokens\<close>

text \<open>
  Between two tokens the character after the last token is replaced by a NUL and kept in
  \<open>yy_hold_char\<close>. A scanner is ready with a text when putting the character back gives a well-formed
  buffer from whose current place on the text is left.
\<close>

definition restored :: "yyguts \<Rightarrow> yyguts" where
  "restored g = g\<lparr>yy_ch_buf := (yy_ch_buf g)[yy_c_buf_p g := yy_hold_char g]\<rparr>"

definition ready :: "yyguts \<Rightarrow> string \<Rightarrow> bool" where
  "ready g w \<longleftrightarrow> wf (restored g) \<and> yy_c_buf_p g \<le> yy_n_chars g \<and> left_from (yy_c_buf_p g) (restored g) = w"

definition before_action :: "nat \<Rightarrow> nat \<Rightarrow> yyguts \<Rightarrow> yyguts" where
  "before_action bp cp g = g\<lparr>yy_ch_buf := (yy_ch_buf g)[cp := NUL], yytext_ptr := bp, yyleng := cp - bp,
     yy_hold_char := yy_ch_buf g ! cp, yy_c_buf_p := cp\<rparr>"

lemma YY_DO_BEFORE_ACTION_eq:
  "cp < length (yy_ch_buf g) \<Longrightarrow> YY_DO_BEFORE_ACTION bp cp g = Inr (before_action bp cp g)"
  by (simp add: YY_DO_BEFORE_ACTION_def before_action_def peek_def poke_def)

lemma wf_length: "wf g \<Longrightarrow> Suc (yy_n_chars g) < length (yy_ch_buf g)"
  by (auto simp: wf_def)

lemma before_action_ready:
  assumes "wf g" "cp \<le> yy_n_chars g" "bp \<le> cp"
  shows "ready (before_action bp cp g) (left_from cp g)"
    "yytext (before_action bp cp g) = take (cp - bp) (drop bp (held g))"
    "yyout (before_action bp cp g) = yyout g"
proof -
  have "restored (before_action bp cp g) =
      g\<lparr>yytext_ptr := bp, yyleng := cp - bp, yy_hold_char := yy_ch_buf g ! cp, yy_c_buf_p := cp\<rparr>"
    by (simp add: restored_def before_action_def)
  then show "ready (before_action bp cp g) (left_from cp g)"
    using assms by (simp add: ready_def before_action_def left_from_def held_def wf_def)
  show "yytext (before_action bp cp g) = take (cp - bp) (drop bp (held g))"
    using assms by (simp add: yytext_def before_action_def held_def take_drop min_absorb1)
  show "yyout (before_action bp cp g) = yyout g" by (simp add: before_action_def)
qed

lemma ready_frame:
  "ready g w \<Longrightarrow> ready (g\<lparr>b_lineno := l, yyout := x\<rparr>) w"
  by (simp add: ready_def restored_def wf_def left_from_def held_def)

section \<open>Rules\<close>

lemma rule_of_range: "0 \<le> rule_of u" "rule_of u \<le> 50"
proof -
  have "first_rule r ps u = 0 \<or> r \<le> first_rule r ps u \<and> first_rule r ps u < r + int (length ps)" for r ps
    by (induction r ps u rule: first_rule.induct) auto
  from this [of 1 config_rules] show "0 \<le> rule_of u" "rule_of u \<le> 50"
    by (auto simp: rule_of_def config_rules_def)
qed

lemma first_rule_matches:
  "first_rule r ps u \<noteq> 0 \<Longrightarrow> 0 < r \<Longrightarrow> rule_matches (ps ! nat (first_rule r ps u - r)) u \<and> r \<le> first_rule r ps u"
proof (induction r ps u rule: first_rule.induct)
  case (2 r p ps u)
  then show ?case
    by (cases "rule_matches p u") (auto simp: nth_Cons' nat_diff_distrib' Suc_nat_eq_nat_zadd1 algebra_simps)
qed simp

lemma rule_43: "rule_of u = 43 \<Longrightarrow> u = ''flows''"
  using first_rule_matches [of 1 config_rules u]
  by (simp add: rule_of_def config_rules_def rule_matches_def rmatch_Seq rmatch_lit del: lit.simps first_rule.simps)

lemma rule_token_total: "\<forall>r \<in> set [1..50]. r \<in> {1, 36, 43, 45, 46, 47, 48, 49, 50} \<or> rule_token r \<noteq> None"
  by (simp add: rule_token_def upto_rec1)

lemma rule_token_defined:
  assumes "0 < r" "r \<le> 50" "r \<notin> {1, 36, 43, 45, 46, 47, 48, 49, 50}"
  obtains t where "rule_token r = Some t"
  using rule_token_total assms by fastforce

lemma longest_rule: "longest f n w = Some (r, k) \<Longrightarrow> r = f (take k w) \<and> r \<noteq> 0 \<and> k \<le> n"
  by (induction n) (auto split: if_splits)

lemma longest_match_rule:
  assumes "longest_match w = Some (r, k)"
  shows "r = rule_of (take k w)" "0 < r" "r \<le> 50" "k \<le> length w" "r = 43 \<Longrightarrow> k = 5"
proof -
  from assms have l: "r = rule_of (take k w) \<and> r \<noteq> 0 \<and> k \<le> length w"
    unfolding longest_match_def by (rule longest_rule)
  then show "r = rule_of (take k w)" "k \<le> length w" by auto
  show "0 < r" "r \<le> 50" using l rule_of_range [of "take k w"] by auto
  assume "r = 43"
  with l have "take k w = ''flows''" by (intro rule_43) simp
  with l have "length (take k w) = 5" "k \<le> length w" by simp_all
  then show "k = 5" by simp
qed

section \<open>The action of a token\<close>

text \<open>What a step at the end of a token leaves: the next token of the text or none, and the rest.\<close>

definition token_done :: "yyguts \<Rightarrow> string \<Rightarrow> int \<Rightarrow> nat \<Rightarrow> yynext res \<Rightarrow> bool" where
  "token_done g w r k res \<longleftrightarrow>
     (let (x, e, n) = rule_result r (take k w) in
      \<exists>g'. res = Inr (case x of None \<Rightarrow> Goto AtToken g' | Some l \<Rightarrow> Return l g') \<and>
        ready g' (drop n w) \<and> yyout g' = yyout g @ e)"

lemma count_lines_eq:
  assumes "0 \<le> r" "r \<le> 50"
  shows "\<exists>l. count_lines r g = Inr (g\<lparr>b_lineno := l\<rparr>)"
proof -
  have "length yy_rule_can_match_eol = 51" by (simp add: yy_rule_can_match_eol_def)
  then have "tbl yy_rule_can_match_eol r = Inr (yy_rule_can_match_eol ! nat r)"
    using assms by (simp add: tbl_def)
  then have "count_lines r g = Inr (g\<lparr>b_lineno :=
      (if yy_rule_can_match_eol ! nat r \<noteq> 0 then b_lineno g + int (count_list (yytext g) LF) else b_lineno g)\<rparr>)"
    using assms by (auto simp: count_lines_def YY_END_OF_BUFFER_def)
  then show ?thesis by blast
qed

lemma yytext_lineno [simp]: "yytext (g\<lparr>b_lineno := l\<rparr>) = yytext g"
  by (simp add: yytext_def)

lemma do_rule_done:
  assumes g: "wf g" and k: "0 < k" "bp + k \<le> yy_n_chars g" and r: "0 < r" "r \<le> 50" "r = 43 \<Longrightarrow> 4 \<le> k"
    and w: "w = left_from bp g"
  shows "token_done g w r k (do_rule r bp (bp + k) (before_action bp (bp + k) g\<lparr>b_lineno := l\<rparr>))"
proof -
  let ?g = "before_action bp (bp + k) g\<lparr>b_lineno := l\<rparr>"
  have held: "length (held g) = yy_n_chars g" by (rule wf_buffer(2) [OF g])
  have txt_eq: "yytext ?g = take k w"
    using before_action_ready(2) [OF g k(2)] k w held by (simp add: left_from_def)
  have len: "length (take k w) = k" using k w held by (simp add: left_from_def)
  have ready: "ready (?g\<lparr>yyout := x\<rparr>) (drop k w)" for x
    using ready_frame [OF before_action_ready(1) [OF g k(2), of bp]] w k held by (simp add: left_from_def add.commute)
  have ready': "ready ?g (drop k w)"
    using ready [of "yyout ?g"] by simp
  have out: "yyout ?g = yyout g" by (simp add: before_action_def)
  show ?thesis
  proof (cases "r = 43")
    case True
    have len': "bp + k < length (yy_ch_buf g)" "bp + 4 < length (yy_ch_buf g)"
      using wf_length [OF g] k r(3) True by simp_all
    let ?g1 = "?g\<lparr>yy_ch_buf := yy_ch_buf g\<rparr>"
    have "poke (bp + k) (yy_hold_char ?g) ?g = Inr ?g1"
      using len' by (simp add: poke_def before_action_def)
    then have "do_rule r bp (bp + k) ?g = Inr (Return (Lex FPSTOK None) (before_action bp (bp + 4) (?g1\<lparr>yy_c_buf_p := bp + 4\<rparr>)))"
      using True len' by (simp add: do_rule_def YY_DO_BEFORE_ACTION_eq)
    moreover have "wf (?g1\<lparr>yy_c_buf_p := bp + 4\<rparr>)" "left_from (bp + 4) (?g1\<lparr>yy_c_buf_p := bp + 4\<rparr>) = drop 4 w"
      "yy_n_chars (?g1\<lparr>yy_c_buf_p := bp + 4\<rparr>) = yy_n_chars g"
      using g w k r(3) True held by (simp_all add: wf_def before_action_def left_from_def held_def add.commute)
    ultimately show ?thesis
      using before_action_ready [of "?g1\<lparr>yy_c_buf_p := bp + 4\<rparr>" "bp + 4" bp] k r(3) True
      by (simp add: token_done_def rule_result_def before_action_def)
  next
    case False
    show ?thesis
    proof (cases "r \<in> {1, 36, 43, 45, 46, 47, 48, 49, 50}")
      case True
      with False show ?thesis
        using txt_eq len ready ready' out
        by (auto simp: token_done_def do_rule_def rule_result_def split: sum.splits)
    next
      case other: False
      obtain t where "rule_token r = Some t" by (rule rule_token_defined [OF r(1,2) other])
      then show ?thesis
        using other False len ready' out by (auto simp: token_done_def do_rule_def rule_result_def)
    qed
  qed
qed

text \<open>
  From \<open>yy_find_action\<close> on. The automaton has run over \<open>u\<close> and finds nothing longer in the rest: the
  longest match is at the end of \<open>u\<close> or at the last accepting state in it.
\<close>

definition at_end :: "yyguts \<Rightarrow> int \<Rightarrow> nat \<Rightarrow> nat \<Rightarrow> string \<Rightarrow> bool" where
  "at_end g s cp bp w \<longleftrightarrow>
     (\<exists>u v. w = left_from bp g \<and> w = u @ v \<and> u \<noteq> [] \<and> cp = bp + length u \<and> cp \<le> yy_n_chars g \<and> s = lex_run 1 u \<and>
       (run_ok 1 u \<or> (\<exists>y c. u = y @ [c] \<and> run_ok 1 y)) \<and>
       lex_best s v = (if acc s \<noteq> 0 then Some (acc s, 0) else None) \<and>
       (acc s = 0 \<longrightarrow> (\<exists>la. (yy_last_state g, yy_last_cpos g) = last_acc 1 u bp la)))"

lemma run_state: "run_ok 1 u \<or> (\<exists>y c. u = y @ [c] \<and> run_ok 1 y) \<Longrightarrow> 0 < lex_run 1 u \<and> lex_run 1 u \<le> 180 \<and> lex_run 1 u \<noteq> 3"
proof (elim disjE exE conjE)
  assume "run_ok 1 u"
  then show ?thesis using run_ok_last [of 1 u] by (simp add: ok_def)
next
  fix y c
  assume "u = y @ [c]" "run_ok 1 y"
  then show ?thesis using step_bounds [OF run_ok_last, of 1 y c] by simp
qed

lemma find_action_done:
  assumes g: "wf g" and e: "at_end g s cp bp w"
  shows "\<exists>r k. longest_match w = Some (r, k) \<and> 0 < k \<and> token_done g w r k (yystep (AtAction s cp bp) g)"
proof -
  from e obtain u v where u: "w = left_from bp g" "w = u @ v" "u \<noteq> []" "cp = bp + length u" "cp \<le> yy_n_chars g"
    "s = lex_run 1 u" "run_ok 1 u \<or> (\<exists>y c. u = y @ [c] \<and> run_ok 1 y)"
    "lex_best s v = (if acc s \<noteq> 0 then Some (acc s, 0) else None)"
    "acc s = 0 \<longrightarrow> (\<exists>la. (yy_last_state g, yy_last_cpos g) = last_acc 1 u bp la)"
    unfolding at_end_def by blast
  note s = run_state [OF u(7), folded u(6)]
  have "w \<noteq> []" using u(2,3) by simp
  from lex_best_1 [OF this] obtain r k' where rk: "lex_best 1 w = Some (r, Suc k')" by blast
  then have lm: "longest_match w = Some (r, Suc k')" by (simp add: lex_best_1_longest)
  note r = longest_match_rule [OF lm]
  have parts: "lex_best 1 w = (case lex_best s v of Some (r, k) \<Rightarrow> Some (r, length u + k) | None \<Rightarrow> back_up 1 u)"
    unfolding u(2) u(6) by (rule lex_best_append)
  have backed: "\<exists>s'. (let (s1, c1) = (if acc s = 0 then (yy_last_state g, yy_last_cpos g) else (s, cp)) in (s1, c1)) =
      (s', bp + Suc k') \<and> acc s' = r \<and> 0 \<le> s' \<and> s' \<le> 180 \<and> Suc k' \<le> length u"
  proof (cases "acc s = 0")
    case False
    then show ?thesis using parts rk u(4,8) s by auto
  next
    case True
    with parts rk u(8) have b: "back_up 1 u = Some (r, Suc k')" by simp
    from True u(9) obtain la where la: "(yy_last_state g, yy_last_cpos g) = last_acc 1 u bp la" by blast
    from back_up_last_acc [OF u(7) b, of bp la] obtain s' where "last_acc 1 u bp la = (s', bp + Suc k')" "acc s' = r" "ok s'"
      by blast
    moreover have "Suc k' \<le> length u"
    proof -
      have "back_up t x = Some (q, j) \<Longrightarrow> j < length x" for t x q j
        by (induction t x arbitrary: q j rule: back_up.induct) (auto split: option.splits if_splits)
      from this [OF b] show ?thesis by simp
    qed
    ultimately show ?thesis using True la by (auto simp: ok_def)
  qed
  then obtain s' where s': "(if acc s = 0 then (yy_last_state g, yy_last_cpos g) else (s, cp)) = (s', bp + Suc k')"
    "acc s' = r" "0 \<le> s'" "s' \<le> 180" "Suc k' \<le> length u" by auto
  have le: "bp + Suc k' \<le> yy_n_chars g" using s'(5) u(4,5) by simp
  obtain l where l: "count_lines r (before_action bp (bp + Suc k') g) = Inr (before_action bp (bp + Suc k') g\<lparr>b_lineno := l\<rparr>)"
    using count_lines_eq [of r] r(2,3) by (meson less_imp_le)
  have "yystep (AtAction s cp bp) g = do_rule r bp (bp + Suc k') (before_action bp (bp + Suc k') g\<lparr>b_lineno := l\<rparr>)"
    using s s' r(2,3) l wf_length [OF g] le
    by (simp add: yystep_def yy_find_action_def tbl_accept YY_DO_BEFORE_ACTION_eq YY_END_OF_BUFFER_def)
  moreover have "token_done g w r (Suc k') \<dots>"
    using le r(2,3,5) u(1) by (intro do_rule_done [OF g]) auto
  ultimately show ?thesis using lm by auto
qed

section \<open>The end of the buffer\<close>

text \<open>
  The run reached a NUL at the offset \<open>p\<close>: the automaton jams behind it and backs up to the state 3,
  whose action is that of the end of the buffer. The state in which that action starts:
\<close>

definition at_eob :: "nat \<Rightarrow> nat \<Rightarrow> yyguts \<Rightarrow> yyguts" where
  "at_eob bp p g = g\<lparr>yytext_ptr := bp, yyleng := Suc p - bp, yy_hold_char := yy_ch_buf g ! Suc p,
     yy_c_buf_p := Suc p, b_status := (if b_status g = YY_BUFFER_NEW then YY_BUFFER_NORMAL else b_status g)\<rparr>"

definition refilled :: "nat \<Rightarrow> yyguts \<Rightarrow> yynext res" where
  "refilled matched g =
     res_bind (yy_get_next_buffer g) (\<lambda>(act, g3).
       case act of
         EOB_ACT_END_OF_FILE \<Rightarrow> Inr (Eof (g3\<lparr>yy_c_buf_p := yytext_ptr g3\<rparr>))
       | EOB_ACT_CONTINUE_SCAN \<Rightarrow>
           let here = yytext_ptr g3 + matched in
           res_bind (yy_get_previous_state (g3\<lparr>yy_c_buf_p := here\<rparr>)) (\<lambda>(s, g4).
           Inr (Goto (AtMatch s here (yytext_ptr g4)) g4))
       | EOB_ACT_LAST_MATCH \<Rightarrow>
           res_bind (yy_get_previous_state (g3\<lparr>yy_c_buf_p := yy_n_chars g3\<rparr>)) (\<lambda>(s, g4).
           Inr (Goto (AtAction s (yy_c_buf_p g4) (yytext_ptr g4)) g4)))"

lemma at_eob_facts:
  assumes "wf g"
  shows "wf (at_eob bp p g)" "held (at_eob bp p g) = held g" "yyin (at_eob bp p g) = yyin g"
    "yy_n_chars (at_eob bp p g) = yy_n_chars g" "yytext_ptr (at_eob bp p g) = bp" "yy_c_buf_p (at_eob bp p g) = Suc p"
    "b_status (at_eob bp p g) \<noteq> YY_BUFFER_NEW" "yyout (at_eob bp p g) = yyout g"
    "yy_ch_buf (at_eob bp p g) = yy_ch_buf g" "yy_start (at_eob bp p g) = 1"
  using assms by (auto simp: at_eob_def wf_def held_def)

lemma eob_action:
  assumes g: "wf g" and p: "bp \<le> p" "p \<le> yy_n_chars g"
    and la: "yy_last_state g = 3" "yy_last_cpos g = Suc p"
  shows "yystep (AtAction 180 cp bp) g =
    (if Suc p \<le> yy_n_chars g then do_NUL p (at_eob bp p g) else refilled (p - bp) (at_eob bp p g))"
proof -
  have len: "Suc p < length (yy_ch_buf g)" using wf_length [OF g] p by simp
  have n: "yy_n_chars g < 2 ^ 29" using g by (auto simp: wf_def)
  let ?g = "before_action bp (Suc p) g"
  have matched: "i32_of_int (1 + int p - int bp) = int (p - bp) + 1"
    using p n by (subst i32_of_int_small) (simp_all add: of_nat_diff)
  have nat1: "nat (int bp + int (p - bp)) = p" "nat (int i + int (p - bp)) = i + (p - bp)"
    "nat (int i + (int p - int bp)) = i + p - bp" for i
    using p by (simp_all add: nat_int_add)
  have "poke (Suc p) (yy_hold_char ?g) ?g = Inr (?g\<lparr>yy_ch_buf := yy_ch_buf g\<rparr>)"
    using len by (simp add: poke_def before_action_def)
  moreover have "yytext_ptr ?g = bp" by (simp add: before_action_def)
  moreover have "(if b_status (?g\<lparr>yy_ch_buf := yy_ch_buf g\<rparr>) = YY_BUFFER_NEW
      then ?g\<lparr>yy_ch_buf := yy_ch_buf g, yy_n_chars := b_n_chars (?g\<lparr>yy_ch_buf := yy_ch_buf g\<rparr>), b_status := YY_BUFFER_NORMAL\<rparr>
      else ?g\<lparr>yy_ch_buf := yy_ch_buf g\<rparr>) = at_eob bp p g"
    using g by (auto simp: at_eob_def before_action_def wf_def intro!: yyguts.equality)
  ultimately have "do_END_OF_BUFFER (Suc p) ?g =
      (if Suc p \<le> yy_n_chars g then do_NUL p (at_eob bp p g) else refilled (p - bp) (at_eob bp p g))"
    unfolding do_END_OF_BUFFER_def refilled_def using p(1)
    by (simp add: Let_def matched nat1 at_eob_facts [OF g] cong: if_cong eob_act.case_cong)
  moreover have "tbl yy_accept 180 = Inr 0" "tbl yy_accept 3 = Inr 51"
    using tbl_accept [of 180] tbl_accept [of 3] acc_simps by auto
  ultimately show ?thesis
    using la len by (simp add: yystep_def yy_find_action_def YY_DO_BEFORE_ACTION_eq count_lines_def YY_END_OF_BUFFER_def)
qed

lemma previous_state:
  assumes "wf g" "yytext_ptr g + length u \<le> yy_n_chars g" "u = take (length u) (drop (yytext_ptr g) (held g))" "run_ok 1 u"
    and "h = yytext_ptr g + length u"
  shows "yy_get_previous_state (g\<lparr>yy_c_buf_p := h\<rparr>) = Inr (lex_run 1 u, g\<lparr>yy_c_buf_p := h,
    yy_last_state := fst (last_acc 1 u (yytext_ptr g) (yy_last_state g, yy_last_cpos g)),
    yy_last_cpos := snd (last_acc 1 u (yytext_ptr g) (yy_last_state g, yy_last_cpos g))\<rparr>)"
proof -
  have "take (length u) (drop (yytext_ptr g) (yy_ch_buf g)) = take (length u) (drop (yytext_ptr g) (held g))"
    using assms(2) by (simp add: held_def drop_take min_absorb1)
  with assms(3) have "take (length u) (drop (yytext_ptr g) (yy_ch_buf g)) = u" by simp
  then show ?thesis
    using assms wf_length [OF assms(1)]
    by (simp add: yy_get_previous_state_def yy_previous_run wf_def split: prod.splits)
qed

text \<open>The run of the automaton between the start of a token and its end.\<close>

definition matching :: "yyguts \<Rightarrow> int \<Rightarrow> nat \<Rightarrow> nat \<Rightarrow> string \<Rightarrow> bool" where
  "matching g s cp bp w \<longleftrightarrow> wf g \<and> w = left_from bp g \<and> bp \<le> cp \<and> cp \<le> yy_n_chars g \<and>
     (let u = take (cp - bp) w in s = lex_run 1 u \<and> run_ok 1 u \<and>
       (\<exists>la. (yy_last_state g, yy_last_cpos g) = last_acc 1 u bp la))"

text \<open>
  A run does not come back to a place it was at: either it is further in the buffer or the file has
  less to give.
\<close>

definition work :: "yyguts \<Rightarrow> nat \<Rightarrow> nat" where
  "work g cp = 2 * length (yyin g) + (yy_n_chars g - cp)"

lemma matching_parts:
  assumes "matching g s cp bp w"
  obtains u la where "wf g" "w = u @ drop cp (held g) @ yyin g" "cp = bp + length u" "cp \<le> yy_n_chars g"
    "u @ drop cp (held g) = drop bp (held g)" "w = left_from bp g"
    "s = lex_run 1 u" "run_ok 1 u" "(yy_last_state g, yy_last_cpos g) = last_acc 1 u bp la"
proof -
  let ?u = "take (cp - bp) w"
  from assms obtain la where m: "wf g" "w = left_from bp g" "bp \<le> cp" "cp \<le> yy_n_chars g"
    "s = lex_run 1 ?u" "run_ok 1 ?u" "(yy_last_state g, yy_last_cpos g) = last_acc 1 ?u bp la"
    unfolding matching_def Let_def by blast
  have n: "length (held g) = yy_n_chars g" by (rule wf_buffer(2) [OF m(1)])
  have u: "?u = take (cp - bp) (drop bp (held g))"
    using m n by (simp add: left_from_def)
  have len: "length ?u = cp - bp" using m n unfolding u by simp
  have split: "?u @ drop cp (held g) = drop bp (held g)"
    unfolding u using m(3) by (metis append_take_drop_id drop_drop le_add_diff_inverse2)
  have "?u @ drop cp (held g) @ yyin g = w"
    using split m(2) unfolding left_from_def by (metis append_assoc)
  then show thesis
    using that [of ?u la] m len split by simp
qed

lemma matchingI:
  assumes "wf g" "w = left_from bp g" "u @ x = drop bp (held g)" "cp = bp + length u" "cp \<le> yy_n_chars g"
    "s = lex_run 1 u" "run_ok 1 u" "(yy_last_state g, yy_last_cpos g) = last_acc 1 u bp la"
  shows "matching g s cp bp w"
proof -
  have "take (cp - bp) w = u" using assms(2,4) by (simp add: left_from_def flip: assms(3))
  with assms show ?thesis
    unfolding matching_def Let_def by (intro conjI exI [of _ la]; simp)
qed

lemma at_endI:
  assumes "w = left_from bp g" "w = u @ v" "u \<noteq> []" "cp = bp + length u" "cp \<le> yy_n_chars g" "s = lex_run 1 u"
    "run_ok 1 u \<or> (\<exists>y c. u = y @ [c] \<and> run_ok 1 y)"
    "lex_best s v = (if acc s \<noteq> 0 then Some (acc s, 0) else None)"
    "acc s = 0 \<Longrightarrow> (yy_last_state g, yy_last_cpos g) = last_acc 1 u bp la"
  shows "at_end g s cp bp w"
  using assms unfolding at_end_def by blast

text \<open>What is known of the rest of the scan: it ends, it reaches the end of a token, or it goes on.\<close>

definition token_ends :: "yyguts \<Rightarrow> string \<Rightarrow> yynext \<Rightarrow> bool" where
  "token_ends g w nx \<longleftrightarrow>
     (\<exists>s cp bp g'. nx = Goto (AtAction s cp bp) g' \<and> wf g' \<and> at_end g' s cp bp w \<and> yyout g' = yyout g)"

definition text_ends :: "yyguts \<Rightarrow> string \<Rightarrow> yynext \<Rightarrow> bool" where
  "text_ends g w nx \<longleftrightarrow> (\<exists>g'. nx = Eof g' \<and> w = [] \<and> ready g' [] \<and> yyout g' = yyout g)"

definition goes_on :: "yyguts \<Rightarrow> nat \<Rightarrow> string \<Rightarrow> yynext \<Rightarrow> bool" where
  "goes_on g cp w nx \<longleftrightarrow>
     (\<exists>s' cp' bp' g'. nx = Goto (AtMatch s' cp' bp') g' \<and> matching g' s' cp' bp' w \<and> work g' cp' < work g cp \<and>
       yyout g' = yyout g)"

lemma match_jams:
  assumes m: "matching g s cp bp w" and j: "jams s (drop cp (held g)) v"
    and la: "(ls, lc) = last_acc s v cp (yy_last_state g, yy_last_cpos g)"
  shows "token_ends g w (Goto (AtAction (lex_run s v) (cp + length v) bp) (g\<lparr>yy_last_state := ls, yy_last_cpos := lc\<rparr>))"
proof -
  let ?g = "g\<lparr>yy_last_state := ls, yy_last_cpos := lc\<rparr>"
  from m obtain u la0 where u: "wf g" "w = u @ drop cp (held g) @ yyin g" "cp = bp + length u" "cp \<le> yy_n_chars g"
    "w = left_from bp g" "s = lex_run 1 u" "run_ok 1 u" "(yy_last_state g, yy_last_cpos g) = last_acc 1 u bp la0"
    by (rule matching_parts)
  from j obtain v' c x where v: "v = v' @ [c]" "run_ok s v'" "dead (lex_run s v)" "drop cp (held g) = v @ x"
    unfolding jams_def by blast
  have b: "4 \<le> lex_run s v" "lex_run s v \<le> 180"
    using step_bounds [OF run_ok_last [OF v(2)], of c] v(1) by simp_all
  have "length v \<le> yy_n_chars g - cp"
    using arg_cong [OF v(4), of length] wf_buffer(2) [OF u(1)] by simp
  moreover have "run_ok 1 (u @ v')" using u(6,7) v(2) by simp
  then have "\<exists>y c. u @ v = y @ [c] \<and> run_ok 1 y" using v(1) by (metis append_assoc)
  moreover have "lex_best (lex_run s v) (x @ yyin g) = (if acc (lex_run s v) \<noteq> 0 then Some (acc (lex_run s v), 0) else None)"
    using b v(3) by (intro lex_best_dead) auto
  moreover have "(ls, lc) = last_acc 1 (u @ v) bp la0" using la u(3,6,8) by simp
  moreover have "u @ v \<noteq> []" "w = (u @ v) @ x @ yyin g" "lex_run s v = lex_run 1 (u @ v)" using u(2,6) v(1,4) by auto
  moreover have "w = left_from bp ?g" using u(5) by (simp add: left_from_def held_def)
  ultimately have "at_end ?g (lex_run s v) (cp + length v) bp w"
    using u(3,4) by (intro at_endI [of w bp ?g "u @ v" "x @ yyin g" _ _ la0]) simp_all
  then show ?thesis using u(1) by (auto simp: token_ends_def wf_def)
qed

lemma scan_frame [simp]:
  "wf (g\<lparr>yy_c_buf_p := i\<rparr>) = wf g" "wf (g\<lparr>yy_last_state := s\<rparr>) = wf g" "wf (g\<lparr>yy_last_cpos := j\<rparr>) = wf g"
  "held (g\<lparr>yy_c_buf_p := i\<rparr>) = held g" "held (g\<lparr>yy_last_state := s\<rparr>) = held g" "held (g\<lparr>yy_last_cpos := j\<rparr>) = held g"
  "left_from b (g\<lparr>yy_c_buf_p := i\<rparr>) = left_from b g" "left_from b (g\<lparr>yy_last_state := s\<rparr>) = left_from b g"
  "left_from b (g\<lparr>yy_last_cpos := j\<rparr>) = left_from b g"
  by (simp_all add: wf_def held_def left_from_def)

lemma NUL_step:
  assumes g: "wf g" "yytext_ptr g = bp" and b: "drop bp (held g) = u @ NUL # x" "p = bp + length u" and u: "run_ok 1 u"
  shows "\<exists>nx. do_NUL p g = Inr nx \<and> (token_ends g (left_from bp g) nx \<or> goes_on g p (left_from bp g) nx)"
proof -
  let ?la = "(yy_last_state g, yy_last_cpos g)"
  let ?s = "lex_run 1 u" and ?t = "lex_step (lex_run 1 u) (cls NUL)"
  let ?l1 = "last_acc 1 u bp ?la" and ?l2 = "last_acc 1 (u @ [NUL]) bp ?la"
  let ?g2 = "g\<lparr>yy_c_buf_p := p, yy_last_state := fst ?l2, yy_last_cpos := snd ?l2\<rparr>"
  have n: "length (held g) = yy_n_chars g" by (rule wf_buffer(2) [OF g(1)])
  have le: "Suc p \<le> yy_n_chars g"
    using arg_cong [OF b(1), of length] n b(2) by simp
  have s: "ok ?s" by (rule run_ok_last [OF u])
  note t = step_bounds [OF s, of NUL]
  have "u = take (length u) (drop (yytext_ptr g) (held g))" using b(1) g(2) by simp
  then have "yy_get_previous_state (g\<lparr>yy_c_buf_p := p\<rparr>) =
      Inr (?s, g\<lparr>yy_c_buf_p := p, yy_last_state := fst ?l1, yy_last_cpos := snd ?l1\<rparr>)"
    using previous_state [OF g(1) _ _ u, of p] g(2) b(2) le by simp
  moreover have "yy_try_NUL_trans ?s (g\<lparr>yy_c_buf_p := p, yy_last_state := fst ?l1, yy_last_cpos := snd ?l1\<rparr>) =
      Inr (if ?t = 180 then 0 else ?t, ?g2)"
    using s b(2) by (simp add: yy_try_NUL_trans_def last_accepting_ok yy_transition_cls YY_JAM_def split: prod.splits)
  ultimately have do_NUL: "do_NUL p g = Inr (if ?t = 180 then Goto (AtAction ?s p bp) ?g2
      else Goto (AtMatch ?t (p + 1) bp) (?g2\<lparr>yy_c_buf_p := p + 1\<rparr>))"
    using t g(2) by (simp add: do_NUL_def)
  have w: "left_from bp g = u @ (NUL # x) @ yyin g" by (simp add: left_from_def b(1))
  show ?thesis
  proof (cases "?t = 180")
    case True
    have "u \<noteq> []" using True acc_step_1 [of NUL] acc_simps by auto
    moreover have "acc ?s = 0 \<Longrightarrow> ?l2 = ?l1" by simp
    moreover have "lex_best ?s ((NUL # x) @ yyin g) = (if acc ?s \<noteq> 0 then Some (acc ?s, 0) else None)"
      using lex_best_dead [of 180 "x @ yyin g"] dead_180 True by (simp add: acc_simps)
    ultimately have "at_end ?g2 ?s p bp (left_from bp g)"
      using w b(2) le u by (intro at_endI [of _ bp ?g2 u "(NUL # x) @ yyin g" _ _ ?la]) simp_all
    with True do_NUL g(1) show ?thesis by (simp add: token_ends_def)
  next
    case False
    have "run_ok 1 (u @ [NUL])" using u s t False by (simp add: ok_def)
    then have "matching (?g2\<lparr>yy_c_buf_p := p + 1\<rparr>) ?t (p + 1) bp (left_from bp g)"
      using g b le by (intro matchingI [where u = "u @ [NUL]" and x = x and la = ?la]) simp_all
    moreover have "work (?g2\<lparr>yy_c_buf_p := p + 1\<rparr>) (p + 1) < work g p"
      using le by (simp add: work_def)
    ultimately show ?thesis using False do_NUL by (simp add: goes_on_def)
  qed
qed

lemma refill_step:
  assumes g: "wf g" "yytext_ptr g = bp" "bp \<le> yy_n_chars g" "yy_c_buf_p g = Suc (yy_n_chars g)" "b_status g \<noteq> YY_BUFFER_NEW"
    and u: "u = drop bp (held g)" "run_ok 1 u"
  shows "\<exists>nx. refilled (yy_n_chars g - bp) g = Inr nx \<and>
    (token_ends g (left_from bp g) nx \<or> text_ends g (left_from bp g) nx \<or> goes_on g (yy_n_chars g) (left_from bp g) nx)"
proof -
  have n: "length (held g) = yy_n_chars g" by (rule wf_buffer(2) [OF g(1)])
  have len: "yy_n_chars g - bp = length u" using n u(1) by simp
  note gn = g(1) g(3) [folded g(2)] g(4) u(1) [folded g(2)] g(5)
  show ?thesis
  proof (cases "yyin g = []")
    case False
    from next_buffer_continue [OF gn this] obtain g' l where
      g': "yy_get_next_buffer g = Inr (EOB_ACT_CONTINUE_SCAN, g')" "wf g'" "l \<noteq> []" "held g' = u @ l"
        "yyin g = l @ yyin g'" "yytext_ptr g' = 0" "kept g' = kept g" by blast
    let ?l = "last_acc 1 u 0 (yy_last_state g', yy_last_cpos g')"
    let ?g = "g'\<lparr>yy_c_buf_p := length u, yy_last_state := fst ?l, yy_last_cpos := snd ?l\<rparr>"
    have n': "yy_n_chars g' = length u + length l" using wf_buffer(2) [OF g'(2)] g'(4) by simp
    have "yy_get_previous_state (g'\<lparr>yy_c_buf_p := length u\<rparr>) = Inr (lex_run 1 u, ?g)"
      using previous_state [OF g'(2) _ _ u(2), of "length u"] g'(4,6) n' by simp
    then have "refilled (yy_n_chars g - bp) g = Inr (Goto (AtMatch (lex_run 1 u) (length u) 0) ?g)"
      using g'(1,6) len by (simp add: refilled_def Let_def)
    moreover have "matching ?g (lex_run 1 u) (length u) 0 (left_from bp g)"
      using g'(2,4,5) n' u by (intro matchingI [where u = u and x = l and la = "(yy_last_state g', yy_last_cpos g')"])
        (simp_all add: left_from_def)
    moreover have "work ?g (length u) < work g (yy_n_chars g)"
      using g'(3,5) n' by (simp add: work_def)
    moreover have "yyout ?g = yyout g" using g'(7) by (simp add: kept_def)
    ultimately show ?thesis by (simp add: goes_on_def)
  next
    case True
    from next_buffer_last [OF gn this] obtain g' where
      g': "yy_get_next_buffer g = Inr (if u = [] then EOB_ACT_END_OF_FILE else EOB_ACT_LAST_MATCH, g')" "wf g'"
        "held g' = u" "yyin g' = []" "yytext_ptr g' = 0" "kept g' = kept g" "u = [] \<longrightarrow> yy_hold_char g' = NUL" by blast
    have n': "yy_n_chars g' = length u" using wf_buffer(2) [OF g'(2)] g'(3) by simp
    have out: "yyout g' = yyout g" using g'(6) by (simp add: kept_def)
    have w: "left_from bp g = u" using True u(1) by (simp add: left_from_def)
    show ?thesis
    proof (cases "u = []")
      case True
      let ?g = "g'\<lparr>yy_c_buf_p := 0\<rparr>"
      have "yy_ch_buf g' ! 0 = NUL" "0 < length (yy_ch_buf g')" using g'(2) n' True by (auto simp: wf_def)
      then have "restored ?g = ?g" using g'(7) True by (simp add: restored_def list_update_same_conv)
      then have "ready ?g []" using g' True by (simp add: ready_def left_from_def)
      then show ?thesis using True g'(1,5) w out by (simp add: refilled_def text_ends_def)
    next
      case False
      let ?l = "last_acc 1 u 0 (yy_last_state g', yy_last_cpos g')"
      let ?g = "g'\<lparr>yy_c_buf_p := length u, yy_last_state := fst ?l, yy_last_cpos := snd ?l\<rparr>"
      have "yy_get_previous_state (g'\<lparr>yy_c_buf_p := length u\<rparr>) = Inr (lex_run 1 u, ?g)"
        using previous_state [OF g'(2) _ _ u(2), of "length u"] g'(3,5) n' by simp
      then have "refilled (yy_n_chars g - bp) g = Inr (Goto (AtAction (lex_run 1 u) (length u) 0) ?g)"
        using g'(1,5) n' False by (simp add: refilled_def)
      moreover have "at_end ?g (lex_run 1 u) (length u) 0 u"
        using g'(3,4) n' u(2) False
        by (intro at_endI [of _ 0 ?g u "[]" _ _ "(yy_last_state g', yy_last_cpos g')"]) (simp_all add: left_from_def)
      ultimately show ?thesis using g'(2) w out by (simp add: token_ends_def)
    qed
  qed
qed

section \<open>One token\<close>

lemma yyscan_goto: "yystep pt g = Inr (Goto pt' g') \<Longrightarrow> yyscan pt g = yyscan pt' g'"
  by (subst yyscan.simps) simp

lemma at_eob_left: "wf g \<Longrightarrow> left_from i (at_eob bp p g) = left_from i g"
  by (simp add: left_from_def at_eob_facts)

lemma at_eob_work: "wf g \<Longrightarrow> work (at_eob bp p g) i = work g i"
  by (simp add: work_def at_eob_facts)

lemma match_step:
  assumes m: "matching g s cp bp w"
  shows "\<exists>nx. (yystep (AtMatch s cp bp) g = Inr nx \<or>
      (\<exists>pt g'. yystep (AtMatch s cp bp) g = Inr (Goto pt g') \<and> yystep pt g' = Inr nx)) \<and>
    (token_ends g w nx \<or> text_ends g w nx \<or> goes_on g cp w nx)"
proof -
  from m obtain u la where u: "wf g" "cp = bp + length u" "cp \<le> yy_n_chars g"
    "u @ drop cp (held g) = drop bp (held g)" "w = left_from bp g"
    "s = lex_run 1 u" "run_ok 1 u" by (rule matching_parts)
  obtain z where z: "yy_ch_buf g = held g @ NUL # NUL # z" using wf_buffer(1) [OF u(1)] by blast
  have n: "length (held g) = yy_n_chars g" by (rule wf_buffer(2) [OF u(1)])
  have rest: "drop cp (yy_ch_buf g) = drop cp (held g) @ NUL # NUL # z"
    using u(3) n by (subst z) simp
  have s: "ok s" using run_ok_last [OF u(7)] u(6) by simp
  from s show ?thesis
  proof (cases rule: yy_match_text [of s "drop cp (held g)" z cp "(yy_last_state g, yy_last_cpos g)"])
    case (jam v)
    obtain ls lc where l: "(ls, lc) = last_acc s v cp (yy_last_state g, yy_last_cpos g)"
      by (metis surj_pair)
    have "yystep (AtMatch s cp bp) g =
        Inr (Goto (AtAction (lex_run s v) (cp + length v) bp) (g\<lparr>yy_last_state := ls, yy_last_cpos := lc\<rparr>))"
      using jam(2) rest by (simp add: yystep_def flip: l)
    with match_jams [OF m jam(1) l] show ?thesis by blast
  next
    case (eob v)
    let ?p = "cp + length v" and ?u = "u @ v"
    let ?g = "g\<lparr>yy_last_state := 3, yy_last_cpos := Suc ?p\<rparr>"
    let ?g' = "at_eob bp ?p ?g"
    have step: "yystep (AtMatch s cp bp) g = Inr (Goto (AtAction 180 (?p + 2) bp) ?g)"
      using eob(2) rest by (simp add: yystep_def)
    from eob(1) have v: "run_ok s v" "drop cp (held g) = v \<or> (\<exists>x. drop cp (held g) = v @ NUL # x)"
      by (auto simp: meets_NUL_def)
    then have ru: "run_ok 1 ?u" using u(6,7) by simp
    have g: "wf ?g" using u(1) by simp
    have "length v \<le> length (drop cp (held g))" using v(2) by (auto simp del: length_drop)
    then have p: "bp \<le> ?p" "?p \<le> yy_n_chars g" "?p = bp + length ?u"
      using n u(2,3) by simp_all
    note e = at_eob_facts [OF g, of bp ?p] and left = at_eob_left [OF g, of bp bp ?p]
    have action: "yystep (AtAction 180 (?p + 2) bp) ?g =
        (if Suc ?p \<le> yy_n_chars g then do_NUL ?p ?g' else refilled (?p - bp) ?g')"
      using eob_action [OF g p(1), of "?p + 2"] p(2) by simp
    have lift: "token_ends ?g' w nx \<or> text_ends ?g' w nx \<or> goes_on ?g' ?p w nx \<Longrightarrow>
        token_ends g w nx \<or> text_ends g w nx \<or> goes_on g cp w nx" for nx
      using at_eob_work [OF g, of bp ?p ?p] e(8)
      by (auto simp: token_ends_def text_ends_def goes_on_def work_def)
    have "\<exists>nx. yystep (AtAction 180 (?p + 2) bp) ?g = Inr nx \<and>
        (token_ends ?g' w nx \<or> text_ends ?g' w nx \<or> goes_on ?g' ?p w nx)"
    proof (cases "Suc ?p \<le> yy_n_chars g")
      case True
      have "drop cp (held g) \<noteq> v" using True n by (metis add_diff_inverse_nat length_drop not_less_eq_eq order_refl u(3) linorder_not_le)
      with v(2) obtain x where "drop cp (held g) = v @ NUL # x" by blast
      then have "drop bp (held ?g') = ?u @ NUL # x" using u(4) e(2) by simp
      from NUL_step [OF e(1,5) this p(3) ru] show ?thesis
        using True action left u(5) by auto
    next
      case False
      then have pn: "?p = yy_n_chars g" using p(2) by simp
      have "length (drop cp (held g)) = length v" using pn n u(3) by simp
      with v(2) have "drop cp (held g) = v" by (auto simp del: length_drop)
      then have "?u = drop bp (held ?g')" using u(4) e(2) by simp
      from refill_step [OF e(1,5) _ _ e(7) this ru] show ?thesis
        using False action left u(5) p(1) pn e(4,6) by simp
    qed
    then show ?thesis using step lift by blast
  qed
qed

lemma token_found:
  assumes "matching g s cp bp w"
  shows "\<exists>pt g' nx. yyscan (AtMatch s cp bp) g = yyscan pt g' \<and> yystep pt g' = Inr nx \<and>
    (token_ends g w nx \<or> text_ends g w nx)"
  using assms
proof (induction "work g cp" arbitrary: g s cp bp rule: less_induct)
  case less
  from match_step [OF less.prems] obtain nx where nx: "yystep (AtMatch s cp bp) g = Inr nx \<or>
      (\<exists>pt g'. yystep (AtMatch s cp bp) g = Inr (Goto pt g') \<and> yystep pt g' = Inr nx)"
    "token_ends g w nx \<or> text_ends g w nx \<or> goes_on g cp w nx" by blast
  then obtain pt g' where pt: "yyscan (AtMatch s cp bp) g = yyscan pt g'" "yystep pt g' = Inr nx"
    using yyscan_goto by blast
  show ?case
  proof (cases "goes_on g cp w nx")
    case True
    then obtain s2 cp2 bp2 g2 where n: "nx = Goto (AtMatch s2 cp2 bp2) g2" "matching g2 s2 cp2 bp2 w"
      "work g2 cp2 < work g cp" "yyout g2 = yyout g" unfolding goes_on_def by blast
    have "yyscan (AtMatch s cp bp) g = yyscan (AtMatch s2 cp2 bp2) g2"
      using pt n(1) yyscan_goto by metis
    with less.hyps [OF n(3,2)] n(4) show ?thesis
      unfolding token_ends_def text_ends_def by metis
  next
    case False
    with nx(2) pt show ?thesis by blast
  qed
qed

lemma rule_result_takes:
  assumes "longest_match w = Some (r, k)" "0 < k" "rule_result r (take k w) = (x, e, n)"
  shows "0 < n" "n \<le> length w"
  using assms(2,3) longest_match_rule(4,5) [OF assms(1)] by (auto simp: rule_result_def split: if_splits)

lemma ready_scan:
  assumes "ready g w"
  shows "yylex g = yyscan (AtMatch 1 (yy_c_buf_p g) (yy_c_buf_p g)) (restored g)"
    "matching (restored g) 1 (yy_c_buf_p g) (yy_c_buf_p g) w"
proof -
  from assms have r: "wf (restored g)" "yy_c_buf_p g \<le> yy_n_chars g" "left_from (yy_c_buf_p g) (restored g) = w"
    by (auto simp: ready_def)
  have g: "yy_c_buf_p g < length (yy_ch_buf g)" "yy_init g" "yy_start g = 1"
    using r(1,2) by (auto simp: wf_def restored_def)
  then have "yystep AtToken g = Inr (Goto (AtMatch 1 (yy_c_buf_p g) (yy_c_buf_p g)) (restored g))"
    by (simp add: yystep_def poke_def restored_def)
  then show "yylex g = yyscan (AtMatch 1 (yy_c_buf_p g) (yy_c_buf_p g)) (restored g)"
    using g yyscan_goto by (simp add: yylex_def)
  show "matching (restored g) 1 (yy_c_buf_p g) (yy_c_buf_p g) w"
    using r by (intro matchingI [where u = "[]" and la = "(yy_last_state g, yy_last_cpos g)"]) (simp_all add: restored_def)
qed

lemma yyscan_outcome:
  assumes "yystep pt g = Inr nx"
  shows "nx = Goto AtToken g' \<Longrightarrow> yy_init g' \<Longrightarrow> yyscan pt g = yylex g'"
    "nx = Return l g' \<Longrightarrow> yyscan pt g = Some (Inr (Some l, g'))"
    "nx = Eof g' \<Longrightarrow> yyscan pt g = Some (Inr (None, g'))"
    "nx = Goto pt' g' \<Longrightarrow> yyscan pt g = yyscan pt' g'"
  using assms by (simp_all add: yyscan.simps [of pt g] yylex_def)

lemma ready_init: "ready g w \<Longrightarrow> yy_init g"
  by (auto simp: ready_def restored_def wf_def)

lemma yylex_outcome:
  assumes "ready g w"
  shows "(w = [] \<and> (\<exists>g'. yylex g = Some (Inr (None, g')) \<and> ready g' [] \<and> yyout g' = yyout g)) \<or>
    (\<exists>r k x e n g'. longest_match w = Some (r, k) \<and> 0 < k \<and> rule_result r (take k w) = (x, e, n) \<and>
      ready g' (drop n w) \<and> yyout g' = yyout g @ e \<and>
      yylex g = (case x of None \<Rightarrow> yylex g' | Some l \<Rightarrow> Some (Inr (Some l, g'))))"
proof -
  note r = ready_scan [OF assms]
  have out: "yyout (restored g) = yyout g" by (simp add: restored_def)
  from token_found [OF r(2)] obtain pt g1 nx where s: "yylex g = yyscan pt g1" "yystep pt g1 = Inr nx"
    "token_ends (restored g) w nx \<or> text_ends (restored g) w nx" unfolding r(1) by blast
  from s(3) show ?thesis
  proof
    assume "text_ends (restored g) w nx"
    then show ?thesis using yyscan_outcome(3) [OF s(2)] s(1) out by (auto simp: text_ends_def)
  next
    assume "token_ends (restored g) w nx"
    then obtain s' cp bp g2 where e: "nx = Goto (AtAction s' cp bp) g2" "wf g2" "at_end g2 s' cp bp w" "yyout g2 = yyout g"
      unfolding token_ends_def out by blast
    from find_action_done [OF e(2,3)] obtain r k where lm: "longest_match w = Some (r, k)" "0 < k"
      "token_done g2 w r k (yystep (AtAction s' cp bp) g2)" by blast
    obtain x y n where res: "rule_result r (take k w) = (x, y, n)" by (metis surj_pair)
    with lm(3) obtain g' where g': "yystep (AtAction s' cp bp) g2 = Inr (case x of None \<Rightarrow> Goto AtToken g' | Some l \<Rightarrow> Return l g')"
      "ready g' (drop n w)" "yyout g' = yyout g2 @ y" unfolding token_done_def by auto
    have "yylex g = yyscan (AtAction s' cp bp) g2" using s(1) yyscan_outcome(4) [OF s(2) e(1)] by simp
    also have "\<dots> = (case x of None \<Rightarrow> yylex g' | Some l \<Rightarrow> Some (Inr (Some l, g')))"
      using yyscan_outcome(1,2) [OF g'(1)] ready_init [OF g'(2)] by (auto split: option.splits)
    finally show ?thesis using lm res g' e(4) by metis
  qed
qed

section \<open>All tokens\<close>

lemma yylex_returns: "ready g w \<Longrightarrow> \<exists>r. yylex g = Some (Inr r)"
proof (induction w arbitrary: g rule: length_induct)
  case (1 w)
  from yylex_outcome [OF 1(2)] show ?case
  proof (elim disjE conjE exE)
    fix r k x e n g'
    assume lm: "longest_match w = Some (r, k)" "0 < k" "rule_result r (take k w) = (x, e, n)"
      and g': "ready g' (drop n w)" and lex: "yylex g = (case x of None \<Rightarrow> yylex g' | Some l \<Rightarrow> Some (Inr (Some l, g')))"
    from rule_result_takes [OF lm] have "length (drop n w) < length w" by simp
    with 1(1) g' have "\<exists>r. yylex g' = Some (Inr r)" by blast
    then show ?thesis using lex by (cases x) auto
  qed simp
qed

lemma yylex_all_cong:
  assumes "ready g w" "yylex g' = yylex g"
  shows "yylex_all g' = yylex_all g"
proof -
  obtain r where "yylex g = Some (Inr r)" using yylex_returns [OF assms(1)] by blast
  then show ?thesis using assms(2) by (subst (1 2) yylex_all.simps) simp
qed

lemma yylex_all_outcome:
  "ready g w \<Longrightarrow> \<exists>g'. yylex_all g = Some (fst (scan_text w), g') \<and> yyout g' = yyout g @ snd (scan_text w) \<and> ready g' []"
proof (induction w arbitrary: g rule: length_induct)
  case (1 w)
  from yylex_outcome [OF 1(2)] show ?case
  proof (elim disjE conjE exE)
    fix g'
    assume "w = []" "yylex g = Some (Inr (None, g'))" "ready g' []" "yyout g' = yyout g"
    then show ?thesis by (subst yylex_all.simps) (simp add: scan_text.simps)
  next
    fix r k x e n g'
    assume lm: "longest_match w = Some (r, k)" "0 < k" "rule_result r (take k w) = (x, e, n)"
      and g': "ready g' (drop n w)" "yyout g' = yyout g @ e"
      and lex: "yylex g = (case x of None \<Rightarrow> yylex g' | Some l \<Rightarrow> Some (Inr (Some l, g')))"
    note n = rule_result_takes [OF lm]
    obtain xs es where rest: "scan_text (drop n w) = (xs, es)" by (metis surj_pair)
    have "w \<noteq> []" using n by auto
    then have scan: "scan_text w = (case x of None \<Rightarrow> xs | Some l \<Rightarrow> l # xs, e @ es)"
      using lm(1,3) n(1) rest by (subst scan_text.simps) (simp add: max_absorb2 Suc_leI)
    have "length (drop n w) < length w" using n by simp
    with 1(1) g'(1) rest obtain g2 where
      g2: "yylex_all g' = Some (xs, g2)" "yyout g2 = yyout g' @ es" "ready g2 []" by fastforce
    show ?thesis
    proof (cases x)
      case None
      then have "yylex_all g = yylex_all g'" using lex by (intro yylex_all_cong [OF g'(1)]) simp
      then show ?thesis using g2 g'(2) scan None by simp
    next
      case (Some l)
      then have "yylex_all g = Some (l # xs, g2)" using lex g2(1) by (subst yylex_all.simps) simp
      then show ?thesis using g2 g'(2) scan Some by simp
    qed
  qed
qed

lemma yylex_first:
  assumes "length file < 2 ^ 29"
  obtains g where "ready g file" "yylex (yylex_init file tty) = yylex g" "yyout g = []"
    "yylex_all (yylex_init file tty) = yylex_all g"
proof -
  let ?b = "replicate (YY_BUF_SIZE + 2) NUL"
  let ?g = "(yylex_init file tty)\<lparr>yy_init := True, yy_start := 1, b_buf_size := YY_BUF_SIZE, yy_ch_buf := ?b,
    b_fill_buffer := True, b_lineno := 1, b_is_interactive := tty\<rparr>"
  have b: "?b[0 := NUL] = ?b" "?b[Suc 0 := NUL] = ?b"
    by (simp_all only: list_update_same_conv length_replicate nth_replicate YY_BUF_SIZE_def)
  have r: "restored ?g = ?g" using b by (simp add: restored_def yylex_init_def)
  have "wf ?g" using assms by (simp add: wf_def yylex_init_def YY_BUF_SIZE_def del: replicate_Suc)
  then have "ready ?g file" unfolding ready_def r by (simp add: left_from_def held_def yylex_init_def)
  moreover have "res_bind (yy_create_buffer YY_BUF_SIZE ((yylex_init file tty)\<lparr>yy_init := True, yy_start := 1\<rparr>)) yy_load_buffer_state = Inr ?g"
    using b by (simp add: yy_create_buffer_def yy_init_buffer_def yy_flush_buffer_def yy_load_buffer_state_def
      poke_def peek_def yylex_init_def Let_def del: replicate_Suc)
  then have lex: "yylex (yylex_init file tty) = yylex ?g" by (simp add: yylex_def yylex_init_def)
  moreover have "yyout ?g = []" by (simp add: yylex_init_def)
  ultimately show thesis using that yylex_all_cong [OF _ lex] by blast
qed

end
