(* ===== verification/Lexer_Words.thy ===== *)
theory Lexer_Words
  imports Lexer_Scan
begin

text \<open>
  What the rules of \<open>config.l\<close> match, up to which character, and how tokens can be written so that the
  scanner reads them back.
\<close>

section \<open>What the rules match\<close>

definition words :: "string list" where
  "words =
     [''{'', ''}'', '';'', ''options'', ''pid'', ''file'', ''debug'', ''level'', ''action'', ''command'', ''start'',
      ''stop'', ''slots'', ''time'', ''size'', ''expire'', ''delay'', ''filter'', ''profile'', ''input'', ''shm'',
      ''when'', ''track'', ''hash'', ''buckets'', ''dstip'', ''window'', ''db'', ''connect'', ''export'', ''min'',
      ''nterval'', ''dynamic'', ''limit'', ''bps'', ''b/s'', ''pps'', ''p/s'', ''f/s'', ''fps'', ''flows'', ''flowps'']"

definition blank :: char where
  "blank = CHR '' ''"

definition digits :: string where
  "digits = ''0123456789''"

definition matched :: "string \<Rightarrow> bool" where
  "matched u \<longleftrightarrow> length u = 1 \<or> u \<in> set words \<or> u \<noteq> [] \<and>
     (hd u = CHR ''#'' \<or> hd u = QUOTE \<and> closes (tl u) \<or> set u \<subseteq> set digits \<or> set u \<subseteq> {blank, TAB})"

lemma matched_rules:
  "x \<in> set words \<Longrightarrow> rule_matches (lit x, Eps) u \<longrightarrow> matched u"
  "rule_matches (lit ''flow'', lit ''s'') u \<longrightarrow> matched u"
  "rule_matches (Chars cs, Eps) u \<longrightarrow> matched u"
  "rule_matches (any, Eps) u \<longrightarrow> matched u"
  "rule_matches (Seq (Chars ''#'') e, Eps) u \<longrightarrow> matched u"
  "rule_matches (Seq (Chars [QUOTE]) (Seq (Star (Alt (Seq (Chars [BACKSLASH]) dot) (NotChars [QUOTE]))) (Chars [QUOTE])), Eps) u \<longrightarrow> matched u"
  "rule_matches (rplus (Chars ''0123456789''), Eps) u \<longrightarrow> matched u"
  "rule_matches (rplus (Chars [CHR '' '', TAB]), Eps) u \<longrightarrow> matched u"
proof -
  show "x \<in> set words \<Longrightarrow> rule_matches (lit x, Eps) u \<longrightarrow> matched u"
    by (simp add: rule_matches_simple rmatch_lit matched_def)
  show "rule_matches (lit ''flow'', lit ''s'') u \<longrightarrow> matched u"
  proof -
    have "''flow'' @ ''s'' \<in> set words" by (simp add: words_def)
    then show ?thesis unfolding matched_def rule_matches_def fst_conv snd_conv rmatch_Seq rmatch_lit by blast
  qed
  show "rule_matches (Chars cs, Eps) u \<longrightarrow> matched u" "rule_matches (any, Eps) u \<longrightarrow> matched u"
    by (auto simp add: rule_matches_simple matched_def rmatch_Chars any_def)
  show "rule_matches (Seq (Chars ''#'') e, Eps) u \<longrightarrow> matched u"
    "rule_matches (Seq (Chars [QUOTE]) (Seq (Star (Alt (Seq (Chars [BACKSLASH]) dot) (NotChars [QUOTE]))) (Chars [QUOTE])), Eps) u \<longrightarrow> matched u"
    by (auto simp add: rule_matches_simple matched_def rmatch_Seq [of "Chars _"] rmatch_Chars closes_def string_body_def)
  show "rule_matches (rplus (Chars ''0123456789''), Eps) u \<longrightarrow> matched u"
    "rule_matches (rplus (Chars [CHR '' '', TAB]), Eps) u \<longrightarrow> matched u"
    unfolding rule_matches_simple rmatch_plus matched_def digits_def blank_def by auto
qed

lemma rules_matched: "list_all (\<lambda>p. rule_matches p u \<longrightarrow> matched u) config_rules"
  unfolding config_rules_def list.pred_inject(2)
  by (intro conjI list.pred_inject(1) TrueI; (rule matched_rules(2-8) | rule matched_rules(1), simp add: words_def))

lemma rule_of_matched: "rule_of u \<noteq> 0 \<Longrightarrow> matched u"
proof -
  assume "rule_of u \<noteq> 0"
  then have "rule_matches (config_rules ! nat (rule_of u - 1)) u" "1 \<le> rule_of u"
    using first_rule_matches [of 1 config_rules u] by (auto simp: rule_of_def)
  moreover have "nat (rule_of u - 1) < length config_rules"
    using rule_of_range [of u] calculation(2) by (simp add: config_rules_def)
  ultimately show ?thesis using rules_matched by (auto simp: list_all_length)
qed

lemma seq_char: "rmatch (Seq (Chars [c]) e) u \<longleftrightarrow> (\<exists>y. u = c # y \<and> rmatch e y)"
  by (auto simp: rmatch_Seq rmatch_Chars)

lemmas rule_simps = rule_of_def config_rules_def rule_matches_simple rmatch_lit seq_char rmatch_Chars QUOTE_def

lemma longest_is:
  assumes "f (take k w) \<noteq> 0" "k \<le> n" "\<And>j. k < j \<Longrightarrow> j \<le> n \<Longrightarrow> f (take j w) = 0"
  shows "longest f n w = Some (f (take k w), k)"
  using assms
proof (induction n)
  case (Suc n)
  then show ?case by (cases "k = Suc n") auto
qed simp

lemma longest_match_is:
  assumes "rule_of u \<noteq> 0" "\<And>v z. v \<noteq> [] \<Longrightarrow> rest = v @ z \<Longrightarrow> \<not> matched (u @ v)"
  shows "longest_match (u @ rest) = Some (rule_of u, length u)"
proof -
  have "rule_of (take j (u @ rest)) = 0" if "length u < j" "j \<le> length (u @ rest)" for j
  proof -
    have "take (j - length u) rest \<noteq> []" using that by auto
    from assms(2) [OF this, of "drop (j - length u) rest"] have "\<not> matched (take j (u @ rest))" using that by simp
    then show ?thesis using rule_of_matched by blast
  qed
  then show ?thesis
    using longest_is [of rule_of "length u" "u @ rest" "length (u @ rest)"] assms(1)
    by (simp add: longest_match_def)
qed

lemma words_facts: "\<forall>u \<in> set words. u \<noteq> [] \<and> blank \<notin> set u \<and> hd u \<notin> {CHR ''#'', QUOTE, blank, TAB}"
  by (simp add: words_def blank_def QUOTE_def TAB_def)

lemma blank_facts: "blank \<notin> set digits" "TAB \<notin> set digits" "QUOTE \<notin> set digits" "CHR ''#'' \<notin> set digits"
    "blank \<noteq> QUOTE" "blank \<noteq> CHR ''#''" "QUOTE \<noteq> CHR ''#''" "QUOTE \<noteq> blank" "QUOTE \<noteq> TAB" "blank \<noteq> TAB"
  by (simp_all add: digits_def blank_def QUOTE_def TAB_def)

text \<open>A word or a number is matched up to the blank that follows it.\<close>

definition clean :: "string \<Rightarrow> bool" where
  "clean u \<longleftrightarrow> u \<noteq> [] \<and> hd u \<notin> {CHR ''#'', QUOTE, blank, TAB} \<and> blank \<notin> set u"

lemma clean_longest:
  assumes "clean u" "rule_of u \<noteq> 0"
  shows "longest_match (u @ blank # rest) = Some (rule_of u, length u)"
proof (rule longest_match_is [OF assms(2)])
  fix v z :: string
  assume "v \<noteq> []" "blank # rest = v @ z"
  then obtain y where "v = blank # y" by (cases v) auto
  moreover obtain c x where "u = c # x" using assms(1) by (cases u) (auto simp: clean_def)
  ultimately show "\<not> matched (u @ v)"
    using assms(1) words_facts blank_facts by (auto simp: matched_def clean_def)
qed

lemma blank_longest:
  assumes "rest = [] \<or> hd rest \<notin> {blank, TAB}"
  shows "longest_match (blank # rest) = Some (49, 1)"
proof -
  have r: "rule_of [blank] = 49"
    by (simp add: rule_of_def config_rules_def rule_matches_simple rule_matches_def [of "(lit ''flow'', lit ''s'')"]
      rmatch_lit rmatch_Chars rmatch_plus rmatch_Seq blank_def QUOTE_def LF_def TAB_def any_def del: lit.simps)
  have "longest_match ([blank] @ rest) = Some (rule_of [blank], length [blank])"
  proof (rule longest_match_is)
    fix v z :: string
    assume "v \<noteq> []" "rest = v @ z"
    then show "\<not> matched ([blank] @ v)"
      using assms words_facts blank_facts by (cases v) (auto simp: matched_def)
  qed (simp add: r)
  then show ?thesis by (simp add: r)
qed

lemma closes_first: "QUOTE \<notin> set x \<Longrightarrow> BACKSLASH \<notin> set x \<Longrightarrow> closes (x @ QUOTE # v) \<longleftrightarrow> v = []"
  by (induction x) (auto simp: closes_Cons quote_neq)

lemma string_longest:
  assumes "QUOTE \<notin> set x" "BACKSLASH \<notin> set x"
  shows "longest_match (QUOTE # x @ QUOTE # rest) = Some (36, length x + 2)"
proof -
  let ?u = "QUOTE # x @ [QUOTE]"
  have "rule_matches (Seq (Chars [QUOTE]) (Seq (Star (Alt (Seq (Chars [BACKSLASH]) dot) (NotChars [QUOTE]))) (Chars [QUOTE])), Eps) ?u"
    using closes_first [OF assms, of "[]"]
    by (simp add: rule_matches_simple rmatch_Seq [of "Chars [QUOTE]"] rmatch_Chars flip: closes_def string_body_def)
  then have r: "rule_of ?u = 36"
    by (simp add: rule_of_def config_rules_def rule_matches_simple rule_matches_def [of "(lit ''flow'', lit ''s'')"]
      rmatch_lit rmatch_Seq [of "Chars ''#''"] rmatch_Chars QUOTE_def del: lit.simps)
  have "longest_match (?u @ rest) = Some (rule_of ?u, length ?u)"
  proof (rule longest_match_is)
    fix v z :: string
    assume "v \<noteq> []" "rest = v @ z"
    then show "\<not> matched (?u @ v)"
      using assms words_facts blank_facts closes_first by (auto simp: matched_def)
  qed (simp add: r)
  then show ?thesis by (simp add: r)
qed

section \<open>The text of tokens\<close>

text \<open>How a token can be written: a keyword, a number, a factor, a string without quotes in it.\<close>

definition spellings :: "(yytokentype \<times> string) list" where
  "spellings =
     [(OBRACE, ''{''), (EBRACE, ''}''), (SEMICOLON, '';''), (OPTIONSTOK, ''options''), (PIDTOK, ''pid''),
      (FILETOK, ''file''), (DEBUGTOK, ''debug''), (LEVELTOK, ''level''), (ACTIONTOK, ''action''),
      (COMMANDTOK, ''command''), (STARTTOK, ''start''), (STOPTOK, ''stop''), (SLOTSTOK, ''slots''), (TIMETOK, ''time''),
      (SIZETOK, ''size''), (EXPIRETOK, ''expire''), (DELAYTOK, ''delay''), (FILTERTOK, ''filter''),
      (PROFILETOK, ''profile''), (INPUTTOK, ''input''), (SHMTOK, ''shm''), (WHENTOK, ''when''), (TRACKTOK, ''track''),
      (HASHTOK, ''hash''), (BUCKETSTOK, ''buckets''), (DSTIPTOK, ''dstip''), (WINDOWTOK, ''window''), (DBTOK, ''db''),
      (CONNECTTOK, ''connect''), (EXPORTTOK, ''export''), (MINTOK, ''min''), (INTERVALTOK, ''nterval''),
      (DYNAMICTOK, ''dynamic''), (LIMITTOK, ''limit''), (BITPSTOK, ''bps''), (PPSTOK, ''pps''), (FPSTOK, ''fps'')]"

fun lexeme_text :: "lexeme \<Rightarrow> string option" where
  "lexeme_text (Lex t None) = map_of spellings t"
| "lexeme_text (Lex NUMBER (Some (VNumber n))) = (if 0 \<le> n \<and> n < 2 ^ 31 then Some (dec_of_nat (nat n)) else None)"
| "lexeme_text (Lex FACTOR (Some (VNumber k))) = (if k = 1000 then Some ''k'' else if k = 1000000 then Some ''M'' else None)"
| "lexeme_text (Lex STRING (Some (VString x))) =
     (if QUOTE \<notin> set x \<and> BACKSLASH \<notin> set x \<and> NUL \<notin> set x \<and> length x < MAX_STRING then Some (QUOTE # x @ [QUOTE]) else None)"
| "lexeme_text _ = None"

fun tokens_text :: "lexeme list \<Rightarrow> string option" where
  "tokens_text [] = Some []"
| "tokens_text (x # xs) =
     Option.bind (lexeme_text x) (\<lambda>u. Option.bind (tokens_text xs) (\<lambda>us. Some (u @ blank # us)))"

lemma spelling_rules:
  "list_all (\<lambda>(t, u). u \<in> set words \<and> rule_token (rule_of u) = Some t \<and> rule_of u \<notin> {0, 1, 36, 43, 45, 46, 47, 48, 49, 50}) spellings"
  unfolding spellings_def list.pred_inject prod.case
  by (intro conjI TrueI;
    simp add: words_def rule_token_def rule_simps del: lit.simps)

end
