(* ===== verification/Scanner.thy ===== *)
theory Scanner
  imports Lexer_Words
begin

text \<open>
  What the scanner promises: its tables are the rules of \<open>config.l\<close>, a call of \<open>yylex\<close> takes the
  longest match of the text that is left, the text of a file comes through the buffer unchanged, and
  a whole file is scanned to the tokens of the specification.
\<close>

section \<open>Tables and rules\<close>

lemma run_out_of_rules:
  assumes "\<not> run_ok 1 u"
  shows "rule_of u = 0"
proof -
  have "ok s \<Longrightarrow> \<not> run_ok s v \<Longrightarrow> lex_run s v = 180" for s v
  proof (induction v arbitrary: s)
    case (Cons c v)
    let ?t = "lex_step s (cls c)"
    have 180: "lex_run 180 x = 180" for x
      by (induction x) (use dead_step [of 180] dead_180 cls_range in auto)
    show ?case
    proof (cases "?t = 180")
      case False
      then have "ok ?t" using step_bounds [OF Cons.prems(1), of c] by (simp add: ok_def)
      then show ?thesis using Cons by simp
    qed (simp add: 180)
  qed simp
  from this [OF ok_1 assms] show ?thesis
    using acc_run_1 [of u] acc_simps by simp
qed

text \<open>One token: the rule that matches it and what the rule gives for it.\<close>

lemma scan_token:
  assumes "longest_match (u @ rest) = Some (r, length u)" "rule_result r u = (Some x, [], length u)" "u \<noteq> []"
  shows "scan_text (u @ rest) = (x # fst (scan_text rest), snd (scan_text rest))"
  using assms by (subst scan_text.simps) (auto simp: max_absorb2 Suc_le_eq split: prod.splits)

lemma scan_blank:
  "rest = [] \<or> hd rest \<notin> {blank, TAB} \<Longrightarrow> scan_text (blank # rest) = scan_text rest"
  using blank_longest [of rest] by (subst scan_text.simps) (simp add: rule_result_def split: prod.splits)

lemma is_digit_char: "is_digit c \<Longrightarrow> c \<in> set digits"
proof -
  assume "is_digit c"
  then have "(of_char c :: nat) \<in> set [48..<58]" unfolding is_digit_def set_upt by simp
  moreover have "[48..<58] = map of_char digits" by (simp add: digits_def upt_rec_numeral)
  ultimately have "(of_char c :: nat) \<in> of_char ` set digits" by (metis list.set_map)
  then show ?thesis by (metis imageE of_char_eq_iff)
qed

lemma digit_steps: "lex_step 1 7 = 9" "lex_step 9 7 = 37" "lex_step 37 7 = 37" "acc 9 = 47" "acc 37 = 47"
  by (simp_all add: lex_step_def lex_target_def lex_rows_def acc_def yy_accept_def)

lemma digits_rule:
  assumes "u \<noteq> []" "set u \<subseteq> set digits"
  shows "rule_of u = 47" "clean u"
proof -
  obtain c v where u: "u = c # v" using assms(1) by (cases u) auto
  have d: "c \<in> set digits \<Longrightarrow> cls c = 7" for c by (simp add: cls_digit digits_def)
  have run: "set v \<subseteq> set digits \<Longrightarrow> lex_run 37 v = 37" for v
    using digit_steps d by (induction v) simp_all
  have "lex_run 1 u \<in> {9, 37}"
    using u assms(2) digit_steps d run by (cases v) simp_all
  then show "rule_of u = 47" using acc_run_1 [of u] digit_steps by auto
  show "clean u" using assms blank_facts u by (auto simp: clean_def)
qed

lemma number_rule: "rule_of (dec_of_nat n) = 47" "clean (dec_of_nat n)"
proof -
  have "dec_of_nat n \<noteq> []" by (subst dec_of_nat.simps) simp
  moreover have "set (dec_of_nat n) \<subseteq> set digits" using dec_of_nat_digits is_digit_char by blast
  ultimately show "rule_of (dec_of_nat n) = 47" "clean (dec_of_nat n)" by (rule digits_rule)+
qed

lemma factor_rules: "rule_of ''k'' = 45" "rule_of ''M'' = 46" "clean ''k''" "clean ''M''"
  by (simp_all add: rule_simps rmatch_plus rule_matches_def [of "(lit ''flow'', lit ''s'')"] rmatch_Seq
    clean_def blank_def TAB_def any_def LF_def del: lit.simps)

lemma spelling:
  assumes "map_of spellings t = Some u"
  shows "clean u" "rule_of u \<noteq> 0" "rule_result (rule_of u) u = (Some (Lex t None), [], length u)"
proof -
  have "(t, u) \<in> set spellings" using assms by (rule map_of_SomeD)
  with spelling_rules have "u \<in> set words" "rule_token (rule_of u) = Some t" 
    "rule_of u \<notin> {0, 1, 36, 43, 45, 46, 47, 48, 49, 50}" by (auto simp: list_all_iff)
  then show "clean u" "rule_of u \<noteq> 0" "rule_result (rule_of u) u = (Some (Lex t None), [], length u)"
    using words_facts by (auto simp: clean_def rule_result_def)
qed

lemma clean_scan:
  assumes "clean u" "rule_of u \<noteq> 0" "rule_result (rule_of u) u = (Some x, [], length u)"
  shows "scan_text (u @ blank # rest) = (x # fst (scan_text (blank # rest)), snd (scan_text (blank # rest))) \<and>
    u \<noteq> [] \<and> hd u \<notin> {blank, TAB}"
  using scan_token [OF clean_longest [OF assms(1,2)] assms(3)] assms(1) by (simp add: clean_def)

lemma string_value_plain:
  assumes "NUL \<notin> set x" "length x < MAX_STRING"
  shows "string_value (QUOTE # x @ [QUOTE]) = Inr x"
proof -
  have "NUL \<noteq> QUOTE" by (simp add: NUL_def QUOTE_def)
  then have "takeWhile (\<lambda>c. c \<noteq> NUL) (take (MAX_STRING - 1) (x @ [QUOTE])) = take (MAX_STRING - 1) (x @ [QUOTE])"
    using assms(1) by (intro takeWhile_eq_all_conv [THEN iffD2]) (auto dest: in_set_takeD)
  then show ?thesis using assms(2) by (simp add: string_value_def)
qed

lemma string_value_long: "MAX_STRING \<le> length x \<Longrightarrow> string_value (QUOTE # x @ [QUOTE]) = Inl BufferOverflow"
  by (simp add: string_value_def)

lemma lexeme_scan:
  assumes "lexeme_text x = Some u"
  shows "scan_text (u @ blank # rest) = (x # fst (scan_text (blank # rest)), snd (scan_text (blank # rest))) \<and>
    u \<noteq> [] \<and> hd u \<notin> {blank, TAB}"
  using assms
proof (cases x rule: lexeme_text.cases)
  case (1 t)
  with spelling [of t u] assms show ?thesis by (intro clean_scan) auto
next
  case (2 n)
  then have "u = dec_of_nat (nat n)" "c_atoi u = n" using assms c_atoi_dec [of "nat n"] by (auto split: if_splits)
  with 2 show ?thesis using number_rule [of "nat n"] by (intro clean_scan) (auto simp: rule_result_def)
next
  case (3 k)
  with assms factor_rules show ?thesis
    by (intro clean_scan) (auto simp: rule_result_def split: if_splits)
next
  case (4 s)
  then have s: "u = QUOTE # s @ [QUOTE]" "QUOTE \<notin> set s" "BACKSLASH \<notin> set s" "NUL \<notin> set s" "length s < MAX_STRING"
    using assms by (auto split: if_splits)
  have "rule_result 36 u = (Some x, [], length u)" using s string_value_plain 4 by (simp add: rule_result_def)
  from scan_token [OF _ this, of "blank # rest"] show ?thesis
    using string_longest [OF s(2,3), of "blank # rest"] s(1) blank_facts by simp
qed auto

lemma scan_tokens_text: "tokens_text ts = Some w \<Longrightarrow> scan_text w = (ts, []) \<and> (w = [] \<or> hd w \<notin> {blank, TAB})"
proof (induction ts arbitrary: w)
  case (Cons x xs)
  then obtain u us where u: "lexeme_text x = Some u" "tokens_text xs = Some us" "w = u @ blank # us"
    by (auto simp: bind_eq_Some_conv)
  with Cons.IH show ?case
    using lexeme_scan [OF u(1), of us] scan_blank [of us] by simp
qed (simp add: scan_text.simps)

lemma scan_echo:
  assumes "rule_of [c] = 50" "\<And>v z. v \<noteq> [] \<Longrightarrow> rest = v @ z \<Longrightarrow> \<not> matched (c # v)"
  shows "scan_text (c # rest) = (fst (scan_text rest), c # snd (scan_text rest))"
  using longest_match_is [of "[c]" rest] assms
  by (subst scan_text.simps) (auto simp: rule_result_def split: prod.splits)

lemma other_chars: "\<forall>c \<in> set ''iflow/s''. rule_of [c] = 50"
  by (simp add: rule_simps rmatch_plus rule_matches_def [of "(lit ''flow'', lit ''s'')"] rmatch_Seq any_def LF_def TAB_def
    del: lit.simps)

lemma prefix_cases: "x = v @ z \<Longrightarrow> v \<noteq> [] \<Longrightarrow> v \<in> set (map (\<lambda>n. take n x) [1..<Suc (length x)])"
  by (auto intro!: image_eqI [where x = "length v"] simp: Suc_le_eq)

lemma yylex_ready: "ready g w \<Longrightarrow> \<exists>x g' v. yylex g = Some (Inr (x, g')) \<and> ready g' v"
proof (induction w arbitrary: g rule: length_induct)
  case (1 w)
  from yylex_outcome [OF 1(2)] show ?case
  proof (elim disjE conjE exE)
    fix r k x e n g'
    assume lm: "longest_match w = Some (r, k)" "0 < k" "rule_result r (take k w) = (x, e, n)"
      and g': "ready g' (drop n w)" and lex: "yylex g = (case x of None \<Rightarrow> yylex g' | Some l \<Rightarrow> Some (Inr (Some l, g')))"
    from rule_result_takes [OF lm] have "length (drop n w) < length w" by simp
    with 1(1) g' have "\<exists>x g2 v. yylex g' = Some (Inr (x, g2)) \<and> ready g2 v" by blast
    then show ?thesis using lex g' by (cases x) auto
  qed blast
qed

lemma yylex_all_scan_text:
  assumes "length file < 2 ^ 29"
  shows "\<exists>g. yylex_all (yylex_init file tty) = Some (fst (scan_text file), g) \<and> yyout g = snd (scan_text file)"
proof -
  obtain g where g: "ready g file" "yyout g = []" "yylex_all (yylex_init file tty) = yylex_all g"
    using yylex_first [OF assms] by metis
  from yylex_all_outcome [OF g(1)] g(2,3) show ?thesis by auto
qed

lemma not_matched:
  assumes "x = v @ z" "v \<noteq> []" "list_all (\<lambda>v. \<not> matched (c # v)) (map (\<lambda>n. take n x) [1..<Suc (length x)])"
  shows "\<not> matched (c # v)"
  using prefix_cases [OF assms(1,2)] assms(3) by (auto simp: list_all_iff)

lemma echo_words:
  "v \<noteq> [] \<Longrightarrow> ''nterval'' = v @ z \<Longrightarrow> \<not> matched (CHR ''i'' # v)"
  "v \<noteq> [] \<Longrightarrow> ''low/s'' = v @ z \<Longrightarrow> \<not> matched (CHR ''f'' # v)"
  "v \<noteq> [] \<Longrightarrow> ''ow/s'' = v @ z \<Longrightarrow> \<not> matched (CHR ''l'' # v)"
  "v \<noteq> [] \<Longrightarrow> ''w/s'' = v @ z \<Longrightarrow> \<not> matched (CHR ''o'' # v)"
  "v \<noteq> [] \<Longrightarrow> ''/s'' = v @ z \<Longrightarrow> \<not> matched (CHR ''w'' # v)"
  "v \<noteq> [] \<Longrightarrow> ''s'' = v @ z \<Longrightarrow> \<not> matched (CHR ''/'' # v)"
  by (erule (1) not_matched, simp add: upt_rec_numeral matched_def words_def digits_def blank_def TAB_def QUOTE_def)+

lemma spelling_alone:
  assumes "map_of spellings t = Some u"
  shows "longest_match u = Some (rule_of u, length u)" "scan_text u = ([Lex t None], [])"
proof -
  have "longest_match (u @ []) = Some (rule_of u, length u)"
    by (rule longest_match_is) (use spelling(2) [OF assms] in auto)
  then show "longest_match u = Some (rule_of u, length u)" "scan_text u = ([Lex t None], [])"
    using scan_token [of u "[]"] spelling(1,3) [OF assms] by (simp_all add: scan_text.simps [of "[]"] clean_def)
qed

lemma nterval_spelling: "map_of spellings INTERVALTOK = Some ''nterval''"
  by (simp add: spellings_def)

lemmas nterval = spelling_alone [OF nterval_spelling] spelling [OF nterval_spelling]

section \<open>Properties\<close>

text \<open>C3. The tables of the scanner are the rules of \<open>config.l\<close>. After a text over which the automaton
  has not jammed, the state it is in accepts the first rule that matches the whole text, or nothing
  when no rule does; a text over which it jams is matched by no rule.\<close>

theorem tables_are_rules:
  "(run_ok 1 u \<longrightarrow> (\<exists>s la'. yy_previous u 1 cp la = Inr (s, la') \<and> tbl yy_accept s = Inr (rule_of u))) \<and>
   (\<not> run_ok 1 u \<longrightarrow> rule_of u = 0)"
  using run_ok_last [of 1 u] run_out_of_rules [of u]
  by (auto simp: yy_previous_run tbl_accept ok_def acc_run_1)

text \<open>One call of \<open>yylex\<close>, from any state between two tokens and for any text left in the buffer and
  the file. At the end of the text it returns 0. Otherwise it takes the longest match and the first
  rule for it and performs the action of that rule: it returns the token of the rule, or goes on
  behind the text when the rule has none. The text behind the match is left for the next call.\<close>

theorem yylex_next_token:
  assumes "ready g w"
  shows "if w = [] then \<exists>g'. yylex g = Some (Inr (None, g')) \<and> ready g' [] \<and> yyout g' = yyout g
    else \<exists>r k x e n g'. longest_match w = Some (r, k) \<and> 0 < k \<and> rule_result r (take k w) = (x, e, n) \<and>
      ready g' (drop n w) \<and> yyout g' = yyout g @ e \<and>
      yylex g = (case x of None \<Rightarrow> yylex g' | Some l \<Rightarrow> Some (Inr (Some l, g')))"
proof (cases "w = []")
  case True
  have "longest_match [] \<noteq> Some (r, k)" if "0 < k" for r k
    using that longest_match_rule(4) [of "[]" r k] by auto
  then show ?thesis using yylex_outcome [OF assms] True by auto
next
  case False
  with yylex_outcome [OF assms] show ?thesis by (simp only: if_False simp_thms)
qed

text \<open>C4. A whole file. The calls of \<open>yylex\<close> end and give the tokens of the specification, and the text
  that no rule matches is written to the output, however the file is read: in blocks, or in lines
  from a terminal.\<close>

theorem yylex_all_scans:
  assumes "length file < 2 ^ 29"
  shows "\<exists>g. yylex_all (yylex_init file tty) = Some (fst (scan_text file), g) \<and> yyout g = snd (scan_text file)"
  using assms by (rule yylex_all_scan_text)

text \<open>C17. The bounds of the buffer. A call of \<open>yylex\<close> between two tokens returns, reads and writes no
  character outside the buffer, and leaves the text and the two NUL characters behind it within the
  buffer, which does not grow past 2 ^ 30 characters; the current place is inside the text.\<close>

theorem yylex_stays_in_buffer:
  assumes "ready g w"
  shows "\<exists>x g'. yylex g = Some (Inr (x, g')) \<and> length (yy_ch_buf g') = b_buf_size g' + 2 \<and>
    yy_n_chars g' < b_buf_size g' \<and> b_buf_size g' \<le> 2 ^ 30 \<and> yy_c_buf_p g' \<le> yy_n_chars g'"
proof -
  obtain x g' v where "yylex g = Some (Inr (x, g'))" "ready g' v"
    using yylex_ready [OF assms] by blast
  then show ?thesis by (auto simp: ready_def wf_def restored_def)
qed

text \<open>C29. Filling the buffer at the end of the text it holds loses and repeats nothing: the part of the
  current token is moved to the start, and what follows it are the next characters of the file. The
  scan goes on when the file has more; a token is ended by the end of the file, and without a token
  the scan ends.\<close>

theorem yy_get_next_buffer_keeps_text:
  assumes "wf g" "yytext_ptr g \<le> yy_n_chars g" "yy_c_buf_p g = Suc (yy_n_chars g)" "b_status g \<noteq> YY_BUFFER_NEW"
  shows "\<exists>act g'. yy_get_next_buffer g = Inr (act, g') \<and> wf g' \<and> left_from 0 g' = left_from (yytext_ptr g) g \<and>
    act = (if yyin g \<noteq> [] then EOB_ACT_CONTINUE_SCAN
           else if yytext_ptr g < yy_n_chars g then EOB_ACT_LAST_MATCH else EOB_ACT_END_OF_FILE) \<and>
    length (yyin g') < length (yyin g) + (if yyin g = [] then 1 else 0)"
proof (cases "yyin g = []")
  case True
  let ?u = "drop (yytext_ptr g) (held g)"
  have "?u = [] \<longleftrightarrow> yy_n_chars g = yytext_ptr g"
    using wf_buffer(2) [OF assms(1)] assms(2) by simp
  moreover from next_buffer_last [OF assms(1-3) refl assms(4) True] obtain g' where
    "yy_get_next_buffer g = Inr (if ?u = [] then EOB_ACT_END_OF_FILE else EOB_ACT_LAST_MATCH, g')" "wf g'"
    "held g' = ?u" "yyin g' = []" by blast
  ultimately show ?thesis using True assms(2) by (auto simp: left_from_def)
next
  case False
  from next_buffer_continue [OF assms(1-3) refl assms(4) False] obtain g' l where
    "yy_get_next_buffer g = Inr (EOB_ACT_CONTINUE_SCAN, g')" "wf g'" "l \<noteq> []"
    "held g' = drop (yytext_ptr g) (held g) @ l" "yyin g = l @ yyin g'" by blast
  then show ?thesis using False by (simp add: left_from_def)
qed

text \<open>C40. A string in quotes. Up to 1023 characters are the value of the token; for a longer one the
  action writes behind the array the value is copied to.\<close>

theorem yylex_string:
  assumes "ready g (QUOTE # x @ QUOTE # rest)" "QUOTE \<notin> set x" "BACKSLASH \<notin> set x" "NUL \<notin> set x"
  shows "\<exists>g'. yylex g = Some (Inr (Some
      (if length x < MAX_STRING then Lex STRING (Some (VString x)) else LexFault BufferOverflow), g')) \<and> ready g' rest"
proof -
  let ?l = "if length x < MAX_STRING then Lex STRING (Some (VString x)) else LexFault BufferOverflow"
  have "rule_result 36 (QUOTE # x @ [QUOTE]) = (Some ?l, [], length x + 2)"
    using string_value_plain [OF assms(4)] string_value_long [of x] by (simp add: rule_result_def)
  with yylex_outcome [OF assms(1)] show ?thesis
    by (auto simp: string_longest [OF assms(2,3)])
qed

text \<open>C30. Tokens that are written down, each followed by a blank, are read back, and nothing is written to
  the output: the keywords, numbers, factors and strings that a configuration is made of.\<close>

theorem yylex_all_reads_back:
  assumes "tokens_text ts = Some file" "length file < 2 ^ 29"
  shows "\<exists>g. yylex_all (yylex_init file tty) = Some (ts, g) \<and> yyout g = []"
  using yylex_all_scan_text [OF assms(2), of tty] scan_tokens_text [OF assms(1)] by simp

text \<open>Two spellings. The word \<open>interval\<close> is no keyword: its first letter is
  written to the output and the rest of it is the keyword. A limit in \<open>flow/s\<close> is no unit: all of it
  is written to the output and no token is left.\<close>

theorem misread_words:
  "(\<exists>g. yylex_all (yylex_init ''interval'' tty) = Some ([Lex INTERVALTOK None], g) \<and> yyout g = ''i'') \<and>
   (\<exists>g. yylex_all (yylex_init ''flow/s'' tty) = Some ([], g) \<and> yyout g = ''flow/s'')"
proof -
  have "scan_text ''interval'' = ([Lex INTERVALTOK None], ''i'')"
    using scan_echo [of "CHR ''i''" "''nterval''"] other_chars nterval echo_words by simp
  moreover have "scan_text ''flow/s'' = ([], ''flow/s'')"
    using scan_echo [of "CHR ''f''" "''low/s''"] scan_echo [of "CHR ''l''" "''ow/s''"] scan_echo [of "CHR ''o''" "''w/s''"]
      scan_echo [of "CHR ''w''" "''/s''"] scan_echo [of "CHR ''/''" "''s''"] scan_echo [of "CHR ''s''" "[]"] other_chars echo_words
    by (simp add: scan_text.simps [of "[]"])
  ultimately show ?thesis
    using yylex_all_scan_text [of "''interval''" tty] yylex_all_scan_text [of "''flow/s''" tty] by simp
qed

section \<open>Examples\<close>

lemma pid_rule: "rule_of ''pid'' = 6"
  by (simp add: rule_simps del: lit.simps)

theorem tables_are_rules_witness:
  "\<exists>s la'. yy_previous ''pid'' 1 0 (0, 0) = Inr (s, la') \<and> tbl yy_accept s = Inr 6"
  using tables_are_rules [of "''pid''" 0 "(0, 0)"] pid_rule by auto

theorem yylex_next_token_witness:
  "\<exists>g'. yylex (yylex_init ''nterval'' False) = Some (Inr (Some (Lex INTERVALTOK None), g')) \<and> ready g' []"
proof -
  obtain g where "ready g ''nterval''" "yylex (yylex_init ''nterval'' False) = yylex g"
    using yylex_first [of "''nterval''" False] by auto
  with yylex_next_token [of g "''nterval''"] nterval show ?thesis by auto
qed

theorem yylex_all_scans_witness:
  "\<exists>g. yylex_all (yylex_init ''nterval'' True) = Some ([Lex INTERVALTOK None], g) \<and> yyout g = []"
  using yylex_all_scans [of "''nterval''" True] nterval by simp

theorem yylex_stays_in_buffer_witness:
  "\<exists>x g'. yylex (yylex_init ''pid'' True) = Some (Inr (x, g')) \<and> yy_n_chars g' < b_buf_size g' \<and>
     yy_c_buf_p g' \<le> yy_n_chars g'"
proof -
  obtain g where "ready g ''pid''" "yylex (yylex_init ''pid'' True) = yylex g"
    using yylex_first [of "''pid''" True] by auto
  with yylex_stays_in_buffer [of g "''pid''"] show ?thesis by auto
qed

definition full_buffer :: yyguts where
  "full_buffer = (yylex_init ''le'' False)\<lparr>yy_init := True, yy_start := 1, b_buf_size := 6, yy_ch_buf := ''fi'' @ [NUL, NUL, NUL, NUL, NUL, NUL],
     b_fill_buffer := True, b_status := YY_BUFFER_NORMAL, yy_n_chars := 2, yy_c_buf_p := 3\<rparr>"

theorem yy_get_next_buffer_keeps_text_witness:
  "\<exists>g'. yy_get_next_buffer full_buffer = Inr (EOB_ACT_CONTINUE_SCAN, g') \<and> left_from 0 g' = ''file''"
proof -
  have "wf full_buffer" "yytext_ptr full_buffer \<le> yy_n_chars full_buffer" "yy_c_buf_p full_buffer = Suc (yy_n_chars full_buffer)"
    "b_status full_buffer \<noteq> YY_BUFFER_NEW"
    by (simp_all add: full_buffer_def yylex_init_def wf_def)
  from yy_get_next_buffer_keeps_text [OF this] show ?thesis
    by (auto simp: full_buffer_def yylex_init_def left_from_def held_def)
qed

theorem yylex_string_witness:
  "(\<exists>g'. yylex (yylex_init (QUOTE # ''stop'' @ [QUOTE]) False) = Some (Inr (Some (Lex STRING (Some (VString ''stop''))), g'))) \<and>
   (\<exists>g'. yylex (yylex_init (QUOTE # replicate 1024 CHR ''a'' @ [QUOTE]) False) = Some (Inr (Some (LexFault BufferOverflow), g')))"
proof
  have chars: "CHR ''a'' \<noteq> QUOTE" "CHR ''a'' \<noteq> BACKSLASH" "CHR ''a'' \<noteq> NUL"
    by (simp_all add: QUOTE_def BACKSLASH_def NUL_def)
  obtain g where "ready g (QUOTE # ''stop'' @ [QUOTE])"
    "yylex (yylex_init (QUOTE # ''stop'' @ [QUOTE]) False) = yylex g"
    using yylex_first [of "QUOTE # ''stop'' @ [QUOTE]" False] by auto
  with yylex_string [of g "''stop''" "[]"]
  show "\<exists>g'. yylex (yylex_init (QUOTE # ''stop'' @ [QUOTE]) False) = Some (Inr (Some (Lex STRING (Some (VString ''stop''))), g'))"
    by (auto simp: QUOTE_def BACKSLASH_def NUL_def MAX_STRING_def)
  obtain g where "ready g (QUOTE # replicate 1024 CHR ''a'' @ QUOTE # [])"
    "yylex (yylex_init (QUOTE # replicate 1024 CHR ''a'' @ [QUOTE]) False) = yylex g"
    using yylex_first [of "QUOTE # replicate 1024 CHR ''a'' @ [QUOTE]" False] by (auto)
  with yylex_string [of g "replicate 1024 CHR ''a''" "[]"] chars
  show "\<exists>g'. yylex (yylex_init (QUOTE # replicate 1024 CHR ''a'' @ [QUOTE]) False) = Some (Inr (Some (LexFault BufferOverflow), g'))"
    by (auto simp: MAX_STRING_def)
qed

theorem yylex_all_reads_back_witness:
  "\<exists>g. yylex_all (yylex_init (''file '' @ [QUOTE] @ ''a.b'' @ [QUOTE] @ '' 45 k ; '') False) =
     Some ([Lex FILETOK None, Lex STRING (Some (VString ''a.b'')), Lex NUMBER (Some (VNumber 45)),
       Lex FACTOR (Some (VNumber 1000)), Lex SEMICOLON None], g) \<and> yyout g = []"
  by (rule yylex_all_reads_back)
    (simp_all add: spellings_def QUOTE_def BACKSLASH_def NUL_def MAX_STRING_def blank_def dec_of_nat.simps digit_char_def char_of_def bit_0)

end
