(* ===== verification/Config_Grammar.thy ===== *)
theory Config_Grammar
  imports Parser
begin

text \<open>
  What the configuration language means: a parser by recursive descent that follows the rules of
  \<open>config.y\<close> one by one, with their semantic actions on the options and profiles. The generated
  parser of \<open>config.tab.c\<close> is shown to compute the same result on every list of tokens, so it
  always returns, never reads a wrong member of a semantic value and never leaves its tables. The
  properties then speak of configuration texts: what each statement sets, and which do not do what
  their name says.
\<close>

section \<open>Parsers on tokens\<close>

type_synonym 'f cstate = "'f nfd_options \<times> 'f pheap"

text \<open>A parser ends with a value, the tokens left and the state, or stops the whole parse with a
  result, or faults.\<close>

datatype ('a, 'f) presult = Done 'a "lexeme list" "'f cstate" | Stop int "'f cstate" | Crash fault

type_synonym ('a, 'f) pm = "lexeme list \<Rightarrow> 'f cstate \<Rightarrow> ('a, 'f) presult"

definition pret :: "'a \<Rightarrow> ('a, 'f) pm" where
  "pret a ts s = Done a ts s"

definition pfail :: "('a, 'f) pm" where
  "pfail ts s = Stop 1 s"

definition pbind :: "('a, 'f) pm \<Rightarrow> ('a \<Rightarrow> ('b, 'f) pm) \<Rightarrow> ('b, 'f) pm" where
  "pbind m k ts s = (case m ts s of Done a ts' s' \<Rightarrow> k a ts' s' | Stop r s' \<Rightarrow> Stop r s' | Crash e \<Rightarrow> Crash e)"

definition pthen :: "('a, 'f) pm \<Rightarrow> ('b, 'f) pm \<Rightarrow> ('b, 'f) pm" where
  "pthen m k = pbind m (\<lambda>_. k)"

text \<open>Choose by the next token; the chosen parser gets the value of the token.\<close>

definition pcase ::
  "(yytokentype \<times> (yystype option \<Rightarrow> ('a, 'f) pm)) list \<Rightarrow> ('a, 'f) pm \<Rightarrow> ('a, 'f) pm" where
  "pcase alts other ts s =
     (case ts of
        [] \<Rightarrow> other ts s
      | LexFault e # _ \<Rightarrow> Crash e
      | Lex t v # ts' \<Rightarrow> (case map_of alts t of None \<Rightarrow> other ts s | Some m \<Rightarrow> m v ts' s))"

definition ptok :: "yytokentype \<Rightarrow> (unit, 'f) pm" where
  "ptok t = pcase [(t, \<lambda>_. pret ())] pfail"

definition pnum :: "(int, 'f) pm" where
  "pnum = pcase [(NUMBER, \<lambda>v ts s. case v of Some (VNumber n) \<Rightarrow> Done n ts s | _ \<Rightarrow> Crash WrongMember)] pfail"

definition pstr :: "(string, 'f) pm" where
  "pstr = pcase [(STRING, \<lambda>v ts s. case v of Some (VString x) \<Rightarrow> Done x ts s | _ \<Rightarrow> Crash WrongMember)] pfail"

definition popt :: "('f nfd_options \<Rightarrow> 'f nfd_options) \<Rightarrow> (unit, 'f) pm" where
  "popt f ts s = Done () ts (f (fst s), snd s)"

text \<open>A step that goes on or aborts the parse with result 1.\<close>

definition pstep :: "('f cstate \<Rightarrow> (bool \<times> 'f cstate) res) \<Rightarrow> (unit, 'f) pm" where
  "pstep f ts s = (case f s of
     Inl e \<Rightarrow> Crash e | Inr (go, s') \<Rightarrow> if go then Done () ts s' else Stop 1 s')"

section \<open>Options\<close>

definition p_filter :: "'f cfg_env \<Rightarrow> string \<Rightarrow> (unit, 'f) pm" where
  "p_filter E x = pstep (\<lambda>(opt, h).
     let (r, opt') = nfd_cfg_set_filter (ce_filter_init E) opt (Some x) in Inr (r \<noteq> 0, (opt', h)))"

type_synonym 'f choices = "(yytokentype \<times> (yystype option \<Rightarrow> (unit, 'f) pm)) list"

definition option_alts :: "'f cfg_env \<Rightarrow> 'f choices" where
  "option_alts E =
     [(DEBUGTOK, \<lambda>_. pthen (ptok LEVELTOK) (pbind pnum (\<lambda>n.
        popt (\<lambda>opt. if o_debug_fromarg opt = 0 then opt\<lparr>o_debug := i32_of_int n\<rparr> else opt)))),
      (PIDTOK, \<lambda>_. pthen (ptok FILETOK) (pbind pstr (\<lambda>x.
        popt (\<lambda>opt. if o_pid_file_fromarg opt = 0 then opt\<lparr>o_pid_file := c_strncpy x MAX_STRING\<rparr> else opt)))),
      (ACTIONTOK, \<lambda>_. pcase
        [(STARTTOK, \<lambda>_. pthen (ptok COMMANDTOK) (pbind pstr (\<lambda>x. popt (o_exec_start_update (\<lambda>_. c_strncpy x MAX_STRING))))),
         (STOPTOK, \<lambda>_. pcase
           [(COMMANDTOK, \<lambda>_. pbind pstr (\<lambda>x. popt (o_exec_start_update (\<lambda>_. c_strncpy x MAX_STRING)))),
            (DELAYTOK, \<lambda>_. pbind pnum (\<lambda>n. popt (o_stop_delay_update (\<lambda>_. i32_of_int n))))] pfail)] pfail),
      (WINDOWTOK, \<lambda>_. pthen (ptok SIZETOK) (pbind pnum (\<lambda>n. popt (o_window_size_update (\<lambda>_. i32_of_int n))))),
      (INPUTTOK, \<lambda>_. pcase
        [(FILTERTOK, \<lambda>_. pbind pstr (p_filter E)),
         (SHMTOK, \<lambda>_. pbind pstr (\<lambda>x. popt (o_shm_update (\<lambda>_. c_strncpy x MAX_STRING))))] pfail),
      (DBTOK, \<lambda>_. pcase
        [(CONNECTTOK, \<lambda>_. pbind pstr (\<lambda>x. popt (o_db_connstr_update (\<lambda>_. c_strncpy x MAX_STRING)))),
         (EXPORTTOK, \<lambda>_. pcase
           [(INTERVALTOK, \<lambda>_. pbind pnum (\<lambda>n. popt (o_export_interval_update (\<lambda>_. i32_of_int n)))),
            (MINTOK, \<lambda>_. pthen (ptok PPSTOK) (pbind pnum (\<lambda>n. popt (o_export_min_pps_update (\<lambda>_. i32_of_int n)))))]
           pfail)] pfail)]"

definition p_option :: "'f cfg_env \<Rightarrow> (unit, 'f) pm" where
  "p_option E = pcase (option_alts E) (pret ())"

text \<open>
  A loop: \<open>stop\<close> looks at the next token and may consume it, the body must consume one. The guard on
  the lengths makes the loop total; it holds at each round.
\<close>

function ploop :: "(bool, 'f) pm \<Rightarrow> (unit, 'f) pm \<Rightarrow> (unit, 'f) pm" where
  "ploop stop body ts s =
     (case stop ts s of
        Done done ts1 s1 \<Rightarrow>
          if done then Done () ts1 s1
          else (case body ts1 s1 of
                  Done _ ts' s' \<Rightarrow> if length ts' < length ts then ploop stop body ts' s' else Crash OutOfBounds
                | Stop r s' \<Rightarrow> Stop r s'
                | Crash e \<Rightarrow> Crash e)
      | Stop r s' \<Rightarrow> Stop r s'
      | Crash e \<Rightarrow> Crash e)"
  by pat_completeness auto
termination
  by (relation "measure (\<lambda>(stop, body, ts, s). length ts)") auto

declare ploop.simps [simp del]

definition p_options :: "'f cfg_env \<Rightarrow> (unit, 'f) pm" where
  "p_options E = ploop (pcase [(EBRACE, \<lambda>_. pret True)] (pret False)) (pthen (p_option E) (ptok SEMICOLON))"

section \<open>Profiles\<close>

definition with_string :: "yystype option \<Rightarrow> (string \<Rightarrow> ('a, 'f) pm) \<Rightarrow> ('a, 'f) pm" where
  "with_string v k ts s = (case v of Some (VString x) \<Rightarrow> k x ts s | _ \<Rightarrow> Crash WrongMember)"

definition with_number :: "yystype option \<Rightarrow> (int \<Rightarrow> ('a, 'f) pm) \<Rightarrow> ('a, 'f) pm" where
  "with_number v k ts s = (case v of Some (VNumber n) \<Rightarrow> k n ts s | _ \<Rightarrow> Crash WrongMember)"

definition p_limit :: "ptr \<Rightarrow> (nfd_counter \<Rightarrow> nfd_counter) \<Rightarrow> (unit, 'f) pm" where
  "p_limit p f = pstep (\<lambda>(opt, h). res_bind (prof_write p (p_limits_update f) h) (\<lambda>h'. Inr (True, (opt, h'))))"

definition p_set :: "(ptr \<Rightarrow> string \<Rightarrow> 'f pheap \<Rightarrow> int \<times> 'f pheap) \<Rightarrow> ptr \<Rightarrow> string \<Rightarrow> (unit, 'f) pm" where
  "p_set setter p x = pstep (\<lambda>(opt, h). let (r, h') = setter p x h in Inr (r \<noteq> 0, (opt, h')))"

definition param_alts :: "'f cfg_env \<Rightarrow> ptr \<Rightarrow> 'f choices" where
  "param_alts E p =
     [(LIMITTOK, \<lambda>_. pbind pnum (\<lambda>n. pcase
        [(BITPSTOK, \<lambda>_. p_limit p (c_bytes_update (\<lambda>_. u64_of_int n))),
         (PPSTOK, \<lambda>_. p_limit p (c_pkts_update (\<lambda>_. u64_of_int n))),
         (FPSTOK, \<lambda>_. p_limit p (c_flows_update (\<lambda>_. u64_of_int n))),
         (FACTOR, \<lambda>v. with_number v (\<lambda>k. pcase
           [(BITPSTOK, \<lambda>_. p_limit p (c_bytes_update (\<lambda>_. u64_of_int (c_quot (n * k) 8)))),
            (PPSTOK, \<lambda>_. p_limit p (c_pkts_update (\<lambda>_. u64_of_int (n * k)))),
            (FPSTOK, \<lambda>_. p_limit p (c_flows_update (\<lambda>_. u64_of_int (n * k))))] pfail))] pfail)),
      (FILTERTOK, \<lambda>_. pbind pstr (p_set (prof_set_filter (ce_prof E)) p)),
      (DYNAMICTOK, \<lambda>_. pbind pstr (p_set (prof_set_dynamic (ce_prof E)) p))]"

definition p_param :: "'f cfg_env \<Rightarrow> ptr \<Rightarrow> (unit, 'f) pm" where
  "p_param E p = pcase (param_alts E p) (pret ())"

definition p_params :: "'f cfg_env \<Rightarrow> ptr \<Rightarrow> (unit, 'f) pm" where
  "p_params E p = ploop (pcase [(EBRACE, \<lambda>_. pret True)] (pret False)) (pthen (p_param E p) (ptok SEMICOLON))"

definition p_new_profile :: "'f cfg_env \<Rightarrow> string \<Rightarrow> (ptr, 'f) pm" where
  "p_new_profile E x ts s =
     (let (opt, h) = s; (pp, h1) = prof_new (ce_prof E) (Some x) h in
      case pp of
        None \<Rightarrow> Stop 1 (opt, h1)
      | Some p \<Rightarrow>
          let (r, root, h2) = prof_add (ce_prof E) (o_root_profile opt) p h1
          in Done p ts (opt\<lparr>o_root_profile := root\<rparr>, h2))"

definition p_rule :: "'f cfg_env \<Rightarrow> (unit, 'f) pm" where
  "p_rule E = pcase
     [(DBTOK, \<lambda>_. pthen (ptok SEMICOLON) (popt (o_db_profiles_update (\<lambda>_. 1)))),
      (STRING, \<lambda>v. with_string v (\<lambda>x. pthen (ptok OBRACE) (pbind (p_new_profile E x) (p_params E))))] pfail"

definition p_rules :: "'f cfg_env \<Rightarrow> (unit, 'f) pm" where
  "p_rules E = ploop (pcase [(PROFILETOK, \<lambda>_. pret False)] (pret True)) (p_rule E)"

definition pend :: "(unit, 'f) pm" where
  "pend ts s = (case ts of [] \<Rightarrow> Done () ts s | LexFault e # _ \<Rightarrow> Crash e | _ \<Rightarrow> Stop 1 s)"

definition p_config :: "'f cfg_env \<Rightarrow> (unit, 'f) pm" where
  "p_config E = pthen (ptok OPTIONSTOK) (pthen (ptok OBRACE)
     (pthen (p_options E) (pthen (p_rules E) pend)))"

text \<open>The result of the parse of a whole token list.\<close>

definition presult_of :: "(unit, 'f) presult \<Rightarrow> (int \<times> 'f nfd_options \<times> 'f pheap) res option" where
  "presult_of r = Some (case r of
     Done _ _ s \<Rightarrow> Inr (0, s) | Stop r s \<Rightarrow> Inr (r, s) | Crash e \<Rightarrow> Inl e)"

section \<open>The generated parser follows the grammar\<close>

lemma row_at:
  "lr_rows ! nat 0 = (True, [(15, 1)], 0)"
  "lr_rows ! nat 1 = (True, [(3, 4)], 0)"
  "lr_rows ! nat 2 = (True, [(0, 5)], 0)"
  "lr_rows ! nat 3 = (False, [], 18)"
  "lr_rows ! nat 4 = (False, [], 4)"
  "lr_rows ! nat 5 = (False, [], 1)"
  "lr_rows ! nat 6 = (True, [(6, 8)], 2)"
  "lr_rows ! nat 7 = (True, [(4, 10), (16, 11), (17, 12), (18, 13), (28, 14), (35, 15), (37, 16)], 6)"
  "lr_rows ! nat 8 = (True, [(37, 18), (44, 19)], 0)"
  "lr_rows ! nat 9 = (False, [], 19)"
  "lr_rows ! nat 10 = (False, [], 3)"
  "lr_rows ! nat 11 = (True, [(21, 20)], 0)"
  "lr_rows ! nat 12 = (True, [(12, 21)], 0)"
  "lr_rows ! nat 13 = (True, [(13, 22), (14, 23)], 0)"
  "lr_rows ! nat 14 = (True, [(32, 24)], 0)"
  "lr_rows ! nat 15 = (True, [(8, 25), (36, 26)], 0)"
  "lr_rows ! nat 16 = (True, [(38, 27), (39, 28)], 0)"
  "lr_rows ! nat 17 = (True, [(5, 29)], 0)"
  "lr_rows ! nat 18 = (True, [(5, 30)], 0)"
  "lr_rows ! nat 19 = (True, [(3, 31)], 0)"
  "lr_rows ! nat 20 = (True, [(42, 32)], 0)"
  "lr_rows ! nat 21 = (True, [(44, 33)], 0)"
  "lr_rows ! nat 22 = (True, [(22, 34)], 0)"
  "lr_rows ! nat 23 = (True, [(22, 35), (34, 36)], 0)"
  "lr_rows ! nat 24 = (True, [(42, 37)], 0)"
  "lr_rows ! nat 25 = (True, [(44, 38)], 0)"
  "lr_rows ! nat 26 = (True, [(44, 39)], 0)"
  "lr_rows ! nat 27 = (True, [(44, 40)], 0)"
  "lr_rows ! nat 28 = (True, [(40, 41), (41, 42)], 0)"
  "lr_rows ! nat 29 = (False, [], 5)"
  "lr_rows ! nat 30 = (False, [], 23)"
  "lr_rows ! nat 31 = (False, [], 21)"
  "lr_rows ! nat 32 = (False, [], 7)"
  "lr_rows ! nat 33 = (False, [], 8)"
  "lr_rows ! nat 34 = (True, [(44, 44)], 0)"
  "lr_rows ! nat 35 = (True, [(44, 45)], 0)"
  "lr_rows ! nat 36 = (True, [(42, 46)], 0)"
  "lr_rows ! nat 37 = (False, [], 9)"
  "lr_rows ! nat 38 = (False, [], 11)"
  "lr_rows ! nat 39 = (False, [], 10)"
  "lr_rows ! nat 40 = (False, [], 12)"
  "lr_rows ! nat 41 = (True, [(42, 47)], 0)"
  "lr_rows ! nat 42 = (True, [(10, 48)], 0)"
  "lr_rows ! nat 43 = (False, [], 24)"
  "lr_rows ! nat 44 = (False, [], 15)"
  "lr_rows ! nat 45 = (False, [], 16)"
  "lr_rows ! nat 46 = (False, [], 17)"
  "lr_rows ! nat 47 = (False, [], 13)"
  "lr_rows ! nat 48 = (True, [(42, 50)], 0)"
  "lr_rows ! nat 49 = (True, [(4, 51)], 25)"
  "lr_rows ! nat 50 = (False, [], 14)"
  "lr_rows ! nat 51 = (False, [], 22)"
  "lr_rows ! nat 52 = (True, [(7, 53), (8, 54), (29, 55)], 27)"
  "lr_rows ! nat 53 = (True, [(42, 57)], 0)"
  "lr_rows ! nat 54 = (True, [(44, 58)], 0)"
  "lr_rows ! nat 55 = (True, [(44, 59)], 0)"
  "lr_rows ! nat 56 = (True, [(5, 60)], 0)"
  "lr_rows ! nat 57 = (True, [(9, 61), (10, 62), (11, 63), (43, 64)], 0)"
  "lr_rows ! nat 58 = (False, [], 28)"
  "lr_rows ! nat 59 = (False, [], 29)"
  "lr_rows ! nat 60 = (False, [], 26)"
  "lr_rows ! nat 61 = (False, [], 30)"
  "lr_rows ! nat 62 = (False, [], 31)"
  "lr_rows ! nat 63 = (False, [], 32)"
  "lr_rows ! nat 64 = (True, [(9, 65), (10, 66), (11, 67)], 0)"
  "lr_rows ! nat 65 = (False, [], 33)"
  "lr_rows ! nat 66 = (False, [], 34)"
  "lr_rows ! nat 67 = (False, [], 35)"
  by (simp_all add: lr_rows_def)

text \<open>A scanner gives a value to numbers, factors and strings.\<close>

definition lexeme_ok :: "lexeme \<Rightarrow> bool" where
  "lexeme_ok x = (case x of
     LexFault e \<Rightarrow> True
   | Lex t v \<Rightarrow> (t = NUMBER \<or> t = FACTOR \<longrightarrow> (\<exists>n. v = Some (VNumber n))) \<and> (t = STRING \<longrightarrow> (\<exists>s. v = Some (VString s))))"

definition toks_ok :: "lexeme list \<Rightarrow> bool" where
  "toks_ok = list_all lexeme_ok"

lemma toks_ok_simps [simp]: "toks_ok []" "toks_ok (x # xs) \<longleftrightarrow> lexeme_ok x \<and> toks_ok xs"
  by (simp_all add: toks_ok_def)

text \<open>
  The result of the rest of a parse: \<open>K\<close> says what follows when a parser is done. \<open>sim\<close> states that
  the driver, with the given stacks and no token read, gives a result, whatever \<open>yylval\<close> holds.
\<close>

type_synonym 'f outcome = "(int \<times> 'f nfd_options \<times> 'f pheap) res option"

definition lift :: "('a, 'f) presult \<Rightarrow> ('a \<Rightarrow> lexeme list \<Rightarrow> 'f cstate \<Rightarrow> 'f outcome) \<Rightarrow> 'f outcome" where
  "lift r K = (case r of Done a ts s \<Rightarrow> K a ts s | Stop r s \<Rightarrow> Some (Inr (r, s)) | Crash e \<Rightarrow> Some (Inl e))"

lemma lift_simps [simp]:
  "lift (Done a ts s) K = K a ts s" "lift (Stop r s) K = Some (Inr (r, s))" "lift (Crash e) K = Some (Inl e)"
  by (simp_all add: lift_def)

lemma lift_bind: "lift (pbind m k ts s) K = lift (m ts s) (\<lambda>a ts' s'. lift (k a ts' s') K)"
  by (simp add: pbind_def lift_def split: presult.splits)

lemma lift_then: "lift (pthen m k ts s) K = lift (m ts s) (\<lambda>_ ts' s'. lift (k ts' s') K)"
  by (simp add: pthen_def lift_bind)

definition sim ::
  "'f cfg_env \<Rightarrow> int list \<Rightarrow> yystype list \<Rightarrow> lexeme list \<Rightarrow> 'f nfd_options \<Rightarrow> 'f pheap \<Rightarrow> 'f outcome \<Rightarrow> bool" where
  "sim E ss vs ts opt h r \<longleftrightarrow> (\<forall>l. yyrun E (pst ss vs YYEMPTY l ts opt h) = r)"

text \<open>A state that looks at a token gives the same result whether the token was read before or not.\<close>

lemma run_peeked:
  assumes row: "lr_rows ! nat s = (True, shifts, d)" and small: "small (s # ss)"
  shows "yyrun E (pst (s # ss) vs (token_code t) (case v of None \<Rightarrow> l | Some x \<Rightarrow> x) ts opt h) =
      yyrun E (pst (s # ss) vs YYEMPTY l (Lex t v # ts) opt h)"
    and "yyrun E (pst (s # ss) vs YYEOF l [] opt h) = yyrun E (pst (s # ss) vs YYEMPTY l [] opt h)"
proof -
  have tok: "yyrun E (pst (s # ss) vs (token_code t) l' ts' opt h) =
      yygo E shifts d (pst (s # ss) vs (token_code t) l' ts' opt h) (token_code t - 255)" for l' ts'
    by (rule backup_token [OF row small]) auto
  have eof: "yyrun E (pst (s # ss) vs YYEOF l [] opt h) = yygo E shifts d (pst (s # ss) vs YYEOF l [] opt h) 0"
    by (rule backup_token [OF row small]) simp
  show "yyrun E (pst (s # ss) vs (token_code t) (case v of None \<Rightarrow> l | Some x \<Rightarrow> x) ts opt h) =
      yyrun E (pst (s # ss) vs YYEMPTY l (Lex t v # ts) opt h)"
    unfolding tok by (simp add: run_look [OF row small])
  show "yyrun E (pst (s # ss) vs YYEOF l [] opt h) = yyrun E (pst (s # ss) vs YYEMPTY l [] opt h)"
    unfolding eof by (simp add: run_look [OF row small])
qed

text \<open>\<open>agree alts shifts\<close>: the alternatives of a choice are the tokens that a state shifts.\<close>

definition agree :: "(yytokentype \<times> 'b) list \<Rightarrow> (int \<times> int) list \<Rightarrow> bool" where
  "agree alts shifts \<longleftrightarrow> map (\<lambda>(t, m). token_code t - 255) alts = map fst shifts \<and> 0 \<notin> fst ` set shifts \<and>
     5 \<notin> snd ` set shifts"

lemma agree_map_of:
  assumes "map (\<lambda>(t, m). token_code t - 255) alts = map fst shifts"
  shows "map_of alts t = None \<Longrightarrow> map_of shifts (token_code t - 255) = None"
    and "map_of alts t = Some f \<Longrightarrow> \<exists>m. map_of shifts (token_code t - 255) = Some m \<and>
      ((t, f), (token_code t - 255, m)) \<in> set (zip alts shifts)"
  using assms
proof (induction alts arbitrary: shifts)
  case (Cons a alts)
  obtain u g where a: "a = (u, g)" by (cases a)
  case 1
  with a obtain m rest where "shifts = (token_code u - 255, m) # rest"
    "map (\<lambda>(t, m). token_code t - 255) alts = map fst rest" by (cases shifts) auto
  with 1 a Cons.IH(1) [of rest] show ?case by (auto simp: token_code_inj split: if_splits)
next
  case (Cons a alts)
  obtain u g where a: "a = (u, g)" by (cases a)
  case 2
  with a obtain m rest where "shifts = (token_code u - 255, m) # rest"
    "map (\<lambda>(t, m). token_code t - 255) alts = map fst rest" by (cases shifts) auto
  with 2 a Cons.IH(2) [of rest] show ?case by (auto simp: token_code_inj split: if_splits)
qed simp_all

definition alts_sim ::
  "'f cfg_env \<Rightarrow> int list \<Rightarrow> yystype list \<Rightarrow> (yytokentype \<times> (yystype option \<Rightarrow> ('a, 'f) pm)) list
    \<Rightarrow> (int \<times> int) list \<Rightarrow> nat \<Rightarrow> 'f nfd_options \<Rightarrow> 'f pheap
    \<Rightarrow> ('a \<Rightarrow> lexeme list \<Rightarrow> 'f cstate \<Rightarrow> 'f outcome) \<Rightarrow> bool" where
  "alts_sim E ss vs alts shifts n opt h K \<longleftrightarrow>
     (\<forall>((t, f), (c, m)) \<in> set (zip alts shifts). \<forall>v l ts.
        lexeme_ok (Lex t v) \<longrightarrow> toks_ok ts \<longrightarrow> length ts < n \<longrightarrow>
        sim E (m # ss) ((case v of None \<Rightarrow> l | Some x \<Rightarrow> x) # vs) ts opt h (lift (f v ts (opt, h)) K))"

lemma sim_alt:
  assumes "agree alts shifts" "alts_sim E (s # ss) vs alts shifts n opt h K"
    and "map_of alts t = Some f" "lexeme_ok (Lex t v)" "toks_ok ts" "length ts < n"
  shows "yygo E shifts d (pst (s # ss) vs (token_code t) (case v of None \<Rightarrow> l | Some x \<Rightarrow> x) ts opt h) (token_code t - 255)
    = lift (f v ts (opt, h)) K"
proof -
  from assms(1) have "map (\<lambda>(t, m). token_code t - 255) alts = map fst shifts" by (simp add: agree_def)
  from agree_map_of(2) [OF this assms(3)] obtain m where
    m: "map_of shifts (token_code t - 255) = Some m" "((t, f), (token_code t - 255, m)) \<in> set (zip alts shifts)"
    by blast
  from m(2) have "m \<in> snd ` set shifts" by (auto dest: set_zip_rightD intro: image_eqI [rotated])
  with assms(1) have "m \<noteq> 5" by (auto simp: agree_def)
  from assms(2) m(2) assms(4-6) have
    "sim E (m # s # ss) ((case v of None \<Rightarrow> l | Some x \<Rightarrow> x) # vs) ts opt h (lift (f v ts (opt, h)) K)"
    unfolding alts_sim_def by blast
  with m(1) \<open>m \<noteq> 5\<close> show ?thesis by (simp add: yygo_def sim_def)
qed

lemma sim_case:
  assumes row: "lr_rows ! nat s = (True, shifts, 0)" and small: "small (s # ss)" and toks: "toks_ok ts"
    and agree: "agree alts shifts" and alts: "alts_sim E (s # ss) vs alts shifts (length ts) opt h K"
  shows "sim E (s # ss) vs ts opt h (lift (pcase alts pfail ts (opt, h)) K)"
  unfolding sim_def
proof
  fix l
  have none: "map_of alts t = None \<Longrightarrow> map_of shifts (token_code t - 255) = None" for t
    using agree agree_map_of(1) by (auto simp: agree_def)
  have zero: "map_of shifts 0 = None" using agree by (auto simp: agree_def map_of_eq_None_iff)
  show "yyrun E (pst (s # ss) vs YYEMPTY l ts opt h) = lift (pcase alts pfail ts (opt, h)) K"
  proof (cases ts)
    case Nil
    then show ?thesis by (simp add: run_look [OF row small] pcase_def pfail_def yygo_def zero)
  next
    case (Cons x ts')
    show ?thesis
    proof (cases x)
      case (LexFault e)
      with Cons show ?thesis by (simp add: run_look [OF row small] pcase_def)
    next
      case (Lex t v)
      show ?thesis
      proof (cases "map_of alts t")
        case None
        then show ?thesis
          using Cons Lex none [OF None] by (simp add: run_look [OF row small] pcase_def pfail_def yygo_def)
      next
        case (Some f)
        with Cons Lex toks sim_alt [OF agree alts Some, of v ts' 0 l] show ?thesis
          by (simp add: run_look [OF row small] pcase_def)
      qed
    qed
  qed
qed

text \<open>The same for a state that reduces when it cannot shift, to a state that looks at the token.\<close>

lemma sim_case_reduce:
  assumes row: "lr_rows ! nat s = (True, shifts, d)" "d \<noteq> 0" and small: "small (s # ss)" and toks: "toks_ok ts"
    and agree: "agree alts shifts" and alts: "alts_sim E (s # ss) vs alts shifts (length ts) opt h K"
    and red: "\<And>c l ts. yyrest E (yyreduce E d (pst (s # ss) vs c l ts opt h)) = yyrun E (pst (g # gs) ws c l ts opt h)"
    and row': "lr_rows ! nat g = (True, shifts', d')" and small': "small (g # gs)"
    and other: "(\<forall>t v ts'. ts = Lex t v # ts' \<longrightarrow> map_of alts t = None) \<Longrightarrow>
      sim E (g # gs) ws ts opt h (lift (other ts (opt, h)) K)"
  shows "sim E (s # ss) vs ts opt h (lift (pcase alts other ts (opt, h)) K)"
  unfolding sim_def
proof
  fix l
  have none: "map_of alts t = None \<Longrightarrow> map_of shifts (token_code t - 255) = None" for t
    using agree agree_map_of(1) by (auto simp: agree_def)
  have zero: "map_of shifts 0 = None" using agree by (auto simp: agree_def map_of_eq_None_iff)
  show "yyrun E (pst (s # ss) vs YYEMPTY l ts opt h) = lift (pcase alts other ts (opt, h)) K"
  proof (cases ts)
    case Nil
    then have "sim E (g # gs) ws ts opt h (lift (other ts (opt, h)) K)" by (intro other) simp
    with Nil row(2) show ?thesis
      by (simp add: run_look [OF row(1) small] pcase_def yygo_def zero red run_peeked(2) [OF row' small'] sim_def)
  next
    case (Cons x ts')
    show ?thesis
    proof (cases x)
      case (LexFault e)
      with Cons show ?thesis by (simp add: run_look [OF row(1) small] pcase_def)
    next
      case (Lex t v)
      show ?thesis
      proof (cases "map_of alts t")
        case None
        with Cons Lex have "sim E (g # gs) ws ts opt h (lift (other ts (opt, h)) K)" by (intro other) simp
        then show ?thesis
          using Cons Lex None none [OF None] row(2)
          by (simp add: run_look [OF row(1) small] pcase_def yygo_def red run_peeked(1) [OF row' small'] sim_def)
      next
        case (Some f)
        with Cons Lex toks sim_alt [OF agree alts Some, of v ts' d l] show ?thesis
          by (simp add: run_look [OF row(1) small] pcase_def)
      qed
    qed
  qed
qed

lemma sim_tok:
  assumes row: "lr_rows ! nat s = (True, [(token_code t - 255, m)], 0)" and small: "small (s # ss)"
    and m: "m \<noteq> 5" and toks: "toks_ok ts"
    and rest: "\<And>v ts'. toks_ok ts' \<Longrightarrow> length ts' < length ts \<Longrightarrow>
      sim E (m # s # ss) (v # vs) ts' opt h (lift (k ts' (opt, h)) K)"
  shows "sim E (s # ss) vs ts opt h (lift (pthen (ptok t) k ts (opt, h)) K)"
proof -
  have "sim E (s # ss) vs ts opt h (lift (pcase [(t, \<lambda>_. k)] pfail ts (opt, h)) K)"
    using token_code_pos [of t] m rest
    by (intro sim_case [OF row small toks]) (simp_all add: agree_def alts_sim_def)
  moreover have "pthen (ptok t) k ts (opt, h) = pcase [(t, \<lambda>_. k)] pfail ts (opt, h)"
    by (simp add: pthen_def pbind_def ptok_def pcase_def pret_def pfail_def split: list.splits lexeme.splits)
  ultimately show ?thesis by simp
qed

lemma sim_num:
  assumes row: "lr_rows ! nat s = (True, [(42, m)], 0)" and small: "small (s # ss)"
    and m: "m \<noteq> 5" and toks: "toks_ok ts"
    and rest: "\<And>n ts'. toks_ok ts' \<Longrightarrow> length ts' < length ts \<Longrightarrow>
      sim E (m # s # ss) (VNumber n # vs) ts' opt h (lift (k n ts' (opt, h)) K)"
  shows "sim E (s # ss) vs ts opt h (lift (pbind pnum k ts (opt, h)) K)"
proof -
  let ?f = "\<lambda>v. with_number v k"
  have "sim E (s # ss) vs ts opt h (lift (pcase [(NUMBER, ?f)] pfail ts (opt, h)) K)"
    using m rest
    by (intro sim_case [OF row small toks]) (auto simp: agree_def alts_sim_def lexeme_ok_def with_number_def)
  moreover have "pbind pnum k ts (opt, h) = pcase [(NUMBER, ?f)] pfail ts (opt, h)"
    by (simp add: pbind_def pnum_def pcase_def pfail_def with_number_def
        split: list.splits lexeme.splits option.splits yystype.splits)
  ultimately show ?thesis by simp
qed

lemma sim_str:
  assumes row: "lr_rows ! nat s = (True, [(44, m)], 0)" and small: "small (s # ss)"
    and m: "m \<noteq> 5" and toks: "toks_ok ts"
    and rest: "\<And>x ts'. toks_ok ts' \<Longrightarrow> length ts' < length ts \<Longrightarrow>
      sim E (m # s # ss) (VString x # vs) ts' opt h (lift (k x ts' (opt, h)) K)"
  shows "sim E (s # ss) vs ts opt h (lift (pbind pstr k ts (opt, h)) K)"
proof -
  let ?f = "\<lambda>v. with_string v k"
  have "sim E (s # ss) vs ts opt h (lift (pcase [(STRING, ?f)] pfail ts (opt, h)) K)"
    using m rest
    by (intro sim_case [OF row small toks]) (auto simp: agree_def alts_sim_def lexeme_ok_def with_string_def)
  moreover have "pbind pstr k ts (opt, h) = pcase [(STRING, ?f)] pfail ts (opt, h)"
    by (simp add: pbind_def pstr_def pcase_def pfail_def with_string_def
        split: list.splits lexeme.splits option.splits yystype.splits)
  ultimately show ?thesis by simp
qed

text \<open>Reductions of the generated parser, evaluated.\<close>

lemma sim_reduce:
  assumes row: "lr_rows ! nat s = (False, shifts, d)" "d \<noteq> 0" and small: "small (s # ss)"
    and red: "\<And>l. yyrest E (yyreduce E d (pst (s # ss) vs YYEMPTY l ts opt h)) = r"
  shows "sim E (s # ss) vs ts opt h r"
  using row(2) red by (simp add: sim_def run_reduce [OF row(1) small])

lemma sim_run: "sim E ss vs ts opt h r \<Longrightarrow> yyrun E (pst ss vs YYEMPTY l ts opt h) = r"
  by (simp add: sim_def)

lemma yycheck_at [simp]:
  "tbl yycheck 1 = Inr 10" "tbl yycheck 13 = Inr 38" "tbl yycheck 19 = Inr 34" "tbl yycheck 22 = Inr 40"
  by (simp_all add: tbl_def yycheck_def)

lemmas reduce_simps = yyreduce_def yy_action_def yyvsp_def number_at_def string_at_def get_number_def
  get_string_def get_profile_def YYNTOKENS_def YYLAST_def yynewstate_small

lemmas rows [simp] = row_at [simplified]

lemma alts_sim_Nil: "alts_sim E ss vs [] [] n opt h K"
  by (simp add: alts_sim_def)

lemma alts_sim_Cons:
  assumes "\<And>v l ts. lexeme_ok (Lex t v) \<Longrightarrow> toks_ok ts \<Longrightarrow> length ts < n \<Longrightarrow>
      sim E (m # ss) ((case v of None \<Rightarrow> l | Some x \<Rightarrow> x) # vs) ts opt h (lift (f v ts (opt, h)) K)"
    and "alts_sim E ss vs alts shifts n opt h K"
  shows "alts_sim E ss vs ((t, f) # alts) ((c, m) # shifts) n opt h K"
  using assms by (auto simp: alts_sim_def)

lemmas alts_sim_intros = alts_sim_Cons alts_sim_Nil

text \<open>\<open>cont E ss vs n K\<close>: what follows a phrase that ended in the states \<open>ss\<close>, whatever its value is.\<close>

definition cont ::
  "'f cfg_env \<Rightarrow> int list \<Rightarrow> yystype list \<Rightarrow> nat \<Rightarrow> (unit \<Rightarrow> lexeme list \<Rightarrow> 'f cstate \<Rightarrow> 'f outcome) \<Rightarrow> bool" where
  "cont E ss vs n K \<longleftrightarrow> (\<forall>v ts opt h. toks_ok ts \<longrightarrow> length ts < n \<longrightarrow> sim E ss (v # vs) ts opt h (K () ts (opt, h)))"

lemma cont_run:
  "cont E ss vs n K \<Longrightarrow> toks_ok ts \<Longrightarrow> length ts < n \<Longrightarrow>
     yyrun E (pst ss (v # vs) YYEMPTY l ts opt h) = K () ts (opt, h)"
  by (simp add: cont_def sim_def)

subsection \<open>Options\<close>

abbreviation option_cont :: "'f cfg_env \<Rightarrow> yystype list \<Rightarrow> nat \<Rightarrow> (unit \<Rightarrow> lexeme list \<Rightarrow> 'f cstate \<Rightarrow> 'f outcome) \<Rightarrow> bool" where
  "option_cont E \<equiv> cont E [17, 7, 4, 1, 0]"

lemmas option_simps = reduce_simps yy_option_action_def popt_def

lemma sim_debug:
  assumes "toks_ok ts" "length ts < n" and K: "option_cont E vs n K"
  shows "sim E [11, 7, 4, 1, 0] (x # vs) ts opt h (lift (pthen (ptok LEVELTOK) (pbind pnum (\<lambda>n.
        popt (\<lambda>opt. if o_debug_fromarg opt = 0 then opt\<lparr>o_debug := i32_of_int n\<rparr> else opt))) ts (opt, h)) K)"
  by (rule sim_tok [where m = 20] sim_num [where m = 32] sim_reduce [where d = 7];
      (simp add: option_simps cont_run [OF K] less_trans [OF _ assms(2)] assms; fail)?)+

lemma sim_pid:
  assumes "toks_ok ts" "length ts < n" and K: "option_cont E vs n K"
  shows "sim E [12, 7, 4, 1, 0] (x # vs) ts opt h (lift (pthen (ptok FILETOK) (pbind pstr (\<lambda>x.
        popt (\<lambda>opt. if o_pid_file_fromarg opt = 0 then opt\<lparr>o_pid_file := c_strncpy x MAX_STRING\<rparr> else opt))) ts (opt, h)) K)"
  by (rule sim_tok [where m = 21] sim_str [where m = 33] sim_reduce [where d = 8];
      (simp add: option_simps cont_run [OF K] less_trans [OF _ assms(2)] assms; fail)?)+

lemma sim_window:
  assumes "toks_ok ts" "length ts < n" and K: "option_cont E vs n K"
  shows "sim E [14, 7, 4, 1, 0] (x # vs) ts opt h (lift (pthen (ptok SIZETOK) (pbind pnum (\<lambda>n.
        popt (o_window_size_update (\<lambda>_. i32_of_int n)))) ts (opt, h)) K)"
  by (rule sim_tok [where m = 24] sim_num [where m = 37] sim_reduce [where d = 9];
      (simp add: option_simps cont_run [OF K] less_trans [OF _ assms(2)] assms; fail)?)+

lemma sim_input_shm:
  assumes "toks_ok ts" "length ts < n" and K: "option_cont E vs n K"
  shows "sim E [26, 15, 7, 4, 1, 0] (x # y # vs) ts opt h
    (lift (pbind pstr (\<lambda>x. popt (o_shm_update (\<lambda>_. c_strncpy x MAX_STRING))) ts (opt, h)) K)"
  by (rule sim_str [where m = 39] sim_reduce [where d = 10];
      (simp add: option_simps cont_run [OF K] less_trans [OF _ assms(2)] assms; fail)?)+

lemma sim_input_filter:
  assumes "toks_ok ts" "length ts < n" and K: "option_cont E vs n K"
  shows "sim E [25, 15, 7, 4, 1, 0] (x # y # vs) ts opt h (lift (pbind pstr (p_filter E) ts (opt, h)) K)"
  by (rule sim_str [where m = 38] sim_reduce [where d = 11];
      (simp add: option_simps p_filter_def pstep_def cont_run [OF K] less_trans [OF _ assms(2)] assms split: prod.splits; fail)?)+

lemma sim_input:
  assumes "toks_ok ts" "length ts < n" and K: "option_cont E vs n K"
  shows "sim E [15, 7, 4, 1, 0] (x # vs) ts opt h (lift (pcase
        [(FILTERTOK, \<lambda>_. pbind pstr (p_filter E)),
         (SHMTOK, \<lambda>_. pbind pstr (\<lambda>x. popt (o_shm_update (\<lambda>_. c_strncpy x MAX_STRING))))] pfail ts (opt, h)) K)"
  by (rule sim_case [OF row_at(16)] alts_sim_Cons alts_sim_Nil sim_input_shm [OF _ _ K] sim_input_filter [OF _ _ K];
      (simp add: assms agree_def less_trans [OF _ assms(2)]; fail)?)+

lemma sim_db_connect:
  assumes "toks_ok ts" "length ts < n" and K: "option_cont E vs n K"
  shows "sim E [27, 16, 7, 4, 1, 0] (x # y # vs) ts opt h
    (lift (pbind pstr (\<lambda>x. popt (o_db_connstr_update (\<lambda>_. c_strncpy x MAX_STRING))) ts (opt, h)) K)"
  by (rule sim_str [where m = 40] sim_reduce [where d = 12];
      (simp add: option_simps cont_run [OF K] less_trans [OF _ assms(2)] assms; fail)?)+

lemma sim_db_interval:
  assumes "toks_ok ts" "length ts < n" and K: "option_cont E vs n K"
  shows "sim E [41, 28, 16, 7, 4, 1, 0] (x # y # z # vs) ts opt h
    (lift (pbind pnum (\<lambda>n. popt (o_export_interval_update (\<lambda>_. i32_of_int n))) ts (opt, h)) K)"
  by (rule sim_num [where m = 47] sim_reduce [where d = 13];
      (simp add: option_simps cont_run [OF K] less_trans [OF _ assms(2)] assms; fail)?)+

lemma sim_db_min:
  assumes "toks_ok ts" "length ts < n" and K: "option_cont E vs n K"
  shows "sim E [42, 28, 16, 7, 4, 1, 0] (x # y # z # vs) ts opt h
    (lift (pthen (ptok PPSTOK) (pbind pnum (\<lambda>n. popt (o_export_min_pps_update (\<lambda>_. i32_of_int n)))) ts (opt, h)) K)"
  by (rule sim_tok [where m = 48] sim_num [where m = 50] sim_reduce [where d = 14];
      (simp add: option_simps cont_run [OF K] less_trans [OF _ assms(2)] assms; fail)?)+

lemma sim_db_export:
  assumes "toks_ok ts" "length ts < n" and K: "option_cont E vs n K"
  shows "sim E [28, 16, 7, 4, 1, 0] (x # y # vs) ts opt h (lift (pcase
       [(INTERVALTOK, \<lambda>_. pbind pnum (\<lambda>n. popt (o_export_interval_update (\<lambda>_. i32_of_int n)))),
        (MINTOK, \<lambda>_. pthen (ptok PPSTOK) (pbind pnum (\<lambda>n. popt (o_export_min_pps_update (\<lambda>_. i32_of_int n)))))]
       pfail ts (opt, h)) K)"
  by (rule sim_case [OF row_at(29)] alts_sim_intros sim_db_interval [OF _ _ K] sim_db_min [OF _ _ K];
      (simp add: assms agree_def less_trans [OF _ assms(2)]; fail)?)+

lemma sim_db:
  assumes "toks_ok ts" "length ts < n" and K: "option_cont E vs n K"
  shows "sim E [16, 7, 4, 1, 0] (x # vs) ts opt h (lift (pcase
      [(CONNECTTOK, \<lambda>_. pbind pstr (\<lambda>x. popt (o_db_connstr_update (\<lambda>_. c_strncpy x MAX_STRING)))),
       (EXPORTTOK, \<lambda>_. pcase
         [(INTERVALTOK, \<lambda>_. pbind pnum (\<lambda>n. popt (o_export_interval_update (\<lambda>_. i32_of_int n)))),
          (MINTOK, \<lambda>_. pthen (ptok PPSTOK) (pbind pnum (\<lambda>n. popt (o_export_min_pps_update (\<lambda>_. i32_of_int n)))))]
         pfail)] pfail ts (opt, h)) K)"
  by (rule sim_case [OF row_at(17)] alts_sim_intros sim_db_connect [OF _ _ K] sim_db_export [OF _ _ K];
      (simp add: assms agree_def less_trans [OF _ assms(2)]; fail)?)+

lemma sim_action_start:
  assumes "toks_ok ts" "length ts < n" and K: "option_cont E vs n K"
  shows "sim E [22, 13, 7, 4, 1, 0] (x # y # vs) ts opt h
    (lift (pthen (ptok COMMANDTOK) (pbind pstr (\<lambda>x. popt (o_exec_start_update (\<lambda>_. c_strncpy x MAX_STRING)))) ts (opt, h)) K)"
  by (rule sim_tok [where m = 34] sim_str [where m = 44] sim_reduce [where d = 15];
      (simp add: option_simps cont_run [OF K] less_trans [OF _ assms(2)] assms; fail)?)+

lemma sim_action_stop:
  assumes "toks_ok ts" "length ts < n" and K: "option_cont E vs n K"
  shows "sim E [35, 23, 13, 7, 4, 1, 0] (x # y # z # vs) ts opt h
      (lift (pbind pstr (\<lambda>x. popt (o_exec_start_update (\<lambda>_. c_strncpy x MAX_STRING))) ts (opt, h)) K)"
  by (rule sim_str [where m = 45] sim_reduce [where d = 16];
      (simp add: option_simps cont_run [OF K] less_trans [OF _ assms(2)] assms; fail)?)+

lemma sim_action_delay:
  assumes "toks_ok ts" "length ts < n" and K: "option_cont E vs n K"
  shows "sim E [36, 23, 13, 7, 4, 1, 0] (x # y # z # vs) ts opt h
      (lift (pbind pnum (\<lambda>n. popt (o_stop_delay_update (\<lambda>_. i32_of_int n))) ts (opt, h)) K)"
  by (rule sim_num [where m = 46] sim_reduce [where d = 17];
      (simp add: option_simps cont_run [OF K] less_trans [OF _ assms(2)] assms; fail)?)+

lemma sim_action:
  assumes "toks_ok ts" "length ts < n" and K: "option_cont E vs n K"
  shows "sim E [13, 7, 4, 1, 0] (x # vs) ts opt h (lift (pcase
      [(STARTTOK, \<lambda>_. pthen (ptok COMMANDTOK) (pbind pstr (\<lambda>x. popt (o_exec_start_update (\<lambda>_. c_strncpy x MAX_STRING))))),
       (STOPTOK, \<lambda>_. pcase
         [(COMMANDTOK, \<lambda>_. pbind pstr (\<lambda>x. popt (o_exec_start_update (\<lambda>_. c_strncpy x MAX_STRING)))),
          (DELAYTOK, \<lambda>_. pbind pnum (\<lambda>n. popt (o_stop_delay_update (\<lambda>_. i32_of_int n))))] pfail)]
      pfail ts (opt, h)) K)"
  by (rule sim_case [OF row_at(14)] sim_case [OF row_at(24)] alts_sim_intros sim_action_start [OF _ _ K] sim_action_stop [OF _ _ K]
      sim_action_delay [OF _ _ K];
      (simp add: assms agree_def less_trans [OF _ assms(2)]; fail)?)+

lemma option_alts_sim:
  assumes K: "option_cont E vs n K"
  shows "alts_sim E [7, 4, 1, 0] vs (option_alts E)
    [(16, 11), (17, 12), (18, 13), (28, 14), (35, 15), (37, 16)] n opt h K"
  unfolding option_alts_def
  by (intro alts_sim_intros sim_debug [OF _ _ K] sim_pid [OF _ _ K] sim_action [OF _ _ K] sim_window [OF _ _ K]
      sim_input [OF _ _ K] sim_db [OF _ _ K]) assumption+

text \<open>
  One round of a loop that ends at a token \<open>t\<close>. When the body starts with a choice that may be empty,
  its alternatives and the end are one choice.
\<close>

definition guarded :: "nat \<Rightarrow> (unit, 'f) pm \<Rightarrow> (unit, 'f) pm" where
  "guarded n m ts s = (if length ts < n then m ts s else Crash OutOfBounds)"

lemma ploop_round:
  "ploop (pcase [(t, \<lambda>_. pret True)] (pret False)) body ts s =
     pcase [(t, \<lambda>_. pret ())] (pthen body (guarded (length ts)
       (ploop (pcase [(t, \<lambda>_. pret True)] (pret False)) body))) ts s"
  by (subst ploop.simps)
    (auto simp: pcase_def pret_def pthen_def pbind_def guarded_def
      split: list.splits lexeme.splits presult.splits)

lemma pthen_assoc: "pthen (pthen a m) k = pthen a (pthen m k)"
  by (intro ext) (simp add: pthen_def pbind_def split: presult.splits)

lemma pthen_pret: "pthen (pret a) k = k"
  by (intro ext) (simp add: pthen_def pbind_def pret_def)

lemma pcase_merge: "pcase [(t, f)] (pcase alts m) = pcase ((t, f) # alts) m"
proof (intro ext)
  fix ts s
  show "pcase [(t, f)] (pcase alts m) ts s = pcase ((t, f) # alts) m ts s"
  proof (cases ts)
    case (Cons x xs)
    then show ?thesis by (cases x) (simp_all add: pcase_def)
  qed (simp add: pcase_def)
qed

lemma map_of_then:
  "map_of (map (\<lambda>(u, f). (u, \<lambda>v. pthen (f v) k)) alts) t = map_option (\<lambda>f v. pthen (f v) k) (map_of alts t)"
  by (induction alts) auto

lemma pthen_apply:
  "pthen m k ts s = (case m ts s of Done a ts' s' \<Rightarrow> k ts' s' | Stop r s' \<Rightarrow> Stop r s' | Crash e \<Rightarrow> Crash e)"
  by (simp add: pthen_def pbind_def)

lemma pthen_pcase:
  "pthen (pcase alts m) k = pcase (map (\<lambda>(u, f). (u, \<lambda>v. pthen (f v) k)) alts) (pthen m k)"
proof (intro ext)
  fix ts s
  show "pthen (pcase alts m) k ts s = pcase (map (\<lambda>(u, f). (u, \<lambda>v. pthen (f v) k)) alts) (pthen m k) ts s"
  proof (cases ts)
    case (Cons x xs)
    then show ?thesis
      by (cases x) (simp_all add: pcase_def map_of_then pthen_apply split: option.splits)
  qed (simp add: pcase_def pthen_apply)
qed

lemma pcase_choice:
  "pcase [(t, f)] (pthen (pthen (pcase alts (pret ())) m) k) =
     pcase ((t, f) # map (\<lambda>(u, f). (u, \<lambda>v. pthen (f v) (pthen m k))) alts) (pthen m k)"
  by (simp only: pthen_assoc) (simp only: pthen_pcase pthen_pret pcase_merge)

lemma alts_sim_map:
  assumes "alts_sim E ss vs alts shifts n opt h (\<lambda>_ ts s. lift (m ts s) K)"
  shows "alts_sim E ss vs (map (\<lambda>(u, f). (u, \<lambda>v. pthen (f v) m)) alts) shifts n opt h K"
  using assms
proof (induction alts arbitrary: shifts)
  case (Cons a alts)
  obtain u f where a: "a = (u, f)" by (cases a)
  show ?case
  proof (cases shifts)
    case (Cons b rest)
    then show ?thesis
      using Cons.prems Cons.IH [of rest] a by (cases b) (simp add: alts_sim_def lift_then)
  qed (simp add: alts_sim_def)
qed (simp add: alts_sim_def)

lemma sim_options:
  assumes "toks_ok ts"
    and K: "cont E [3, 0] [v0] (length ts) K"
  shows "sim E [7, 4, 1, 0] [v3, v2, v1, v0] ts opt h (lift (p_options E ts (opt, h)) K)"
  using assms
proof (induction ts arbitrary: opt h v0 v1 v2 v3 K rule: length_induct)
  case (1 ts)
  let ?G = "pthen (ptok SEMICOLON) (guarded (length ts) (p_options E))"
  have again: "toks_ok us \<Longrightarrow> length us < length ts \<Longrightarrow>
      sim E [7, 4, 1, 0] [v3, v2, v1, v0] us opt h (lift (p_options E us (opt, h)) K)" for us opt h
    using 1 by (auto simp: cont_def)
  have semi: "sim E [17, 7, 4, 1, 0] [v, v3, v2, v1, v0] us opt h (lift (?G us (opt, h)) K)"
    if "toks_ok us" "length us \<le> length ts" for us opt h v
    using that again
    by - (rule sim_tok [where m = 29] sim_reduce [where d = 5];
      (simp add: reduce_simps guarded_def sim_run [OF again]; fail)?)+
  have "p_options E ts (opt, h) =
    pcase ((EBRACE, \<lambda>_. pret ()) # map (\<lambda>(u, f). (u, \<lambda>v. pthen (f v) ?G)) (option_alts E)) ?G ts (opt, h)"
    unfolding p_options_def p_option_def
    by (subst ploop_round, subst pcase_choice) (simp_all add: option_alts_def)
  moreover have "sim E [7, 4, 1, 0] [v3, v2, v1, v0] ts opt h (lift
    (pcase ((EBRACE, \<lambda>_. pret ()) # map (\<lambda>(u, f). (u, \<lambda>v. pthen (f v) ?G)) (option_alts E)) ?G ts (opt, h)) K)"
  proof (rule sim_case_reduce [where gs = "[7, 4, 1, 0]" and ws = "[VNone, v3, v2, v1, v0]",
      OF row_at(8) _ _ 1(2) _ _ _ row_at(18)])
    show "sim E [17, 7, 4, 1, 0] [VNone, v3, v2, v1, v0] ts opt h (lift (?G ts (opt, h)) K)"
      by (rule semi [OF 1(2)]) simp
    show "alts_sim E [7, 4, 1, 0] [v3, v2, v1, v0]
        ((EBRACE, \<lambda>_. pret ()) # map (\<lambda>(u, f). (u, \<lambda>v. pthen (f v) ?G)) (option_alts E))
        [(4, 10), (16, 11), (17, 12), (18, 13), (28, 14), (35, 15), (37, 16)] (length ts) opt h K"
    proof (intro alts_sim_Cons alts_sim_map option_alts_sim)
      show "option_cont E [v3, v2, v1, v0] (length ts) (\<lambda>_ ts s. lift (?G ts s) K)"
        using semi by (simp add: cont_def)
      fix v l and us :: "lexeme list"
      assume "toks_ok us" "length us < length ts"
      then show "sim E [10, 7, 4, 1, 0] ((case v of None \<Rightarrow> l | Some x \<Rightarrow> x) # [v3, v2, v1, v0]) us opt h
          (lift (pret () us (opt, h)) K)"
        by - (rule sim_reduce [where d = 3]; (simp add: reduce_simps pret_def cont_run [OF 1(3)]; fail)?)+
    qed
  qed (simp_all add: agree_def option_alts_def reduce_simps)
  ultimately show ?case by simp
qed

subsection \<open>Parameters of a profile\<close>

text \<open>\<open>below\<close> are the states under the parameters of a profile.\<close>

abbreviation below :: "int list" where
  "below \<equiv> [43, 31, 19, 8, 6, 3, 0]"

abbreviation param_cont :: "'f cfg_env \<Rightarrow> yystype list \<Rightarrow> nat \<Rightarrow> (unit \<Rightarrow> lexeme list \<Rightarrow> 'f cstate \<Rightarrow> 'f outcome) \<Rightarrow> bool" where
  "param_cont E \<equiv> cont E (56 # 52 # 49 # below)"

lemmas param_simps = reduce_simps set_limits_def yy_limit_action_def yy_setter_action_def p_limit_def
  p_set_def pstep_def

lemma sim_set_filter:
  assumes "toks_ok ts" "length ts < n" and K: "param_cont E (VProfile (Some p) # vs) n K"
  shows "sim E (54 # 52 # 49 # below) (x # VProfile (Some p) # vs) ts opt h
    (lift (pbind pstr (p_set (prof_set_filter (ce_prof E)) p) ts (opt, h)) K)"
  by (rule sim_str [where m = 58] sim_reduce [where d = 28];
      (simp add: param_simps cont_run [OF K] less_trans [OF _ assms(2)] assms split: prod.splits; fail)?)+

lemma sim_set_dynamic:
  assumes "toks_ok ts" "length ts < n" and K: "param_cont E (VProfile (Some p) # vs) n K"
  shows "sim E (55 # 52 # 49 # below) (x # VProfile (Some p) # vs) ts opt h
    (lift (pbind pstr (p_set (prof_set_dynamic (ce_prof E)) p) ts (opt, h)) K)"
  by (rule sim_str [where m = 59] sim_reduce [where d = 29];
      (simp add: param_simps cont_run [OF K] less_trans [OF _ assms(2)] assms split: prod.splits; fail)?)+

lemma sim_limit_bits:
  assumes "toks_ok ts" "length ts < n" and K: "param_cont E (VProfile (Some p) # vs) n K"
  shows "sim E (61 # 57 # 53 # 52 # 49 # below) (x # VNumber i # y # VProfile (Some p) # vs) ts opt h
    (lift (p_limit p (c_bytes_update (\<lambda>_. u64_of_int i)) ts (opt, h)) K)"
  by (rule sim_reduce [where d = 30];
      (simp add: param_simps res_bind_def cont_run [OF K] less_trans [OF _ assms(2)] assms split: sum.splits; fail)?)+

lemma sim_limit_bits_factor:
  assumes "toks_ok ts" "length ts < n" and K: "param_cont E (VProfile (Some p) # vs) n K"
  shows "sim E (65 # 64 # 57 # 53 # 52 # 49 # below) (x # VNumber k # VNumber i # y # VProfile (Some p) # vs) ts opt h
    (lift (p_limit p (c_bytes_update (\<lambda>_. u64_of_int (c_quot (i * k) 8))) ts (opt, h)) K)"
  by (rule sim_reduce [where d = 33];
      (simp add: param_simps res_bind_def cont_run [OF K] less_trans [OF _ assms(2)] assms split: sum.splits; fail)?)+

lemma sim_limit_pkts:
  assumes "toks_ok ts" "length ts < n" and K: "param_cont E (VProfile (Some p) # vs) n K"
  shows "sim E (62 # 57 # 53 # 52 # 49 # below) (x # VNumber i # y # VProfile (Some p) # vs) ts opt h
    (lift (p_limit p (c_pkts_update (\<lambda>_. u64_of_int i)) ts (opt, h)) K)"
  by (rule sim_reduce [where d = 31];
      (simp add: param_simps res_bind_def cont_run [OF K] less_trans [OF _ assms(2)] assms split: sum.splits; fail)?)+

lemma sim_limit_flows:
  assumes "toks_ok ts" "length ts < n" and K: "param_cont E (VProfile (Some p) # vs) n K"
  shows "sim E (63 # 57 # 53 # 52 # 49 # below) (x # VNumber i # y # VProfile (Some p) # vs) ts opt h
    (lift (p_limit p (c_flows_update (\<lambda>_. u64_of_int i)) ts (opt, h)) K)"
  by (rule sim_reduce [where d = 32];
      (simp add: param_simps res_bind_def cont_run [OF K] less_trans [OF _ assms(2)] assms split: sum.splits; fail)?)+

lemma sim_limit_pkts_factor:
  assumes "toks_ok ts" "length ts < n" and K: "param_cont E (VProfile (Some p) # vs) n K"
  shows "sim E (66 # 64 # 57 # 53 # 52 # 49 # below) (x # VNumber k # VNumber i # y # VProfile (Some p) # vs) ts opt h
    (lift (p_limit p (c_pkts_update (\<lambda>_. u64_of_int (i * k))) ts (opt, h)) K)"
  by (rule sim_reduce [where d = 34];
      (simp add: param_simps res_bind_def cont_run [OF K] less_trans [OF _ assms(2)] assms split: sum.splits; fail)?)+

lemma sim_limit_flows_factor:
  assumes "toks_ok ts" "length ts < n" and K: "param_cont E (VProfile (Some p) # vs) n K"
  shows "sim E (67 # 64 # 57 # 53 # 52 # 49 # below) (x # VNumber k # VNumber i # y # VProfile (Some p) # vs) ts opt h
    (lift (p_limit p (c_flows_update (\<lambda>_. u64_of_int (i * k))) ts (opt, h)) K)"
  by (rule sim_reduce [where d = 35];
      (simp add: param_simps res_bind_def cont_run [OF K] less_trans [OF _ assms(2)] assms split: sum.splits; fail)?)+

lemma sim_factor:
  assumes "toks_ok ts" "length ts < n" and K: "param_cont E (VProfile (Some p) # vs) n K"
    and v: "lexeme_ok (Lex FACTOR v)"
  shows "sim E (64 # 57 # 53 # 52 # 49 # below) ((case v of None \<Rightarrow> l | Some x \<Rightarrow> x) # VNumber i # y # VProfile (Some p) # vs) ts opt h
    (lift (with_number v (\<lambda>k. pcase
       [(BITPSTOK, \<lambda>_. p_limit p (c_bytes_update (\<lambda>_. u64_of_int (c_quot (i * k) 8)))),
        (PPSTOK, \<lambda>_. p_limit p (c_pkts_update (\<lambda>_. u64_of_int (i * k)))),
        (FPSTOK, \<lambda>_. p_limit p (c_flows_update (\<lambda>_. u64_of_int (i * k))))] pfail) ts (opt, h)) K)"
proof -
  from v obtain k where k: "v = Some (VNumber k)" by (auto simp: lexeme_ok_def)
  have "sim E (64 # 57 # 53 # 52 # 49 # below) (VNumber k # VNumber i # y # VProfile (Some p) # vs) ts opt h
    (lift (pcase
       [(BITPSTOK, \<lambda>_. p_limit p (c_bytes_update (\<lambda>_. u64_of_int (c_quot (i * k) 8)))),
        (PPSTOK, \<lambda>_. p_limit p (c_pkts_update (\<lambda>_. u64_of_int (i * k)))),
        (FPSTOK, \<lambda>_. p_limit p (c_flows_update (\<lambda>_. u64_of_int (i * k))))] pfail ts (opt, h)) K)"
    by (rule sim_case [OF row_at(65)] alts_sim_intros sim_limit_bits_factor [OF _ _ K]
        sim_limit_pkts_factor [OF _ _ K] sim_limit_flows_factor [OF _ _ K];
      (simp add: assms agree_def less_trans [OF _ assms(2)]; fail)?)+
  then show ?thesis by (simp add: k with_number_def)
qed

lemma sim_limit:
  assumes "toks_ok ts" "length ts < n" and K: "param_cont E (VProfile (Some p) # vs) n K"
  shows "sim E (53 # 52 # 49 # below) (x # VProfile (Some p) # vs) ts opt h
    (lift (pbind pnum (\<lambda>n. pcase
        [(BITPSTOK, \<lambda>_. p_limit p (c_bytes_update (\<lambda>_. u64_of_int n))),
         (PPSTOK, \<lambda>_. p_limit p (c_pkts_update (\<lambda>_. u64_of_int n))),
         (FPSTOK, \<lambda>_. p_limit p (c_flows_update (\<lambda>_. u64_of_int n))),
         (FACTOR, \<lambda>v. with_number v (\<lambda>k. pcase
           [(BITPSTOK, \<lambda>_. p_limit p (c_bytes_update (\<lambda>_. u64_of_int (c_quot (n * k) 8)))),
            (PPSTOK, \<lambda>_. p_limit p (c_pkts_update (\<lambda>_. u64_of_int (n * k)))),
            (FPSTOK, \<lambda>_. p_limit p (c_flows_update (\<lambda>_. u64_of_int (n * k))))] pfail))] pfail) ts (opt, h)) K)"
  by (rule sim_num [where m = 57] sim_case [OF row_at(58)] alts_sim_intros sim_limit_bits [OF _ _ K]
      sim_limit_pkts [OF _ _ K] sim_limit_flows [OF _ _ K] sim_factor [OF _ _ K];
    (simp add: assms agree_def less_trans [OF less_trans [OF _ _] assms(2)] less_trans [OF _ assms(2)]; fail)?)+

lemma param_alts_sim:
  assumes K: "param_cont E (VProfile (Some p) # vs) n K"
  shows "alts_sim E (52 # 49 # below) (VProfile (Some p) # vs) (param_alts E p)
    [(7, 53), (8, 54), (29, 55)] n opt h K"
  unfolding param_alts_def
  by (intro alts_sim_intros sim_limit [OF _ _ K] sim_set_filter [OF _ _ K] sim_set_dynamic [OF _ _ K]) assumption+

lemma sim_params:
  assumes "toks_ok ts"
    and K: "cont E [9, 6, 3, 0] [v6, v3, v0] (length ts) K"
  shows "sim E (49 # below) [v49, VProfile (Some p), v31, v19, v8, v6, v3, v0] ts opt h
    (lift (p_params E p ts (opt, h)) K)"
  using assms
proof (induction ts arbitrary: opt h v49 K rule: length_induct)
  case (1 ts)
  let ?vs = "[v49, VProfile (Some p), v31, v19, v8, v6, v3, v0]"
  let ?G = "pthen (ptok SEMICOLON) (guarded (length ts) (p_params E p))"
  have again: "toks_ok us \<Longrightarrow> length us < length ts \<Longrightarrow>
      sim E (49 # below) ?vs us opt h (lift (p_params E p us (opt, h)) K)" for us opt h
    using 1 by (auto simp: cont_def)
  have semi: "sim E (56 # 52 # 49 # below) (v # w # ?vs) us opt h (lift (?G us (opt, h)) K)"
    if "toks_ok us" "length us \<le> length ts" for us opt h v w
    using that again
    by - (rule sim_tok [where m = 60] sim_reduce [where d = 26];
      (simp add: reduce_simps guarded_def sim_run [OF again]; fail)?)+
  have param: "sim E (52 # 49 # below) (VProfile (Some p) # ?vs) ts opt h
    (lift (pcase (map (\<lambda>(u, f). (u, \<lambda>v. pthen (f v) ?G)) (param_alts E p)) ?G ts (opt, h)) K)"
  proof (rule sim_case_reduce [where gs = "52 # 49 # below" and ws = "VNone # VProfile (Some p) # ?vs",
      OF row_at(53) _ _ 1(2) _ _ _ row_at(57)])
    show "sim E (56 # 52 # 49 # below) (VNone # VProfile (Some p) # ?vs) ts opt h (lift (?G ts (opt, h)) K)"
      by (rule semi [OF 1(2)]) simp
    show "alts_sim E (52 # 49 # below) (VProfile (Some p) # ?vs)
        (map (\<lambda>(u, f). (u, \<lambda>v. pthen (f v) ?G)) (param_alts E p)) [(7, 53), (8, 54), (29, 55)] (length ts) opt h K"
      using semi by (intro alts_sim_map param_alts_sim) (simp add: cont_def)
  qed (simp_all add: agree_def param_alts_def reduce_simps)
  have "p_params E p ts (opt, h) = pcase [(EBRACE, \<lambda>_. pret ())]
      (pcase (map (\<lambda>(u, f). (u, \<lambda>v. pthen (f v) ?G)) (param_alts E p)) ?G) ts (opt, h)"
    unfolding p_params_def p_param_def
    by (subst ploop_round) (simp only: pthen_assoc, simp only: pthen_pcase pthen_pret)
  moreover have "sim E (49 # below) ?vs ts opt h (lift (pcase [(EBRACE, \<lambda>_. pret ())]
      (pcase (map (\<lambda>(u, f). (u, \<lambda>v. pthen (f v) ?G)) (param_alts E p)) ?G) ts (opt, h)) K)"
  proof (rule sim_case_reduce [where gs = "49 # below" and ws = "VProfile (Some p) # ?vs",
      OF row_at(50) _ _ 1(2) _ _ _ row_at(53)])
    show "alts_sim E (49 # below) ?vs [(EBRACE, \<lambda>_. pret ())] [(4, 51)] (length ts) opt h K"
    proof (intro alts_sim_intros)
      fix v l and us :: "lexeme list"
      assume "toks_ok us" "length us < length ts"
      then show "sim E (51 # 49 # below) ((case v of None \<Rightarrow> l | Some x \<Rightarrow> x) # ?vs) us opt h
          (lift (pret () us (opt, h)) K)"
        by - (rule sim_reduce [where d = 22]; (simp add: reduce_simps pret_def cont_run [OF 1(3)]; fail)?)+
    qed
  qed (use param in \<open>simp_all add: agree_def reduce_simps\<close>)
  ultimately show ?case by simp
qed

subsection \<open>Profiles and the whole configuration\<close>

lemma sim_new_profile:
  assumes "toks_ok ts" "length ts < n" and K: "cont E [9, 6, 3, 0] [v6, v3, v0] n K"
  shows "sim E [31, 19, 8, 6, 3, 0] [v31, VString x, v8, v6, v3, v0] ts opt h
    (lift (pbind (p_new_profile E x) (p_params E) ts (opt, h)) K)"
proof (rule sim_reduce [where d = 21])
  fix l
  show "yyrest E (yyreduce E 21 (pst [31, 19, 8, 6, 3, 0] [v31, VString x, v8, v6, v3, v0] YYEMPTY l ts opt h)) =
    lift (pbind (p_new_profile E x) (p_params E) ts (opt, h)) K"
  proof (cases "prof_new (ce_prof E) (Some x) h")
    case (Pair pp h1)
    show ?thesis
    proof (cases pp)
      case None
      with Pair show ?thesis by (simp add: reduce_simps yy_profile_action_def pbind_def p_new_profile_def)
    next
      case (Some p)
      obtain r root h2 where add: "prof_add (ce_prof E) (o_root_profile opt) p h1 = (r, root, h2)"
        by (cases "prof_add (ce_prof E) (o_root_profile opt) p h1") auto
      have "sim E [43, 31, 19, 8, 6, 3, 0] [VProfile (Some p), v31, VString x, v8, v6, v3, v0] ts
        (opt\<lparr>o_root_profile := root\<rparr>) h2 (lift (p_params E p ts (opt\<lparr>o_root_profile := root\<rparr>, h2)) K)"
        using K assms(2)
        by (intro sim_reduce [where d = 24])
          (simp_all add: reduce_simps sim_run [OF sim_params] assms(1) cont_def)
      with Pair Some add show ?thesis
        by (simp add: reduce_simps yy_profile_action_def pbind_def p_new_profile_def sim_def)
    qed
  qed
qed (simp_all add: assms)

lemma sim_rule:
  assumes "toks_ok ts" "length ts < n" and K: "cont E [9, 6, 3, 0] [v6, v3, v0] n K"
  shows "sim E [8, 6, 3, 0] [v8, v6, v3, v0] ts opt h (lift (p_rule E ts (opt, h)) K)"
  unfolding p_rule_def
proof (rule sim_case [OF row_at(9)]; (intro alts_sim_intros)?)
  fix v l us
  assume us: "toks_ok us" "length us < length ts"
  then have us': "length us < n" using assms(2) by simp
  let ?v = "(case v of None \<Rightarrow> l | Some x \<Rightarrow> x) :: yystype"
  show "sim E [18, 8, 6, 3, 0] [?v, v8, v6, v3, v0] us opt h
      (lift (pthen (ptok SEMICOLON) (popt (o_db_profiles_update (\<lambda>_. 1))) us (opt, h)) K)"
    by (rule sim_tok [where m = 30] sim_reduce [where d = 23];
      (simp add: us reduce_simps popt_def cont_run [OF K] less_trans [OF _ us']; fail)?)+
  assume "lexeme_ok (Lex STRING v)"
  then obtain x where x: "v = Some (VString x)" by (auto simp: lexeme_ok_def)
  have "sim E [19, 8, 6, 3, 0] [VString x, v8, v6, v3, v0] us opt h
      (lift (pthen (ptok OBRACE) (pbind (p_new_profile E x) (p_params E)) us (opt, h)) K)"
    by (rule sim_tok [where m = 31] sim_new_profile [OF _ _ K];
      (simp add: us less_trans [OF _ us']; fail)?)+
  then show "sim E [19, 8, 6, 3, 0] [?v, v8, v6, v3, v0] us opt h
      (lift (with_string v (\<lambda>x. pthen (ptok OBRACE) (pbind (p_new_profile E x) (p_params E))) us (opt, h)) K)"
    by (simp add: x with_string_def)
qed (simp_all add: assms agree_def)

lemma p_rules_round:
  "p_rules E ts s = pcase [(PROFILETOK, \<lambda>_. pthen (p_rule E) (guarded (length ts) (p_rules E)))] (pret ()) ts s"
proof (cases ts)
  case Nil
  then show ?thesis by (simp add: p_rules_def ploop.simps [of _ _ "[]"] pcase_def pret_def)
next
  case (Cons x xs)
  show ?thesis
    unfolding p_rules_def Cons
    by (subst ploop.simps, cases x) (auto simp: pcase_def pret_def pthen_apply guarded_def split: presult.splits)
qed

lemma sim_end:
  assumes "\<forall>v ts'. ts \<noteq> Lex PROFILETOK v # ts'"
  shows "sim E [2, 0] [v2, v0] ts opt h (presult_of (pend ts (opt, h)))"
proof (cases ts)
  case (Cons x us)
  show ?thesis
  proof (cases x)
    case (Lex t v)
    with Cons show ?thesis
      using token_code_pos [of t]
      by (simp add: sim_def run_look [OF row_at(3)] yygo_def presult_of_def pend_def)
  qed (simp add: Cons sim_def run_look [OF row_at(3)] presult_of_def pend_def)
qed (simp add: sim_def run_look [OF row_at(3)] yygo_def presult_of_def pend_def)

lemma sim_rules:
  assumes "toks_ok ts"
  shows "sim E [6, 3, 0] [v6, v3, v0] ts opt h (lift (p_rules E ts (opt, h)) (\<lambda>_ ts s. presult_of (pend ts s)))"
  using assms
proof (induction ts arbitrary: opt h rule: length_induct)
  case (1 ts)
  let ?K = "\<lambda>_ ts s. presult_of (pend ts s)" and ?G = "guarded (length ts) (p_rules E)"
  have again: "toks_ok us \<Longrightarrow> length us < length ts \<Longrightarrow>
      sim E [6, 3, 0] [v6, v3, v0] us opt h (lift (p_rules E us (opt, h)) ?K)" for us opt h
    using 1 by simp
  have K: "cont E [9, 6, 3, 0] [v6, v3, v0] (length ts) (\<lambda>_ ts s. lift (?G ts s) ?K)"
    unfolding cont_def
    by (intro allI impI sim_reduce [where d = 19])
      (simp_all add: reduce_simps guarded_def sim_run [OF again])
  have "sim E [6, 3, 0] [v6, v3, v0] ts opt h
    (lift (pcase [(PROFILETOK, \<lambda>_. pthen (p_rule E) ?G)] (pret ()) ts (opt, h)) ?K)"
  proof (rule sim_case_reduce [where gs = "[0]" and ws = "[v3, v0]", OF row_at(7) _ _ 1(2) _ _ _ row_at(3)])
    show "alts_sim E [6, 3, 0] [v6, v3, v0] [(PROFILETOK, \<lambda>_. pthen (p_rule E) ?G)] [(6, 8)] (length ts) opt h ?K"
      using sim_rule [OF _ _ K] by (intro alts_sim_intros) (simp add: lift_then)
    assume "\<forall>t v ts'. ts = Lex t v # ts' \<longrightarrow> map_of [(PROFILETOK, \<lambda>_. pthen (p_rule E) ?G)] t = None"
    then have "\<forall>v ts'. ts \<noteq> Lex PROFILETOK v # ts'" by auto
    then show "sim E [2, 0] [v3, v0] ts opt h (lift (pret () ts (opt, h)) ?K)"
      by (simp add: pret_def sim_end)
  qed (simp_all add: agree_def reduce_simps)
  then show ?case by (simp add: p_rules_round)
qed

lemma sim_config:
  assumes "toks_ok ts"
  shows "sim E [0] [VNone] ts opt h (presult_of (p_config E ts (opt, h)))"
proof -
  let ?K = "\<lambda>_ ts s. presult_of (pend ts s)"
  have K: "cont E [3, 0] [VNone] n (\<lambda>_ ts s. lift (p_rules E ts s) ?K)" for n
    unfolding cont_def
    by (intro allI impI sim_reduce [where d = 18]) (simp_all add: reduce_simps sim_run [OF sim_rules])
  have "sim E [0] [VNone] ts opt h (lift (pthen (ptok OPTIONSTOK) (pthen (ptok OBRACE)
      (pthen (p_options E) (p_rules E))) ts (opt, h)) ?K)"
  proof (rule sim_tok [where m = 1])
    fix v vs
    assume vs: "toks_ok (vs :: lexeme list)"
    show "sim E [1, 0] [v, VNone] vs opt h (lift (pthen (ptok OBRACE) (pthen (p_options E) (p_rules E)) vs (opt, h)) ?K)"
    proof (rule sim_tok [where m = 4])
      fix w us
      assume us: "toks_ok (us :: lexeme list)"
      show "sim E [4, 1, 0] [w, v, VNone] us opt h (lift (pthen (p_options E) (p_rules E) us (opt, h)) ?K)"
        using sim_options [OF us K] us
        by (intro sim_reduce [where d = 4]) (simp_all add: reduce_simps lift_then sim_run)
    qed (simp_all add: vs)
  qed (simp_all add: assms)
  moreover have "lift (pthen (ptok OPTIONSTOK) (pthen (ptok OBRACE) (pthen (p_options E) (p_rules E))) ts (opt, h)) ?K =
      presult_of (p_config E ts (opt, h))"
  proof -
    have lift_pend: "lift r (\<lambda>_ ts s. presult_of (pend ts s)) = presult_of (case r of
        Done a ts' s' \<Rightarrow> pend ts' s' | Stop r s' \<Rightarrow> Stop r s' | Crash e \<Rightarrow> Crash e)" for r :: "(unit, 'a) presult"
      by (simp add: lift_def presult_of_def split: presult.splits)
    show ?thesis
      by (simp add: p_config_def pthen_assoc [symmetric] lift_pend pthen_apply [symmetric])
  qed
  ultimately show ?thesis by simp
qed

section \<open>The generated parser computes the grammar\<close>

lemma yyparse_run: "yyparse E ts opt h = yyrun E (pst [0] [VNone] YYEMPTY VNone ts opt h)"
  by (simp add: yyparse_def yyrun_def yystart_def pst_def)

lemma yyparse_eq: "toks_ok ts \<Longrightarrow> yyparse E ts opt h = presult_of (p_config E ts (opt, h))"
  by (simp add: yyparse_run sim_run [OF sim_config])

end
