(* ===== verification/Config_Semantics.thy ===== *)
theory Config_Semantics
  imports Config_Grammar
begin

text \<open>
  Configurations as syntax trees: what the statements of a configuration file do to the options and
  the profiles, without tokens. Parsing the tokens of a tree performs its statements in order, and
  every token list that the parser accepts is the list of a tree. A small Hoare logic for the
  parsers gives what holds of every token list: the faults that can occur, the results, and the
  options that no configuration can set.
\<close>

section \<open>Syntax trees and their tokens\<close>

datatype option_stmt =
    NoOption
  | DebugLevel int
  | PidFile string
  | WindowSize int
  | InputShm string
  | InputFilter string
  | DbConnect string
  | DbExportInterval int
  | DbExportMinPps int
  | ActionStartCommand string
  | ActionStopCommand string
  | ActionStopDelay int

datatype limit_unit = Bps | Pps | Fps

datatype param_stmt =
    NoParam
  | Filter string
  | Dynamic string
  | Limit int "int option" limit_unit

datatype rule_stmt = ProfileDb | Profile string "param_stmt list"

type_synonym config_stmts = "option_stmt list \<times> rule_stmt list"

abbreviation kw :: "yytokentype \<Rightarrow> lexeme" where
  "kw t \<equiv> Lex t None"

abbreviation num :: "int \<Rightarrow> lexeme" where
  "num n \<equiv> Lex NUMBER (Some (VNumber n))"

abbreviation str :: "string \<Rightarrow> lexeme" where
  "str x \<equiv> Lex STRING (Some (VString x))"

fun option_tokens :: "option_stmt \<Rightarrow> lexeme list" where
  "option_tokens NoOption = []"
| "option_tokens (DebugLevel n) = [kw DEBUGTOK, kw LEVELTOK, num n]"
| "option_tokens (PidFile x) = [kw PIDTOK, kw FILETOK, str x]"
| "option_tokens (WindowSize n) = [kw WINDOWTOK, kw SIZETOK, num n]"
| "option_tokens (InputShm x) = [kw INPUTTOK, kw SHMTOK, str x]"
| "option_tokens (InputFilter x) = [kw INPUTTOK, kw FILTERTOK, str x]"
| "option_tokens (DbConnect x) = [kw DBTOK, kw CONNECTTOK, str x]"
| "option_tokens (DbExportInterval n) = [kw DBTOK, kw EXPORTTOK, kw INTERVALTOK, num n]"
| "option_tokens (DbExportMinPps n) = [kw DBTOK, kw EXPORTTOK, kw MINTOK, kw PPSTOK, num n]"
| "option_tokens (ActionStartCommand x) = [kw ACTIONTOK, kw STARTTOK, kw COMMANDTOK, str x]"
| "option_tokens (ActionStopCommand x) = [kw ACTIONTOK, kw STOPTOK, kw COMMANDTOK, str x]"
| "option_tokens (ActionStopDelay n) = [kw ACTIONTOK, kw STOPTOK, kw DELAYTOK, num n]"

fun unit_token :: "limit_unit \<Rightarrow> yytokentype" where
  "unit_token Bps = BITPSTOK"
| "unit_token Pps = PPSTOK"
| "unit_token Fps = FPSTOK"

fun param_tokens :: "param_stmt \<Rightarrow> lexeme list" where
  "param_tokens NoParam = []"
| "param_tokens (Filter x) = [kw FILTERTOK, str x]"
| "param_tokens (Dynamic x) = [kw DYNAMICTOK, str x]"
| "param_tokens (Limit n None u) = [kw LIMITTOK, num n, kw (unit_token u)]"
| "param_tokens (Limit n (Some k) u) = [kw LIMITTOK, num n, Lex FACTOR (Some (VNumber k)), kw (unit_token u)]"

fun rule_tokens :: "rule_stmt \<Rightarrow> lexeme list" where
  "rule_tokens ProfileDb = [kw PROFILETOK, kw DBTOK, kw SEMICOLON]"
| "rule_tokens (Profile x ps) = [kw PROFILETOK, str x, kw OBRACE] @
     concat (map (\<lambda>p. param_tokens p @ [kw SEMICOLON]) ps) @ [kw EBRACE]"

fun config_tokens :: "config_stmts \<Rightarrow> lexeme list" where
  "config_tokens (os, rs) = [kw OPTIONSTOK, kw OBRACE] @
     concat (map (\<lambda>s. option_tokens s @ [kw SEMICOLON]) os) @ [kw EBRACE] @ concat (map rule_tokens rs)"

section \<open>What the statements do\<close>

text \<open>A statement goes on with a new state, or ends the parse with the result 1, or faults.\<close>

datatype 'f exec = Go "'f cstate" | Halt "'f cstate" | Fault fault

fun exec_bind :: "'f exec \<Rightarrow> ('f cstate \<Rightarrow> 'f exec) \<Rightarrow> 'f exec" where
  "exec_bind (Go s) k = k s"
| "exec_bind (Halt s) k = Halt s"
| "exec_bind (Fault e) k = Fault e"

primrec exec_all :: "('s \<Rightarrow> 'f cstate \<Rightarrow> 'f exec) \<Rightarrow> 's list \<Rightarrow> 'f cstate \<Rightarrow> 'f exec" where
  "exec_all f [] s = Go s"
| "exec_all f (x # xs) s = exec_bind (f x s) (exec_all f xs)"

definition set_opt :: "('f nfd_options \<Rightarrow> 'f nfd_options) \<Rightarrow> 'f cstate \<Rightarrow> 'f exec" where
  "set_opt f s = Go (f (fst s), snd s)"

fun exec_option :: "'f cfg_env \<Rightarrow> option_stmt \<Rightarrow> 'f cstate \<Rightarrow> 'f exec" where
  "exec_option E NoOption s = Go s"
| "exec_option E (DebugLevel n) s =
     set_opt (\<lambda>opt. if o_debug_fromarg opt = 0 then opt\<lparr>o_debug := i32_of_int n\<rparr> else opt) s"
| "exec_option E (PidFile x) s =
     set_opt (\<lambda>opt. if o_pid_file_fromarg opt = 0 then opt\<lparr>o_pid_file := c_strncpy x MAX_STRING\<rparr> else opt) s"
| "exec_option E (WindowSize n) s = set_opt (o_window_size_update (\<lambda>_. i32_of_int n)) s"
| "exec_option E (InputShm x) s = set_opt (o_shm_update (\<lambda>_. c_strncpy x MAX_STRING)) s"
| "exec_option E (InputFilter x) s =
     (let (r, opt) = nfd_cfg_set_filter (ce_filter_init E) (fst s) (Some x) in
      if r \<noteq> 0 then Go (opt, snd s) else Halt (opt, snd s))"
| "exec_option E (DbConnect x) s = set_opt (o_db_connstr_update (\<lambda>_. c_strncpy x MAX_STRING)) s"
| "exec_option E (DbExportInterval n) s = set_opt (o_export_interval_update (\<lambda>_. i32_of_int n)) s"
| "exec_option E (DbExportMinPps n) s = set_opt (o_export_min_pps_update (\<lambda>_. i32_of_int n)) s"
| "exec_option E (ActionStartCommand x) s = set_opt (o_exec_start_update (\<lambda>_. c_strncpy x MAX_STRING)) s"
| "exec_option E (ActionStopCommand x) s = set_opt (o_exec_start_update (\<lambda>_. c_strncpy x MAX_STRING)) s"
| "exec_option E (ActionStopDelay n) s = set_opt (o_stop_delay_update (\<lambda>_. i32_of_int n)) s"

text \<open>The number that a limit stores: bits become bytes only when the limit has a factor.\<close>

fun limit_value :: "int \<Rightarrow> int option \<Rightarrow> limit_unit \<Rightarrow> int" where
  "limit_value n None u = n"
| "limit_value n (Some k) Bps = c_quot (n * k) 8"
| "limit_value n (Some k) u = n * k"

fun limit_field :: "limit_unit \<Rightarrow> u64 \<Rightarrow> nfd_counter \<Rightarrow> nfd_counter" where
  "limit_field Bps w = c_bytes_update (\<lambda>_. w)"
| "limit_field Pps w = c_pkts_update (\<lambda>_. w)"
| "limit_field Fps w = c_flows_update (\<lambda>_. w)"

fun exec_param :: "'f cfg_env \<Rightarrow> ptr \<Rightarrow> param_stmt \<Rightarrow> 'f cstate \<Rightarrow> 'f exec" where
  "exec_param E p NoParam s = Go s"
| "exec_param E p (Filter x) s =
     (let (r, h) = prof_set_filter (ce_prof E) p x (snd s) in
      if r \<noteq> 0 then Go (fst s, h) else Halt (fst s, h))"
| "exec_param E p (Dynamic x) s =
     (let (r, h) = prof_set_dynamic (ce_prof E) p x (snd s) in
      if r \<noteq> 0 then Go (fst s, h) else Halt (fst s, h))"
| "exec_param E p (Limit n k u) s =
     (case prof_write p (p_limits_update (limit_field u (u64_of_int (limit_value n k u)))) (snd s) of
        Inl e \<Rightarrow> Fault e
      | Inr h \<Rightarrow> Go (fst s, h))"

fun exec_rule :: "'f cfg_env \<Rightarrow> rule_stmt \<Rightarrow> 'f cstate \<Rightarrow> 'f exec" where
  "exec_rule E ProfileDb s = set_opt (o_db_profiles_update (\<lambda>_. 1)) s"
| "exec_rule E (Profile x ps) s =
     (let (pp, h1) = prof_new (ce_prof E) (Some x) (snd s) in
      case pp of
        None \<Rightarrow> Halt (fst s, h1)
      | Some p \<Rightarrow>
          let (r, root, h2) = prof_add (ce_prof E) (o_root_profile (fst s)) p h1
          in exec_all (exec_param E p) ps ((fst s)\<lparr>o_root_profile := root\<rparr>, h2))"

definition exec_config :: "'f cfg_env \<Rightarrow> config_stmts \<Rightarrow> 'f cstate \<Rightarrow> 'f exec" where
  "exec_config E c s = exec_bind (exec_all (exec_option E) (fst c) s) (exec_all (exec_rule E) (snd c))"

fun exec_result :: "'f exec \<Rightarrow> 'f outcome" where
  "exec_result (Go s) = Some (Inr (0, s))"
| "exec_result (Halt s) = Some (Inr (1, s))"
| "exec_result (Fault e) = Some (Inl e)"

section \<open>Parsing the tokens of a tree\<close>

fun after :: "'f exec \<Rightarrow> lexeme list \<Rightarrow> (unit, 'f) presult" where
  "after (Go s) ts = Done () ts s"
| "after (Halt s) ts = Stop 1 s"
| "after (Fault e) ts = Crash e"

lemma pcase_Lex:
  "pcase alts m (Lex t v # ts) s = (case map_of alts t of None \<Rightarrow> m (Lex t v # ts) s | Some f \<Rightarrow> f v ts s)"
  by (simp add: pcase_def)

lemma pbind_apply:
  "pbind m k ts s = (case m ts s of Done a ts' s' \<Rightarrow> k a ts' s' | Stop r s' \<Rightarrow> Stop r s' | Crash e \<Rightarrow> Crash e)"
  by (simp add: pbind_def)

lemmas parser_simps = pcase_Lex pbind_apply pthen_apply ptok_def pnum_def pstr_def popt_def pret_def pfail_def

lemma p_option_tokens:
  "pthen (p_option E) (ptok SEMICOLON) (option_tokens c @ kw SEMICOLON # ts) s = after (exec_option E c s) ts"
  by (cases c)
    (simp_all add: parser_simps p_option_def option_alts_def set_opt_def p_filter_def pstep_def split: prod.splits)

lemma p_param_tokens:
  "pthen (p_param E p) (ptok SEMICOLON) (param_tokens c @ kw SEMICOLON # ts) s = after (exec_param E p c s) ts"
proof (cases c)
  case (Limit n k u)
  then show ?thesis
    by (cases k; cases u)
      (simp_all add: parser_simps p_param_def param_alts_def p_limit_def pstep_def with_number_def res_bind_def
        split: prod.splits sum.splits)
qed (simp_all add: parser_simps p_param_def param_alts_def p_set_def pstep_def split: prod.splits)

lemma p_options_tokens:
  "p_options E (concat (map (\<lambda>c. option_tokens c @ [kw SEMICOLON]) cs) @ kw EBRACE # ts) s =
     after (exec_all (exec_option E) cs s) ts"
proof (induction cs arbitrary: s)
  case Nil
  show ?case by (simp add: p_options_def ploop_round pcase_Lex pret_def)
next
  case (Cons c cs)
  let ?us = "concat (map (\<lambda>c. option_tokens c @ [kw SEMICOLON]) cs) @ kw EBRACE # ts"
  have first: "\<exists>t us. option_tokens c @ kw SEMICOLON # ?us = Lex t None # us \<and> t \<noteq> EBRACE"
    by (cases c) auto
  have "p_options E (option_tokens c @ kw SEMICOLON # ?us) s =
    pthen (pthen (p_option E) (ptok SEMICOLON)) (guarded (length (option_tokens c @ kw SEMICOLON # ?us)) (p_options E))
      (option_tokens c @ kw SEMICOLON # ?us) s"
    using first unfolding p_options_def by (subst ploop_round) (auto simp: pcase_Lex)
  also have "\<dots> = after (exec_all (exec_option E) (c # cs) s) ts"
    by (cases "exec_option E c s")
      (simp_all add: pthen_apply [of "pthen (p_option E) (ptok SEMICOLON)"] p_option_tokens guarded_def Cons.IH
        del: append.simps)
  finally show ?case by simp
qed

lemma p_params_tokens:
  "p_params E p (concat (map (\<lambda>c. param_tokens c @ [kw SEMICOLON]) cs) @ kw EBRACE # ts) s =
     after (exec_all (exec_param E p) cs s) ts"
proof (induction cs arbitrary: s)
  case Nil
  show ?case by (simp add: p_params_def ploop_round pcase_Lex pret_def)
next
  case (Cons c cs)
  let ?us = "concat (map (\<lambda>c. param_tokens c @ [kw SEMICOLON]) cs) @ kw EBRACE # ts"
  have "\<exists>t us. param_tokens c @ kw SEMICOLON # ?us = Lex t None # us \<and> t \<noteq> EBRACE"
    by (cases c rule: param_tokens.cases) auto
  then have "p_params E p (param_tokens c @ kw SEMICOLON # ?us) s =
    pthen (pthen (p_param E p) (ptok SEMICOLON)) (guarded (length (param_tokens c @ kw SEMICOLON # ?us)) (p_params E p))
      (param_tokens c @ kw SEMICOLON # ?us) s"
    unfolding p_params_def by (subst ploop_round) (auto simp: pcase_Lex)
  also have "\<dots> = after (exec_all (exec_param E p) (c # cs) s) ts"
    by (cases "exec_param E p c s")
      (simp_all add: pthen_apply [of "pthen (p_param E p) (ptok SEMICOLON)"] p_param_tokens guarded_def Cons.IH
        del: append.simps)
  finally show ?case by simp
qed

lemma p_rule_tokens:
  "rule_tokens c @ ts = kw PROFILETOK # us \<Longrightarrow> p_rule E us s = after (exec_rule E c s) ts"
  by (cases c)
    (auto simp: parser_simps p_rule_def set_opt_def with_string_def p_new_profile_def Let_def p_params_tokens
      split: prod.splits option.splits)

lemma p_rules_tokens:
  "lift (p_rules E (concat (map rule_tokens cs)) s) (\<lambda>_ ts s. presult_of (pend ts s)) =
     exec_result (exec_all (exec_rule E) cs s)"
proof (induction cs arbitrary: s)
  case Nil
  show ?case
    by (cases s) (simp add: p_rules_round pcase_def pret_def presult_of_def pend_def)
next
  case (Cons c cs)
  let ?us = "concat (map rule_tokens cs)"
  obtain us where us: "rule_tokens c @ ?us = kw PROFILETOK # us" by (cases c) auto
  have "1 \<le> length (rule_tokens c)" by (cases c) simp_all
  with arg_cong [OF us, of length] have "length ?us < Suc (length us)" by simp
  with us show ?case
    by (cases "exec_rule E c s") (simp_all add: p_rules_round [of E "kw PROFILETOK # us"] pcase_Lex pthen_apply p_rule_tokens [OF us] guarded_def Cons.IH)
qed

lemma lexeme_ok_tokens [simp]:
  "lexeme_ok (num n)" "lexeme_ok (str x)" "lexeme_ok (Lex FACTOR (Some (VNumber n)))"
  "t \<noteq> NUMBER \<Longrightarrow> t \<noteq> FACTOR \<Longrightarrow> t \<noteq> STRING \<Longrightarrow> lexeme_ok (kw t)"
  by (auto simp: lexeme_ok_def)

lemma unit_token_kw [simp]: "lexeme_ok (kw (unit_token u))"
  by (cases u) simp_all

lemma toks_ok_append [simp]: "toks_ok (xs @ ys) \<longleftrightarrow> toks_ok xs \<and> toks_ok ys"
  by (simp add: toks_ok_def)

lemma toks_ok_concat: "(\<And>x. x \<in> set xs \<Longrightarrow> toks_ok (f x)) \<Longrightarrow> toks_ok (concat (map f xs))"
  by (induction xs) auto

lemma config_tokens_ok: "toks_ok (config_tokens c)"
proof -
  have "toks_ok (option_tokens c)" for c by (cases c) simp_all
  moreover have "toks_ok (param_tokens c)" for c by (cases c rule: param_tokens.cases) simp_all
  then have "toks_ok (rule_tokens c)" for c by (cases c) (auto intro!: toks_ok_concat)
  ultimately show ?thesis by (cases c) (auto intro!: toks_ok_concat)
qed

lemma p_config_tokens: "presult_of (p_config E (config_tokens c) s) = exec_result (exec_config E c s)"
proof -
  obtain cs rs where c: "c = (cs, rs)" by (cases c)
  have lift_pend: "presult_of (pthen m pend ts s) = lift (m ts s) (\<lambda>_ ts s. presult_of (pend ts s))" for m ts
    by (simp add: lift_def presult_of_def pthen_apply split: presult.splits)
  show ?thesis
    unfolding c p_config_def exec_config_def
    by (cases "exec_all (exec_option E) cs s")
      (simp_all add: pthen_assoc [symmetric] lift_pend,
       simp_all add: parser_simps p_options_tokens p_rules_tokens)
qed

section \<open>Every accepted token list is the list of a tree\<close>

text \<open>The tokens without the values that a parser does not read.\<close>

fun shape :: "lexeme \<Rightarrow> lexeme" where
  "shape (Lex t v) = Lex t (if t = NUMBER \<or> t = FACTOR \<or> t = STRING then v else None)"
| "shape (LexFault e) = LexFault e"

lemma pthen_Done:
  "pthen m k ts s = Done b ts' s' \<longleftrightarrow> (\<exists>a ts1 s1. m ts s = Done a ts1 s1 \<and> k ts1 s1 = Done b ts' s')"
  by (simp add: pthen_apply split: presult.splits)

lemma pbind_Done:
  "pbind m k ts s = Done b ts' s' \<longleftrightarrow> (\<exists>a ts1 s1. m ts s = Done a ts1 s1 \<and> k a ts1 s1 = Done b ts' s')"
  by (simp add: pbind_apply split: presult.splits)

lemma pcase_Nil: "pcase [] m ts s = Done a ts' s' \<longleftrightarrow> (\<forall>e us. ts \<noteq> LexFault e # us) \<and> m ts s = Done a ts' s'"
  by (auto simp: pcase_def split: list.splits lexeme.splits)

lemma pcase_Cons:
  "pcase ((t, f) # alts) m ts s = Done a ts' s' \<longleftrightarrow>
     (\<exists>v us. ts = Lex t v # us \<and> f v us s = Done a ts' s') \<or>
     (\<forall>v us. ts \<noteq> Lex t v # us) \<and> pcase alts m ts s = Done a ts' s'"
  by (auto simp: pcase_def split: list.splits lexeme.splits)

lemmas pcase_Done = pcase_Nil pcase_Cons

lemma pfail_Done [simp]: "pfail ts s \<noteq> Done a ts' s'"
  by (simp add: pfail_def)

lemma ptok_Done: "ptok t ts s = Done u ts' s' \<longleftrightarrow> s' = s \<and> (\<exists>v. ts = Lex t v # ts')"
  by (auto simp: ptok_def pcase_Done pret_def split: if_splits)

lemma with_number_Done: "with_number v k ts s = Done a ts' s' \<longleftrightarrow> (\<exists>n. v = Some (VNumber n) \<and> k n ts s = Done a ts' s')"
  by (auto simp: with_number_def split: option.splits yystype.splits)

lemma with_string_Done: "with_string v k ts s = Done a ts' s' \<longleftrightarrow> (\<exists>x. v = Some (VString x) \<and> k x ts s = Done a ts' s')"
  by (auto simp: with_string_def split: option.splits yystype.splits)

lemma pnum_choice: "pnum = pcase [(NUMBER, \<lambda>v. with_number v pret)] pfail"
  by (simp add: pnum_def with_number_def [abs_def] pret_def [abs_def])

lemma pstr_choice: "pstr = pcase [(STRING, \<lambda>v. with_string v pret)] pfail"
  by (simp add: pstr_def with_string_def [abs_def] pret_def [abs_def])

lemma pnum_Done: "pnum ts s = Done n ts' s' \<longleftrightarrow> s' = s \<and> ts = num n # ts'"
  by (auto simp: pnum_choice pcase_Done with_number_Done pret_def)

lemma pstr_Done: "pstr ts s = Done x ts' s' \<longleftrightarrow> s' = s \<and> ts = str x # ts'"
  by (auto simp: pstr_choice pcase_Done with_string_Done pret_def)

lemma popt_Done: "popt f ts s = Done u ts' s' \<longleftrightarrow> ts' = ts \<and> s' = (f (fst s), snd s)"
  by (auto simp: popt_def)

lemma pstep_Done: "pstep f ts s = Done u ts' s' \<longleftrightarrow> ts' = ts \<and> f s = Inr (True, s')"
  by (auto simp: pstep_def split: sum.splits)

lemma pret_Done: "pret a ts s = Done b ts' s' \<longleftrightarrow> b = a \<and> ts' = ts \<and> s' = s"
  by (auto simp: pret_def)

lemmas Done_iffs = pthen_Done pbind_Done pcase_Done ptok_Done pnum_Done pstr_Done popt_Done pstep_Done pret_Done

lemma ex_option_stmt:
  "(\<exists>c. P c) \<longleftrightarrow> P NoOption \<or> (\<exists>n. P (DebugLevel n)) \<or> (\<exists>x. P (PidFile x)) \<or> (\<exists>n. P (WindowSize n)) \<or>
     (\<exists>x. P (InputShm x)) \<or> (\<exists>x. P (InputFilter x)) \<or> (\<exists>x. P (DbConnect x)) \<or>
     (\<exists>n. P (DbExportInterval n)) \<or> (\<exists>n. P (DbExportMinPps n)) \<or> (\<exists>x. P (ActionStartCommand x)) \<or>
     (\<exists>x. P (ActionStopCommand x)) \<or> (\<exists>n. P (ActionStopDelay n))"
  by (metis option_stmt.exhaust)

lemma p_option_Done:
  assumes "p_option E ts s = Done u ts' s'"
  shows "\<exists>c. map shape ts = option_tokens c @ map shape ts'"
  using assms unfolding p_option_def option_alts_def
  by (simp add: Done_iffs p_filter_def) (elim exE conjE disjE; simp add: ex_option_stmt)

lemma ex_param_stmt:
  "(\<exists>c. P c) \<longleftrightarrow> P NoParam \<or> (\<exists>x. P (Filter x)) \<or> (\<exists>x. P (Dynamic x)) \<or>
     (\<exists>n. P (Limit n None Bps)) \<or> (\<exists>n. P (Limit n None Pps)) \<or> (\<exists>n. P (Limit n None Fps)) \<or>
     (\<exists>n k. P (Limit n (Some k) Bps)) \<or> (\<exists>n k. P (Limit n (Some k) Pps)) \<or> (\<exists>n k. P (Limit n (Some k) Fps))"
  (is "?L = ?R")
proof
  assume ?L
  then obtain c where c: "P c" ..
  show ?R
  proof (cases c)
    case (Limit n k u)
    with c show ?thesis by (cases k; cases u) auto
  qed (use c in auto)
qed blast

lemma p_param_Done:
  assumes "p_param E p ts s = Done u ts' s'"
  shows "\<exists>c. map shape ts = param_tokens c @ map shape ts'"
  using assms unfolding p_param_def param_alts_def
  by (simp add: Done_iffs p_set_def p_limit_def with_number_Done) (elim exE conjE disjE; simp add: ex_param_stmt)

lemma p_options_Done:
  assumes "p_options E ts s = Done u ts' s'"
  shows "\<exists>cs. map shape ts = concat (map (\<lambda>c. option_tokens c @ [kw SEMICOLON]) cs) @ kw EBRACE # map shape ts'"
  using assms
proof (induction ts arbitrary: s rule: length_induct)
  case (1 ts)
  let ?B = "pthen (p_option E) (ptok SEMICOLON)"
  from 1(2) have "pcase [(EBRACE, \<lambda>_. pret ())] (pthen ?B (guarded (length ts) (p_options E))) ts s = Done u ts' s'"
    unfolding p_options_def by (subst (asm) ploop_round)
  then consider v where "ts = Lex EBRACE v # ts'"
    | us t where "?B ts s = Done () us t" "length us < length ts" "p_options E us t = Done u ts' s'"
    by (auto simp: pcase_Done pret_Done pthen_Done [of "pthen a b" for a b] guarded_def split: if_splits)
  then show ?case
  proof cases
    case (2 us t)
    from 2(1) obtain vs v where opt: "p_option E ts s = Done () vs t" "vs = Lex SEMICOLON v # us"
      by (auto simp: pthen_Done ptok_Done)
    from p_option_Done [OF opt(1)] opt(2) obtain c where
      "map shape ts = option_tokens c @ kw SEMICOLON # map shape us" by auto
    moreover from 1(1) 2(2,3) obtain cs where
      "map shape us = concat (map (\<lambda>c. option_tokens c @ [kw SEMICOLON]) cs) @ kw EBRACE # map shape ts'" by blast
    ultimately show ?thesis by (intro exI [of _ "c # cs"]) simp
  qed (auto intro: exI [of _ "[]"])
qed

lemma p_params_Done:
  assumes "p_params E p ts s = Done u ts' s'"
  shows "\<exists>cs. map shape ts = concat (map (\<lambda>c. param_tokens c @ [kw SEMICOLON]) cs) @ kw EBRACE # map shape ts'"
  using assms
proof (induction ts arbitrary: s rule: length_induct)
  case (1 ts)
  let ?B = "pthen (p_param E p) (ptok SEMICOLON)"
  from 1(2) have "pcase [(EBRACE, \<lambda>_. pret ())] (pthen ?B (guarded (length ts) (p_params E p))) ts s = Done u ts' s'"
    unfolding p_params_def by (subst (asm) ploop_round)
  then consider v where "ts = Lex EBRACE v # ts'"
    | us t where "?B ts s = Done () us t" "length us < length ts" "p_params E p us t = Done u ts' s'"
    by (auto simp: pcase_Done pret_Done pthen_Done [of "pthen a b" for a b] guarded_def split: if_splits)
  then show ?case
  proof cases
    case (2 us t)
    from 2(1) obtain vs v where par: "p_param E p ts s = Done () vs t" "vs = Lex SEMICOLON v # us"
      by (auto simp: pthen_Done ptok_Done)
    from p_param_Done [OF par(1)] par(2) obtain c where
      "map shape ts = param_tokens c @ kw SEMICOLON # map shape us" by auto
    moreover from 1(1) 2(2,3) obtain cs where
      "map shape us = concat (map (\<lambda>c. param_tokens c @ [kw SEMICOLON]) cs) @ kw EBRACE # map shape ts'" by blast
    ultimately show ?thesis by (intro exI [of _ "c # cs"]) simp
  qed (auto intro: exI [of _ "[]"])
qed

lemma p_new_profile_tokens: "p_new_profile E x ts s = Done p ts' s' \<Longrightarrow> ts' = ts"
  by (auto simp: p_new_profile_def Let_def split: prod.splits option.splits)

lemma p_rule_Done:
  assumes "p_rule E ts s = Done u ts' s'"
  shows "\<exists>c. kw PROFILETOK # map shape ts = rule_tokens c @ map shape ts'"
proof -
  from assms consider v w where "ts = Lex DBTOK v # Lex SEMICOLON w # ts'"
    | x v us p t where "ts = str x # Lex OBRACE v # us" "p_params E p us t = Done u ts' s'"
    unfolding p_rule_def
    by (auto simp: pcase_Done pthen_Done ptok_Done popt_Done pbind_Done with_string_Done dest!: p_new_profile_tokens)
  then show ?thesis
  proof cases
    case 1
    then show ?thesis by (intro exI [of _ ProfileDb]) simp
  next
    case (2 x v us p t)
    from p_params_Done [OF 2(2)] obtain cs where
      "map shape us = concat (map (\<lambda>c. param_tokens c @ [kw SEMICOLON]) cs) @ kw EBRACE # map shape ts'" ..
    with 2(1) show ?thesis by (intro exI [of _ "Profile x cs"]) simp
  qed
qed

lemma p_rules_Done:
  assumes "p_rules E ts s = Done u ts' s'"
  shows "\<exists>cs. map shape ts = concat (map rule_tokens cs) @ map shape ts'"
  using assms
proof (induction ts arbitrary: s rule: length_induct)
  case (1 ts)
  from 1(2) consider "ts' = ts"
    | v us ws t where "ts = Lex PROFILETOK v # us" "p_rule E us s = Done () ws t" "length ws < length ts"
      "p_rules E ws t = Done u ts' s'"
    by (auto simp: p_rules_round [of E ts] pcase_Done pret_Done pthen_Done guarded_def split: if_splits)
  then show ?case
  proof cases
    case (2 v us ws t)
    from p_rule_Done [OF 2(2)] 2(1) obtain c where "map shape ts = rule_tokens c @ map shape ws" by auto
    moreover from 1(1) 2(3,4) obtain cs where "map shape ws = concat (map rule_tokens cs) @ map shape ts'" by blast
    ultimately show ?thesis by (intro exI [of _ "c # cs"]) simp
  qed (auto intro: exI [of _ "[]"])
qed

lemma pend_Done: "pend ts s = Done u ts' s' \<longleftrightarrow> ts = [] \<and> ts' = [] \<and> s' = s"
proof (cases ts)
  case (Cons x xs)
  then show ?thesis by (cases x) (simp_all add: pend_def)
qed (auto simp: pend_def)

lemma p_config_Done:
  assumes "p_config E ts s = Done u ts' s'"
  shows "\<exists>c. map shape ts = config_tokens c"
proof -
  from assms obtain v w us t ws where
    ts: "ts = Lex OPTIONSTOK v # Lex OBRACE w # us" and opts: "p_options E us s = Done () ws t"
    and rules: "p_rules E ws t = Done () [] s'"
    unfolding p_config_def by (auto simp: pthen_Done ptok_Done pend_Done)
  from p_rules_Done [OF rules] obtain rs where "map shape ws = concat (map rule_tokens rs)" by auto
  moreover from p_options_Done [OF opts] obtain cs where
    "map shape us = concat (map (\<lambda>c. option_tokens c @ [kw SEMICOLON]) cs) @ kw EBRACE # map shape ws" by blast
  ultimately show ?thesis using ts by (intro exI [of _ "(cs, rs)"]) simp
qed

section \<open>A Hoare logic for the parsers\<close>

text \<open>
  From a state with \<open>P\<close> and good tokens, a parser ends with \<open>Q\<close>, or stops the parse with the result 1
  in a state with \<open>S\<close>, or faults with a fault of \<open>F\<close>; it leaves a part of the tokens, and fewer when
  \<open>b\<close>. The faults of the scanner in the tokens are among \<open>F\<close>.
\<close>

definition lex_faults :: "lexeme list \<Rightarrow> fault set" where
  "lex_faults ts = {e. LexFault e \<in> set ts}"

definition good :: "fault set \<Rightarrow> lexeme list \<Rightarrow> bool" where
  "good F ts \<longleftrightarrow> toks_ok ts \<and> lex_faults ts \<subseteq> F"

lemma good_simps [simp]:
  "good F []" "good F (Lex t v # ts) \<longleftrightarrow> lexeme_ok (Lex t v) \<and> good F ts"
  "good F (LexFault e # ts) \<longleftrightarrow> e \<in> F \<and> good F ts"
  by (auto simp: good_def lex_faults_def lexeme_ok_def)

definition triple ::
  "fault set \<Rightarrow> ('f cstate \<Rightarrow> bool) \<Rightarrow> bool \<Rightarrow> ('f cstate \<Rightarrow> bool) \<Rightarrow> ('a, 'f) pm \<Rightarrow> ('a \<Rightarrow> 'f cstate \<Rightarrow> bool) \<Rightarrow> bool" where
  "triple F S b P m Q \<longleftrightarrow> (\<forall>ts s. good F ts \<longrightarrow> P s \<longrightarrow>
     (case m ts s of
        Done a ts' s' \<Rightarrow> Q a s' \<and> good F ts' \<and> length ts' \<le> length ts \<and> (b \<longrightarrow> length ts' < length ts)
      | Stop r s' \<Rightarrow> r = 1 \<and> S s'
      | Crash e \<Rightarrow> e \<in> F))"

lemma tripleI:
  assumes "\<And>ts s. good F ts \<Longrightarrow> P s \<Longrightarrow> (case m ts s of
        Done a ts' s' \<Rightarrow> Q a s' \<and> good F ts' \<and> length ts' \<le> length ts \<and> (b \<longrightarrow> length ts' < length ts)
      | Stop r s' \<Rightarrow> r = 1 \<and> S s'
      | Crash e \<Rightarrow> e \<in> F)"
  shows "triple F S b P m Q"
  using assms unfolding triple_def by blast

lemma tripleD:
  assumes "triple F S b P m Q" "good F ts" "P s"
  shows "case m ts s of
        Done a ts' s' \<Rightarrow> Q a s' \<and> good F ts' \<and> length ts' \<le> length ts \<and> (b \<longrightarrow> length ts' < length ts)
      | Stop r s' \<Rightarrow> r = 1 \<and> S s'
      | Crash e \<Rightarrow> e \<in> F"
  using assms unfolding triple_def by blast

lemma triple_pret: "(\<And>s. P s \<Longrightarrow> Q a s) \<Longrightarrow> triple F S False P (pret a) Q"
  by (rule tripleI) (simp add: pret_def)

lemma triple_pfail: "(\<And>s. P s \<Longrightarrow> S s) \<Longrightarrow> triple F S b P pfail Q"
  by (rule tripleI) (simp add: pfail_def)

lemma triple_pbind:
  assumes m: "triple F S b P m Q" and k: "\<And>a. triple F S c (Q a) (k a) R" and d: "d \<Longrightarrow> b \<or> c"
  shows "triple F S d P (pbind m k) R"
proof (rule tripleI)
  fix ts s
  assume "good F ts" "P s"
  note 1 = tripleD [OF m this]
  show "case pbind m k ts s of
        Done a ts' s' \<Rightarrow> R a s' \<and> good F ts' \<and> length ts' \<le> length ts \<and> (d \<longrightarrow> length ts' < length ts)
      | Stop r s' \<Rightarrow> r = 1 \<and> S s'
      | Crash e \<Rightarrow> e \<in> F"
  proof (cases "m ts s")
    case (Done a us t)
    with 1 have us: "Q a t" "good F us" "length us \<le> length ts" "b \<longrightarrow> length us < length ts" by simp_all
    from tripleD [OF k this(2,1)] us d show ?thesis
      by (auto simp: pbind_def Done split: presult.splits)
  qed (use 1 in \<open>simp_all add: pbind_def\<close>)
qed

lemma triple_pthen: "triple F S b P m (\<lambda>_. Q) \<Longrightarrow> triple F S c Q k R \<Longrightarrow> (d \<Longrightarrow> b \<or> c) \<Longrightarrow> triple F S d P (pthen m k) R"
  unfolding pthen_def by (rule triple_pbind)

lemma triple_pcase:
  assumes alts: "\<And>t f v. (t, f) \<in> set alts \<Longrightarrow> lexeme_ok (Lex t v) \<Longrightarrow> triple F S False P (f v) Q"
    and m: "triple F S b P m Q"
  shows "triple F S b P (pcase alts m) Q"
proof (rule tripleI)
  fix ts s
  assume ts: "good F ts" and s: "P s"
  note m' = tripleD [OF m ts s]
  show "case pcase alts m ts s of
        Done a ts' s' \<Rightarrow> Q a s' \<and> good F ts' \<and> length ts' \<le> length ts \<and> (b \<longrightarrow> length ts' < length ts)
      | Stop r s' \<Rightarrow> r = 1 \<and> S s'
      | Crash e \<Rightarrow> e \<in> F"
  proof (cases ts)
    case Nil
    with m' show ?thesis by (simp add: pcase_def)
  next
    case (Cons x us)
    show ?thesis
    proof (cases x)
      case (Lex t v)
      show ?thesis
      proof (cases "map_of alts t")
        case None
        with m' show ?thesis by (simp add: Cons Lex pcase_def)
      next
        case (Some f)
        with ts Cons Lex have "(t, f) \<in> set alts" "lexeme_ok (Lex t v)" "good F us" by (auto dest: map_of_SomeD)
        from tripleD [OF alts [OF this(1,2)] this(3) s] show ?thesis
          by (cases "f v us s") (simp_all add: Cons Lex pcase_def Some)
      qed
    qed (use ts Cons in \<open>simp add: pcase_def\<close>)
  qed
qed

lemma triple_alts:
  "triple F S b P m Q \<Longrightarrow> triple F S b P (pcase [] m) Q"
  "(\<And>v. lexeme_ok (Lex t v) \<Longrightarrow> triple F S False P (f v) Q) \<Longrightarrow> triple F S b P (pcase alts m) Q \<Longrightarrow>
   triple F S b P (pcase ((t, f) # alts) m) Q"
  by (rule triple_pcase; simp) (subst pcase_merge [symmetric], rule triple_pcase; auto)

lemma triple_ptok: "(\<And>s. P s \<Longrightarrow> S s) \<Longrightarrow> triple F S True P (ptok t) (\<lambda>_. P)"
  unfolding ptok_def by (intro triple_pcase triple_pfail) (auto intro: triple_pret)

lemma triple_with_number:
  "(\<And>n. triple F S b P (k n) Q) \<Longrightarrow> \<exists>n. v = Some (VNumber n) \<Longrightarrow> triple F S b P (with_number v k) Q"
  by (auto simp: with_number_def triple_def)

lemma triple_with_string:
  "(\<And>n. triple F S b P (k n) Q) \<Longrightarrow> \<exists>n. v = Some (VString n) \<Longrightarrow> triple F S b P (with_string v k) Q"
  by (auto simp: with_string_def triple_def)

lemma triple_pnum: "(\<And>s. P s \<Longrightarrow> S s) \<Longrightarrow> triple F S True P pnum (\<lambda>_. P)"
  unfolding pnum_choice
  by (intro triple_pcase triple_pfail) (auto simp: lexeme_ok_def intro!: triple_with_number triple_pret)

lemma triple_pstr: "(\<And>s. P s \<Longrightarrow> S s) \<Longrightarrow> triple F S True P pstr (\<lambda>_. P)"
  unfolding pstr_choice
  by (intro triple_pcase triple_pfail) (auto simp: lexeme_ok_def intro!: triple_with_string triple_pret)

lemma triple_seq:
  assumes S: "\<And>s. P s \<Longrightarrow> S s"
  shows "triple F S False P m Q \<Longrightarrow> triple F S b P (pthen (ptok t) m) Q"
    and "(\<And>n. triple F S False P (k n) R) \<Longrightarrow> triple F S b P (pbind pnum k) R"
    and "(\<And>x. triple F S False P (l x) R') \<Longrightarrow> triple F S b P (pbind pstr l) R'"
    and "triple F S False P m' (\<lambda>_. P) \<Longrightarrow> triple F S b P (pthen m' (ptok t)) (\<lambda>_. P)"
proof -
  show "triple F S b P (pthen (ptok t) m) Q" if "triple F S False P m Q"
    by (rule triple_pthen [OF triple_ptok [OF S] that]) simp_all
  show "triple F S b P (pbind pnum k) R" if "\<And>n. triple F S False P (k n) R"
    by (rule triple_pbind [OF triple_pnum [OF S] that]) simp_all
  show "triple F S b P (pbind pstr l) R'" if "\<And>x. triple F S False P (l x) R'"
    by (rule triple_pbind [OF triple_pstr [OF S] that]) simp_all
  show "triple F S b P (pthen m' (ptok t)) (\<lambda>_. P)" if "triple F S False P m' (\<lambda>_. P)"
    by (rule triple_pthen [OF that triple_ptok [OF S]]) simp_all
qed

lemma triple_popt: "(\<And>opt h. P (opt, h) \<Longrightarrow> Q () (f opt, h)) \<Longrightarrow> triple F S False P (popt f) Q"
  by (rule tripleI) (auto simp: popt_def)

lemma triple_pstep:
  assumes f: "\<And>opt h. P (opt, h) \<Longrightarrow>
    case f (opt, h) of Inl e \<Rightarrow> e \<in> F | Inr (go, s') \<Rightarrow> if go then Q () s' else S s'"
  shows "triple F S False P (pstep f) Q"
proof (rule tripleI)
  fix ts s
  assume ts: "good F ts" and P: "P s"
  obtain opt h where s: "s = (opt, h)" by (cases s)
  from f [of opt h] P show "case pstep f ts s of
        Done a ts' s' \<Rightarrow> Q a s' \<and> good F ts' \<and> length ts' \<le> length ts \<and> (False \<longrightarrow> length ts' < length ts)
      | Stop r s' \<Rightarrow> r = 1 \<and> S s'
      | Crash e \<Rightarrow> e \<in> F"
    using ts by (cases "f (opt, h)") (auto simp: pstep_def s)
qed

lemma triple_ploop:
  assumes stop: "triple F S False I stop (\<lambda>d s. I s)" and body: "triple F S True I body (\<lambda>_. I)"
  shows "triple F S False I (ploop stop body) (\<lambda>_. I)"
proof (rule tripleI)
  fix ts s
  assume "good F ts" "I s"
  then show "case ploop stop body ts s of
        Done a ts' s' \<Rightarrow> I s' \<and> good F ts' \<and> length ts' \<le> length ts \<and> (False \<longrightarrow> length ts' < length ts)
      | Stop r s' \<Rightarrow> r = 1 \<and> S s'
      | Crash e \<Rightarrow> e \<in> F"
  proof (induction ts arbitrary: s rule: length_induct)
    case (1 ts)
    note 2 = tripleD [OF stop 1(2,3)]
    show ?case
    proof (cases "stop ts s")
      case (Done d us t)
      with 2 have us: "I t" "good F us" "length us \<le> length ts" by simp_all
      note 3 = tripleD [OF body us(2,1)]
      show ?thesis
      proof (cases "body us t")
        case body: (Done a ws r)
        with 3 have "I r" "good F ws" "length ws < length us" by simp_all
        with us have "length ws < length ts" by simp
        note 4 = 1(1) [rule_format, OF this \<open>good F ws\<close> \<open>I r\<close>]
        show ?thesis
        proof (cases d)
          case False
          from 4 show ?thesis
            by (subst ploop.simps, cases "ploop stop body ws r")
              (use Done body False us \<open>length ws < length us\<close> in simp_all)
        qed (use Done us in \<open>subst ploop.simps; simp\<close>)
      qed (use 3 Done us in \<open>subst ploop.simps; simp\<close>)+
    qed (use 2 in \<open>subst ploop.simps; simp\<close>)+
  qed
qed

section \<open>What holds of every token list\<close>

text \<open>The options without those that a configuration can set.\<close>

definition unsettable :: "'f nfd_options \<Rightarrow> 'f nfd_options" where
  "unsettable opt = opt\<lparr>o_debug := 0, o_pid_file := [], o_window_size := 0, o_shm := [], o_filter := None,
     o_db_connstr := [], o_export_interval := 0, o_export_min_pps := 0, o_exec_start := [],
     o_stop_delay := 0, o_db_profiles := 0, o_root_profile := None\<rparr>"

definition keeps :: "'f nfd_options \<Rightarrow> 'f pheap \<Rightarrow> 'f cstate \<Rightarrow> bool" where
  "keeps opt0 h0 s \<longleftrightarrow> unsettable (fst s) = unsettable opt0 \<and> dom h0 \<subseteq> dom (snd s)"

lemma keeps_updates [simp]:
  "keeps opt0 h0 (opt\<lparr>o_debug := n\<rparr>, h) = keeps opt0 h0 (opt, h)"
  "keeps opt0 h0 (opt\<lparr>o_pid_file := x\<rparr>, h) = keeps opt0 h0 (opt, h)"
  "keeps opt0 h0 (opt\<lparr>o_window_size := n\<rparr>, h) = keeps opt0 h0 (opt, h)"
  "keeps opt0 h0 (opt\<lparr>o_shm := x\<rparr>, h) = keeps opt0 h0 (opt, h)"
  "keeps opt0 h0 (opt\<lparr>o_filter := f\<rparr>, h) = keeps opt0 h0 (opt, h)"
  "keeps opt0 h0 (opt\<lparr>o_db_connstr := x\<rparr>, h) = keeps opt0 h0 (opt, h)"
  "keeps opt0 h0 (opt\<lparr>o_export_interval := n\<rparr>, h) = keeps opt0 h0 (opt, h)"
  "keeps opt0 h0 (opt\<lparr>o_export_min_pps := n\<rparr>, h) = keeps opt0 h0 (opt, h)"
  "keeps opt0 h0 (opt\<lparr>o_exec_start := x\<rparr>, h) = keeps opt0 h0 (opt, h)"
  "keeps opt0 h0 (opt\<lparr>o_stop_delay := n\<rparr>, h) = keeps opt0 h0 (opt, h)"
  "keeps opt0 h0 (opt\<lparr>o_db_profiles := n\<rparr>, h) = keeps opt0 h0 (opt, h)"
  "keeps opt0 h0 (opt\<lparr>o_root_profile := r\<rparr>, h) = keeps opt0 h0 (opt, h)"
  by (simp_all add: keeps_def unsettable_def)

definition fixed :: "'f nfd_options \<Rightarrow> 'f cstate \<Rightarrow> bool" where
  "fixed opt0 s \<longleftrightarrow> unsettable (fst s) = unsettable opt0"

lemma keeps_fixed: "keeps opt0 h0 s \<Longrightarrow> fixed opt0 s"
  by (simp add: keeps_def fixed_def)

abbreviation ptriple :: "fault set \<Rightarrow> 'f nfd_options \<Rightarrow> 'f pheap \<Rightarrow> bool \<Rightarrow> (unit, 'f) pm \<Rightarrow> bool" where
  "ptriple F opt0 h0 b m \<equiv> triple F (fixed opt0) b (keeps opt0 h0) m (\<lambda>_. keeps opt0 h0)"

lemmas triple_intros = triple_seq triple_alts triple_pfail

lemma triple_filter: "ptriple F opt0 h0 False (p_filter E x)"
  unfolding p_filter_def
  by (rule triple_pstep) (auto simp: nfd_cfg_set_filter_def Let_def keeps_fixed split: option.splits)

lemma triple_option: "ptriple F opt0 h0 False (p_option E)"
  unfolding p_option_def option_alts_def
  by (intro triple_intros triple_popt triple_pret triple_filter; (simp add: keeps_fixed; fail)?)

lemma triple_options: "ptriple F opt0 h0 False (p_options E)"
  unfolding p_options_def
  by (intro triple_ploop triple_intros triple_pret triple_option; (simp add: keeps_fixed; fail)?)

text \<open>Under the laws of the library of profiles, a profile that the parser fills in is live.\<close>

abbreviation keeps_live :: "ptr \<Rightarrow> 'f nfd_options \<Rightarrow> 'f pheap \<Rightarrow> 'f cstate \<Rightarrow> bool" where
  "keeps_live p opt0 h0 s \<equiv> keeps opt0 h0 s \<and> p \<in> dom (snd s)"

abbreviation live_triple :: "fault set \<Rightarrow> ptr \<Rightarrow> 'f nfd_options \<Rightarrow> 'f pheap \<Rightarrow> bool \<Rightarrow> (unit, 'f) pm \<Rightarrow> bool" where
  "live_triple F p opt0 h0 b m \<equiv> triple F (fixed opt0) b (keeps_live p opt0 h0) m (\<lambda>_. keeps_live p opt0 h0)"

lemma triple_limit: "live_triple F p opt0 h0 False (p_limit p f)"
  unfolding p_limit_def
  by (rule triple_pstep) (auto simp: prof_write_def keeps_def subset_iff dom_def)

lemma prof_setter_dom: "prof_setter_law setter \<Longrightarrow> dom (snd (setter p x h)) = dom h"
  using prof_setter_lawD [of setter p x h "fst (setter p x h)" "snd (setter p x h)"] by (simp add: prof_frame_def)

lemma triple_set:
  "prof_setter_law setter \<Longrightarrow> live_triple F p opt0 h0 False (p_set setter p x)"
  unfolding p_set_def
  by (rule triple_pstep) (simp add: keeps_def fixed_def prof_setter_dom case_prod_beta del: domIff)

lemma triple_param: "prof_laws (ce_prof E) \<Longrightarrow> live_triple F p opt0 h0 False (p_param E p)"
  unfolding p_param_def param_alts_def prof_laws_def
  by (intro triple_intros triple_pret triple_set triple_limit triple_with_number; (simp add: lexeme_ok_def keeps_def fixed_def; fail)?)

lemma triple_params: "prof_laws (ce_prof E) \<Longrightarrow> live_triple F p opt0 h0 False (p_params E p)"
  unfolding p_params_def
  by (intro triple_ploop triple_intros triple_pret triple_param; (simp add: keeps_def fixed_def; fail)?)

lemma triple_new_profile:
  assumes laws: "prof_laws (ce_prof E)"
  shows "triple F (fixed opt0) False (keeps opt0 h0) (p_new_profile E x) (\<lambda>p. keeps_live p opt0 h0)"
proof (rule tripleI)
  fix ts s
  assume ts: "good F ts" and s: "keeps opt0 h0 s"
  obtain opt h where opt: "s = (opt, h)" by (cases s)
  obtain pp h1 where new: "prof_new (ce_prof E) (Some x) h = (pp, h1)" by (cases "prof_new (ce_prof E) (Some x) h")
  show "case p_new_profile E x ts s of
        Done p ts' s' \<Rightarrow> keeps_live p opt0 h0 s' \<and> good F ts' \<and> length ts' \<le> length ts \<and> (False \<longrightarrow> length ts' < length ts)
      | Stop r s' \<Rightarrow> r = 1 \<and> fixed opt0 s'
      | Crash e \<Rightarrow> e \<in> F"
  proof (cases pp)
    case None
    with s new show ?thesis by (simp add: p_new_profile_def opt keeps_def fixed_def)
  next
    case (Some p)
    obtain r root h2 where add: "prof_add (ce_prof E) (o_root_profile opt) p h1 = (r, root, h2)"
      by (cases "prof_add (ce_prof E) (o_root_profile opt) p h1") auto
    have "dom h2 = insert p (dom h)"
      using prof_new_dom [OF laws, of "Some x" h p h1] new Some prof_add_lawD [OF laws add] by simp
    with s have "keeps_live p opt0 h0 (opt, h2)" by (auto simp: keeps_def opt simp del: domIff)
    with ts show ?thesis
      by (simp add: p_new_profile_def opt new Some add del: domIff)
  qed
qed

lemma triple_weaken: "triple F S b P m Q \<Longrightarrow> (\<And>a s. Q a s \<Longrightarrow> R a s) \<Longrightarrow> (c \<Longrightarrow> b) \<Longrightarrow> triple F S c P m R"
  unfolding triple_def by (fastforce split: presult.splits)

lemma triple_rule: "prof_laws (ce_prof E) \<Longrightarrow> ptriple F opt0 h0 b (p_rule E)"
  unfolding p_rule_def
  by (intro triple_intros triple_popt triple_with_string; (simp add: lexeme_ok_def keeps_fixed; fail)?)
    (rule triple_pbind [OF triple_new_profile triple_weaken [OF triple_params]]; simp)

lemma triple_rules: "prof_laws (ce_prof E) \<Longrightarrow> ptriple F opt0 h0 False (p_rules E)"
  unfolding p_rules_def
  by (intro triple_ploop triple_alts triple_pret triple_rule; (simp add: keeps_fixed; fail)?)

lemma triple_pend: "ptriple F opt0 h0 False pend"
proof (rule tripleI)
  fix ts s
  assume "good F ts" "keeps opt0 h0 s"
  then show "case pend ts s of
        Done a ts' s' \<Rightarrow> keeps opt0 h0 s' \<and> good F ts' \<and> length ts' \<le> length ts \<and> (False \<longrightarrow> length ts' < length ts)
      | Stop r s' \<Rightarrow> r = 1 \<and> fixed opt0 s'
      | Crash e \<Rightarrow> e \<in> F"
  proof (cases ts)
    case (Cons x us)
    with \<open>good F ts\<close> \<open>keeps opt0 h0 s\<close> show ?thesis
      by (cases x) (simp_all add: pend_def keeps_fixed)
  qed (simp add: pend_def)
qed

lemma triple_config: "prof_laws (ce_prof E) \<Longrightarrow> ptriple F opt0 h0 False (p_config E)"
  unfolding p_config_def
  by (intro triple_intros triple_pthen [where c = False and d = False, OF triple_options]
      triple_pthen [where c = False and d = False, OF triple_rules] triple_pend; (simp add: keeps_fixed; fail)?)

text \<open>Every parse that stops stops with 1, whatever the library of profiles does.\<close>

lemma stops_config: "triple UNIV (\<lambda>_. True) False (\<lambda>_. True) (p_config E) (\<lambda>_ _. True)"
proof -
  have new: "triple UNIV (\<lambda>_. True) False (\<lambda>_. True) (p_new_profile E x) (\<lambda>_ _. True)" for x
    by (rule tripleI) (auto simp: p_new_profile_def Let_def split: prod.splits option.splits)
  have pend: "triple UNIV (\<lambda>_. True) False (\<lambda>_. True) pend (\<lambda>_ _. True)"
    by (rule tripleI) (auto simp: pend_def split: list.splits lexeme.splits)
  note rules = triple_intros triple_ploop triple_popt triple_pret triple_with_string triple_with_number
  have options: "triple UNIV (\<lambda>_. True) False (\<lambda>_. True) (p_options E) (\<lambda>_ _. True)"
    unfolding p_options_def p_option_def option_alts_def p_filter_def
    by (intro rules triple_pstep; (simp add: case_prod_beta; fail)?)
  have params: "triple UNIV (\<lambda>_. True) False (\<lambda>_. True) (p_params E p) (\<lambda>_ _. True)" for p
    unfolding p_params_def p_param_def param_alts_def p_limit_def p_set_def
    by (intro rules triple_pstep; (simp add: case_prod_beta lexeme_ok_def split: sum.splits; fail)?)
  have "triple UNIV (\<lambda>_. True) False (\<lambda>_. True) (p_rules E) (\<lambda>_ _. True)"
    unfolding p_rules_def p_rule_def
    by (intro rules triple_pbind [where c = False and d = False, OF new params]; (simp add: lexeme_ok_def; fail)?)
  with options pend show ?thesis
    unfolding p_config_def
    by (intro triple_intros triple_pthen [where c = False and d = False, OF options]
      triple_pthen [where c = False and d = False]; (simp; fail)?)
qed

lemma config_post:
  assumes "toks_ok ts" "prof_laws (ce_prof E)"
  shows "case p_config E ts (opt, h) of
    Done a ts' s' \<Rightarrow> fixed opt s' | Stop r s' \<Rightarrow> r = 1 \<and> fixed opt s' | Crash e \<Rightarrow> LexFault e \<in> set ts"
proof -
  have "good (lex_faults ts) ts" "keeps opt h (opt, h)"
    using assms(1) by (simp_all add: good_def keeps_def)
  from tripleD [OF triple_config [OF assms(2)] this] show ?thesis
    by (cases "p_config E ts (opt, h)") (auto simp: lex_faults_def intro: keeps_fixed)
qed

section \<open>The values of keywords do not matter\<close>

fun shape_result :: "('a, 'f) presult \<Rightarrow> ('a, 'f) presult" where
  "shape_result (Done a ts s) = Done a (map shape ts) s"
| "shape_result (Stop r s) = Stop r s"
| "shape_result (Crash e) = Crash e"

definition shapely :: "('a, 'f) pm \<Rightarrow> bool" where
  "shapely m \<longleftrightarrow> (\<forall>ts s. m (map shape ts) s = shape_result (m ts s))"

lemma shapelyI: "(\<And>ts s. m (map shape ts) s = shape_result (m ts s)) \<Longrightarrow> shapely m"
  by (simp add: shapely_def)

lemma shapely_simps: "shapely m \<Longrightarrow> m (map shape ts) s = shape_result (m ts s)"
  unfolding shapely_def by blast

lemma shapely_basic:
  "shapely (pret a)" "shapely pfail" "shapely (popt f)" "shapely (pstep g)" "shapely (p_limit p l)"
  "shapely (p_filter E x)" "shapely (p_set setter p x)"
  by (auto intro!: shapelyI simp: pret_def pfail_def popt_def pstep_def p_limit_def p_filter_def p_set_def
      split: sum.splits)

lemma shapely_pbind: "shapely m \<Longrightarrow> (\<And>a. shapely (k a)) \<Longrightarrow> shapely (pbind m k)"
  by (rule shapelyI) (simp add: pbind_apply shapely_simps split: presult.splits)

lemma shapely_pthen: "shapely m \<Longrightarrow> shapely k \<Longrightarrow> shapely (pthen m k)"
  unfolding pthen_def by (rule shapely_pbind)

lemma shapely_nil: "shapely m \<Longrightarrow> shapely (pcase [] m)"
proof (rule shapelyI)
  fix ts s
  assume m: "shapely m"
  show "pcase [] m (map shape ts) s = shape_result (pcase [] m ts s)"
  proof (cases ts)
    case (Cons x us)
    with shapely_simps [OF m, of ts s] show ?thesis by (cases x) (simp_all add: pcase_def)
  qed (use shapely_simps [OF m, of "[]" s] in \<open>simp add: pcase_def\<close>)
qed

lemma shapely_cons:
  assumes f: "\<And>v. shapely (f v)" and t: "t = NUMBER \<or> t = FACTOR \<or> t = STRING \<or> (\<forall>v. f v = f None)"
    and rest: "shapely (pcase alts m)"
  shows "shapely (pcase ((t, f) # alts) m)"
proof (rule shapelyI)
  fix ts s
  note rest = shapely_simps [OF rest, of ts s]
  show "pcase ((t, f) # alts) m (map shape ts) s = shape_result (pcase ((t, f) # alts) m ts s)"
  proof (cases ts)
    case (Cons x us)
    show ?thesis
    proof (cases x)
      case (Lex u v)
      show ?thesis
      proof (cases "u = t")
        case True
        have "f (if t = NUMBER \<or> t = FACTOR \<or> t = STRING then v else None) = f v" using t by metis
        then show ?thesis
          using Cons Lex True shapely_simps [OF f [of v]] by (simp add: pcase_def)
      qed (use rest Cons Lex in \<open>simp add: pcase_def\<close>)
    qed (use Cons in \<open>simp add: pcase_def\<close>)
  qed (use rest in \<open>simp add: pcase_def\<close>)
qed

lemma shapely_with: "(\<And>n. shapely (k n)) \<Longrightarrow> shapely (with_number v k)"
  "(\<And>x. shapely (l x)) \<Longrightarrow> shapely (with_string v l)"
  by (auto intro!: shapelyI simp: with_number_def with_string_def shapely_simps split: option.splits yystype.splits)

lemmas shapely_case = shapely_cons shapely_nil

lemma shapely_tokens: "shapely (ptok t)" "shapely pnum" "shapely pstr"
  by (auto intro!: shapely_case shapely_basic shapely_with simp: ptok_def pnum_choice pstr_choice)

lemma shapely_ploop:
  assumes stop: "shapely stop" and body: "shapely body"
  shows "shapely (ploop stop body)"
proof (rule shapelyI)
  fix ts s
  show "ploop stop body (map shape ts) s = shape_result (ploop stop body ts s)"
  proof (induction ts arbitrary: s rule: length_induct)
    case (1 ts)
    have again: "ploop stop body (map shape us) t = shape_result (ploop stop body us t)"
      if "length us < length ts" for us t
      using 1 that by blast
    show ?case
    proof (cases "stop ts s")
      case (Done d us t)
      then show ?thesis
        by (subst (1 2) ploop.simps, cases "body us t")
          (simp_all add: shapely_simps [OF stop] shapely_simps [OF body] again)
    qed (subst (1 2) ploop.simps, simp add: shapely_simps [OF stop])+
  qed
qed

lemma shapely_new_profile: "shapely (p_new_profile E x)"
  by (rule shapelyI) (simp add: p_new_profile_def Let_def split: prod.splits option.splits)

lemma shapely_pend: "shapely pend"
proof (rule shapelyI)
  fix ts and s :: "'a cstate"
  show "pend (map shape ts) s = shape_result (pend ts s)"
  proof (cases ts)
    case (Cons x us)
    then show ?thesis by (cases x) (simp_all add: pend_def)
  qed (simp add: pend_def)
qed

lemmas shapely_intros = shapely_case shapely_basic shapely_with shapely_tokens shapely_pbind shapely_pthen
  shapely_ploop shapely_new_profile shapely_pend

lemma shapely_config: "shapely (p_config E)"
  unfolding p_config_def p_options_def p_option_def option_alts_def p_rules_def p_rule_def p_params_def
    p_param_def param_alts_def
  by (intro shapely_intros; (simp; fail)?)

lemma presult_of_shape: "presult_of (shape_result r) = presult_of r"
  by (cases r) (simp_all add: presult_of_def)

section \<open>The properties\<close>

text \<open>C2. The LALR parser that bison generated computes what a parser by recursive descent computes
  that follows the grammar of \<open>config.y\<close> rule by rule: the same result, the same options and the same
  profiles, on every list of tokens, with scanner faults in it or not. Both return on every list.\<close>

theorem yyparse_follows_grammar:
  assumes "toks_ok ts"
  shows "yyparse E ts opt h = presult_of (p_config E ts (opt, h))"
  by (rule yyparse_eq [OF assms])

text \<open>Parsing the tokens of a configuration performs its statements in their order; the parser
  returns 0 when all of them succeed and 1 at the first that fails, with the effects up to there.\<close>

theorem yyparse_config_tokens:
  "yyparse E (config_tokens c) opt h = exec_result (exec_config E c (opt, h))"
  by (simp add: yyparse_eq [OF config_tokens_ok] p_config_tokens)

text \<open>C31. The parser returns 0 for a list of tokens exactly when it is the list of a configuration whose
  statements all succeed, and leaves what they leave.\<close>

theorem yyparse_accepts:
  assumes "toks_ok ts"
  shows "yyparse E ts opt h = Some (Inr (0, s)) \<longleftrightarrow>
    (\<exists>c. map shape ts = config_tokens c \<and> exec_config E c (opt, h) = Go s)"
proof -
  have run: "yyparse E ts opt h = exec_result (exec_config E c (opt, h))" if "map shape ts = config_tokens c" for c
  proof -
    have "presult_of (p_config E (map shape ts) (opt, h)) = presult_of (p_config E ts (opt, h))"
      by (simp add: shapely_simps [OF shapely_config] presult_of_shape)
    then show ?thesis by (simp add: yyparse_eq [OF assms] that p_config_tokens)
  qed
  have go: "exec_result r = Some (Inr (0, s)) \<longleftrightarrow> r = Go s" for r
    by (cases r) auto
  show ?thesis
  proof
    assume ok: "yyparse E ts opt h = Some (Inr (0, s))"
    then have 0: "presult_of (p_config E ts (opt, h)) = Some (Inr (0, s))" by (simp add: yyparse_eq [OF assms])
    have "r \<noteq> 0" if "p_config E ts (opt, h) = Stop r t" for r t
      using tripleD [OF stops_config [of E], of ts "(opt, h)"] assms that by (simp add: good_def)
    with 0 obtain ts' where "p_config E ts (opt, h) = Done () ts' s"
      by (auto simp: presult_of_def split: presult.splits)
    from p_config_Done [OF this] obtain c where c: "map shape ts = config_tokens c" by blast
    with ok run [OF c] show "\<exists>c. map shape ts = config_tokens c \<and> exec_config E c (opt, h) = Go s"
      by (intro exI [of _ c]) (simp add: go)
  next
    assume "\<exists>c. map shape ts = config_tokens c \<and> exec_config E c (opt, h) = Go s"
    then show "yyparse E ts opt h = Some (Inr (0, s))" using run by auto
  qed
qed

text \<open>On every list of tokens the parser returns: with 0 or 1, never with the result of an exhausted
  stack, and the only faults are those that the scanner had; no semantic value is read as the member
  it is not, no table is left and no profile is used after it was freed.\<close>

theorem yyparse_returns:
  assumes "toks_ok ts" and "prof_laws (ce_prof E)"
  shows "\<exists>r. yyparse E ts opt h = Some r \<and>
    (case r of Inl e \<Rightarrow> LexFault e \<in> set ts | Inr (n, s) \<Rightarrow> n = 0 \<or> n = 1)"
  using config_post [OF assms, of opt h]
  by (cases "p_config E ts (opt, h)") (auto simp: yyparse_eq [OF assms(1)] presult_of_def)

text \<open>C33. A parse changes no other options than those the grammar has statements for. In particular no
  configuration, and so no \<open>action stop command\<close>, sets the command that runs when an attack ends.\<close>

theorem yyparse_keeps_options:
  assumes "toks_ok ts" and "prof_laws (ce_prof E)" and "yyparse E ts opt h = Some (Inr (n, opt', h'))"
  shows "unsettable opt' = unsettable opt \<and> o_exec_stop opt' = o_exec_stop opt"
proof -
  have 1: "unsettable opt' = unsettable opt"
    using config_post [OF assms(1,2), of opt h] assms(3)
    by (cases "p_config E ts (opt, h)") (auto simp: yyparse_eq [OF assms(1)] presult_of_def fixed_def)
  moreover have "o_exec_stop (unsettable o1) = o_exec_stop o1" for o1 :: "'a nfd_options"
    by (simp add: unsettable_def)
  ultimately show ?thesis by metis
qed

text \<open>C32. What a limit in a profile stores: with a factor the bits per second are divided into bytes per
  second, without one the same number is stored as bytes.\<close>

theorem yyparse_limit:
  assumes "prof_laws (ce_prof E)" and "prof_new (ce_prof E) (Some x) h = (Some p, h1)"
  shows "\<exists>opt' h' pr. yyparse E (config_tokens ([], [Profile x [Limit n k u]])) opt h = Some (Inr (0, opt', h')) \<and>
    h' p = Some pr \<and> p_limits pr = limit_field u (u64_of_int (limit_value n k u)) zero_counter"
proof -
  obtain pr where pr: "h1 p = Some pr" "p_limits pr = zero_counter"
    using prof_new_lawD(3) [OF assms] by blast
  obtain r root h2 where add: "prof_add (ce_prof E) (o_root_profile opt) p h1 = (r, root, h2)"
    by (cases "prof_add (ce_prof E) (o_root_profile opt) p h1") auto
  from prof_add_lawD [OF assms(1) add] obtain pr' where "h2 p = Some pr'" "p_limits pr' = zero_counter"
    using prof_keepD pr by metis
  with add assms(2) show ?thesis
    by (subst yyparse_eq [OF config_tokens_ok], subst p_config_tokens) (simp add: exec_config_def)
qed

section \<open>Examples\<close>

definition sample_cfg :: "nat cfg_env" where
  "sample_cfg = \<lparr>ce_prof = sample_prof_env, ce_filter_init = (\<lambda>s. None), ce_grow = (\<lambda>n. False)\<rparr>"

lemma sample_cfg_laws: "prof_laws (ce_prof sample_cfg)"
  by (simp add: sample_cfg_def sample_prof_laws)

text \<open>\<open>options { action stop command "stop.sh"; }\<close>\<close>

definition stop_config :: config_stmts where
  "stop_config = ([ActionStopCommand ''stop.sh''], [])"

lemma stop_config_exec:
  "exec_config sample_cfg stop_config (default_options, Map.empty) =
     Go (default_options\<lparr>o_exec_start := ''stop.sh''\<rparr>, Map.empty)"
  by (simp add: exec_config_def stop_config_def set_opt_def c_strncpy_def MAX_STRING_def)

lemma stop_config_parse:
  "presult_of (p_config sample_cfg (config_tokens stop_config) (default_options, Map.empty)) =
     Some (Inr (0, default_options\<lparr>o_exec_start := ''stop.sh''\<rparr>, Map.empty))"
  by (simp only: p_config_tokens stop_config_exec exec_result.simps)

theorem yyparse_follows_grammar_witness:
  "yyparse sample_cfg (config_tokens stop_config) default_options Map.empty =
     Some (Inr (0, default_options\<lparr>o_exec_start := ''stop.sh''\<rparr>, Map.empty))"
  by (simp only: yyparse_follows_grammar [OF config_tokens_ok] stop_config_parse)

lemma stop_config_yyparse:
  "yyparse sample_cfg (config_tokens stop_config) default_options Map.empty =
     Some (Inr (0, default_options\<lparr>o_exec_start := ''stop.sh''\<rparr>, Map.empty))"
  by (simp only: yyparse_eq [OF config_tokens_ok] stop_config_parse)

text \<open>A profile without its braces is no configuration.\<close>

theorem yyparse_accepts_witness:
  "\<forall>s. \<not> (\<exists>c. map shape [kw OPTIONSTOK, kw OBRACE, kw EBRACE, kw PROFILETOK, str ''a''] = config_tokens c \<and>
     exec_config sample_cfg c (default_options, Map.empty) = Go s)"
proof
  fix s
  let ?ts = "[kw OPTIONSTOK, kw OBRACE, kw EBRACE, kw PROFILETOK, str ''a'']"
  have "p_config sample_cfg ?ts (default_options, Map.empty) = Stop 1 (default_options, Map.empty)"
    using p_options_tokens [of sample_cfg "[]" "[kw PROFILETOK, str ''a'']" "(default_options, Map.empty)"]
    by (simp add: p_config_def parser_simps p_rules_round p_rule_def with_string_def)
      (simp add: pcase_def pfail_def)
  then have "yyparse sample_cfg ?ts default_options Map.empty = Some (Inr (1, (default_options, Map.empty)))"
    by (subst yyparse_eq) (simp_all add: presult_of_def)
  then show "\<not> (\<exists>c. map shape ?ts = config_tokens c \<and> exec_config sample_cfg c (default_options, Map.empty) = Go s)"
    by (subst yyparse_accepts [symmetric]) simp_all
qed

theorem yyparse_returns_witness:
  "\<exists>r. yyparse sample_cfg [kw OPTIONSTOK, LexFault BufferOverflow] default_options Map.empty = Some r \<and>
    (case r of Inl e \<Rightarrow> e = BufferOverflow | Inr (n, s) \<Rightarrow> n = 0 \<or> n = 1)"
  using yyparse_returns [OF _ sample_cfg_laws, of "[kw OPTIONSTOK, LexFault BufferOverflow]" default_options Map.empty]
  by (simp add: lexeme_ok_def cong: sum.case_cong)

theorem yyparse_keeps_options_witness:
  "unsettable (default_options\<lparr>o_exec_start := ''stop.sh''\<rparr>) = unsettable (default_options :: nat nfd_options) \<and>
   o_exec_stop (default_options\<lparr>o_exec_start := ''stop.sh''\<rparr> :: nat nfd_options) = o_exec_stop (default_options :: nat nfd_options)"
  by (rule yyparse_keeps_options [OF config_tokens_ok sample_cfg_laws stop_config_yyparse])

text \<open>A limit of 8000 bits per second allows 8000 bytes, one of 8 kilobits per second allows 1000.\<close>

lemma sample_new: "prof_new (ce_prof sample_cfg) (Some ''a'') Map.empty = (Some 1, snd (prof_new (ce_prof sample_cfg) (Some ''a'') Map.empty))"
  by (simp add: sample_cfg_def sample_prof_env_def Let_def)

theorem yyparse_limit_witness:
  "(\<exists>opt' h' pr. yyparse sample_cfg (config_tokens ([], [Profile ''a'' [Limit 8000 None Bps]])) default_options Map.empty =
      Some (Inr (0, opt', h')) \<and> h' 1 = Some pr \<and> p_limits pr = \<lparr>c_bytes = 8000, c_pkts = 0, c_flows = 0\<rparr>) \<and>
   (\<exists>opt' h' pr. yyparse sample_cfg (config_tokens ([], [Profile ''a'' [Limit 8 (Some 1000) Bps]])) default_options Map.empty =
      Some (Inr (0, opt', h')) \<and> h' 1 = Some pr \<and> p_limits pr = \<lparr>c_bytes = 1000, c_pkts = 0, c_flows = 0\<rparr>)"
  using yyparse_limit [OF sample_cfg_laws sample_new, where opt = default_options and n = 8000 and k = None and u = Bps]
    yyparse_limit [OF sample_cfg_laws sample_new, where opt = default_options and n = 8 and k = "Some 1000" and u = Bps]
  by (simp add: zero_counter_def c_quot_def del: config_tokens.simps)

end
