(* ===== verification/Config.thy ===== *)
theory Config
  imports Scanner Config_Semantics
begin

text \<open>
  \<open>config.c\<close>: a configuration file is opened, scanned and parsed. The files are a map from names to
  contents; a name that is not in the map cannot be opened.
\<close>

section \<open>Loading a file\<close>

definition nfd_cfg_parse ::
  "'f cfg_env \<Rightarrow> (string \<Rightarrow> string option) \<Rightarrow> bool \<Rightarrow> 'f nfd_options \<Rightarrow> 'f pheap
    \<Rightarrow> (int \<times> 'f nfd_options \<times> 'f pheap) res option" where
  "nfd_cfg_parse E files tty opt h =
     (case c_str (o_config_file opt) of
        Inl e \<Rightarrow> Some (Inl e)
      | Inr name \<Rightarrow>
          (case files name of
             None \<Rightarrow> Some (Inr (0, opt, h))
           | Some text \<Rightarrow>
               Option.bind (yylex_all (yylex_init text tty)) (\<lambda>(ts, g).
               Option.bind (yyparse E ts opt h) (\<lambda>r.
               Some (map_sum id (\<lambda>(parse_ret, opt', h'). (if parse_ret = 0 then 1 else 0, opt', h')) r)))))"

section \<open>What loading a file does\<close>

text \<open>The tokens of the scanner carry the values the parser reads; a string that is too long is the one fault.\<close>

definition scanned :: "lexeme \<Rightarrow> bool" where
  "scanned x \<longleftrightarrow> lexeme_ok x \<and> (\<forall>e. x = LexFault e \<longrightarrow> e = BufferOverflow)"

lemma rule_token_kw: "rule_token r = Some t \<Longrightarrow> t \<notin> {NUMBER, FACTOR, STRING}"
  unfolding rule_token_def by (drule map_of_SomeD) auto

lemma rule_result_scanned: "rule_result r u = (Some x, e, n) \<Longrightarrow> scanned x"
  using rule_token_kw
  by (auto simp: rule_result_def scanned_def lexeme_ok_def string_value_def split: if_splits sum.splits)

lemma scan_text_scanned: "list_all scanned (fst (scan_text w))"
proof (induction w rule: length_induct)
  case (1 w)
  show ?case
  proof (cases "w = [] \<or> longest_match w = None")
    case False
    then obtain r k where lm: "longest_match w = Some (r, k)" by auto
    obtain x e n where res: "rule_result r (take k w) = (x, e, n)" by (metis surj_pair)
    have "list_all scanned (fst (scan_text (drop (max 1 n) w)))" using 1 False by simp
    then show ?thesis
      using lm res False rule_result_scanned [of r "take k w" _ e n]
      by (subst scan_text.simps) (auto split: option.splits prod.splits)
  qed (subst scan_text.simps, auto)
qed

lemma scan_text_ok: "toks_ok (fst (scan_text w))" "LexFault e \<in> set (fst (scan_text w)) \<Longrightarrow> e = BufferOverflow"
  using scan_text_scanned [of w] by (auto simp: list_all_iff scanned_def toks_ok_def)

lemma nfd_cfg_parse_eq:
  assumes "c_str (o_config_file opt) = Inr name" "files name = Some inp" "length inp < 2 ^ 29"
  shows "nfd_cfg_parse E files tty opt h =
    Option.bind (yyparse E (fst (scan_text inp)) opt h) (\<lambda>r.
      Some (map_sum id (\<lambda>(n, opt', h'). (if n = 0 then 1 else 0, opt', h')) r))"
proof -
  obtain g where "yylex_all (yylex_init inp tty) = Some (fst (scan_text inp), g)"
    using yylex_all_scan_text [OF assms(3)] by blast
  then show ?thesis using assms by (simp add: nfd_cfg_parse_def)
qed

lemma nfd_cfg_parse_grammar:
  assumes "c_str (o_config_file opt) = Inr name" "files name = Some inp" "length inp < 2 ^ 29"
  shows "nfd_cfg_parse E files tty opt h =
    Some (case p_config E (fst (scan_text inp)) (opt, h) of
      Done _ _ (opt', h') \<Rightarrow> Inr (1, opt', h')
    | Stop n (opt', h') \<Rightarrow> Inr (if n = 0 then 1 else 0, opt', h')
    | Crash e \<Rightarrow> Inl e)"
  using nfd_cfg_parse_eq [of opt name files inp E tty h, OF assms] scan_text_ok(1) [of inp]
  by (auto simp: yyparse_eq presult_of_def split: presult.splits prod.splits)

section \<open>Properties\<close>

text \<open>Loading a configuration file. A file that cannot be opened leaves all options as they are and
  gives 0. Any other file is scanned by the rules of \<open>config.l\<close> and parsed by the grammar of
  \<open>config.y\<close>, with 1 for a inp the grammar accepts and 0 for the first error; what the statements up
  to the error did is kept. Whether the inp is a terminal changes nothing.\<close>

theorem nfd_cfg_parse_loads:
  assumes "c_str (o_config_file opt) = Inr name" "\<And>inp. files name = Some inp \<Longrightarrow> length inp < 2 ^ 29"
  shows "nfd_cfg_parse E files tty opt h =
    (case files name of
       None \<Rightarrow> Some (Inr (0, opt, h))
     | Some inp \<Rightarrow> Some (case p_config E (fst (scan_text inp)) (opt, h) of
         Done _ _ (opt', h') \<Rightarrow> Inr (1, opt', h')
       | Stop n (opt', h') \<Rightarrow> Inr (if n = 0 then 1 else 0, opt', h')
       | Crash e \<Rightarrow> Inl e))"
proof (cases "files name")
  case None
  with assms(1) show ?thesis by (simp add: nfd_cfg_parse_def)
next
  case (Some inp)
  with nfd_cfg_parse_grammar [of opt name files inp E tty h, OF assms(1) Some assms(2)] show ?thesis by simp
qed

text \<open>C16. Loading always comes to an end, with 0 or 1; the one way to leave memory is a string that is
  too long for its array. The options that the grammar has no statement for are untouched, among them
  the command that ends an action.\<close>

theorem nfd_cfg_parse_returns:
  assumes "c_str (o_config_file opt) = Inr name" "files name = Some inp" "length inp < 2 ^ 29" "prof_laws (ce_prof E)"
  shows "\<exists>r. nfd_cfg_parse E files tty opt h = Some r \<and>
    (case r of
       Inl e \<Rightarrow> e = BufferOverflow
     | Inr (n, opt', h') \<Rightarrow> n \<in> {0, 1} \<and> unsettable opt' = unsettable opt \<and> o_exec_stop opt' = o_exec_stop opt)"
proof -
  have stop: "o_exec_stop opt' = o_exec_stop opt" if "unsettable opt' = unsettable opt" for opt'
    using arg_cong [OF that, of o_exec_stop] by (simp add: unsettable_def)
  show ?thesis
    using nfd_cfg_parse_grammar [of opt name files inp E tty h, OF assms(1-3)] config_post [OF scan_text_ok(1) [of inp] assms(4), of opt h]
      scan_text_ok(2) [of _ inp]
    by (cases "p_config E (fst (scan_text inp)) (opt, h)") (auto simp: fixed_def intro: stop)
qed

text \<open>C6. A configuration that is written down as text is loaded as what it says: its statements are
  performed in their order, and the result is 1 when all of them succeed and 0 at the first that
  fails.\<close>

theorem nfd_cfg_parse_written:
  assumes "c_str (o_config_file opt) = Inr name" "files name = Some inp" "length inp < 2 ^ 29"
    and "tokens_text (config_tokens c) = Some inp"
  shows "nfd_cfg_parse E files tty opt h =
    Some (case exec_config E c (opt, h) of
      Go (opt', h') \<Rightarrow> Inr (1, opt', h') | Halt (opt', h') \<Rightarrow> Inr (0, opt', h') | Fault e \<Rightarrow> Inl e)"
proof -
  have "scan_text inp = (config_tokens c, [])" using scan_tokens_text [OF assms(4)] by simp
  moreover have "yyparse E (config_tokens c) opt h = exec_result (exec_config E c (opt, h))"
    by (simp add: yyparse_eq [OF config_tokens_ok] p_config_tokens)
  ultimately show ?thesis
    using nfd_cfg_parse_eq [of opt name files inp E tty h, OF assms(1-3)] by (cases "exec_config E c (opt, h)") auto
qed

section \<open>Examples\<close>

definition stop_text :: string where
  "stop_text = ''options { action stop command '' @ [QUOTE] @ ''stop.sh'' @ [QUOTE] @ '' ; } ''"

definition sample_files :: "string \<Rightarrow> string option" where
  "sample_files = (\<lambda>n. None)(o_config_file (default_options :: nat nfd_options) := Some stop_text)"

lemma sample_file:
  "c_str (o_config_file (default_options :: nat nfd_options)) = Inr (o_config_file (default_options :: nat nfd_options))"
  "sample_files (o_config_file (default_options :: nat nfd_options)) = Some stop_text" "length stop_text < 2 ^ 29"
  "tokens_text (config_tokens stop_config) = Some stop_text"
  by (simp_all add: sample_files_def stop_text_def stop_config_def spellings_def blank_def
    default_options_def MAX_STRING_def terminated_def QUOTE_def BACKSLASH_def NUL_def)

lemma stop_text_parse:
  "presult_of (p_config sample_cfg (fst (scan_text stop_text)) (default_options, Map.empty)) =
     Some (Inr (0, default_options\<lparr>o_exec_start := ''stop.sh''\<rparr>, Map.empty))"
  using scan_tokens_text [OF sample_file(4)] stop_config_parse by simp

theorem nfd_cfg_parse_loads_witness:
  "nfd_cfg_parse sample_cfg sample_files False default_options Map.empty =
     Some (Inr (1, default_options\<lparr>o_exec_start := ''stop.sh''\<rparr>, Map.empty)) \<and>
   nfd_cfg_parse sample_cfg (\<lambda>n. None) False default_options Map.empty = Some (Inr (0, default_options, Map.empty))"
proof
  show "nfd_cfg_parse sample_cfg sample_files False default_options Map.empty =
     Some (Inr (1, default_options\<lparr>o_exec_start := ''stop.sh''\<rparr>, Map.empty))"
    using stop_text_parse sample_file(3)
    by (subst nfd_cfg_parse_loads [OF sample_file(1)]) (auto simp: sample_file(2) presult_of_def split: presult.splits)
  show "nfd_cfg_parse sample_cfg (\<lambda>n. None) False default_options Map.empty = Some (Inr (0, default_options, Map.empty))"
    by (subst nfd_cfg_parse_loads [OF sample_file(1)]) simp_all
qed

theorem nfd_cfg_parse_returns_witness:
  "\<exists>r. nfd_cfg_parse sample_cfg sample_files True default_options Map.empty = Some r"
  using nfd_cfg_parse_returns [where files = sample_files, OF sample_file(1-3) sample_cfg_laws, of True Map.empty] by blast

theorem nfd_cfg_parse_written_witness:
  "nfd_cfg_parse sample_cfg sample_files True default_options Map.empty =
     Some (Inr (1, default_options\<lparr>o_exec_start := ''stop.sh''\<rparr>, Map.empty))"
  using nfd_cfg_parse_written [where files = sample_files, OF sample_file, of sample_cfg True Map.empty] stop_config_exec by simp

end
