(* ===== verification/Messages.thy ===== *)
theory Messages
  imports Prelude
begin

text \<open>
  The process around the daemon: the messages of \<open>msgs.c\<close>, which go to the system log and, in debug
  mode, to the standard output, the help text, and the way into the background of \<open>daemonize.c\<close>.
  The text of a message is the one that its format gives. The messages of the other components are
  left out of their models: they change nothing but the log.
\<close>

section \<open>State\<close>

text \<open>
  What \<open>msg_init\<close> and the system keep: the debug level, the name the log was opened with, the entries
  of the log with their priorities, the lines on the standard output and whether the standard files
  are open, the mask for the modes of new files (\<open>None\<close> as long as it is inherited) and whether the
  process leads a session of its own.
\<close>

record process =
  log_debug :: int
  log_name :: "string option"
  log_entries :: "(int \<times> string) list"
  out_lines :: "string list"
  std_open :: bool
  file_mask :: "int option"
  session_leader :: bool

definition MSG_ERROR :: int where
  "MSG_ERROR = 1"

definition MSG_WARNING :: int where
  "MSG_WARNING = 2"

definition MSG_DEBUG :: int where
  "MSG_DEBUG = 3"

definition MSG_INFO :: int where
  "MSG_INFO = 4"

text \<open>The priorities of \<open>syslog.h\<close>.\<close>

definition LOG_ERR :: int where
  "LOG_ERR = 3"

definition LOG_WARNING :: int where
  "LOG_WARNING = 4"

definition LOG_INFO :: int where
  "LOG_INFO = 6"

definition LOG_DEBUG :: int where
  "LOG_DEBUG = 7"

section \<open>Messages\<close>

definition msg_init :: "int \<Rightarrow> process \<Rightarrow> process" where
  "msg_init debug s = s\<lparr>log_debug := debug, log_name := Some ''nfddos''\<rparr>"

definition msg_level :: "int \<Rightarrow> int" where
  "msg_level type =
     (if type = MSG_ERROR then LOG_ERR
      else if type = MSG_WARNING then LOG_WARNING
      else if type = MSG_DEBUG then LOG_DEBUG
      else LOG_INFO)"

definition msg :: "int \<Rightarrow> string \<Rightarrow> process \<Rightarrow> process" where
  "msg type text s =
     (if type = MSG_DEBUG \<and> log_debug s = 0 then s
      else
        let buf = c_snprintf (MAX_STRING - 1) text;
            s1 = s\<lparr>log_entries := log_entries s @ [(msg_level type, buf)]\<rparr>
        in if log_debug s1 \<noteq> 0 \<and> std_open s1 then s1\<lparr>out_lines := out_lines s1 @ [buf]\<rparr> else s1)"

definition help_lines :: "string list" where
  "help_lines =
     [''Welcome bandwidth daemon 1.2'',
      ''Comment please send to <tpoder@cis.vutbr.cz>'',
      '''',
      ''Usage: bwd [-i <interface>] [ -c <config_file> ] [ -d <debug_level> ] [ -p <pidfile> ] [ -F ] '',
      '''',
      ''-c config file (default: /etc/bwd/bwd.conf)'',
      ''-p pid file (default: /var/run/bwd.pid)'',
      ''-F run in foreground'',
      ''-i interface name to listen on'',
      '''']"

text \<open>\<open>help\<close> ends the process with the code 0.\<close>

definition show_help :: "process \<Rightarrow> int \<times> process" where
  "show_help s = (0, foldl (\<lambda>s t. msg MSG_INFO t s) s help_lines)"

section \<open>The way into the background\<close>

text \<open>
  \<open>fork\<close> and \<open>setsid\<close> give what the system decides. A call that does not come back ends the process
  with a code.
\<close>

datatype call = Ends int | Returns int

definition daemonize :: "int \<Rightarrow> int \<Rightarrow> process \<Rightarrow> call \<times> process" where
  "daemonize pid sid s =
     (if pid < 0 then (Returns 0, s)
      else if pid > 0 then (Ends 0, s)
      else
        let s1 = s\<lparr>file_mask := Some 0\<rparr> in
        if sid < 0 then (Returns 0, s1)
        else (Returns 1, s1\<lparr>session_leader := True, std_open := False\<rparr>))"

section \<open>What is logged and printed\<close>

definition visible :: "int \<Rightarrow> int \<times> string \<Rightarrow> bool" where
  "visible d m \<longleftrightarrow> fst m \<noteq> MSG_DEBUG \<or> d \<noteq> 0"

lemma msg_effect:
  "msg ty t s = s\<lparr>log_entries := log_entries s @ (if visible (log_debug s) (ty, t) then [(msg_level ty, take 1022 t)] else []),
     out_lines := out_lines s @
       (if visible (log_debug s) (ty, t) \<and> log_debug s \<noteq> 0 \<and> std_open s then [take 1022 t] else [])\<rparr>"
  by (auto simp: msg_def visible_def Let_def c_snprintf_def MAX_STRING_def)

lemma msg_steps:
  "foldl (\<lambda>s (ty, t). msg ty t s) s ms =
     s\<lparr>log_entries := log_entries s @ map (\<lambda>(ty, t). (msg_level ty, take 1022 t)) (filter (visible (log_debug s)) ms),
       out_lines := out_lines s @ (if log_debug s \<noteq> 0 \<and> std_open s
         then map (\<lambda>(ty, t). take 1022 t) (filter (visible (log_debug s)) ms) else [])\<rparr>"
proof (induction ms arbitrary: s)
  case (Cons m ms)
  show ?case
    using msg_effect [of "fst m" "snd m" s] by (cases m) (simp add: Cons.IH)
qed simp

text \<open>What a run of the daemon leaves in the log and on the standard output. Of all messages, those for
  debugging are dropped unless a debug level was given; every other one becomes one entry of the log,
  in order, with its priority and cut to 1022 characters, and the same lines are printed exactly when
  there is a debug level and the standard output is still open.\<close>

theorem messages_delivered:
  "foldl (\<lambda>s (ty, t). msg ty t s) (msg_init d s) ms =
     (let shown = filter (\<lambda>(ty, t). \<not> (ty = MSG_DEBUG \<and> d = 0)) ms in
      s\<lparr>log_debug := d, log_name := Some ''nfddos'',
        log_entries := log_entries s @ map (\<lambda>(ty, t). (msg_level ty, take 1022 t)) shown,
        out_lines := out_lines s @ (if d \<noteq> 0 \<and> std_open s then map (\<lambda>(ty, t). take 1022 t) shown else [])\<rparr>)"
proof -
  have "visible d = (\<lambda>(ty, t). \<not> (ty = MSG_DEBUG \<and> d = 0))" by (auto simp: visible_def)
  then show ?thesis by (simp add: msg_steps msg_init_def Let_def)
qed

end
