(* ===== verification/Daemon.thy ===== *)
theory Daemon
  imports Action Database Config Messages
begin

text \<open>
  The main program of \<open>nfddos.c\<close>: the command line, the start with its steps in their order and the
  exits between them, the loop that reads flows and the round of the loop that closes a time window.
  Both loops are given here as a single thread runs them; the theory \<open>Threads\<close> interleaves them.
\<close>

section \<open>State\<close>

text \<open>
  The environment holds what is not in the repository or what the system decides: the environments
  of the components, the contents of the configuration files, the memory for the table of actions,
  the results of \<open>fork\<close>, \<open>setsid\<close> and \<open>getpid\<close>, which way
  \<open>getopt\<close> takes, whether the \<open>n\<close>-th mutex and the thread can be made,
  whether the ring buffer can be opened, and the three functions of \<open>profile.c\<close> that the loops call.
\<close>

record ('c, 'r, 'f, 'k) daemon_env =
  de_act :: "('c, 'r, 'f) act_env"
  de_cfg :: "'f cfg_env"
  de_pq :: "'k libpq"
  de_files :: "string \<Rightarrow> string option"
  de_tty :: bool
  de_posix :: bool
  de_calloc :: "nat \<Rightarrow> bool"
  de_fork :: int
  de_setsid :: int
  de_getpid :: int
  de_mutex :: "nat \<Rightarrow> bool"
  de_thread :: bool
  de_ring :: "string \<Rightarrow> bool"
  de_add_flow :: "ptr \<Rightarrow> 'r \<Rightarrow> 'f pheap \<Rightarrow> 'f pheap"
  de_dump_all :: "'f nfd_options \<Rightarrow> 'f pheap \<times> ('c, 'f) act_world \<Rightarrow> 'f pheap \<times> ('c, 'f) act_world"
  de_eval_all :: "'f nfd_options \<times> 'f pheap \<times> ('c, 'f) act_world \<Rightarrow> 'f nfd_options \<times> 'f pheap \<times> ('c, 'f) act_world"

record ('c, 'f, 'k) daemon =
  dm_opt :: "'f nfd_options"
  dm_heap :: "'f pheap"
  dm_db :: "'k nfd_db"
  dm_world :: "('c, 'f) act_world"
  dm_proc :: process

text \<open>A part of the start ends the process with a code or goes on. Several parts are run in a row.\<close>

datatype 's phase = Ended int 's | Goes_on 's

type_synonym 's start = "'s phase res option"

definition and_then :: "'s start \<Rightarrow> ('s \<Rightarrow> 's start) \<Rightarrow> 's start" where
  "and_then r k =
     Option.bind r (\<lambda>r. case r of Inr (Goes_on s) \<Rightarrow> k s | _ \<Rightarrow> Some r)"

abbreviation go :: "'s \<Rightarrow> 's start" where
  "go s \<equiv> Some (Inr (Goes_on s))"

abbreviation exit_with :: "int \<Rightarrow> 's \<Rightarrow> 's start" where
  "exit_with n s \<equiv> Some (Inr (Ended n s))"

section \<open>Arguments\<close>

text \<open>
  \<open>copy_argv\<close> joins the arguments in a block of memory; the sum of the lengths is an \<open>int\<close>. \<open>strcat\<close>
  stays in the block or is a fault.
\<close>

definition c_strcat :: "nat \<Rightarrow> string \<Rightarrow> string \<Rightarrow> string res" where
  "c_strcat room buf s = (if length buf + length s < room then Inr (buf @ s) else Inl BufferOverflow)"

fun copy_args :: "nat \<Rightarrow> string list \<Rightarrow> string \<Rightarrow> string res" where
  "copy_args room [] buf = Inr buf"
| "copy_args room (a # as) buf =
     res_bind (c_strcat room buf a) (\<lambda>b. res_bind (c_strcat room b '' '') (copy_args room as))"

definition copy_argv :: "(nat \<Rightarrow> bool) \<Rightarrow> string list \<Rightarrow> string option res" where
  "copy_argv malloc argv =
     (let total = i32_of_int (sum_list (map (\<lambda>a. int (length a) + 1) argv)) in
      if total = 0 then Inr None
      else
        let room = unat (u64_of_int (i32_of_int (total + 1))) in
        if malloc room \<and> 0 < room then map_sum id Some (copy_args room argv '''') else Inl NullDeref)"

text \<open>
  The options that successive calls of \<open>getopt\<close> give for the string \<open>i:c:d:p:F?h\<close>, with the argument
  of an option when it takes one. A word that is no option ends the options in the way of POSIX and
  is passed over in the way of the GNU library. An unknown letter or a missing argument gives a
  question mark.
\<close>

fun getopt_word :: "string \<Rightarrow> string list \<Rightarrow> (char \<times> string) list \<times> string list" where
  "getopt_word [] ws = ([], ws)"
| "getopt_word (c # cs) ws =
     (if c \<in> set ''icdp'' then
        if cs \<noteq> [] then ([(c, cs)], ws)
        else (case ws of [] \<Rightarrow> ([(CHR ''?'', [])], []) | w # ws' \<Rightarrow> ([(c, w)], ws'))
      else
        let (os, ws') = getopt_word cs ws
        in ((if c \<in> set ''F?h'' then c else CHR ''?'', []) # os, ws'))"

lemma getopt_word_length: "length (snd (getopt_word cs ws)) \<le> length ws"
  by (induction cs ws rule: getopt_word.induct) (auto split: list.splits prod.splits)

function getopt :: "bool \<Rightarrow> string list \<Rightarrow> (char \<times> string) list" where
  "getopt posix [] = []"
| "getopt posix (w # ws) =
     (if w = ''--'' then []
      else if w = ''-'' \<or> w = [] \<or> hd w \<noteq> CHR ''-'' then (if posix then [] else getopt posix ws)
      else let (os, ws') = getopt_word (tl w) ws in os @ getopt posix ws')"
  by pat_completeness auto
termination
proof (relation "measure (length \<circ> snd)")
  fix posix :: bool and w :: string and ws x os ws'
  assume "x = getopt_word (tl w) ws" "(os, ws') = x"
  then have "ws' = snd (getopt_word (tl w) ws)" by (metis snd_conv)
  then show "((posix, ws'), posix, w # ws) \<in> measure (length \<circ> snd)"
    using getopt_word_length [of "tl w" ws] by simp
qed simp_all

section \<open>The start\<close>

text \<open>The options before the command line is read; everything else of them is 0.\<close>

definition no_db :: "'k nfd_db" where
  "no_db = \<lparr>db_type = NFD_DB_PGSQL, db_conn = None, db_ins_name = '''', db_upd_name = '''',
     db_inserted = 0, db_updated = 0\<rparr>"

text \<open>One option. \<open>strncpy\<close> copies up to \<open>MAX_STRING\<close> characters. The option \<open>i\<close> has no case.\<close>

definition main_option :: "char \<times> string \<Rightarrow> ('c, 'f, 'k) daemon \<Rightarrow> ('c, 'f, 'k) daemon phase" where
  "main_option x s =
     (let (op, optarg) = x; opt = dm_opt s in
      if op = CHR ''c'' then Goes_on (s\<lparr>dm_opt := opt\<lparr>o_config_file := c_strncpy optarg MAX_STRING\<rparr>\<rparr>)
      else if op = CHR ''p'' then
        Goes_on (s\<lparr>dm_opt := opt\<lparr>o_pid_file := c_strncpy optarg MAX_STRING, o_pid_file_fromarg := 1\<rparr>\<rparr>)
      else if op = CHR ''d'' then Goes_on (s\<lparr>dm_opt := opt\<lparr>o_debug := c_atoi optarg, o_debug_fromarg := 1\<rparr>\<rparr>)
      else if op = CHR ''F'' then
        Goes_on (s\<lparr>dm_opt := opt\<lparr>o_foreground := 1, o_debug := (if o_debug_fromarg opt = 0 then 1 else o_debug opt)\<rparr>\<rparr>)
      else if op = CHR ''h'' \<or> op = CHR ''?'' then
        let (n, p) = show_help (msg_init 1 (dm_proc s))
        in Ended n (s\<lparr>dm_opt := opt\<lparr>o_debug := 1, o_foreground := 1\<rparr>, dm_proc := p\<rparr>)
      else Goes_on s)"

fun main_options :: "(char \<times> string) list \<Rightarrow> ('c, 'f, 'k) daemon \<Rightarrow> ('c, 'f, 'k) daemon phase" where
  "main_options [] s = Goes_on s"
| "main_options (x # xs) s =
     (case main_option x s of Goes_on s' \<Rightarrow> main_options xs s' | Ended n s' \<Rightarrow> Ended n s')"

definition start_process ::
  "('c, 'r, 'f, 'k) daemon_env \<Rightarrow> ('c, 'f, 'k) daemon \<Rightarrow> ('c, 'f, 'k) daemon start" where
  "start_process E s =
     (let p = msg_init (o_debug (dm_opt s)) (dm_proc s) in
      if o_foreground (dm_opt s) = 0 then
        (case daemonize (de_fork E) (de_setsid E) p of
           (Ends n, p') \<Rightarrow> exit_with n (s\<lparr>dm_proc := p'\<rparr>)
         | (Returns r, p') \<Rightarrow>
             if r = 0 then exit_with 1 (s\<lparr>dm_proc := p'\<rparr>) else go (s\<lparr>dm_proc := p'\<rparr>))
      else go (s\<lparr>dm_proc := p\<rparr>))"

definition start_config ::
  "('c, 'r, 'f, 'k) daemon_env \<Rightarrow> ('c, 'f, 'k) daemon \<Rightarrow> ('c, 'f, 'k) daemon start" where
  "start_config E s =
     Option.bind (nfd_cfg_parse (de_cfg E) (de_files E) (de_tty E) (dm_opt s) (dm_heap s)) (\<lambda>r.
     case r of
       Inl e \<Rightarrow> Some (Inl e)
     | Inr (n, opt, h) \<Rightarrow>
         let s' = s\<lparr>dm_opt := opt, dm_heap := h\<rparr> in if n = 0 then exit_with 1 s' else go s')"

definition mkpidfile ::
  "('c, 'r, 'f) act_env \<Rightarrow> int \<Rightarrow> 'f nfd_options \<Rightarrow> ('c, 'f) act_world \<Rightarrow> (int \<times> ('c, 'f) act_world) res" where
  "mkpidfile A pid opt w =
     res_bind (c_str (o_pid_file opt)) (\<lambda>name.
     Inr (if e_fopen A name then (1, w\<lparr>w_texts := (w_texts w)(name \<mapsto> fmt_d pid @ newline)\<rparr>) else (0, w)))"

definition start_pidfile ::
  "('c, 'r, 'f, 'k) daemon_env \<Rightarrow> ('c, 'f, 'k) daemon \<Rightarrow> ('c, 'f, 'k) daemon start" where
  "start_pidfile E s =
     (case mkpidfile (de_act E) (de_getpid E) (dm_opt s) (dm_world s) of
        Inl e \<Rightarrow> Some (Inl e)
      | Inr (n, w) \<Rightarrow> go (s\<lparr>dm_world := w\<rparr>))"

definition start_actions ::
  "('c, 'r, 'f, 'k) daemon_env \<Rightarrow> ('c, 'f, 'k) daemon \<Rightarrow> ('c, 'f, 'k) daemon start" where
  "start_actions E s =
     (let opt = dm_opt s; (n, act) = nfd_act_init (de_calloc E) (o_actions opt) (o_max_actions opt);
          s' = s\<lparr>dm_opt := opt\<lparr>o_actions := act\<rparr>\<rparr>
      in if n = 0 then exit_with 1 s' else go s')"

definition start_db ::
  "('c, 'r, 'f, 'k) daemon_env \<Rightarrow> ('c, 'f, 'k) daemon \<Rightarrow> ('c, 'f, 'k) daemon start" where
  "start_db E s =
     (case c_str (o_db_connstr (dm_opt s)) of
        Inl e \<Rightarrow> Some (Inl e)
      | Inr connstr \<Rightarrow>
          let (n, db) = nfd_db_init (de_pq E) (dm_db s) (o_db_type (dm_opt s)) connstr; s' = s\<lparr>dm_db := db\<rparr>
          in if n = 0 then exit_with 1 s' else go s')"

definition queue_shift ::
  "('c, 'r, 'f, 'k) daemon_env \<Rightarrow> ('c, 'f, 'k) daemon \<Rightarrow> int \<times> ('c, 'f, 'k) daemon" where
  "queue_shift E s =
     (let (n, opt, fs) = nfd_queue_shift (e_lnf (de_act E)) (dm_opt s) (w_files (dm_world s))
      in (n, s\<lparr>dm_opt := opt, dm_world := (dm_world s)\<lparr>w_files := fs\<rparr>\<rparr>))"

definition start_queue ::
  "('c, 'r, 'f, 'k) daemon_env \<Rightarrow> ('c, 'f, 'k) daemon \<Rightarrow> ('c, 'f, 'k) daemon start" where
  "start_queue E s = (let (n, s') = queue_shift E s in if n = 0 then exit_with 1 s' else go s')"

text \<open>The three mutexes, in the order of their initialisation, and the thread.\<close>

definition start_threads ::
  "('c, 'r, 'f, 'k) daemon_env \<Rightarrow> ('c, 'f, 'k) daemon \<Rightarrow> ('c, 'f, 'k) daemon start" where
  "start_threads E s =
     (if \<not> de_mutex E 0 \<or> \<not> de_mutex E 1 then exit_with 1 s
      else if \<not> de_mutex E 2 then exit_with 1 s
      else if \<not> de_thread E then exit_with 1 s
      else go s)"

text \<open>\<open>main\<close> up to the call of \<open>dump_data_loop\<close>.\<close>

definition main_start ::
  "('c, 'r, 'f, 'k) daemon_env \<Rightarrow> string list \<Rightarrow> ('c, 'f, 'k) daemon \<Rightarrow> ('c, 'f, 'k) daemon start" where
  "main_start E argv s =
     and_then (Some (Inr (main_options (getopt (de_posix E) argv) s))) (\<lambda>s.
     and_then (start_process E s) (\<lambda>s.
     and_then (start_config E s) (\<lambda>s.
     and_then (start_pidfile E s) (\<lambda>s.
     and_then (start_actions E s) (\<lambda>s.
     and_then (start_db E s) (\<lambda>s.
     and_then (start_queue E s) (start_threads E)))))))"

section \<open>The loops\<close>

text \<open>
  A record is given to every profile of the list that starts at the root. The list may be changed by
  the function it is given to, and one with a cycle is walked for ever.
\<close>

partial_function (option) add_flow_all ::
  "(ptr \<Rightarrow> 'r \<Rightarrow> 'f pheap \<Rightarrow> 'f pheap) \<Rightarrow> ptr option \<Rightarrow> 'r \<Rightarrow> 'f pheap \<Rightarrow> 'f pheap res option" where
  "add_flow_all add profp r h =
     (case profp of
        None \<Rightarrow> Some (Inr h)
      | Some p \<Rightarrow>
          if h p = None then Some (Inl UseAfterFree)
          else
            let h' = add p r h in
            case h' p of
              None \<Rightarrow> Some (Inl UseAfterFree)
            | Some pr \<Rightarrow> add_flow_all add (p_next pr) r h')"

definition filtered :: "('c, 'r, 'f) libnf \<Rightarrow> 'f nfd_options \<Rightarrow> 'r \<Rightarrow> bool" where
  "filtered L opt r = (case o_filter opt of None \<Rightarrow> False | Some f \<Rightarrow> \<not> lnf_filter_match L f r)"

text \<open>One record of the ring buffer; the loop takes all records up to the end of the ring.\<close>

definition read_record ::
  "('c, 'r, 'f, 'k) daemon_env \<Rightarrow> 'r \<Rightarrow> ('c, 'f, 'k) daemon \<Rightarrow> ('c, 'f, 'k) daemon res option" where
  "read_record E r s =
     (let opt = dm_opt s; L = e_lnf (de_act E) in
      if filtered L opt r then Some (Inr s)
      else
        Option.bind (add_flow_all (de_add_flow E) (o_root_profile opt) r (dm_heap s)) (\<lambda>x.
        case x of
          Inl e \<Rightarrow> Some (Inl e)
        | Inr h \<Rightarrow>
            let w = dm_world s in
            Some (Inr (s\<lparr>dm_heap := h, dm_world := w\<lparr>w_files := queue_store L opt r (w_files w)\<rparr>\<rparr>))))"

fun read_records ::
  "('c, 'r, 'f, 'k) daemon_env \<Rightarrow> 'r list \<Rightarrow> ('c, 'f, 'k) daemon \<Rightarrow> ('c, 'f, 'k) daemon res option" where
  "read_records E [] s = Some (Inr s)"
| "read_records E (r # rs) s =
     Option.bind (read_record E r s) (\<lambda>x. case x of Inl e \<Rightarrow> Some (Inl e) | Inr s' \<Rightarrow> read_records E rs s')"

definition read_data_loop ::
  "('c, 'r, 'f, 'k) daemon_env \<Rightarrow> 'r list \<Rightarrow> ('c, 'f, 'k) daemon \<Rightarrow> ('c, 'f, 'k) daemon res option" where
  "read_data_loop E rs s =
     (case c_str (o_shm (dm_opt s)) of
        Inl e \<Rightarrow> Some (Inl e)
      | Inr shm \<Rightarrow> if \<not> de_ring E shm then Some (Inr s) else read_records E rs s)"

text \<open>
  One round of the loop that closes the windows. The time of the last switch is kept as an \<open>int\<close>, and
  so are the differences; the process sleeps between the first two readings of the clock. The last
  window ends at the second one.
\<close>

definition remaining :: "int \<Rightarrow> int \<Rightarrow> int \<Rightarrow> int" where
  "remaining window_size t last_switched = i32_of_int (window_size - (t - last_switched))"

definition dump_wait ::
  "('c, 'r, 'f, 'k) daemon_env \<Rightarrow> int \<Rightarrow> ('c, 'f, 'k) daemon \<Rightarrow> int \<times> ('c, 'f, 'k) daemon" where
  "dump_wait E last_switched s =
     (remaining (o_window_size (dm_opt s)) (now (de_act E) (dm_world s)) last_switched,
      s\<lparr>dm_world := tick (dm_world s)\<rparr>)"

definition dump_measure ::
  "('c, 'r, 'f, 'k) daemon_env \<Rightarrow> int \<Rightarrow> ('c, 'f, 'k) daemon \<Rightarrow> ('c, 'f, 'k) daemon" where
  "dump_measure E last_switched s =
     s\<lparr>dm_opt := (dm_opt s)\<lparr>o_last_window_size := i32_of_int (now (de_act E) (dm_world s) - last_switched)\<rparr>,
       dm_world := tick (dm_world s)\<rparr>"

definition dump_switched ::
  "('c, 'r, 'f, 'k) daemon_env \<Rightarrow> ('c, 'f, 'k) daemon \<Rightarrow> int \<times> ('c, 'f, 'k) daemon" where
  "dump_switched E s = (i32_of_int (now (de_act E) (dm_world s)), s\<lparr>dm_world := tick (dm_world s)\<rparr>)"

definition dump_profiles ::
  "('c, 'r, 'f, 'k) daemon_env \<Rightarrow> ('c, 'f, 'k) daemon \<Rightarrow> ('c, 'f, 'k) daemon" where
  "dump_profiles E s =
     (let (h, w) = de_dump_all E (dm_opt s) (dm_heap s, dm_world s) in s\<lparr>dm_heap := h, dm_world := w\<rparr>)"

definition eval_profiles ::
  "('c, 'r, 'f, 'k) daemon_env \<Rightarrow> ('c, 'f, 'k) daemon \<Rightarrow> ('c, 'f, 'k) daemon" where
  "eval_profiles E s =
     (let (opt, h, w) = de_eval_all E (dm_opt s, dm_heap s, dm_world s)
      in s\<lparr>dm_opt := opt, dm_heap := h, dm_world := w\<rparr>)"

definition expire_actions ::
  "('c, 'r, 'f, 'k) daemon_env \<Rightarrow> ('c, 'f, 'k) daemon \<Rightarrow> ('c, 'f, 'k) daemon res" where
  "expire_actions E s =
     (let opt = dm_opt s in
      res_bind (nfd_act_expire (de_act E) opt (o_actions opt) (o_stop_delay opt) (dm_world s)) (\<lambda>(n, act, w).
      Inr (s\<lparr>dm_opt := opt\<lparr>o_actions := act\<rparr>, dm_world := w\<rparr>)))"

definition dump_round ::
  "('c, 'r, 'f, 'k) daemon_env \<Rightarrow> int \<Rightarrow> ('c, 'f, 'k) daemon \<Rightarrow> (int \<times> ('c, 'f, 'k) daemon) res" where
  "dump_round E last_switched s =
     (let (remains, s1) = dump_wait E last_switched s;
          s2 = dump_measure E last_switched s1;
          (n, s3) = queue_shift E s2;
          (switched, s4) = dump_switched E s3
      in res_bind (expire_actions E (eval_profiles E (dump_profiles E s4))) (\<lambda>s5. Inr (switched, s5)))"

fun dump_rounds ::
  "('c, 'r, 'f, 'k) daemon_env \<Rightarrow> nat \<Rightarrow> int \<times> ('c, 'f, 'k) daemon \<Rightarrow> (int \<times> ('c, 'f, 'k) daemon) res" where
  "dump_rounds E 0 x = Inr x"
| "dump_rounds E (Suc n) x = res_bind (dump_round E (fst x) (snd x)) (dump_rounds E n)"

text \<open>\<open>dump_data_loop\<close> up to the end of a number of rounds; it has no other end.\<close>

definition dump_data_loop ::
  "('c, 'r, 'f, 'k) daemon_env \<Rightarrow> nat \<Rightarrow> ('c, 'f, 'k) daemon \<Rightarrow> (int \<times> ('c, 'f, 'k) daemon) res" where
  "dump_data_loop E n s = dump_rounds E n (dump_switched E s)"

section \<open>Arguments are joined and read\<close>

lemma copy_args_fits:
  "length buf + sum_list (map (\<lambda>a. length a + 1) argv) < room \<Longrightarrow>
    copy_args room argv buf = Inr (buf @ concat (map (\<lambda>a. a @ '' '') argv))"
  by (induction argv arbitrary: buf) (simp_all add: c_strcat_def)

lemma copy_argv_joins:
  assumes "sum_list (map (\<lambda>a. length a + 1) argv) < 2 ^ 31 - 1" and "\<And>n. malloc n"
  shows "copy_argv malloc argv = Inr (if argv = [] then None else Some (concat (map (\<lambda>a. a @ '' '') argv)))"
proof -
  let ?n = "sum_list (map (\<lambda>a. length a + 1) argv)"
  have n: "sum_list (map (\<lambda>a. int (length a) + 1) argv) = int ?n"
    by (induction argv) auto
  have i: "i32_of_int (int ?n) = int ?n" "i32_of_int (int ?n + 1) = int ?n + 1"
    using assms(1) by (subst i32_of_int_small; simp)+
  have "unat (u64_of_int (int ?n + 1)) = ?n + 1"
    using unat_u64_of_nat [of "?n + 1"] assms(1) by (simp add: add.commute)
  moreover have "?n = 0 \<longleftrightarrow> argv = []" by (cases argv) auto
  ultimately show ?thesis
    using assms(2) copy_args_fits [of "''''" argv "?n + 1"] unfolding copy_argv_def n i Let_def
    by auto
qed

text \<open>The words that give an option, and what \<open>getopt\<close> makes of them.\<close>

definition option_words :: "char \<times> string \<Rightarrow> string list" where
  "option_words x = (if fst x \<in> set ''icdp'' then [[CHR ''-'', fst x], snd x] else [[CHR ''-'', fst x]])"

lemma getopt_reads_back:
  assumes "\<forall>x \<in> set os. fst x \<in> set ''icdp'' \<or> fst x \<in> set ''F?h'' \<and> snd x = []"
    and "\<forall>w \<in> set ws. w = [] \<or> hd w \<noteq> CHR ''-''"
  shows "getopt posix (concat (map option_words os) @ ws) = os"
  using assms
proof (induction os)
  case Nil
  have "getopt posix ws = []"
    using Nil.prems(2) by (induction ws) auto
  then show ?case by simp
next
  case (Cons x os)
  obtain c a where x: "x = (c, a)" by (cases x)
  have "c \<noteq> CHR ''-''" using Cons.prems(1) x by auto
  then show ?case using Cons x by (auto simp: option_words_def)
qed

section \<open>The parts of the start\<close>

lemma and_then_go: "and_then r k = go t \<longleftrightarrow> (\<exists>s. r = go s \<and> k s = go t)"
  by (auto simp: and_then_def bind_eq_Some_conv split: sum.split_asm phase.split_asm)


text \<open>What an option of the command line leaves alone.\<close>

definition cmdline_free :: "'f nfd_options \<Rightarrow> 'f nfd_options" where
  "cmdline_free opt = opt\<lparr>o_config_file := [], o_pid_file := [], o_pid_file_fromarg := 0, o_debug := 0,
     o_debug_fromarg := 0, o_foreground := 0\<rparr>"

lemma main_options_keep:
  "main_options xs s = Goes_on t \<Longrightarrow>
    cmdline_free (dm_opt t) = cmdline_free (dm_opt s) \<and> dm_heap t = dm_heap s \<and> dm_db t = dm_db s \<and>
    dm_world t = dm_world s \<and> dm_proc t = dm_proc s"
proof (induction xs arbitrary: s)
  case (Cons x xs)
  then obtain u where u: "main_option x s = Goes_on u" "main_options xs u = Goes_on t"
    by (auto split: phase.splits)
  from u(1) have "cmdline_free (dm_opt u) = cmdline_free (dm_opt s) \<and> dm_heap u = dm_heap s \<and> dm_db u = dm_db s \<and>
    dm_world u = dm_world s \<and> dm_proc u = dm_proc s"
    by (cases x) (auto simp: main_option_def Let_def cmdline_free_def split: if_splits prod.splits)
  with Cons.IH [OF u(2)] show ?case by simp
qed simp



lemma start_process_cases:
  "start_process E s = go t \<Longrightarrow> dm_opt t = dm_opt s \<and> dm_heap t = dm_heap s \<and> dm_db t = dm_db s \<and>
     dm_world t = dm_world s \<and> log_debug (dm_proc t) = o_debug (dm_opt s)"
  "start_process E s = exit_with n t \<Longrightarrow> dm_world t = dm_world s \<and> (n = 0 \<and> 0 < de_fork E \<or> n = 1)"
  by (auto simp: start_process_def daemonize_def msg_init_def Let_def split: if_splits call.splits prod.splits)

lemma start_config_result:
  assumes "start_config E s = Some (Inr x)"
  obtains n opt h where "nfd_cfg_parse (de_cfg E) (de_files E) (de_tty E) (dm_opt s) (dm_heap s) = Some (Inr (n, opt, h))"
    "x = (if n = 0 then Ended 1 (s\<lparr>dm_opt := opt, dm_heap := h\<rparr>) else Goes_on (s\<lparr>dm_opt := opt, dm_heap := h\<rparr>))"
proof (cases "nfd_cfg_parse (de_cfg E) (de_files E) (de_tty E) (dm_opt s) (dm_heap s)")
  case (Some r)
  with assms that show ?thesis by (cases r) (auto simp: start_config_def Let_def split: if_splits)
qed (use assms in \<open>simp add: start_config_def\<close>)

lemma nfd_cfg_parse_results:
  assumes "nfd_cfg_parse C files tty opt h = Some (Inr (n, opt', h'))"
  shows "n = 0 \<or> n = 1"
proof -
  have map: "map_sum id (\<lambda>(r, o', g). (if r = 0 then 1 else 0, o', g)) x = Inr (n, opt', h') \<Longrightarrow> n = 0 \<or> n = 1"
    for x :: "(int \<times> 'a nfd_options \<times> 'a pheap) res" by (cases x) (auto split: if_splits)
  show ?thesis
    using assms map by (auto simp: nfd_cfg_parse_def bind_eq_Some_conv split: sum.split_asm option.split_asm)
qed

lemma start_config_go:
  assumes "start_config E s = go t"
  shows "\<exists>opt h. nfd_cfg_parse (de_cfg E) (de_files E) (de_tty E) (dm_opt s) (dm_heap s) = Some (Inr (1, opt, h)) \<and>
    t = s\<lparr>dm_opt := opt, dm_heap := h\<rparr>"
proof -
  from start_config_result [OF assms] obtain n opt h where
    n: "nfd_cfg_parse (de_cfg E) (de_files E) (de_tty E) (dm_opt s) (dm_heap s) = Some (Inr (n, opt, h))" "n \<noteq> 0"
      "t = s\<lparr>dm_opt := opt, dm_heap := h\<rparr>" by (metis phase.distinct(1) phase.inject(2))
  with nfd_cfg_parse_results [OF n(1)] show ?thesis by blast
qed


lemma mkpidfile_cases:
  assumes "mkpidfile A pid opt w = Inr (n, w')"
  shows "terminated (o_pid_file opt)" "w_heap w' = w_heap w" "w_files w' = w_files w"
    "e_fopen A (o_pid_file opt) \<Longrightarrow> w_texts w' (o_pid_file opt) = Some (fmt_d pid @ newline)"
  using assms by (auto simp: mkpidfile_def c_str_def split: if_splits)

lemma start_pidfile_cases:
  assumes "start_pidfile E s = Some (Inr x)"
  shows "\<exists>n w. x = Goes_on (s\<lparr>dm_world := w\<rparr>) \<and> mkpidfile (de_act E) (de_getpid E) (dm_opt s) (dm_world s) = Inr (n, w)"
  using assms by (auto simp: start_pidfile_def split: sum.splits)

lemma unat_u64_of_int: "0 \<le> i \<Longrightarrow> i < 2 ^ 31 \<Longrightarrow> unat (u64_of_int i) = nat i"
  using unat_u64_of_nat [of "nat i"] by simp

lemma start_actions_cases:
  "start_actions E s = go t \<Longrightarrow> 0 \<le> o_max_actions (dm_opt s) \<Longrightarrow> o_max_actions (dm_opt s) < 2 ^ 31 \<Longrightarrow>
     t = s\<lparr>dm_opt := (dm_opt s)\<lparr>o_actions :=
       \<lparr>act_max = o_max_actions (dm_opt s), act_slots = replicate (nat (o_max_actions (dm_opt s))) None\<rparr>\<rparr>\<rparr>"
  "start_actions E s = exit_with n t \<Longrightarrow> n = 1 \<and> dm_world t = dm_world s \<and> o_pid_file (dm_opt t) = o_pid_file (dm_opt s)"
  by (auto simp: start_actions_def nfd_act_init_def Let_def unat_u64_of_int split: if_splits)

lemma start_db_cases:
  "start_db E s = go t \<Longrightarrow> \<exists>db. t = s\<lparr>dm_db := db\<rparr> \<and> db_conn db \<noteq> None"
  "start_db E s = exit_with n t \<Longrightarrow> n = 1 \<and> dm_world t = dm_world s \<and> dm_opt t = dm_opt s"
  by (auto simp: start_db_def nfd_db_init_def Let_def split: if_splits sum.splits prod.splits)

lemma start_queue_cases:
  "start_queue E s = go t \<Longrightarrow> queue_shift E s = (1, t)"
  "start_queue E s = exit_with n t \<Longrightarrow> n = 1 \<and> w_texts (dm_world t) = w_texts (dm_world s) \<and>
     o_pid_file (dm_opt t) = o_pid_file (dm_opt s)"
  by (auto simp: start_queue_def queue_shift_def nfd_queue_shift_def Let_def split: if_splits prod.splits)

lemma start_threads_cases:
  "start_threads E s = go t \<Longrightarrow> t = s"
  "start_threads E s = exit_with n t \<Longrightarrow> n = 1 \<and> t = s"
  by (auto simp: start_threads_def split: if_splits)

lemma main_start_go:
  assumes "main_start E argv s = go t"
  obtains s1 s2 s3 s4 s5 s6 where "main_options (getopt (de_posix E) argv) s = Goes_on s1" "start_process E s1 = go s2"
    "start_config E s2 = go s3" "start_pidfile E s3 = go s4" "start_actions E s4 = go s5" "start_db E s5 = go s6"
    "queue_shift E s6 = (1, t)"
proof -
  from assms obtain s1 s2 s3 s4 s5 s6 s7 where "main_options (getopt (de_posix E) argv) s = Goes_on s1" "start_process E s1 = go s2"
    "start_config E s2 = go s3" "start_pidfile E s3 = go s4" "start_actions E s4 = go s5" "start_db E s5 = go s6"
    "start_queue E s6 = go s7" "start_threads E s7 = go t"
    unfolding main_start_def and_then_go by auto
  then show thesis using that start_threads_cases(1) start_queue_cases(1) by metis
qed

section \<open>What a start establishes\<close>

lemma nfd_cfg_parse_unsettable:
  assumes "nfd_cfg_parse C files tty opt h = Some (Inr (n, opt', h'))" "prof_laws (ce_prof C)"
    and "\<And>f t. files f = Some t \<Longrightarrow> length t < 2 ^ 29"
  shows "unsettable opt' = unsettable opt"
proof -
  from assms(1) obtain name where name: "c_str (o_config_file opt) = Inr name"
    by (cases "c_str (o_config_file opt)") (auto simp: nfd_cfg_parse_def)
  show ?thesis
  proof (cases "files name")
    case None
    with assms(1) name show ?thesis by (simp add: nfd_cfg_parse_def)
  next
    case (Some t)
    from nfd_cfg_parse_grammar [of opt name files t C tty h, OF name Some assms(3) [OF Some]] assms(1)
    have "(case p_config C (fst (scan_text t)) (opt, h) of
        Done _ _ (opt', h') \<Rightarrow> Inr (1, opt', h')
      | Stop n (opt', h') \<Rightarrow> Inr (if n = 0 then 1 else 0, opt', h')
      | Crash e \<Rightarrow> Inl e) = (Inr (n, opt', h') :: (int \<times> _) res)" by simp
    with config_post [OF scan_text_ok(1) [of t] assms(2), of opt h] show ?thesis
      by (auto simp: fixed_def split: presult.splits)
  qed
qed

lemma cmdline_fields:
  assumes "cmdline_free opt = cmdline_free opt0"
  shows "o_max_actions opt = o_max_actions opt0" "o_queue_dir opt = o_queue_dir opt0" "o_queue_num opt = o_queue_num opt0"
  using arg_cong [OF assms, of o_max_actions] arg_cong [OF assms, of o_queue_dir] arg_cong [OF assms, of o_queue_num]
  by (simp_all add: cmdline_free_def)

lemma unsettable_fields:
  assumes "unsettable opt = unsettable opt0"
  shows "o_max_actions opt = o_max_actions opt0" "o_queue_dir opt = o_queue_dir opt0" "o_queue_num opt = o_queue_num opt0"
  using arg_cong [OF assms, of o_max_actions] arg_cong [OF assms, of o_queue_dir] arg_cong [OF assms, of o_queue_num]
  by (simp_all add: unsettable_def)

lemma empty_table:
  "0 \<le> m \<Longrightarrow> w_heap w = (\<lambda>_. None) \<Longrightarrow> act_ok \<lparr>act_max = m, act_slots = replicate (nat m) None\<rparr> w"
  by (simp add: act_ok_def row_def)

lemma empty_table_tracks: "w_heap w = (\<lambda>_. None) \<Longrightarrow> tracked act w name = None"
  by (rule tracked_None) (auto simp: row_def bind_eq_Some_conv split: if_splits)

lemma queue_shift_ready:
  assumes "queue_shift E s = (1, t)" "libnf_laws (e_lnf (de_act E))" "o_queue_dir (dm_opt s) = dir" "dir_fits dir"
    "o_queue_num (dm_opt s) = int n" "n < 2 ^ 31"
  shows "queue_ok (e_lnf (de_act E)) dir n (dm_opt t, w_files (dm_world t))"
    "holds_windows (state_win (e_lnf (de_act E)) dir) n (dm_opt t, w_files (dm_world t)) [[]]"
    "w_heap (dm_world t) = w_heap (dm_world s)" "w_texts (dm_world t) = w_texts (dm_world s)"
    "o_actions (dm_opt t) = o_actions (dm_opt s)" "dm_db t = dm_db s" "dm_proc t = dm_proc s" "dm_heap t = dm_heap s"
proof -
  let ?L = "e_lnf (de_act E)"
  from assms(1) obtain opt fs where sh: "nfd_queue_shift ?L (dm_opt s) (w_files (dm_world s)) = (1, opt, fs)"
    and t: "t = s\<lparr>dm_opt := opt, dm_world := (dm_world s)\<lparr>w_files := fs\<rparr>\<rparr>"
    by (auto simp: queue_shift_def split: prod.splits)
  from sh have o: "lnf_open_write ?L (queue_file_name (o_queue_dir (dm_opt s)) 0)"
      "opt = (dm_opt s)\<lparr>o_queue_file := Some (queue_file_name (o_queue_dir (dm_opt s)) 0)\<rparr>"
    by (auto simp: nfd_queue_shift_def Let_def split: if_splits)
  then show "queue_ok ?L dir n (dm_opt t, w_files (dm_world t))"
    using assms t by (simp add: queue_ok_def)
  have "window dir fs 0 = Some (lnf_new ?L)"
    using nfd_queue_shift_window [OF _ _ _ sh, of 0] assms(3-6) by (simp add: dir_fits_def)
  then show "holds_windows (state_win ?L dir) n (dm_opt t, w_files (dm_world t)) [[]]"
    using assms(2) t by (simp add: holds_windows_def state_win_def queue_win_def libnf_laws_def)
  show "w_heap (dm_world t) = w_heap (dm_world s)" "w_texts (dm_world t) = w_texts (dm_world s)"
    "o_actions (dm_opt t) = o_actions (dm_opt s)" "dm_db t = dm_db s" "dm_proc t = dm_proc s" "dm_heap t = dm_heap s"
    using t o by simp_all
qed

text \<open>C15. A start that succeeds. When \<open>main\<close> reaches the threads, the table of actions is well formed, has
  its 512 slots and tracks nothing; the queue is open and its current window is empty; the database
  is connected. The level of the debug messages is the one of the command line: what the
  configuration file says about it comes too late for \<open>msg_init\<close>.\<close>

theorem main_start_establishes:
  assumes "main_start E argv s = Some (Inr (Goes_on t))" and "dm_opt s = default_options"
    and "w_heap (dm_world s) = (\<lambda>_. None)" and "prof_laws (ce_prof (de_cfg E))" and "libnf_laws (e_lnf (de_act E))"
    and "\<forall>f x. de_files E f = Some x \<longrightarrow> length x < 2 ^ 29"
  shows "act_ok (o_actions (dm_opt t)) (dm_world t) \<and> act_max (o_actions (dm_opt t)) = 512 \<and>
    tracked (o_actions (dm_opt t)) (dm_world t) = (\<lambda>_. None) \<and>
    queue_ok (e_lnf (de_act E)) ''./nfddos-queue/'' 10 (dm_opt t, w_files (dm_world t)) \<and>
    holds_windows (state_win (e_lnf (de_act E)) ''./nfddos-queue/'') 10 (dm_opt t, w_files (dm_world t)) [[]] \<and>
    db_conn (dm_db t) \<noteq> None \<and>
    (\<exists>s1. main_options (getopt (de_posix E) argv) s = Goes_on s1 \<and> log_debug (dm_proc t) = o_debug (dm_opt s1))"
proof -
  from main_start_go [OF assms(1)] obtain s1 s2 s3 s4 s5 s6 where
    st: "main_options (getopt (de_posix E) argv) s = Goes_on s1" "start_process E s1 = Some (Inr (Goes_on s2))"
    "start_config E s2 = Some (Inr (Goes_on s3))" "start_pidfile E s3 = Some (Inr (Goes_on s4))"
    "start_actions E s4 = Some (Inr (Goes_on s5))" "start_db E s5 = Some (Inr (Goes_on s6))" "queue_shift E s6 = (1, t)" .
  note k1 = main_options_keep [OF st(1)] and k2 = start_process_cases(1) [OF st(2)]
  from start_config_go [OF st(3)] obtain opt h where
    k3: "nfd_cfg_parse (de_cfg E) (de_files E) (de_tty E) (dm_opt s2) (dm_heap s2) = Some (Inr (1, opt, h))"
      "s3 = s2\<lparr>dm_opt := opt, dm_heap := h\<rparr>" by blast
  have "unsettable (dm_opt s3) = unsettable (dm_opt s2)"
    using nfd_cfg_parse_unsettable [OF k3(1) assms(4) assms(6) [rule_format]] k3(2) by simp
  note k3' = unsettable_fields [OF this]
  from start_pidfile_cases [OF st(4)] obtain n w where
    k4: "s4 = s3\<lparr>dm_world := w\<rparr>" "mkpidfile (de_act E) (de_getpid E) (dm_opt s3) (dm_world s3) = Inr (n, w)" by auto
  have fields: "o_max_actions (dm_opt s4) = 512" "o_queue_dir (dm_opt s4) = ''./nfddos-queue/''" "o_queue_num (dm_opt s4) = 10"
    using k4(1) k3' k2 cmdline_fields [of "dm_opt s1" "dm_opt s"] k1 assms(2) by simp_all
  have heap: "w_heap (dm_world s4) = (\<lambda>_. None)"
    using mkpidfile_cases(2) [OF k4(2)] k4(1) k3(2) k2 k1 assms(3) by simp
  have k5: "s5 = s4\<lparr>dm_opt := (dm_opt s4)\<lparr>o_actions := \<lparr>act_max = 512, act_slots = replicate (nat 512) None\<rparr>\<rparr>\<rparr>"
    using start_actions_cases(1) [OF st(5)] fields(1) by simp
  from start_db_cases(1) [OF st(6)] obtain db where k6: "s6 = s5\<lparr>dm_db := db\<rparr>" "db_conn db \<noteq> None" by blast
  have dir: "dir_fits ''./nfddos-queue/''" by (simp add: dir_fits_def MAX_STRING_def)
  have q: "o_queue_dir (dm_opt s6) = ''./nfddos-queue/''" "o_queue_num (dm_opt s6) = int 10"
    using k5 k6 fields by simp_all
  note r = queue_shift_ready [OF st(7) assms(5) q(1) dir q(2)]
  have act: "o_actions (dm_opt t) = \<lparr>act_max = 512, act_slots = replicate (nat 512) None\<rparr>" "w_heap (dm_world t) = (\<lambda>_. None)"
    using r(3,5) k5 k6 heap by simp_all
  then have "act_ok (o_actions (dm_opt t)) (dm_world t)" "tracked (o_actions (dm_opt t)) (dm_world t) = (\<lambda>_. None)"
    using empty_table [of 512 "dm_world t"] empty_table_tracks [of "dm_world t"] by auto
  moreover have "log_debug (dm_proc t) = o_debug (dm_opt s1)" "db_conn (dm_db t) \<noteq> None"
    using r(6,7) k6 k5 k4(1) k3(2) k2 by simp_all
  ultimately show ?thesis using r(1,2) act st(1) by auto
qed







section \<open>The time windows\<close>

lemma i32_of_int_diff:
  assumes "0 \<le> t - t0" "t - t0 < 2 ^ 31"
  shows "i32_of_int (t - i32_of_int t0) = t - t0"
proof -
  have "i32_of_int (t - i32_of_int t0) = i32_of_int (t - t0)"
    by (simp add: i32_of_int_def)
  then show ?thesis using assms by (simp add: i32_of_int_small)
qed

text \<open>C34. The length of a time window. The loop keeps the time of the last switch in 32 bits; still, for
  any time of day, the window it measures is the true number of seconds between the two switches,
  and it is not shorter than the configured size, provided the sleep is not cut short. With a
  configured size above 0 the limits of the profiles are therefore compared without a division by 0.\<close>

theorem dump_measure_window:
  assumes "dump_wait E (i32_of_int t0) s = (remains, s1)"
    and "t1 = e_time (de_act E) (w_ticks (dm_world s))" and "t2 = e_time (de_act E) (Suc (w_ticks (dm_world s)))"
    and "t0 \<le> t1" and "t1 + max 0 remains \<le> t2" and "t2 - t0 < 2 ^ 31"
    and "0 \<le> o_window_size (dm_opt s)" and "o_window_size (dm_opt s) < 2 ^ 31"
  shows "let w = o_last_window_size (dm_opt (dump_measure E (i32_of_int t0) s1)) in
    w = t2 - t0 \<and> o_window_size (dm_opt s) \<le> w \<and>
    (0 < o_window_size (dm_opt s) \<longrightarrow> (\<forall>limit c. \<exists>b. over_limit limit c w = Inr b))"
proof -
  let ?size = "o_window_size (dm_opt s)"
  have s1: "s1 = s\<lparr>dm_world := tick (dm_world s)\<rparr>" and rem: "remains = i32_of_int (?size - (t1 - i32_of_int t0))"
    using assms(1,2) by (auto simp: dump_wait_def remaining_def now_def)
  have "i32_of_int (?size - (t1 - i32_of_int t0)) = i32_of_int (?size - (t1 - t0))"
    by (simp add: i32_of_int_def)
  also have "\<dots> = ?size - (t1 - t0)"
    using assms(4-8) by (intro i32_of_int_small) linarith+
  finally have "remains = ?size - (t1 - t0)" using rem by simp
  then have w: "?size \<le> t2 - t0" using assms(5) by linarith
  have "o_last_window_size (dm_opt (dump_measure E (i32_of_int t0) s1)) = t2 - t0"
    using s1 assms(3-6) i32_of_int_diff [of t2 t0] by (simp add: dump_measure_def now_def tick_def)
  moreover have "\<exists>b. over_limit limit c (t2 - t0) = Inr b" if "0 < ?size" for limit c
  proof -
    have "0 < t2 - t0" "t2 - t0 < 2 ^ 31" using w that assms(6) by linarith+
    then have "unat (u64_of_int (t2 - t0)) = nat (t2 - t0)" by (intro unat_u64_of_int) simp_all
    then have "u64_of_int (t2 - t0) \<noteq> 0" using \<open>0 < t2 - t0\<close> by (metis nat_eq_iff2 unat_0 less_irrefl zero_less_nat_eq)
    then have "over_limit limit c (t2 - t0) = Inr (limit \<noteq> 0 \<and> limit \<le> c div u64_of_int (t2 - t0))"
      by (simp add: over_limit_def del: of_int_diff)
    then show ?thesis by blast
  qed
  ultimately show ?thesis using w by (simp add: Let_def)
qed

section \<open>Reading flows\<close>

text \<open>The list of profiles from a pointer on, and a library that does not change the links of it.\<close>

fun prof_chain :: "'f pheap \<Rightarrow> ptr option \<Rightarrow> ptr list \<Rightarrow> bool" where
  "prof_chain h p [] \<longleftrightarrow> p = None"
| "prof_chain h p (q # qs) \<longleftrightarrow> p = Some q \<and> (\<exists>pr. h q = Some pr \<and> prof_chain h (p_next pr) qs)"

definition keeps_links :: "(ptr \<Rightarrow> 'r \<Rightarrow> 'f pheap \<Rightarrow> 'f pheap) \<Rightarrow> bool" where
  "keeps_links add \<longleftrightarrow>
     (\<forall>p r h q pr. h q = Some pr \<longrightarrow> (\<exists>pr'. add p r h q = Some pr' \<and> p_next pr' = p_next pr))"

lemma prof_chain_keep: "keeps_links add \<Longrightarrow> prof_chain h p qs \<Longrightarrow> prof_chain (add q r h) p qs"
proof (induction qs arbitrary: p)
  case (Cons x xs)
  then obtain pr where "p = Some x" "h x = Some pr" "prof_chain h (p_next pr) xs" by auto
  moreover from this obtain pr' where "add q r h x = Some pr'" "p_next pr' = p_next pr"
    using Cons.prems(1) unfolding keeps_links_def by blast
  ultimately show ?case using Cons by simp
qed simp

lemma prof_chain_fold: "keeps_links add \<Longrightarrow> prof_chain h p qs \<Longrightarrow> prof_chain (fold (\<lambda>q. add q r) ps h) p qs"
  by (induction ps arbitrary: h) (simp_all add: prof_chain_keep)

lemma add_flow_all_chain:
  assumes "keeps_links add" "prof_chain h p qs"
  shows "add_flow_all add p r h = Some (Inr (fold (\<lambda>q. add q r) qs h))"
  using assms(2)
proof (induction qs arbitrary: p h)
  case Nil
  then show ?case by (subst add_flow_all.simps) simp
next
  case (Cons q qs)
  then obtain pr where q: "p = Some q" "h q = Some pr" "prof_chain h (p_next pr) qs" by auto
  from assms(1) q(2) obtain pr' where pr': "add q r h q = Some pr'" "p_next pr' = p_next pr"
    unfolding keeps_links_def by blast
  have "prof_chain (add q r h) (p_next pr') qs"
    using prof_chain_keep [OF assms(1) q(3)] pr'(2) by simp
  from Cons.IH [OF this] show ?case
    using q pr' by (subst add_flow_all.simps) (simp add: Let_def)
qed

lemma read_record_stores:
  assumes "keeps_links (de_add_flow E)" "prof_chain (dm_heap s) (o_root_profile (dm_opt s)) qs"
  shows "\<exists>h. read_record E r s = Some (Inr (s\<lparr>dm_heap := h, dm_world := (dm_world s)\<lparr>w_files :=
      (if filtered (e_lnf (de_act E)) (dm_opt s) r then w_files (dm_world s)
       else queue_store (e_lnf (de_act E)) (dm_opt s) r (w_files (dm_world s)))\<rparr>\<rparr>)) \<and>
    prof_chain h (o_root_profile (dm_opt s)) qs \<and>
    h = (if filtered (e_lnf (de_act E)) (dm_opt s) r then dm_heap s else fold (\<lambda>q. de_add_flow E q r) qs (dm_heap s))"
  using add_flow_all_chain [OF assms] prof_chain_fold [OF assms] assms(2)
  by (simp add: read_record_def Let_def)

lemma store_state_pair: "store_state L r (opt, fs) = (opt, queue_store L opt r fs)"
  by (simp add: store_state_def)

lemma read_records_events:
  assumes "keeps_links (de_add_flow E)" "prof_chain (dm_heap s) (o_root_profile (dm_opt s)) qs"
  shows "\<exists>t. read_records E rs s = Some (Inr t) \<and> dm_opt t = dm_opt s \<and>
    (dm_opt t, w_files (dm_world t)) = foldl (exec_event (store_state (e_lnf (de_act E))) (shift_state (e_lnf (de_act E))))
      (dm_opt s, w_files (dm_world s)) (map Put (filter (\<lambda>r. \<not> filtered (e_lnf (de_act E)) (dm_opt s) r) rs)) \<and>
    dm_heap t = fold (\<lambda>r. fold (\<lambda>q. de_add_flow E q r) qs)
      (filter (\<lambda>r. \<not> filtered (e_lnf (de_act E)) (dm_opt s) r) rs) (dm_heap s)"
  using assms(2)
proof (induction rs arbitrary: s)
  case (Cons r rs)
  from read_record_stores [OF assms(1) Cons.prems, of r] obtain h where
    h: "read_record E r s = Some (Inr (s\<lparr>dm_heap := h, dm_world := (dm_world s)\<lparr>w_files :=
        (if filtered (e_lnf (de_act E)) (dm_opt s) r then w_files (dm_world s)
         else queue_store (e_lnf (de_act E)) (dm_opt s) r (w_files (dm_world s)))\<rparr>\<rparr>))" (is "_ = Some (Inr ?u)")
    "prof_chain h (o_root_profile (dm_opt s)) qs"
    "h = (if filtered (e_lnf (de_act E)) (dm_opt s) r then dm_heap s else fold (\<lambda>q. de_add_flow E q r) qs (dm_heap s))" by blast
  from Cons.IH [of ?u] h(2) obtain t where
    t: "read_records E rs ?u = Some (Inr t)" "dm_opt t = dm_opt s"
      "(dm_opt t, w_files (dm_world t)) = foldl (exec_event (store_state (e_lnf (de_act E))) (shift_state (e_lnf (de_act E))))
        (dm_opt s, w_files (dm_world ?u)) (map Put (filter (\<lambda>r. \<not> filtered (e_lnf (de_act E)) (dm_opt s) r) rs))"
      "dm_heap t = fold (\<lambda>r. fold (\<lambda>q. de_add_flow E q r) qs)
        (filter (\<lambda>r. \<not> filtered (e_lnf (de_act E)) (dm_opt s) r) rs) (dm_heap ?u)" by auto
  have "read_records E (r # rs) s = Some (Inr t)" using h(1) t(1) by simp
  with t(2-4) h(3) show ?case
    by (cases "filtered (e_lnf (de_act E)) (dm_opt s) r") (simp_all add: store_state_pair del: read_records.simps)
qed simp

lemma windows_run_puts: "windows_run (w # ws) (map Put rs) = (w @ rs) # ws"
  by (induction rs arbitrary: w) (simp_all add: windows_run_def)

text \<open>C24. Reading flows until the end of the ring buffer. The loop returns, and every flow that passes the
  general filter, and no other, is given to every profile of the list, in the order of the list, and
  stored at the end of the current window of the queue, in the order of the ring.\<close>

theorem read_data_loop_stores:
  assumes "keeps_links (de_add_flow E)" and "prof_chain (dm_heap s) (o_root_profile (dm_opt s)) qs"
    and "terminated (o_shm (dm_opt s))" and "de_ring E (o_shm (dm_opt s))"
    and "queue_ok (e_lnf (de_act E)) dir n (dm_opt s, w_files (dm_world s))"
    and "holds_windows (state_win (e_lnf (de_act E)) dir) n (dm_opt s, w_files (dm_world s)) (w # ws)"
  shows "let passed = filter (\<lambda>r. \<not> filtered (e_lnf (de_act E)) (dm_opt s) r) rs in
    \<exists>t. read_data_loop E rs s = Some (Inr t) \<and> dm_opt t = dm_opt s \<and>
      dm_heap t = fold (\<lambda>r. fold (\<lambda>q. de_add_flow E q r) qs) passed (dm_heap s) \<and>
      holds_windows (state_win (e_lnf (de_act E)) dir) n (dm_opt t, w_files (dm_world t)) ((w @ passed) # ws)"
proof -
  let ?L = "e_lnf (de_act E)" and ?passed = "filter (\<lambda>r. \<not> filtered (e_lnf (de_act E)) (dm_opt s) r) rs"
  from read_records_events [OF assms(1,2), of rs] obtain t where
    t: "read_records E rs s = Some (Inr t)" "dm_opt t = dm_opt s"
      "(dm_opt t, w_files (dm_world t)) = foldl (exec_event (store_state ?L) (shift_state ?L))
        (dm_opt s, w_files (dm_world s)) (map Put ?passed)"
      "dm_heap t = fold (\<lambda>r. fold (\<lambda>q. de_add_flow E q r) qs) ?passed (dm_heap s)" by blast
  have "holds_windows (state_win ?L dir) n (dm_opt t, w_files (dm_world t)) ((w @ ?passed) # ws)"
    using nfd_queue.run_holds [OF assms(5,6), of "map Put ?passed"] t(3) by (simp add: windows_run_puts)
  moreover have "read_data_loop E rs s = Some (Inr t)"
    using t(1) assms(3,4) by (simp add: read_data_loop_def)
  ultimately show ?thesis using t(2,4) by (auto simp: Let_def)
qed

section \<open>The properties on a concrete system\<close>

definition sample_daemon_env ::
  "(nat \<Rightarrow> bool) \<Rightarrow> (nat list, nat, nat, string \<times> string \<Rightarrow> stats_row option) daemon_env" where
  "sample_daemon_env mutex = \<lparr>de_act = sample_env\<lparr>e_time := (\<lambda>n. 100 + 60 * int n)\<rparr>, de_cfg = sample_cfg,
     de_pq = sample_server, de_files = Config.sample_files, de_tty = False, de_posix = True,
     de_calloc = (\<lambda>n. True), de_fork = 1, de_setsid = 1, de_getpid = 7, de_mutex = mutex,
     de_thread = True, de_ring = (\<lambda>n. True),
     de_add_flow = (\<lambda>p r h. h(p := map_option (p_counters_update (c_flows_update (\<lambda>n. n + 1))) (h p))),
     de_dump_all = (\<lambda>opt x. x), de_eval_all = (\<lambda>x. x)\<rparr>"

definition sample_daemon :: "(nat list, nat, string \<times> string \<Rightarrow> stats_row option) daemon" where
  "sample_daemon = \<lparr>dm_opt = default_options, dm_heap = Map.empty, dm_db = no_db, dm_world = sample_world,
     dm_proc = \<lparr>log_debug = 0, log_name = None, log_entries = [], out_lines = [], std_open = True,
       file_mask = None, session_leader = False\<rparr>\<rparr>"

lemma sample_daemon_env_simps [simp]:
  "e_lnf (de_act (sample_daemon_env mutex)) = sample_libnf" "e_time (de_act (sample_daemon_env mutex)) n = 100 + 60 * int n"
  "e_fopen (de_act (sample_daemon_env mutex)) p" "de_cfg (sample_daemon_env mutex) = sample_cfg" "de_pq (sample_daemon_env mutex) = sample_server"
  "de_files (sample_daemon_env mutex) = Config.sample_files" "de_posix (sample_daemon_env mutex)" "de_getpid (sample_daemon_env mutex) = 7"
  "de_calloc (sample_daemon_env mutex) n" "de_mutex (sample_daemon_env mutex) = mutex" "de_thread (sample_daemon_env mutex)"
  "de_ring (sample_daemon_env mutex) p" "keeps_links (de_add_flow (sample_daemon_env mutex))"
  by (simp_all add: sample_daemon_env_def sample_env_def keeps_links_def)

lemma sample_config_start:
  assumes "dm_opt s = default_options\<lparr>o_foreground := 1, o_debug := 1\<rparr>" "dm_heap s = Map.empty"
  shows "start_config (sample_daemon_env mutex) s = go (s\<lparr>dm_opt := (dm_opt s)\<lparr>o_exec_start := ''stop.sh''\<rparr>\<rparr>)"
proof -
  let ?opt = "dm_opt s"
  have f: "o_config_file ?opt = o_config_file (default_options :: nat nfd_options)" using assms by simp
  have "exec_config sample_cfg stop_config (?opt, Map.empty) = Go (?opt\<lparr>o_exec_start := ''stop.sh''\<rparr>, Map.empty)"
    by (simp add: exec_config_def stop_config_def set_opt_def c_strncpy_def MAX_STRING_def)
  then have "presult_of (p_config sample_cfg (fst (scan_text stop_text)) (?opt, Map.empty)) =
      Some (Inr (0, ?opt\<lparr>o_exec_start := ''stop.sh''\<rparr>, Map.empty))"
    using scan_tokens_text [OF sample_file(4)] by (simp add: p_config_tokens)
  then have "nfd_cfg_parse sample_cfg Config.sample_files tty ?opt Map.empty =
      Some (Inr (1, ?opt\<lparr>o_exec_start := ''stop.sh''\<rparr>, Map.empty))" for tty
    using nfd_cfg_parse_grammar [where files = Config.sample_files and opt = ?opt, OF sample_file(1) [folded f] sample_file(2) [folded f] sample_file(3)]
    by (auto simp: presult_of_def split: presult.splits)
  then show ?thesis using assms by (simp add: start_config_def Let_def)
qed

lemma sample_actions_start:
  assumes "o_max_actions (dm_opt s) = 512"
  shows "start_actions (sample_daemon_env mutex) s =
    go (s\<lparr>dm_opt := (dm_opt s)\<lparr>o_actions := \<lparr>act_max = 512, act_slots = replicate 512 None\<rparr>\<rparr>\<rparr>)"
  using assms by (simp add: start_actions_def nfd_act_init_def Let_def)

lemma sample_db_init: "\<exists>db'. nfd_db_init sample_server db ty c = (1, db')"
  by (simp add: nfd_db_init_def sample_server_def Let_def)

lemma sample_db_start:
  assumes "o_db_connstr (dm_opt s) = ''dbname=nfddos user=nfddos''"
  shows "\<exists>db. start_db (sample_daemon_env mutex) s = go (s\<lparr>dm_db := db\<rparr>)"
proof -
  obtain db where "nfd_db_init sample_server (dm_db s) (o_db_type (dm_opt s)) (o_db_connstr (dm_opt s)) = (1, db)"
    using sample_db_init by blast
  moreover have "c_str (o_db_connstr (dm_opt s)) = Inr (o_db_connstr (dm_opt s))"
    using assms by (simp add: c_str_def terminated_def MAX_STRING_def)
  ultimately have "start_db (sample_daemon_env mutex) s = go (s\<lparr>dm_db := db\<rparr>)"
    by (simp add: start_db_def)
  then show ?thesis ..
qed

lemma sample_queue_start:
  "\<exists>t. start_queue (sample_daemon_env mutex) s = go t \<and> queue_shift (sample_daemon_env mutex) s = (1, t) \<and>
    w_texts (dm_world t) = w_texts (dm_world s) \<and> o_pid_file (dm_opt t) = o_pid_file (dm_opt s)"
  by (simp add: start_queue_def queue_shift_def nfd_queue_shift_def Let_def)

lemma fmt_7: "fmt_d 7 = ''7''"
  by (simp add: fmt_d_def dec_of_nat.simps digit_char_def char_of_def bit_iff_odd)

lemma sample_start:
  "\<exists>t. main_start (sample_daemon_env mutex) [''-F''] sample_daemon = start_threads (sample_daemon_env mutex) t \<and>
    w_texts (dm_world t) = [''/var/run/nfddos.pid'' \<mapsto> ''7'' @ newline] \<and> o_pid_file (dm_opt t) = ''/var/run/nfddos.pid''"
proof -
  let ?E = "sample_daemon_env mutex"
  define s1 where "s1 = sample_daemon\<lparr>dm_opt := default_options\<lparr>o_foreground := 1, o_debug := 1\<rparr>\<rparr>"
  have 1: "main_options (getopt True [''-F'']) sample_daemon = Goes_on s1"
    by (simp add: main_option_def sample_daemon_def default_options_def s1_def)
  obtain s2 where 2: "start_process ?E s1 = go s2" "dm_opt s2 = dm_opt s1" "dm_heap s2 = Map.empty" "dm_world s2 = sample_world"
    by (simp add: start_process_def s1_def sample_daemon_def Let_def)
  let ?s3 = "s2\<lparr>dm_opt := (dm_opt s2)\<lparr>o_exec_start := ''stop.sh''\<rparr>\<rparr>"
  have 3: "start_config ?E s2 = go ?s3"
    by (rule sample_config_start) (simp_all add: 2 s1_def)
  let ?w = "sample_world\<lparr>w_texts := [''/var/run/nfddos.pid'' \<mapsto> ''7'' @ newline]\<rparr>"
  have 4: "start_pidfile ?E ?s3 = go (?s3\<lparr>dm_world := ?w\<rparr>)"
    by (simp add: start_pidfile_def mkpidfile_def 2 s1_def default_options_def sample_world_def c_str_def
        terminated_def MAX_STRING_def fmt_7)
  let ?s4 = "?s3\<lparr>dm_world := ?w\<rparr>"
  let ?s5 = "?s4\<lparr>dm_opt := (dm_opt ?s4)\<lparr>o_actions := \<lparr>act_max = 512, act_slots = replicate 512 None\<rparr>\<rparr>\<rparr>"
  have 5: "start_actions ?E ?s4 = go ?s5"
    by (rule sample_actions_start) (simp add: 2 s1_def)
  obtain db where 6: "start_db ?E ?s5 = go (?s5\<lparr>dm_db := db\<rparr>)"
    using sample_db_start [of ?s5 mutex] by (auto simp: 2 s1_def default_options_def)
  let ?s6 = "?s5\<lparr>dm_db := db\<rparr>"
  obtain t where t: "start_queue ?E ?s6 = go t" "w_texts (dm_world t) = w_texts (dm_world ?s6)"
    "o_pid_file (dm_opt t) = o_pid_file (dm_opt ?s6)"
    using sample_queue_start [of mutex ?s6] by blast
  have "and_then (go s) k = k s" for s :: "(nat list, nat, string \<times> string \<Rightarrow> stats_row option) daemon" and k
    by (simp add: and_then_def)
  then have "main_start ?E [''-F''] sample_daemon = start_threads ?E t"
    by (simp only: main_start_def sample_daemon_env_simps simp_thms 1 2(1) 3 4 5 6 t(1))
  moreover have "o_pid_file (dm_opt ?s6) = ''/var/run/nfddos.pid''" by (simp add: 2 s1_def default_options_def)
  ultimately show ?thesis using t(2,3) by auto
qed

theorem main_start_establishes_witness:
  "\<exists>t. main_start (sample_daemon_env (\<lambda>n. True)) [''-F''] sample_daemon = Some (Inr (Goes_on t)) \<and>
    act_ok (o_actions (dm_opt t)) (dm_world t) \<and> act_max (o_actions (dm_opt t)) = 512"
proof -
  let ?E = "sample_daemon_env (\<lambda>n. True)"
  from sample_start [of "\<lambda>n. True"] obtain t where t: "main_start ?E [''-F''] sample_daemon = Some (Inr (Goes_on t))"
    by (auto simp: start_threads_def)
  have "dm_opt sample_daemon = default_options" "w_heap (dm_world sample_daemon) = (\<lambda>_. None)"
    "prof_laws (ce_prof (de_cfg ?E))" "libnf_laws (e_lnf (de_act ?E))"
    "\<forall>f x. de_files ?E f = Some x \<longrightarrow> length x < 2 ^ 29"
    using sample_file(3)
    by (simp_all add: sample_daemon_def sample_world_def sample_cfg_laws sample_libnf_laws Config.sample_files_def split: if_split_asm)
  from main_start_establishes [OF t this] t show ?thesis by blast
qed


theorem dump_measure_window_witness:
  "let w = o_last_window_size (dm_opt (dump_measure (sample_daemon_env (\<lambda>n. True)) (i32_of_int 100)
      (snd (dump_wait (sample_daemon_env (\<lambda>n. True)) (i32_of_int 100) sample_daemon)))) in
    w = 60 \<and> 60 \<le> w \<and> (\<forall>limit c. \<exists>b. over_limit limit c w = Inr b)"
proof -
  let ?E = "sample_daemon_env (\<lambda>n. True)"
  have ticks: "w_ticks (dm_world sample_daemon) = 0" and size: "o_window_size (dm_opt sample_daemon) = 60"
    by (simp_all add: sample_daemon_def sample_world_def)
  have "dump_wait ?E (i32_of_int 100) sample_daemon = (60, snd (dump_wait ?E (i32_of_int 100) sample_daemon))"
    by (simp add: dump_wait_def remaining_def now_def ticks size i32_of_int_small)
  from dump_measure_window [OF this, of 100 160] show ?thesis
    by (auto simp: ticks size Let_def)
qed

theorem read_data_loop_stores_witness:
  "\<exists>t. read_data_loop (sample_daemon_env (\<lambda>n. True)) [1, 2, 4]
      (snd (queue_shift (sample_daemon_env (\<lambda>n. True)) (sample_daemon\<lparr>dm_opt := default_options\<lparr>o_filter := Some 2\<rparr>\<rparr>))) = Some (Inr t) \<and>
    holds_windows (state_win sample_libnf sample_dir) 10 (dm_opt t, w_files (dm_world t)) [[2, 4]]"
proof -
  let ?E = "sample_daemon_env (\<lambda>n. True)" and ?s = "sample_daemon\<lparr>dm_opt := default_options\<lparr>o_filter := Some 2\<rparr>\<rparr>"
  obtain t where t: "queue_shift ?E ?s = (1, t)" using sample_queue_start [of "\<lambda>n. True" ?s] by blast
  have opt: "dm_opt t = default_options\<lparr>o_filter := Some 2, o_queue_file := Some (queue_file_name sample_dir 0)\<rparr>"
    using t by (auto simp: queue_shift_def nfd_queue_shift_def Let_def)
  have shm: "terminated (o_shm (dm_opt t))" by (simp add: opt default_options_def terminated_def MAX_STRING_def)
  have ready: "queue_ok sample_libnf sample_dir 10 (dm_opt t, w_files (dm_world t))"
    "holds_windows (state_win sample_libnf sample_dir) 10 (dm_opt t, w_files (dm_world t)) [[]]"
    using queue_shift_ready(1,2) [OF t, of sample_dir 10] by (simp_all add: sample_libnf_laws sample_dir_fits)
  have chain: "prof_chain (dm_heap t) (o_root_profile (dm_opt t)) []" by (simp add: opt)
  note read_data_loop_stores [where E = ?E and s = t and dir = sample_dir and n = 10 and w = "[]" and ws = "[]" and rs = "[1, 2, 4]",
      OF sample_daemon_env_simps(13) chain shm]
  then show ?thesis using ready t by (auto simp: Let_def filtered_def opt)
qed
end
