(* ===== verification/Threads.thy ===== *)
theory Threads
  imports Daemon
begin

text \<open>
  The two threads of \<open>nfddos.c\<close> as they interleave: the read loop and the loop that closes the
  windows, with the three mutexes. A thread is a program counter; one step goes from one access to
  what the threads share to the next one, and every rename of a shift is a step of its own. A mutex
  is the thread that holds it. The lemmas show which sections exclude each other and which do not,
  what any interleaving leaves in the queue, that a thread that waits will get on, and that a thread
  that runs alone performs the loops of the theory \<open>Daemon\<close>.
\<close>

section \<open>State\<close>

datatype thread = Reader | Dumper

text \<open>The points of \<open>read_data_loop\<close>; the record that was read and the profile it is given to next
  are variables of the loop.\<close>

datatype 'r read_pc =
    R_open
  | R_ring
  | R_lock_profiles 'r
  | R_profiles 'r "ptr option"
  | R_unlock_profiles 'r
  | R_lock_queue 'r
  | R_store 'r
  | R_unlock_queue
  | R_end

text \<open>The points of \<open>dump_data_loop\<close>; \<open>D_shift i\<close> is in \<open>nfd_queue_shift\<close> with the loop counter \<open>i\<close>.\<close>

datatype dump_pc =
    D_start
  | D_wait
  | D_measure
  | D_lock_queue
  | D_shift nat
  | D_unlock_queue
  | D_switched
  | D_lock_profiles
  | D_dump
  | D_eval
  | D_unlock_profiles
  | D_expire

text \<open>The records the ring buffer has yet to give come with the state. \<open>last_switched\<close> is a variable of
  the dump loop.\<close>

record ('c, 'r, 'f, 'k) system =
  sy_daemon :: "('c, 'f, 'k) daemon"
  sy_ring :: "'r list"
  sy_read :: "'r read_pc"
  sy_dump :: dump_pc
  sy_last_switched :: int
  sy_queue_lock :: "thread option"
  sy_read_profile_lock :: "thread option"
  sy_dump_profile_lock :: "thread option"

definition threads_start :: "'r list \<Rightarrow> ('c, 'f, 'k) daemon \<Rightarrow> ('c, 'r, 'f, 'k) system" where
  "threads_start rs s = \<lparr>sy_daemon = s, sy_ring = rs, sy_read = R_open, sy_dump = D_start,
     sy_last_switched = 0, sy_queue_lock = None, sy_read_profile_lock = None, sy_dump_profile_lock = None\<rparr>"

section \<open>Steps\<close>

text \<open>
  A step gives \<open>None\<close> when the thread waits for a mutex or has ended, a fault, or the next state with
  the events of the queue that it performed.
\<close>

type_synonym ('c, 'r, 'f, 'k) move = "('r queue_event list \<times> ('c, 'r, 'f, 'k) system) res option"

abbreviation moves ::
  "'r queue_event list \<Rightarrow> ('c, 'r, 'f, 'k) system \<Rightarrow> ('c, 'r, 'f, 'k) move" where
  "moves es t \<equiv> Some (Inr (es, t))"

definition read_step ::
  "('c, 'r, 'f, 'k) daemon_env \<Rightarrow> ('c, 'r, 'f, 'k) system \<Rightarrow> ('c, 'r, 'f, 'k) move" where
  "read_step E s =
     (let d = sy_daemon s; opt = dm_opt d; L = e_lnf (de_act E) in
      case sy_read s of
        R_open \<Rightarrow>
          (case c_str (o_shm opt) of
             Inl e \<Rightarrow> Some (Inl e)
           | Inr shm \<Rightarrow> moves [] (s\<lparr>sy_read := (if de_ring E shm then R_ring else R_end)\<rparr>))
      | R_ring \<Rightarrow>
          (case sy_ring s of
             [] \<Rightarrow> moves [] (s\<lparr>sy_read := R_end\<rparr>)
           | r # rs \<Rightarrow>
               moves [] (s\<lparr>sy_ring := rs, sy_read := (if filtered L opt r then R_ring else R_lock_profiles r)\<rparr>))
      | R_lock_profiles r \<Rightarrow>
          if sy_read_profile_lock s \<noteq> None then None
          else moves [] (s\<lparr>sy_read_profile_lock := Some Reader, sy_read := R_profiles r (o_root_profile opt)\<rparr>)
      | R_profiles r profp \<Rightarrow>
          (case profp of
             None \<Rightarrow> moves [] (s\<lparr>sy_read := R_unlock_profiles r\<rparr>)
           | Some p \<Rightarrow>
               if dm_heap d p = None then Some (Inl UseAfterFree)
               else
                 let h = de_add_flow E p r (dm_heap d) in
                 case h p of
                   None \<Rightarrow> Some (Inl UseAfterFree)
                 | Some pr \<Rightarrow> moves [] (s\<lparr>sy_daemon := d\<lparr>dm_heap := h\<rparr>, sy_read := R_profiles r (p_next pr)\<rparr>))
      | R_unlock_profiles r \<Rightarrow> moves [] (s\<lparr>sy_read_profile_lock := None, sy_read := R_lock_queue r\<rparr>)
      | R_lock_queue r \<Rightarrow>
          if sy_queue_lock s \<noteq> None then None
          else moves [] (s\<lparr>sy_queue_lock := Some Reader, sy_read := R_store r\<rparr>)
      | R_store r \<Rightarrow>
          let w = dm_world d in
          moves (if o_queue_file opt = None then [] else [Put r])
            (s\<lparr>sy_daemon := d\<lparr>dm_world := w\<lparr>w_files := queue_store L opt r (w_files w)\<rparr>\<rparr>, sy_read := R_unlock_queue\<rparr>)
      | R_unlock_queue \<Rightarrow> moves [] (s\<lparr>sy_queue_lock := None, sy_read := R_ring\<rparr>)
      | R_end \<Rightarrow> None)"

text \<open>The end of \<open>nfd_queue_shift\<close>: the new current file is opened.\<close>

definition queue_open ::
  "('c, 'r, 'f) libnf \<Rightarrow> 'g nfd_options \<Rightarrow> 'c files \<Rightarrow> 'g nfd_options \<times> 'c files" where
  "queue_open L opt fs =
     (let buf = queue_file_name (o_queue_dir opt) 0 in
      if lnf_open_write L buf
      then (opt\<lparr>o_queue_file := Some buf\<rparr>, fs(buf := Some (lnf_new L)))
      else (opt\<lparr>o_queue_file := None\<rparr>, fs))"

definition with_queue :: "'f nfd_options \<times> 'c files \<Rightarrow> ('c, 'f, 'k) daemon \<Rightarrow> ('c, 'f, 'k) daemon" where
  "with_queue q d = d\<lparr>dm_opt := fst q, dm_world := (dm_world d)\<lparr>w_files := snd q\<rparr>\<rparr>"

definition shift_step ::
  "('c, 'r, 'f, 'k) daemon_env \<Rightarrow> nat \<Rightarrow> ('c, 'r, 'f, 'k) system \<Rightarrow> ('c, 'r, 'f, 'k) move" where
  "shift_step E k s =
     (let d = sy_daemon s; opt = dm_opt d; fs = w_files (dm_world d); dir = o_queue_dir opt in
      case k of
        Suc i \<Rightarrow>
          moves [] (s\<lparr>sy_daemon := with_queue (opt, c_rename (queue_file_name dir (int (Suc i) - 1))
            (queue_file_name dir (int (Suc i))) fs) d, sy_dump := D_shift i\<rparr>)
      | 0 \<Rightarrow> moves [Shift] (s\<lparr>sy_daemon := with_queue (queue_open (e_lnf (de_act E)) opt fs) d, sy_dump := D_unlock_queue\<rparr>))"

definition dump_step ::
  "('c, 'r, 'f, 'k) daemon_env \<Rightarrow> ('c, 'r, 'f, 'k) system \<Rightarrow> ('c, 'r, 'f, 'k) move" where
  "dump_step E s =
     (let d = sy_daemon s in
      case sy_dump s of
        D_start \<Rightarrow>
          let (t, d') = dump_switched E d in moves [] (s\<lparr>sy_daemon := d', sy_last_switched := t, sy_dump := D_wait\<rparr>)
      | D_wait \<Rightarrow>
          moves [] (s\<lparr>sy_daemon := snd (dump_wait E (sy_last_switched s) d), sy_dump := D_measure\<rparr>)
      | D_measure \<Rightarrow> moves [] (s\<lparr>sy_daemon := dump_measure E (sy_last_switched s) d, sy_dump := D_lock_queue\<rparr>)
      | D_lock_queue \<Rightarrow>
          if sy_queue_lock s \<noteq> None then None
          else moves [] (s\<lparr>sy_queue_lock := Some Dumper, sy_dump := D_shift (nat (o_queue_num (dm_opt d)))\<rparr>)
      | D_shift k \<Rightarrow> shift_step E k s
      | D_unlock_queue \<Rightarrow> moves [] (s\<lparr>sy_queue_lock := None, sy_dump := D_switched\<rparr>)
      | D_switched \<Rightarrow>
          let (t, d') = dump_switched E d in moves [] (s\<lparr>sy_daemon := d', sy_last_switched := t, sy_dump := D_lock_profiles\<rparr>)
      | D_lock_profiles \<Rightarrow>
          if sy_dump_profile_lock s \<noteq> None then None
          else moves [] (s\<lparr>sy_dump_profile_lock := Some Dumper, sy_dump := D_dump\<rparr>)
      | D_dump \<Rightarrow> moves [] (s\<lparr>sy_daemon := dump_profiles E d, sy_dump := D_eval\<rparr>)
      | D_eval \<Rightarrow> moves [] (s\<lparr>sy_daemon := eval_profiles E d, sy_dump := D_unlock_profiles\<rparr>)
      | D_unlock_profiles \<Rightarrow> moves [] (s\<lparr>sy_dump_profile_lock := None, sy_dump := D_expire\<rparr>)
      | D_expire \<Rightarrow>
          (case expire_actions E d of
             Inl e \<Rightarrow> Some (Inl e)
           | Inr d' \<Rightarrow> moves [] (s\<lparr>sy_daemon := d', sy_dump := D_wait\<rparr>)))"

text \<open>Any interleaving of the two threads, with its events; and a run of one thread alone.\<close>

inductive trace ::
  "('c, 'r, 'f, 'k) daemon_env \<Rightarrow> ('c, 'r, 'f, 'k) system \<Rightarrow> 'r queue_event list \<Rightarrow> ('c, 'r, 'f, 'k) system \<Rightarrow> bool"
  for E s where
  trace_start: "trace E s [] s"
| trace_read: "trace E s es t \<Longrightarrow> read_step E t = moves e u \<Longrightarrow> trace E s (es @ e) u"
| trace_dump: "trace E s es t \<Longrightarrow> dump_step E t = moves e u \<Longrightarrow> trace E s (es @ e) u"

definition prepend ::
  "'r queue_event list \<Rightarrow> ('c, 'r, 'f, 'k) move \<Rightarrow> ('c, 'r, 'f, 'k) move" where
  "prepend es = map_option (map_sum id (\<lambda>(fs, u). (es @ fs, u)))"

fun run_alone ::
  "(('c, 'r, 'f, 'k) system \<Rightarrow> ('c, 'r, 'f, 'k) move) \<Rightarrow> nat \<Rightarrow> ('c, 'r, 'f, 'k) system \<Rightarrow> ('c, 'r, 'f, 'k) move" where
  "run_alone move 0 s = moves [] s"
| "run_alone move (Suc n) s =
     Option.bind (move s) (\<lambda>x. case x of
       Inl e \<Rightarrow> Some (Inl e)
     | Inr (es, t) \<Rightarrow> prepend es (run_alone move n t))"

section \<open>Mutual exclusion\<close>

fun reads_queue :: "'r read_pc \<Rightarrow> bool" where
  "reads_queue (R_store r) = True"
| "reads_queue R_unlock_queue = True"
| "reads_queue _ = False"

fun dumps_queue :: "dump_pc \<Rightarrow> bool" where
  "dumps_queue (D_shift i) = True"
| "dumps_queue D_unlock_queue = True"
| "dumps_queue _ = False"

fun reads_profiles :: "'r read_pc \<Rightarrow> bool" where
  "reads_profiles (R_profiles r p) = True"
| "reads_profiles (R_unlock_profiles r) = True"
| "reads_profiles _ = False"

fun dumps_profiles :: "dump_pc \<Rightarrow> bool" where
  "dumps_profiles D_dump = True"
| "dumps_profiles D_eval = True"
| "dumps_profiles D_unlock_profiles = True"
| "dumps_profiles _ = False"

text \<open>Every mutex is held by the thread that is in a section of it.\<close>

definition held_by :: "thread option \<Rightarrow> bool \<Rightarrow> bool \<Rightarrow> bool" where
  "held_by m r d \<longleftrightarrow> (m = Some Reader \<longleftrightarrow> r) \<and> (m = Some Dumper \<longleftrightarrow> d)"

definition locks_ok :: "('c, 'r, 'f, 'k) system \<Rightarrow> bool" where
  "locks_ok s \<longleftrightarrow>
     held_by (sy_queue_lock s) (reads_queue (sy_read s)) (dumps_queue (sy_dump s)) \<and>
     held_by (sy_read_profile_lock s) (reads_profiles (sy_read s)) False \<and>
     held_by (sy_dump_profile_lock s) False (dumps_profiles (sy_dump s))"

lemma held_by_free: "held_by None r d \<longleftrightarrow> \<not> r \<and> \<not> d"
  by (simp add: held_by_def)

lemma held_by_some [simp]: "held_by (Some Reader) r d \<longleftrightarrow> r \<and> \<not> d" "held_by (Some Dumper) r d \<longleftrightarrow> \<not> r \<and> d"
  by (auto simp: held_by_def)

lemma held_by_one [simp]: "\<not> held_by m True True"
  by (auto simp: held_by_def)

lemma held_by_iff: "held_by m r d \<Longrightarrow> m = None \<longleftrightarrow> \<not> r \<and> \<not> d"
  by (cases m; cases "the m") (auto simp: held_by_def)

lemma locks_start: "locks_ok (threads_start rs d)"
  by (simp add: locks_ok_def threads_start_def held_by_free)

lemma locks_read:
  assumes "locks_ok s" "read_step E s = moves e t"
  shows "locks_ok t \<and> sy_dump t = sy_dump s"
proof (cases "sy_read s")
  case R_open
  then show ?thesis using assms by (auto simp: read_step_def locks_ok_def split: sum.splits)
next
  case R_ring
  then show ?thesis using assms by (auto simp: read_step_def locks_ok_def Let_def split: list.splits)
next
  case (R_profiles r p)
  then show ?thesis using assms by (auto simp: read_step_def locks_ok_def Let_def split: option.splits if_splits)
qed (use assms in \<open>auto simp: read_step_def locks_ok_def Let_def held_by_free split: if_splits dest: held_by_iff\<close>)

lemma locks_dump:
  assumes "locks_ok s" "dump_step E s = moves e t"
  shows "locks_ok t \<and> sy_read t = sy_read s"
proof (cases "sy_dump s")
  case (D_shift k)
  then show ?thesis using assms by (auto simp: dump_step_def shift_step_def locks_ok_def Let_def split: nat.splits)
next
  case D_expire
  then show ?thesis using assms by (auto simp: dump_step_def locks_ok_def Let_def split: sum.splits)
qed (use assms in \<open>auto simp: dump_step_def locks_ok_def Let_def held_by_free split: if_splits prod.splits dest: held_by_iff\<close>)

lemma locks_trace: "trace E s es t \<Longrightarrow> locks_ok s \<Longrightarrow> locks_ok t"
  by (induction rule: trace.induct) (use locks_read locks_dump in blast)+

text \<open>C10. Mutual exclusion. In every state that the threads can reach, the thread that holds a mutex is in
  a section of it and the other way round. So the read loop never stores a flow while the queue is
  being shifted.\<close>

theorem queue_sections_exclude:
  assumes "trace E (threads_start rs d) es t"
  shows "held_by (sy_queue_lock t) (reads_queue (sy_read t)) (dumps_queue (sy_dump t)) \<and>
    held_by (sy_read_profile_lock t) (reads_profiles (sy_read t)) False \<and>
    held_by (sy_dump_profile_lock t) False (dumps_profiles (sy_dump t)) \<and>
    \<not> (reads_queue (sy_read t) \<and> dumps_queue (sy_dump t))"
  using locks_trace [OF assms locks_start] by (auto simp: locks_ok_def held_by_def)
section \<open>A thread that runs alone\<close>

lemma trace_trans:
  assumes "trace E t fs u" "trace E s es t"
  shows "trace E s (es @ fs) u"
  using assms
proof (induction rule: trace.induct)
  case trace_start
  then show ?case by simp
next
  case (trace_read fs t' e u)
  then show ?case using trace.trace_read [of E s "es @ fs" t' e u] by simp
next
  case (trace_dump fs t' e u)
  then show ?case using trace.trace_dump [of E s "es @ fs" t' e u] by simp
qed

lemma prepend_simps [simp]:
  "prepend e None = None" "prepend e (Some (Inl x)) = Some (Inl x)" "prepend e (moves fs u) = moves (e @ fs) u"
  by (simp_all add: prepend_def)

lemma prepend_nil [simp]: "prepend [] m = m"
  by (cases m; cases "the m") (auto simp: prepend_def)

lemma prepend_prepend [simp]: "prepend e (prepend f m) = prepend (e @ f) m"
  by (cases m; cases "the m") (auto simp: prepend_def)

lemma prepend_moves: "prepend e m = moves es t \<longleftrightarrow> (\<exists>fs. m = moves fs t \<and> es = e @ fs)"
  by (cases m; cases "the m") (auto simp: prepend_def)

lemma run_alone_Suc:
  "run_alone move (Suc n) s = moves es t \<longleftrightarrow>
    (\<exists>e u fs. move s = moves e u \<and> run_alone move n u = moves fs t \<and> es = e @ fs)"
proof (cases "move s")
  case (Some x)
  then show ?thesis by (cases x) (auto simp: prepend_moves)
qed simp

lemma run_alone_trace:
  "run_alone (read_step E) n s = moves es t \<Longrightarrow> trace E s es t"
  "run_alone (dump_step E) n s = moves es t \<Longrightarrow> trace E s es t"
proof (induction n arbitrary: s es)
  case 0
  {
    case 1
    then show ?case by (simp add: trace.trace_start)
  next
    case 2
    then show ?case by (simp add: trace.trace_start)
  }
next
  case (Suc n)
  {
    case 1
    then obtain e u fs where "read_step E s = moves e u" "run_alone (read_step E) n u = moves fs t" "es = e @ fs"
      unfolding run_alone_Suc by blast
    then show ?case
      using trace_trans [OF Suc.IH(1), of u fs s e] trace.trace_read [OF trace.trace_start, of E s e u] by simp
  next
    case 2
    then obtain e u fs where "dump_step E s = moves e u" "run_alone (dump_step E) n u = moves fs t" "es = e @ fs"
      unfolding run_alone_Suc by blast
    then show ?case
      using trace_trans [OF Suc.IH(2), of u fs s e] trace.trace_dump [OF trace.trace_start, of E s e u] by simp
  }
qed

lemma run_alone_then:
  "run_alone move a s = moves es t \<Longrightarrow> run_alone move (a + b) s = prepend es (run_alone move b t)"
proof (induction a arbitrary: s es)
  case (Suc a)
  then obtain e u fs where m: "move s = moves e u" "run_alone move a u = moves fs t" "es = e @ fs"
    unfolding run_alone_Suc by blast
  then show ?case using Suc.IH [OF m(2)] by simp
qed simp

lemma run_alone_step: "move s = moves e t \<Longrightarrow> run_alone move (Suc n) s = prepend e (run_alone move n t)"
  by simp

lemma nfd_queue_shift_eq:
  "snd (nfd_queue_shift L opt fs) = queue_open L opt (queue_rotate (o_queue_dir opt) (nat (o_queue_num opt)) fs)"
  by (simp add: nfd_queue_shift_def queue_open_def Let_def)

lemma run_shift:
  "sy_dump s = D_shift k \<Longrightarrow>
    run_alone (dump_step E) (Suc k) s =
      moves [Shift] (s\<lparr>sy_daemon := with_queue (queue_open (e_lnf (de_act E)) (dm_opt (sy_daemon s))
          (queue_rotate (o_queue_dir (dm_opt (sy_daemon s))) k (w_files (dm_world (sy_daemon s))))) (sy_daemon s),
        sy_dump := D_unlock_queue\<rparr>)"
proof (induction k arbitrary: s)
  case 0
  then show ?case by (simp add: dump_step_def shift_step_def Let_def)
next
  case (Suc k)
  let ?d = "sy_daemon s"
  let ?fs = "c_rename (queue_file_name (o_queue_dir (dm_opt ?d)) (int (Suc k) - 1))
    (queue_file_name (o_queue_dir (dm_opt ?d)) (int (Suc k))) (w_files (dm_world ?d))"
  have "dump_step E s = moves [] (s\<lparr>sy_daemon := with_queue (dm_opt ?d, ?fs) ?d, sy_dump := D_shift k\<rparr>)"
    using Suc.prems by (simp add: dump_step_def shift_step_def Let_def)
  from run_alone_step [where move = "dump_step E", OF this, of "Suc k"] show ?case
    using Suc.IH [of "s\<lparr>sy_daemon := with_queue (dm_opt ?d, ?fs) ?d, sy_dump := D_shift k\<rparr>"]
    by (simp add: with_queue_def del: run_alone.simps)
qed
lemma queue_shift_eq:
  "snd (queue_shift E d) = with_queue (queue_open (e_lnf (de_act E)) (dm_opt d)
    (queue_rotate (o_queue_dir (dm_opt d)) (nat (o_queue_num (dm_opt d))) (w_files (dm_world d)))) d"
  by (simp add: queue_shift_def with_queue_def case_prod_beta flip: nfd_queue_shift_eq)

lemma run_wait:
  assumes "sy_dump s = D_wait" "sy_queue_lock s = None"
  shows "\<exists>k. run_alone (dump_step E) k s =
    (let d = dump_measure E (sy_last_switched s) (snd (dump_wait E (sy_last_switched s) (sy_daemon s))) in
     moves [Shift] (s\<lparr>sy_daemon := snd (queue_shift E d), sy_queue_lock := Some Dumper, sy_dump := D_unlock_queue\<rparr>))"
proof -
  let ?d = "dump_measure E (sy_last_switched s) (snd (dump_wait E (sy_last_switched s) (sy_daemon s)))"
  let ?t = "s\<lparr>sy_daemon := ?d, sy_queue_lock := Some Dumper, sy_dump := D_shift (nat (o_queue_num (dm_opt ?d)))\<rparr>"
  have "run_alone (dump_step E) 3 s = moves [] ?t"
    using assms by (simp add: dump_step_def numeral_3_eq_3 Let_def)
  note run_alone_then [OF this, of "Suc (nat (o_queue_num (dm_opt ?d)))"]
  also have "run_alone (dump_step E) (Suc (nat (o_queue_num (dm_opt ?d)))) ?t =
      moves [Shift] (s\<lparr>sy_daemon := snd (queue_shift E ?d), sy_queue_lock := Some Dumper, sy_dump := D_unlock_queue\<rparr>)"
    by (subst run_shift) (simp_all add: queue_shift_eq)
  finally show ?thesis unfolding Let_def prepend_nil by blast
qed

text \<open>From the wait of one round of the dump loop to that of the next.\<close>

lemma run_dump_round:
  assumes "sy_dump s = D_wait" and "sy_queue_lock s = None" and "sy_dump_profile_lock s = None"
  shows "\<exists>n. run_alone (dump_step E) n s =
    (case dump_round E (sy_last_switched s) (sy_daemon s) of
       Inl e \<Rightarrow> Some (Inl e)
     | Inr (switched, d) \<Rightarrow> moves [Shift] (s\<lparr>sy_daemon := d, sy_last_switched := switched\<rparr>))"
proof -
  let ?d2 = "dump_measure E (sy_last_switched s) (snd (dump_wait E (sy_last_switched s) (sy_daemon s)))"
  obtain n d3 where d3: "queue_shift E ?d2 = (n, d3)" by (cases "queue_shift E ?d2") auto
  obtain t d4 where d4: "dump_switched E d3 = (t, d4)" by (cases "dump_switched E d3") auto
  let ?d5 = "eval_profiles E (dump_profiles E d4)"
  let ?u = "s\<lparr>sy_daemon := d3, sy_queue_lock := Some Dumper, sy_dump := D_unlock_queue\<rparr>"
  from run_wait [OF assms(1,2), of E] obtain k where
    "run_alone (dump_step E) k s = moves [Shift] ?u" by (auto simp: Let_def d3)
  from run_alone_then [OF this, of 7] have
    run: "run_alone (dump_step E) (k + 7) s = prepend [Shift] (run_alone (dump_step E) 7 ?u)" .
  have "run_alone (dump_step E) 6 ?u =
      moves [] (s\<lparr>sy_daemon := ?d5, sy_last_switched := t, sy_dump := D_expire\<rparr>)"
    using assms d4 by (simp add: dump_step_def eval_nat_numeral Let_def)
  from run_alone_then [OF this, of 1] have "run_alone (dump_step E) 7 ?u =
      dump_step E (s\<lparr>sy_daemon := ?d5, sy_last_switched := t, sy_dump := D_expire\<rparr>)"
    by (simp add: bind_eq_None_conv split: sum.split) (cases "dump_step E (s\<lparr>sy_daemon := ?d5, sy_last_switched := t, sy_dump := D_expire\<rparr>)"; auto split: sum.splits)
  moreover have "s\<lparr>sy_last_switched := t, sy_daemon := x, sy_dump := D_wait\<rparr> = s\<lparr>sy_daemon := x, sy_last_switched := t\<rparr>" for x
    using assms(1) by (cases s) simp
  ultimately show ?thesis
    using run d3 d4 by (intro exI [of _ "k + 7"])
      (simp add: dump_step_def dump_round_def Let_def case_prod_beta split: sum.split del: run_alone.simps)
qed

text \<open>What the walk through the profiles comes to, one step after the other.\<close>

definition walk_runs :: "('c, 'r, 'f, 'k) daemon_env \<Rightarrow> (ptr \<Rightarrow> 'r \<Rightarrow> 'f pheap \<Rightarrow> 'f pheap) \<Rightarrow> ptr option \<Rightarrow> 'r
    \<Rightarrow> 'f pheap \<Rightarrow> 'f pheap res \<Rightarrow> bool" where
  "walk_runs E add p r h y \<longleftrightarrow> (add = de_add_flow E \<longrightarrow>
     (\<forall>s. sy_read s = R_profiles r p \<and> dm_heap (sy_daemon s) = h \<longrightarrow>
       (\<exists>n. run_alone (read_step E) n s =
         (case y of
            Inl e \<Rightarrow> Some (Inl e)
          | Inr h' \<Rightarrow> moves [] (s\<lparr>sy_daemon := (sy_daemon s)\<lparr>dm_heap := h'\<rparr>, sy_read := R_unlock_profiles r\<rparr>)))))"

lemma add_flow_all_runs:
  fixes E :: "('c, 'r, 'f, 'k) daemon_env"
  assumes "add_flow_all add p r h = Some y"
  shows "walk_runs E add p r h y"
proof (rule add_flow_all.raw_induct [of "walk_runs E", OF _ assms])
  fix rec add p r h and y :: "'f pheap res"
  assume IH: "\<And>add p r h y. rec add p r h = Some y \<Longrightarrow> walk_runs E add p r h y"
    and body: "(case p of None \<Rightarrow> Some (Inr h)
      | Some p \<Rightarrow> if h p = None then Some (Inl UseAfterFree)
        else let h' = add p r h in case h' p of None \<Rightarrow> Some (Inl UseAfterFree) | Some pr \<Rightarrow> rec add (p_next pr) r h') = Some y"
  show "walk_runs E add p r h y"
    unfolding walk_runs_def
  proof (intro impI allI, elim conjE)
    fix s :: "('c, 'r, 'f, 'k) system"
    assume add: "add = de_add_flow E" and pc: "sy_read s = R_profiles r p" and heap: "dm_heap (sy_daemon s) = h"
    show "\<exists>n. run_alone (read_step E) n s = (case y of Inl e \<Rightarrow> Some (Inl e)
      | Inr h' \<Rightarrow> moves [] (s\<lparr>sy_daemon := (sy_daemon s)\<lparr>dm_heap := h'\<rparr>, sy_read := R_unlock_profiles r\<rparr>))"
    proof (cases "\<exists>q pr. p = Some q \<and> h q \<noteq> None \<and> add q r h q = Some pr")
      case False
      then have "run_alone (read_step E) 1 s = (case y of Inl e \<Rightarrow> Some (Inl e)
        | Inr h' \<Rightarrow> moves [] (s\<lparr>sy_daemon := (sy_daemon s)\<lparr>dm_heap := h'\<rparr>, sy_read := R_unlock_profiles r\<rparr>))"
        using body add pc heap by (cases p) (auto simp: read_step_def Let_def split: if_split_asm option.split_asm option.split)
      then show ?thesis ..
    next
      case True
      then obtain q pr where q: "p = Some q" "h q \<noteq> None" "add q r h q = Some pr" by blast
      let ?s = "s\<lparr>sy_daemon := (sy_daemon s)\<lparr>dm_heap := add q r h\<rparr>, sy_read := R_profiles r (p_next pr)\<rparr>"
      have st: "read_step E s = moves [] ?s"
        using pc heap add q by (simp add: read_step_def Let_def)
      have "rec add (p_next pr) r (add q r h) = Some y"
        using body q by (simp add: Let_def)
      from IH [OF this, unfolded walk_runs_def, rule_format, OF add, of ?s] obtain n where
        "run_alone (read_step E) n ?s = (case y of Inl e \<Rightarrow> Some (Inl e)
         | Inr h' \<Rightarrow> moves [] (s\<lparr>sy_daemon := (sy_daemon s)\<lparr>dm_heap := h'\<rparr>, sy_read := R_unlock_profiles r\<rparr>))"
        by (cases y) auto
      with run_alone_step [where move = "read_step E", OF st, of n] show ?thesis
        unfolding prepend_nil by metis
    qed
  qed
qed

lemma run_record:
  assumes "sy_read s = R_ring" "sy_ring s = r # rs" "sy_queue_lock s = None" "sy_read_profile_lock s = None"
    and "read_record E r (sy_daemon s) = Some y"
  shows "\<exists>n es. run_alone (read_step E) n s =
    (case y of Inl e \<Rightarrow> Some (Inl e) | Inr d \<Rightarrow> moves es (s\<lparr>sy_daemon := d, sy_ring := rs\<rparr>))"
proof (cases "filtered (e_lnf (de_act E)) (dm_opt (sy_daemon s)) r")
  case True
  then have "run_alone (read_step E) 1 s = moves [] (s\<lparr>sy_ring := rs\<rparr>)" "y = Inr (sy_daemon s)"
    using assms by (auto simp: read_step_def read_record_def Let_def)
  then show ?thesis by (intro exI [of _ 1] exI [of _ "[]"]) simp
next
  case False
  let ?d = "sy_daemon s" and ?L = "e_lnf (de_act E)"
  let ?t = "s\<lparr>sy_ring := rs, sy_read_profile_lock := Some Reader, sy_read := R_profiles r (o_root_profile (dm_opt ?d))\<rparr>"
  have two: "run_alone (read_step E) 2 s = moves [] ?t"
    using assms False by (simp add: read_step_def numeral_2_eq_2 Let_def)
  from assms(5) False obtain x where x: "add_flow_all (de_add_flow E) (o_root_profile (dm_opt ?d)) r (dm_heap ?d) = Some x"
    by (auto simp: read_record_def Let_def bind_eq_Some_conv)
  from add_flow_all_runs [OF x, of E, unfolded walk_runs_def, rule_format, of ?t] obtain n where
    n: "run_alone (read_step E) n ?t = (case x of Inl e \<Rightarrow> Some (Inl e)
       | Inr h \<Rightarrow> moves [] (?t\<lparr>sy_daemon := (sy_daemon ?t)\<lparr>dm_heap := h\<rparr>, sy_read := R_unlock_profiles r\<rparr>))" by auto
  note run = run_alone_then [OF two, of n]
  show ?thesis
  proof (cases x)
    case (Inl e)
    with assms(5) False x have "y = Inl e" by (simp add: read_record_def Let_def)
    moreover have "run_alone (read_step E) (2 + n) s = Some (Inl e)" using run n Inl by simp
    ultimately show ?thesis by (intro exI [of _ "2 + n"]) (simp del: run_alone.simps)
  next
    case (Inr h)
    let ?u = "?t\<lparr>sy_daemon := ?d\<lparr>dm_heap := h\<rparr>, sy_read := R_unlock_profiles r\<rparr>"
    let ?d' = "?d\<lparr>dm_heap := h, dm_world := (dm_world ?d)\<lparr>w_files := queue_store ?L (dm_opt ?d) r (w_files (dm_world ?d))\<rparr>\<rparr>"
    let ?es = "if o_queue_file (dm_opt ?d) = None then [] else [Put r]"
    have "run_alone (read_step E) (2 + n) s = moves [] ?u" using run n Inr by simp
    note run_alone_then [OF this, of 4]
    moreover have "run_alone (read_step E) 4 ?u = moves ?es (s\<lparr>sy_daemon := ?d', sy_ring := rs\<rparr>)"
      using assms by (cases s) (simp add: read_step_def eval_nat_numeral Let_def)
    moreover have "y = Inr ?d'" using assms(5) False x Inr by (simp add: read_record_def Let_def)
    ultimately show ?thesis
      by (intro exI [of _ "2 + n + 4"] exI [of _ ?es]) (simp del: run_alone.simps)
  qed
qed

lemma run_records:
  "read_records E rs (sy_daemon s) = Some y \<Longrightarrow> sy_read s = R_ring \<Longrightarrow> sy_ring s = rs \<Longrightarrow> sy_queue_lock s = None \<Longrightarrow>
    sy_read_profile_lock s = None \<Longrightarrow>
    \<exists>n es. run_alone (read_step E) n s =
      (case y of Inl e \<Rightarrow> Some (Inl e) | Inr d \<Rightarrow> moves es (s\<lparr>sy_daemon := d, sy_ring := [], sy_read := R_end\<rparr>))"
proof (induction rs arbitrary: s)
  case Nil
  then have "run_alone (read_step E) 1 s = moves [] (s\<lparr>sy_daemon := sy_daemon s, sy_ring := [], sy_read := R_end\<rparr>)"
    by (simp add: read_step_def Let_def)
  moreover have "y = Inr (sy_daemon s)" using Nil by simp
  ultimately show ?case by (intro exI [of _ 1] exI [of _ "[]"]) (simp del: run_alone.simps)
next
  case (Cons r rs)
  from Cons.prems(1) obtain x where x: "read_record E r (sy_daemon s) = Some x" by (auto simp: bind_eq_Some_conv)
  from run_record [OF Cons.prems(2-5) x] obtain n es where
    n: "run_alone (read_step E) n s = (case x of Inl e \<Rightarrow> Some (Inl e) | Inr d \<Rightarrow> moves es (s\<lparr>sy_daemon := d, sy_ring := rs\<rparr>))"
    by blast
  show ?case
  proof (cases x)
    case (Inl e)
    then have "y = Inl e" using Cons.prems(1) x by simp
    then show ?thesis using n Inl by (intro exI [of _ n]) simp
  next
    case (Inr d)
    let ?s = "s\<lparr>sy_daemon := d, sy_ring := rs\<rparr>"
    have "read_records E rs (sy_daemon ?s) = Some y" using Cons.prems(1) x Inr by simp
    from Cons.IH [OF this] Cons.prems obtain m fs where m: "run_alone (read_step E) m ?s =
      (case y of Inl e \<Rightarrow> Some (Inl e) | Inr d \<Rightarrow> moves fs (?s\<lparr>sy_daemon := d, sy_ring := [], sy_read := R_end\<rparr>))" by auto
    have "run_alone (read_step E) n s = moves es ?s" using n Inr by simp
    from run_alone_then [OF this, of m] m show ?thesis
      by (intro exI [of _ "n + m"] exI [of _ "es @ fs"]) (simp split: sum.split del: run_alone.simps)
  qed
qed

lemma run_read_loop:
  assumes "read_data_loop E (sy_ring s) (sy_daemon s) = Some y"
    and "sy_read s = R_open" and "sy_queue_lock s = None" and "sy_read_profile_lock s = None"
  shows "\<exists>n es. run_alone (read_step E) n s =
    (case y of
       Inl e \<Rightarrow> Some (Inl e)
     | Inr d \<Rightarrow> moves es (s\<lparr>sy_daemon := d, sy_read := R_end,
         sy_ring := (if de_ring E (o_shm (dm_opt (sy_daemon s))) then [] else sy_ring s)\<rparr>))"
proof (cases "c_str (o_shm (dm_opt (sy_daemon s)))")
  case (Inl e)
  moreover from this assms(1) have "y = Inl e" by (simp add: read_data_loop_def)
  ultimately show ?thesis using assms(2) by (intro exI [of _ 1]) (simp add: read_step_def Let_def)
next
  case (Inr shm)
  then have shm: "shm = o_shm (dm_opt (sy_daemon s))" by (auto simp: c_str_def split: if_splits)
  show ?thesis
  proof (cases "de_ring E shm")
    case False
    then have "run_alone (read_step E) 1 s = moves [] (s\<lparr>sy_read := R_end\<rparr>)" "y = Inr (sy_daemon s)"
      using Inr assms by (auto simp: read_step_def read_data_loop_def Let_def)
    then show ?thesis using False shm by (intro exI [of _ 1] exI [of _ "[]"]) (cases s, simp)
  next
    case True
    let ?s = "s\<lparr>sy_read := R_ring\<rparr>"
    have st: "read_step E s = moves [] ?s" using True Inr assms(2) by (simp add: read_step_def Let_def)
    have "read_records E (sy_ring s) (sy_daemon ?s) = Some y" using assms(1) True Inr by (simp add: read_data_loop_def)
    from run_records [OF this] assms(3,4) obtain n es where "run_alone (read_step E) n ?s =
      (case y of Inl e \<Rightarrow> Some (Inl e) | Inr d \<Rightarrow> moves es (?s\<lparr>sy_daemon := d, sy_ring := [], sy_read := R_end\<rparr>))" by auto
    with run_alone_step [where move = "read_step E", OF st, of n] True shm show ?thesis
      by (intro exI [of _ "Suc n"] exI [of _ es]) (simp split: sum.split del: run_alone.simps)
  qed
qed
text \<open>C22. A thread on its own. The steps of the read thread, from its start, come to what
  \<open>read_data_loop\<close> does as one operation; the steps of the other thread, from the wait of one round to
  that of the next, to what the round of \<open>dump_data_loop\<close> does as one operation, with one shift of the
  queue. The faults are the same.\<close>

theorem threads_alone:
  assumes "sy_queue_lock s = None" and "sy_read_profile_lock s = None" and "sy_dump_profile_lock s = None"
  shows "(sy_dump s = D_wait \<longrightarrow> (\<exists>n. run_alone (dump_step E) n s =
      (case dump_round E (sy_last_switched s) (sy_daemon s) of
         Inl e \<Rightarrow> Some (Inl e)
       | Inr (switched, d) \<Rightarrow> Some (Inr ([Shift], s\<lparr>sy_daemon := d, sy_last_switched := switched\<rparr>))))) \<and>
    (\<forall>y. sy_read s = R_open \<and> read_data_loop E (sy_ring s) (sy_daemon s) = Some y \<longrightarrow>
      (\<exists>n es. run_alone (read_step E) n s =
        (case y of
           Inl e \<Rightarrow> Some (Inl e)
         | Inr d \<Rightarrow> Some (Inr (es, s\<lparr>sy_daemon := d, sy_read := R_end,
             sy_ring := (if de_ring E (o_shm (dm_opt (sy_daemon s))) then [] else sy_ring s)\<rparr>)))))"
  using run_dump_round [OF _ assms(1,3)] run_read_loop [OF _ _ assms(1,2)] by blast

section \<open>The queue under any interleaving\<close>

fun puts :: "'r queue_event list \<Rightarrow> 'r list" where
  "puts [] = []"
| "puts (Put r # es) = r # puts es"
| "puts (Shift # es) = puts es"

text \<open>The record that was read, passed the filter and is not yet stored.\<close>

fun in_flight :: "'r read_pc \<Rightarrow> 'r list" where
  "in_flight (R_lock_profiles r) = [r]"
| "in_flight (R_profiles r p) = [r]"
| "in_flight (R_unlock_profiles r) = [r]"
| "in_flight (R_lock_queue r) = [r]"
| "in_flight (R_store r) = [r]"
| "in_flight _ = []"

text \<open>What is relied on of \<open>profile.c\<close>: it leaves the files of the queue and the options of the queue and
  of the filter alone.\<close>

definition same_queue :: "string \<Rightarrow> nat \<Rightarrow> 'c files \<Rightarrow> 'c files \<Rightarrow> bool" where
  "same_queue dir n fs fs' \<longleftrightarrow> (\<forall>i \<le> n. window dir fs' i = window dir fs i)"

definition same_settings :: "'f nfd_options \<Rightarrow> 'f nfd_options \<Rightarrow> bool" where
  "same_settings opt opt' \<longleftrightarrow> o_queue_dir opt' = o_queue_dir opt \<and> o_queue_num opt' = o_queue_num opt \<and>
     o_queue_file opt' = o_queue_file opt \<and> o_filter opt' = o_filter opt"

definition profiles_leave_queue :: "('c, 'r, 'f, 'k) daemon_env \<Rightarrow> string \<Rightarrow> nat \<Rightarrow> bool" where
  "profiles_leave_queue E dir n \<longleftrightarrow>
     (\<forall>opt h w h' w'. de_dump_all E opt (h, w) = (h', w') \<longrightarrow> same_queue dir n (w_files w) (w_files w')) \<and>
     (\<forall>opt h w opt' h' w'. de_eval_all E (opt, h, w) = (opt', h', w') \<longrightarrow>
        same_queue dir n (w_files w) (w_files w') \<and> same_settings opt opt')"

lemma puts_append: "puts (es @ fs) = puts es @ puts fs"
  by (induction es rule: puts.induct) simp_all

lemma windows_run_append: "windows_run ws (es @ fs) = windows_run (windows_run ws es) fs"
  by (simp add: windows_run_def)

lemma windows_run_records: "ws \<noteq> [] \<Longrightarrow> concat (rev (windows_run ws es)) = concat (rev ws) @ puts es"
proof (induction es arbitrary: ws)
  case (Cons e es)
  then obtain w ws' where "ws = w # ws'" by (cases ws) auto
  with Cons.IH [of "windows_step ws e"] show ?case by (cases e) (simp_all add: windows_run_def)
qed (simp add: windows_run_def)

lemma holds_windows_same:
  assumes "same_queue dir n fs fs'" "holds_windows (state_win L dir) n (opt, fs) ws"
  shows "holds_windows (state_win L dir) n (opt', fs') ws"
  using assms by (simp add: same_queue_def holds_windows_def state_win_def queue_win_def)

lemma queue_ok_same: "same_settings opt opt' \<Longrightarrow> queue_ok L dir n (opt, fs) \<Longrightarrow> queue_ok L dir n (opt', fs')"
  by (simp add: same_settings_def queue_ok_def)

text \<open>The queue of a state: in a shift it is the one that the rest of the shift leads to.\<close>

definition queue_of :: "('c, 'r, 'f, 'k) system \<Rightarrow> 'f nfd_options \<times> 'c files" where
  "queue_of s = (dm_opt (sy_daemon s), w_files (dm_world (sy_daemon s)))"

fun shifting :: "dump_pc \<Rightarrow> nat option" where
  "shifting (D_shift k) = Some k"
| "shifting _ = None"

definition queue_inv ::
  "('c, 'r, 'f, 'k) daemon_env \<Rightarrow> string \<Rightarrow> nat \<Rightarrow> 'r list list \<Rightarrow> 'r queue_event list \<Rightarrow> ('c, 'r, 'f, 'k) system \<Rightarrow> bool" where
  "queue_inv E dir n ws es s \<longleftrightarrow>
     (let L = e_lnf (de_act E); (opt, fs) = queue_of s in
      queue_ok L dir n (opt, fs) \<and>
      (case shifting (sy_dump s) of
         None \<Rightarrow> holds_windows (state_win L dir) n (opt, fs) (windows_run ws es)
       | Some k \<Rightarrow> holds_windows (state_win L dir) n (queue_open L opt (queue_rotate dir k fs)) (windows_run ws (es @ [Shift]))))"

lemma read_step_effect:
  assumes "read_step E s = moves e t"
  shows "sy_dump t = sy_dump s \<and> dm_opt (sy_daemon t) = dm_opt (sy_daemon s) \<and>
    (e = [] \<and> queue_of t = queue_of s \<or>
     (\<exists>r. sy_read s = R_store r \<and> e = (if o_queue_file (fst (queue_of s)) = None then [] else [Put r]) \<and>
       queue_of t = store_state (e_lnf (de_act E)) r (queue_of s)))"
proof (cases "sy_read s")
  case R_open
  then show ?thesis using assms by (auto simp: read_step_def queue_of_def split: sum.splits)
next
  case R_ring
  then show ?thesis using assms by (auto simp: read_step_def queue_of_def Let_def split: list.splits)
next
  case (R_profiles r p)
  then show ?thesis using assms by (auto simp: read_step_def queue_of_def Let_def split: option.splits if_splits)
next
  case (R_store r)
  then show ?thesis using assms by (auto simp: read_step_def queue_of_def store_state_def Let_def)
qed (use assms in \<open>auto simp: read_step_def queue_of_def Let_def split: if_splits\<close>)

lemma queue_inv_read:
  assumes "locks_ok s" "queue_inv E dir n ws es s" "read_step E s = moves e t"
  shows "queue_inv E dir n ws (es @ e) t"
  using read_step_effect [OF assms(3)]
proof (elim conjE disjE exE)
  assume "sy_dump t = sy_dump s" "e = []" "queue_of t = queue_of s"
  then show ?thesis using assms(2) by (simp add: queue_inv_def)
next
  fix r
  let ?L = "e_lnf (de_act E)"
  assume dump: "sy_dump t = sy_dump s" and pc: "sy_read s = R_store r"
    and e: "e = (if o_queue_file (fst (queue_of s)) = None then [] else [Put r])"
    and q: "queue_of t = store_state ?L r (queue_of s)"
  have none: "shifting (sy_dump s) = None"
    using assms(1) pc by (cases "sy_dump s") (auto simp: locks_ok_def)
  with assms(2) have ok: "queue_ok ?L dir n (queue_of s)"
    and h: "holds_windows (state_win ?L dir) n (queue_of s) (windows_run ws es)"
    by (auto simp: queue_inv_def Let_def split: prod.splits)
  then have "e = [Put r]" using e by (auto simp: queue_ok_def)
  moreover have "holds_windows (state_win ?L dir) n (store_state ?L r (queue_of s)) (windows_run (windows_run ws es) [Put r])"
    using nfd_queue.holds_event [OF ok h, of "Put r"] by (simp add: windows_run_def)
  ultimately show ?thesis
    using none dump q nfd_queue.ok_put [OF ok, of r] by (cases "queue_of t") (simp add: queue_inv_def windows_run_append)
qed

lemma expire_actions_keeps:
  assumes "expire_actions E d = Inr d'"
  shows "same_settings (dm_opt d) (dm_opt d') \<and> w_files (dm_world d') = w_files (dm_world d)"
proof -
  have slot: "act_expire_slot A opt x i s = Inr s' \<Longrightarrow> w_files (snd s') = w_files (snd s)" for A opt x i s s'
    by (auto simp: act_expire_slot_def nfd_act_cmd_def Let_def tick_def res_bind_def split: prod.splits sum.splits option.splits if_splits)
  have slots: "act_expire_slots A opt x is s = Inr s' \<Longrightarrow> w_files (snd s') = w_files (snd s)" for A opt x "is" s s'
    by (induction "is" arbitrary: s) (auto simp: res_bind_def slot split: sum.splits)
  show ?thesis
    using assms slots by (fastforce simp: expire_actions_def nfd_act_expire_def same_settings_def Let_def res_bind_def split: sum.splits prod.splits)
qed

lemma quiet_dump:
  assumes "profiles_leave_queue E dir n" "dump_step E s = moves e t" "shifting (sy_dump s) = None" "sy_dump s \<noteq> D_lock_queue"
  shows "e = [] \<and> shifting (sy_dump t) = None \<and> same_settings (fst (queue_of s)) (fst (queue_of t)) \<and>
    same_queue dir n (snd (queue_of s)) (snd (queue_of t))"
proof (cases "sy_dump s")
  case D_dump
  then show ?thesis
    using assms(1,2) by (auto simp: dump_step_def dump_profiles_def queue_of_def profiles_leave_queue_def same_settings_def Let_def split: prod.splits)
next
  case D_eval
  then show ?thesis
    using assms(1,2) by (auto simp: dump_step_def eval_profiles_def queue_of_def profiles_leave_queue_def Let_def split: prod.splits)
next
  case D_expire
  then show ?thesis
    using assms(2) expire_actions_keeps [of E "sy_daemon s"]
    by (auto simp: dump_step_def queue_of_def same_queue_def window_def Let_def split: sum.splits)
qed (use assms in \<open>auto simp: dump_step_def dump_switched_def dump_wait_def dump_measure_def tick_def queue_of_def
    same_settings_def same_queue_def Let_def split: if_splits\<close>)
lemma shift_dump:
  assumes "dump_step E s = moves e t"
  shows "sy_dump s = D_lock_queue \<Longrightarrow> e = [] \<and> sy_dump t = D_shift (nat (o_queue_num (fst (queue_of s)))) \<and> queue_of t = queue_of s"
    "sy_dump s = D_shift (Suc k) \<Longrightarrow> e = [] \<and> sy_dump t = D_shift k \<and> queue_of t = (fst (queue_of s),
       c_rename (queue_file_name (o_queue_dir (fst (queue_of s))) (int k)) (queue_file_name (o_queue_dir (fst (queue_of s))) (int (Suc k)))
         (snd (queue_of s)))"
    "sy_dump s = D_shift 0 \<Longrightarrow> e = [Shift] \<and> sy_dump t = D_unlock_queue \<and>
       queue_of t = queue_open (e_lnf (de_act E)) (fst (queue_of s)) (snd (queue_of s))"
  using assms by (auto simp: dump_step_def shift_step_def with_queue_def queue_of_def Let_def split: if_splits)

lemma queue_inv_dump:
  assumes "profiles_leave_queue E dir n" "queue_inv E dir n ws es s" "dump_step E s = moves e t"
  shows "queue_inv E dir n ws (es @ e) t \<and> o_filter (fst (queue_of t)) = o_filter (fst (queue_of s))"
proof -
  let ?L = "e_lnf (de_act E)"
  obtain opt fs where q: "queue_of s = (opt, fs)" by (cases "queue_of s")
  from assms(2) q have ok: "queue_ok ?L dir n (opt, fs)" by (simp add: queue_inv_def Let_def)
  then have set: "o_queue_dir opt = dir" "nat (o_queue_num opt) = n" "lnf_open_write ?L (queue_file_name dir 0)"
    by (simp_all add: queue_ok_def)
  consider (quiet) "shifting (sy_dump s) = None" "sy_dump s \<noteq> D_lock_queue" | (lock) "sy_dump s = D_lock_queue"
    | (rename) k where "sy_dump s = D_shift (Suc k)" | (opens) "sy_dump s = D_shift 0"
    by (cases "sy_dump s") (auto, metis not0_implies_Suc)
  then show ?thesis
  proof cases
    case quiet
    obtain opt' fs' where q': "queue_of t = (opt', fs')" by (cases "queue_of t")
    from quiet_dump [OF assms(1,3) quiet] q q' have st: "e = []" "shifting (sy_dump t) = None" "same_settings opt opt'"
      "same_queue dir n fs fs'" by auto
    with assms(2) quiet(1) q q' ok show ?thesis
      using queue_ok_same [OF st(3) ok, of fs'] holds_windows_same [OF st(4), of ?L opt "windows_run ws es" opt']
      by (simp add: queue_inv_def same_settings_def Let_def)
  next
    case lock
    have "queue_open ?L opt (queue_rotate dir n fs) = shift_state ?L (opt, fs)"
      using set by (simp add: shift_state_def nfd_queue_shift_eq)
    moreover from assms(2) lock q have "holds_windows (state_win ?L dir) n (opt, fs) (windows_run ws es)"
      by (simp add: queue_inv_def Let_def)
    from nfd_queue.holds_event [OF ok this, of Shift] have
      "holds_windows (state_win ?L dir) n (shift_state ?L (opt, fs)) (windows_run ws (es @ [Shift]))"
      by (simp add: windows_run_def)
    ultimately show ?thesis
      using shift_dump(1) [OF assms(3) lock] q ok set by (simp add: queue_inv_def Let_def)
  next
    case (rename k)
    with assms(2) rename shift_dump(2) [OF assms(3) rename] q ok set show ?thesis
      by (simp add: queue_inv_def Let_def) (simp add: queue_ok_def)
  next
    case opens
    have "queue_open ?L opt fs = (opt\<lparr>o_queue_file := Some (queue_file_name dir 0)\<rparr>, fs(queue_file_name dir 0 := Some (lnf_new ?L)))"
      using set by (simp add: queue_open_def Let_def)
    with assms(2) opens shift_dump(3) [OF assms(3) opens] q ok set show ?thesis
      by (simp add: queue_inv_def Let_def) (simp add: queue_ok_def)
  qed
qed

text \<open>What was taken from the ring.\<close>

definition ring_inv ::
  "('r \<Rightarrow> bool) \<Rightarrow> 'r list \<Rightarrow> 'r queue_event list \<Rightarrow> ('c, 'r, 'f, 'k) system \<Rightarrow> bool" where
  "ring_inv pass rs es s \<longleftrightarrow>
     (\<exists>taken. rs = taken @ sy_ring s \<and> puts es @ in_flight (sy_read s) = filter pass taken)"

lemma ring_inv_same:
  "ring_inv pass rs es s \<Longrightarrow> sy_ring t = sy_ring s \<Longrightarrow> puts es' @ in_flight (sy_read t) = puts es @ in_flight (sy_read s) \<Longrightarrow>
    ring_inv pass rs es' t"
  by (auto simp: ring_inv_def)

lemma ring_inv_read:
  assumes "ring_inv (\<lambda>r. \<not> filtered (e_lnf (de_act E)) (dm_opt (sy_daemon s)) r) rs es s" "read_step E s = moves e t"
    and "o_queue_file (dm_opt (sy_daemon s)) \<noteq> None"
  shows "ring_inv (\<lambda>r. \<not> filtered (e_lnf (de_act E)) (dm_opt (sy_daemon s)) r) rs (es @ e) t"
proof (cases "sy_read s")
  case R_open
  show ?thesis
    by (rule ring_inv_same [OF assms(1)]) (use R_open assms(2) in \<open>auto simp: read_step_def split: sum.splits\<close>)
next
  case R_ring
  show ?thesis
  proof (cases "sy_ring s")
    case Nil
    show ?thesis
      by (rule ring_inv_same [OF assms(1)]) (use R_ring Nil assms(2) in \<open>auto simp: read_step_def Let_def\<close>)
  next
    case (Cons r rs')
    from assms(1) R_ring obtain taken where tk: "rs = taken @ r # rs'"
      "puts es = filter (\<lambda>r. \<not> filtered (e_lnf (de_act E)) (dm_opt (sy_daemon s)) r) taken"
      using Cons by (auto simp: ring_inv_def)
    have "e = []" "sy_ring t = rs'" "sy_read t = (if filtered (e_lnf (de_act E)) (dm_opt (sy_daemon s)) r then R_ring else R_lock_profiles r)"
      using R_ring Cons assms(2) by (auto simp: read_step_def Let_def)
    with tk show ?thesis unfolding ring_inv_def by (intro exI [of _ "taken @ [r]"]) simp
  qed
next
  case (R_profiles r p)
  show ?thesis
    by (rule ring_inv_same [OF assms(1)]) (use R_profiles assms(2) in \<open>auto simp: read_step_def Let_def split: option.splits if_splits\<close>)
qed (rule ring_inv_same [OF assms(1)], use assms(2,3) in \<open>auto simp: read_step_def Let_def puts_append split: if_splits\<close>)+

lemma ring_inv_dump:
  assumes "ring_inv pass rs es s" "dump_step E s = moves e t"
  shows "ring_inv pass rs (es @ e) t"
proof (rule ring_inv_same [OF assms(1)])
  show "sy_ring t = sy_ring s" "puts (es @ e) @ in_flight (sy_read t) = puts es @ in_flight (sy_read s)"
    using assms(2) by (auto simp: dump_step_def shift_step_def puts_append Let_def split: dump_pc.splits if_splits prod.splits sum.splits nat.splits)
qed

text \<open>C1. The queue under any interleaving of the two threads. Unless the queue is being shifted, its files
  hold the windows that the stores and shifts so far give when they are read as operations on a list
  of windows; and every record taken from the ring that passes the filter is in exactly one window, in
  the order of the ring, the last of them possibly still on its way. No flow is lost or stored twice at
  the end of a window.\<close>

theorem threads_refine_windows:
  assumes "trace E (threads_start rs d) es t" and "profiles_leave_queue E dir n"
    and "queue_ok (e_lnf (de_act E)) dir n (dm_opt d, w_files (dm_world d))"
    and "holds_windows (state_win (e_lnf (de_act E)) dir) n (dm_opt d, w_files (dm_world d)) ws"
  shows "(\<exists>taken. rs = taken @ sy_ring t \<and> concat (rev (windows_run ws es)) @ in_flight (sy_read t) =
      concat (rev ws) @ filter (\<lambda>r. \<not> filtered (e_lnf (de_act E)) (dm_opt d) r) taken) \<and>
    (sy_queue_lock t \<noteq> Some Dumper \<longrightarrow>
      holds_windows (state_win (e_lnf (de_act E)) dir) n
        (dm_opt (sy_daemon t), w_files (dm_world (sy_daemon t))) (windows_run ws es))"
proof -
  let ?L = "e_lnf (de_act E)"
  have filt: "filtered ?L opt = filtered ?L opt'" if "o_filter opt = o_filter opt'" for opt opt' :: "'c nfd_options"
    using that by (simp add: filtered_def fun_eq_iff)
  have "locks_ok t \<and> queue_inv E dir n ws es t \<and> o_filter (fst (queue_of t)) = o_filter (dm_opt d) \<and>
      ring_inv (\<lambda>r. \<not> filtered ?L (dm_opt d) r) rs es t"
    using assms(1)
  proof (induction rule: trace.induct)
    case trace_start
    show ?case
      using assms(3,4) locks_start [of rs d]
      by (auto simp: queue_inv_def ring_inv_def queue_of_def threads_start_def windows_run_def Let_def)
  next
    case (trace_read es t e u)
    then have f: "filtered ?L (dm_opt (sy_daemon t)) = filtered ?L (dm_opt d)" by (intro filt) (simp add: queue_of_def)
    from trace_read.IH have inv: "locks_ok t" "queue_inv E dir n ws es t" "o_filter (fst (queue_of t)) = o_filter (dm_opt d)"
      "ring_inv (\<lambda>r. \<not> filtered ?L (dm_opt d) r) rs es t" by auto
    moreover have "o_queue_file (dm_opt (sy_daemon t)) \<noteq> None"
      using inv(2) by (auto simp: queue_inv_def queue_of_def queue_ok_def Let_def)
    ultimately show ?case
      using locks_read [OF inv(1) trace_read.hyps(2)] queue_inv_read [OF inv(1,2) trace_read.hyps(2)]
        ring_inv_read [of E t rs es e u, unfolded f] trace_read.hyps(2) read_step_effect [OF trace_read.hyps(2)]
      by (simp add: queue_of_def)
  next
    case (trace_dump es t e u)
    then show ?case using locks_dump queue_inv_dump [OF assms(2)] ring_inv_dump by metis
  qed
  then have l: "locks_ok t" and q: "queue_inv E dir n ws es t" and r: "ring_inv (\<lambda>r. \<not> filtered ?L (dm_opt d) r) rs es t" by auto
  have "ws \<noteq> []" using assms(4) by (simp add: holds_windows_def)
  from windows_run_records [OF this, of es] r have
    "\<exists>taken. rs = taken @ sy_ring t \<and> concat (rev (windows_run ws es)) @ in_flight (sy_read t) =
      concat (rev ws) @ filter (\<lambda>r. \<not> filtered ?L (dm_opt d) r) taken"
    by (auto simp: ring_inv_def)
  moreover have "shifting (sy_dump t) = None" if "sy_queue_lock t \<noteq> Some Dumper"
    using that l by (cases "sy_dump t") (auto simp: locks_ok_def held_by_def)
  ultimately show ?thesis using q by (auto simp: queue_inv_def queue_of_def Let_def)
qed
section \<open>Waiting and overlapping\<close>

lemma held_by_other: "held_by m False d \<Longrightarrow> m \<noteq> None \<Longrightarrow> m = Some Dumper \<and> d" "held_by m r False \<Longrightarrow> m \<noteq> None \<Longrightarrow> m = Some Reader \<and> r"
  by (cases m; cases "the m"; auto)+

lemma dump_leaves_queue:
  assumes "dumps_queue (sy_dump s)"
  shows "\<exists>n es t. run_alone (dump_step E) n s = moves es t \<and> sy_queue_lock t = None \<and> sy_read t = sy_read s"
proof -
  have unlock: "run_alone (dump_step E) 1 u = moves [] (u\<lparr>sy_queue_lock := None, sy_dump := D_switched\<rparr>)" if "sy_dump u = D_unlock_queue"
    for u :: "('a, 'b, 'c, 'd) system"
    using that by (simp add: dump_step_def Let_def)
  show ?thesis
  proof (cases "sy_dump s")
    case (D_shift k)
    from run_alone_then [OF run_shift [OF D_shift, of E], of 1] show ?thesis
      by (subst (asm) unlock, simp) (simp only: prepend_simps, intro exI conjI, assumption, simp_all)
  next
    case D_unlock_queue
    from unlock [OF this] show ?thesis by (intro exI conjI, assumption, simp_all)
  qed (use assms in simp_all)
qed

lemma read_leaves_queue:
  assumes "reads_queue (sy_read s)"
  shows "\<exists>n \<le> 2. \<exists>es t. run_alone (read_step E) n s = moves es t \<and> sy_queue_lock t = None \<and> sy_dump t = sy_dump s"
proof (cases "sy_read s")
  case (R_store r)
  then have "\<exists>es t. run_alone (read_step E) 2 s = moves es t \<and> sy_queue_lock t = None \<and> sy_dump t = sy_dump s"
    by (simp add: read_step_def numeral_2_eq_2 Let_def)
  then show ?thesis by blast
next
  case R_unlock_queue
  then have "\<exists>es t. run_alone (read_step E) 1 s = moves es t \<and> sy_queue_lock t = None \<and> sy_dump t = sy_dump s"
    by (simp add: read_step_def Let_def)
  then show ?thesis by (metis one_le_numeral)
qed (use assms in simp_all)

lemma read_waits:
  assumes "locks_ok s" "read_step E s = None"
  shows "sy_read s = R_end \<or> (\<exists>r. sy_read s = R_lock_queue r) \<and> sy_queue_lock s = Some Dumper \<and> dumps_queue (sy_dump s)"
  using assms held_by_other [of "sy_queue_lock s" "dumps_queue (sy_dump s)"] held_by_other [of "sy_read_profile_lock s"]
  by (auto simp: read_step_def locks_ok_def Let_def split: read_pc.splits sum.splits list.splits option.splits if_splits)

lemma dump_waits:
  assumes "locks_ok s" "dump_step E s = None"
  shows "sy_dump s = D_lock_queue \<and> sy_queue_lock s = Some Reader \<and> reads_queue (sy_read s)"
  using assms held_by_other(2) [of "sy_queue_lock s" "reads_queue (sy_read s)"] held_by_other(1) [of "sy_dump_profile_lock s"]
  by (auto simp: dump_step_def shift_step_def locks_ok_def Let_def split: dump_pc.splits sum.splits prod.splits nat.splits if_splits)

text \<open>C11. A thread that waits gets on. The threads wait for the mutex of the queue only; the other thread
  then needs finitely many steps, and no mutex, to give it back, the read thread at most two of them.
  So the threads never wait for each other.\<close>

theorem waiting_ends:
  assumes "trace E (threads_start rs d) es t"
  shows "(read_step E t = None \<longrightarrow> sy_read t = R_end \<or>
      (\<exists>n fs u. run_alone (dump_step E) n t = Some (Inr (fs, u)) \<and> sy_read u = sy_read t \<and> read_step E u \<noteq> None)) \<and>
    (dump_step E t = None \<longrightarrow>
      (\<exists>n \<le> 2. \<exists>fs u. run_alone (read_step E) n t = Some (Inr (fs, u)) \<and> sy_dump u = sy_dump t \<and> dump_step E u \<noteq> None))"
proof -
  have l: "locks_ok t" using locks_trace [OF assms locks_start] .
  have "\<exists>n fs u. run_alone (dump_step E) n t = Some (Inr (fs, u)) \<and> sy_read u = sy_read t \<and> read_step E u \<noteq> None"
    if none: "read_step E t = None" and "sy_read t \<noteq> R_end"
  proof -
    from read_waits [OF l none] that(2) obtain r where r: "sy_read t = R_lock_queue r" and q: "dumps_queue (sy_dump t)" by blast
    from dump_leaves_queue [OF q, of E] obtain n fs u where
      "run_alone (dump_step E) n t = moves fs u" "sy_queue_lock u = None" "sy_read u = sy_read t" by blast
    with r show ?thesis by (intro exI [of _ n] exI [of _ fs] exI [of _ u]) (simp add: read_step_def Let_def)
  qed
  moreover have "\<exists>n \<le> 2. \<exists>fs u. run_alone (read_step E) n t = Some (Inr (fs, u)) \<and> sy_dump u = sy_dump t \<and> dump_step E u \<noteq> None"
    if none: "dump_step E t = None"
  proof -
    from dump_waits [OF l none] have dp: "sy_dump t = D_lock_queue" and q: "reads_queue (sy_read t)" by auto
    from read_leaves_queue [OF q, of E] obtain n fs u where "n \<le> 2"
      "run_alone (read_step E) n t = moves fs u" "sy_queue_lock u = None" "sy_dump u = sy_dump t" by blast
    with dp show ?thesis
      by (intro exI [of _ n] conjI exI [of _ fs] exI [of _ u]) (simp_all add: dump_step_def Let_def)
  qed
  ultimately show ?thesis by blast
qed

text \<open>C36. The profiles are not protected. Whenever the ring has a flow that passes the filter, the threads
  can come to a state in which the read loop is changing the profiles while the other loop gives them
  to the database, each with a mutex that the other one does not use.\<close>

theorem profile_sections_overlap:
  assumes "terminated (o_shm (dm_opt d))" and "de_ring E (o_shm (dm_opt d))"
    and "\<not> filtered (e_lnf (de_act E)) (dm_opt d) r"
  shows "\<exists>es t. trace E (threads_start (r # rs) d) es t \<and>
    sy_read t = R_profiles r (o_root_profile (dm_opt d)) \<and> sy_dump t = D_dump \<and>
    sy_read_profile_lock t = Some Reader \<and> sy_dump_profile_lock t = Some Dumper"
proof -
  let ?s = "threads_start (r # rs) d"
  define t where "t = ?s\<lparr>sy_ring := rs, sy_read_profile_lock := Some Reader, sy_read := R_profiles r (o_root_profile (dm_opt d))\<rparr>"
  have "run_alone (read_step E) 3 ?s = moves [] t"
    using assms by (simp add: read_step_def threads_start_def t_def numeral_3_eq_3 c_str_def Let_def)
  note tr = run_alone_trace(1) [OF this]
  obtain tm d1 where d1: "dump_switched E d = (tm, d1)" by (cases "dump_switched E d")
  define u where "u = t\<lparr>sy_daemon := d1, sy_last_switched := tm, sy_dump := D_wait\<rparr>"
  have u: "run_alone (dump_step E) 1 t = moves [] u"
    using d1 by (simp add: dump_step_def t_def u_def threads_start_def Let_def)
  from run_wait [of u E] obtain k d2 where
    w: "run_alone (dump_step E) k u = moves [Shift] (u\<lparr>sy_daemon := d2, sy_queue_lock := Some Dumper, sy_dump := D_unlock_queue\<rparr>)"
    (is "_ = moves _ ?v") by (auto simp: u_def t_def threads_start_def Let_def)
  obtain x where x: "run_alone (dump_step E) 3 ?v = moves [] x" "sy_read x = sy_read t" "sy_dump x = D_dump"
    "sy_read_profile_lock x = Some Reader" "sy_dump_profile_lock x = Some Dumper"
    by (simp add: dump_step_def u_def t_def threads_start_def numeral_3_eq_3 Let_def case_prod_beta)
  note trace_trans [OF run_alone_trace(2) [OF x(1)] trace_trans [OF run_alone_trace(2) [OF w]
      trace_trans [OF run_alone_trace(2) [OF u] tr]]]
  with x show ?thesis by (auto simp: t_def)
qed
section \<open>The properties on a concrete system\<close>

text \<open>After a start with a filter for even records, the queue is ready.\<close>

definition sample_ready :: "(nat list, nat, string \<times> string \<Rightarrow> stats_row option) daemon" where
  "sample_ready = snd (queue_shift (sample_daemon_env (\<lambda>n. True)) (sample_daemon\<lparr>dm_opt := default_options\<lparr>o_filter := Some 2\<rparr>\<rparr>))"

lemma sample_ready_opt:
  "dm_opt sample_ready = default_options\<lparr>o_filter := Some 2, o_queue_file := Some (queue_file_name sample_dir 0)\<rparr>"
  by (simp add: sample_ready_def queue_shift_def nfd_queue_shift_def Let_def)

lemma sample_ready_shm: "terminated (o_shm (dm_opt sample_ready))"
  by (simp add: sample_ready_opt default_options_def terminated_def MAX_STRING_def)

lemma sample_ready_queue:
  "queue_ok sample_libnf sample_dir 10 (dm_opt sample_ready, w_files (dm_world sample_ready))"
  "holds_windows (state_win sample_libnf sample_dir) 10 (dm_opt sample_ready, w_files (dm_world sample_ready)) [[]]"
proof -
  have "queue_shift (sample_daemon_env (\<lambda>n. True)) (sample_daemon\<lparr>dm_opt := default_options\<lparr>o_filter := Some 2\<rparr>\<rparr>) = (1, sample_ready)"
    using sample_queue_start [of "\<lambda>n. True" "sample_daemon\<lparr>dm_opt := default_options\<lparr>o_filter := Some 2\<rparr>\<rparr>"]
    by (auto simp: sample_ready_def)
  from queue_shift_ready(1,2) [OF this, of sample_dir 10]
  show "queue_ok sample_libnf sample_dir 10 (dm_opt sample_ready, w_files (dm_world sample_ready))"
    "holds_windows (state_win sample_libnf sample_dir) 10 (dm_opt sample_ready, w_files (dm_world sample_ready)) [[]]"
    by (simp_all add: sample_libnf_laws sample_dir_fits)
qed

lemma sample_leaves_queue: "profiles_leave_queue (sample_daemon_env mutex) dir n"
  by (simp add: profiles_leave_queue_def sample_daemon_env_def same_queue_def same_settings_def)

lemma sample_trace:
  "\<exists>t. trace (sample_daemon_env (\<lambda>n. True)) (threads_start [1, 2, 4] sample_ready) [Put 2] t \<and>
    sy_read t = R_unlock_queue \<and> sy_dump t = D_lock_queue \<and> sy_queue_lock t = Some Reader \<and> sy_ring t = [4]"
proof -
  let ?E = "sample_daemon_env (\<lambda>n. True)" and ?s = "threads_start [1, 2, 4] sample_ready"
  have shm: "c_str (o_shm (dm_opt sample_ready)) = Inr (o_shm (dm_opt sample_ready))"
    using sample_ready_shm by (simp add: c_str_def)
  have filt: "filtered sample_libnf (dm_opt sample_ready) 1" "\<not> filtered sample_libnf (dm_opt sample_ready) 2"
    by (simp_all add: filtered_def sample_ready_opt)
  have "\<exists>t. run_alone (read_step ?E) 8 ?s = moves [Put 2] t \<and> sy_read t = R_unlock_queue \<and> sy_dump t = D_start \<and>
      sy_queue_lock t = Some Reader \<and> sy_ring t = [4]"
    using shm filt by (simp add: read_step_def threads_start_def eval_nat_numeral Let_def) (simp add: sample_ready_opt Let_def)
  then obtain t where t: "run_alone (read_step ?E) 8 ?s = moves [Put 2] t" "sy_read t = R_unlock_queue" "sy_dump t = D_start"
      "sy_queue_lock t = Some Reader" "sy_ring t = [4]" by blast
  have "\<exists>u. run_alone (dump_step ?E) 3 t = moves [] u \<and> sy_read u = sy_read t \<and> sy_dump u = D_lock_queue \<and>
      sy_queue_lock u = sy_queue_lock t \<and> sy_ring u = sy_ring t"
    using t(3) by (simp add: dump_step_def numeral_3_eq_3 Let_def case_prod_beta)
  then show ?thesis
    using trace_trans [OF run_alone_trace(2) run_alone_trace(1) [OF t(1)]] t(2,4,5) by fastforce
qed

theorem queue_sections_exclude_witness:
  "\<exists>es t. trace (sample_daemon_env (\<lambda>n. True)) (threads_start [1, 2, 4] sample_ready) es t \<and>
    sy_queue_lock t = Some Reader \<and> \<not> dumps_queue (sy_dump t)"
proof -
  from sample_trace obtain t where
    t: "trace (sample_daemon_env (\<lambda>n. True)) (threads_start [1, 2, 4] sample_ready) [Put 2] t" "sy_queue_lock t = Some Reader" by blast
  from queue_sections_exclude [OF t(1)] t show ?thesis by auto
qed

theorem threads_refine_windows_witness:
  "\<exists>t. trace (sample_daemon_env (\<lambda>n. True)) (threads_start [1, 2, 4] sample_ready) [Put 2] t \<and>
    holds_windows (state_win sample_libnf sample_dir) 10 (dm_opt (sy_daemon t), w_files (dm_world (sy_daemon t))) [[2]]"
proof -
  from sample_trace obtain t where
    t: "trace (sample_daemon_env (\<lambda>n. True)) (threads_start [1, 2, 4] sample_ready) [Put 2] t" "sy_queue_lock t = Some Reader" by blast
  from threads_refine_windows [OF t(1) sample_leaves_queue, of sample_dir 10 "[[]]"] sample_ready_queue t
  show ?thesis by (auto simp: windows_run_def)
qed

theorem waiting_ends_witness:
  "\<exists>t. trace (sample_daemon_env (\<lambda>n. True)) (threads_start [1, 2, 4] sample_ready) [Put 2] t \<and>
    dump_step (sample_daemon_env (\<lambda>n. True)) t = None \<and>
    (\<exists>n \<le> 2. \<exists>fs u. run_alone (read_step (sample_daemon_env (\<lambda>n. True))) n t = Some (Inr (fs, u)) \<and>
      dump_step (sample_daemon_env (\<lambda>n. True)) u \<noteq> None)"
proof -
  from sample_trace obtain t where
    t: "trace (sample_daemon_env (\<lambda>n. True)) (threads_start [1, 2, 4] sample_ready) [Put 2] t" "sy_queue_lock t = Some Reader"
      "sy_dump t = D_lock_queue" by blast
  then have "dump_step (sample_daemon_env (\<lambda>n. True)) t = None" by (simp add: dump_step_def Let_def)
  with waiting_ends [OF t(1)] t(1) show ?thesis by blast
qed

theorem profile_sections_overlap_witness:
  "\<exists>es t. trace (sample_daemon_env (\<lambda>n. True)) (threads_start [2] sample_ready) es t \<and>
    reads_profiles (sy_read t) \<and> dumps_profiles (sy_dump t)"
proof -
  have "\<not> filtered (e_lnf (de_act (sample_daemon_env (\<lambda>n. True)))) (dm_opt sample_ready) 2"
    by (simp add: filtered_def sample_ready_opt)
  from profile_sections_overlap [where E = "sample_daemon_env (\<lambda>n. True)", OF sample_ready_shm _ this, of "[]"]
  show ?thesis by fastforce
qed

theorem threads_alone_witness:
  "\<exists>n es. run_alone (read_step (sample_daemon_env (\<lambda>n. True))) n (threads_start [] sample_ready) =
    Some (Inr (es, (threads_start [] sample_ready)\<lparr>sy_read := R_end\<rparr>))"
proof -
  have "read_data_loop (sample_daemon_env (\<lambda>n. True)) [] sample_ready = Some (Inr sample_ready)"
    using sample_ready_shm by (simp add: read_data_loop_def c_str_def)
  then show ?thesis
    using threads_alone [of "threads_start [] sample_ready" "sample_daemon_env (\<lambda>n. True)"]
    by (simp add: threads_start_def)
qed

end
