(* ===== verification/Lexer_Input.thy ===== *)
theory Lexer_Input
  imports Lexer_Buffer
begin

text \<open>
  The function \<open>input\<close> and the macro \<open>yyless\<close> of \<open>lex.yy.c\<close>, for actions that read characters
  themselves or give them back; no rule of \<open>config.l\<close> does. Successive calls of \<open>input\<close> give the
  characters that are left, however the file is cut into pieces, and then the end of the file;
  \<open>yyless\<close> makes the end of a token a part of what is left.
\<close>

section \<open>Reading characters\<close>

definition YY_EOF :: int where
  "YY_EOF = - 1"

text \<open>The character at the current position, which is left as a NUL before the next one.\<close>

definition input_char :: "yyguts \<Rightarrow> (int \<times> yyguts) res" where
  "input_char g =
     res_bind (peek g (yy_c_buf_p g)) (\<lambda>c.
     res_bind (poke (yy_c_buf_p g) NUL g) (\<lambda>g1.
     res_bind (peek g1 (yy_c_buf_p g1 + 1)) (\<lambda>h.
     let g2 = g1\<lparr>yy_c_buf_p := yy_c_buf_p g1 + 1, yy_hold_char := h\<rparr>
     in Inr (int (of_char c), if c = LF then g2\<lparr>b_lineno := b_lineno g2 + 1\<rparr> else g2))))"

text \<open>\<open>yywrap\<close> is 1, so the function does not call itself.\<close>

definition yyinput :: "yyguts \<Rightarrow> (int \<times> yyguts) res" where
  "yyinput g =
     res_bind (poke (yy_c_buf_p g) (yy_hold_char g) g) (\<lambda>g1.
     res_bind (peek g1 (yy_c_buf_p g1)) (\<lambda>c.
     if c = NUL then
       if yy_c_buf_p g1 < yy_n_chars g1 then res_bind (poke (yy_c_buf_p g1) NUL g1) input_char
       else
         let offset = yy_c_buf_p g1 - yytext_ptr g1 in
         res_bind (yy_get_next_buffer (g1\<lparr>yy_c_buf_p := yy_c_buf_p g1 + 1\<rparr>)) (\<lambda>(act, g2).
         case act of
           EOB_ACT_LAST_MATCH \<Rightarrow> map_sum id (Pair YY_EOF) (yyrestart g2)
         | EOB_ACT_END_OF_FILE \<Rightarrow> Inr (YY_EOF, g2)
         | EOB_ACT_CONTINUE_SCAN \<Rightarrow> input_char (g2\<lparr>yy_c_buf_p := yytext_ptr g2 + offset\<rparr>))
     else input_char g1))"

section \<open>What it reads\<close>

text \<open>The buffer with the character that is held back in its place, and the text that is left.\<close>

definition put_back :: "yyguts \<Rightarrow> yyguts" where
  "put_back g = g\<lparr>yy_ch_buf := (yy_ch_buf g)[yy_c_buf_p g := yy_hold_char g]\<rparr>"

definition input_left :: "yyguts \<Rightarrow> string" where
  "input_left g = left_from (yy_c_buf_p g) (put_back g)"

definition input_ok :: "yyguts \<Rightarrow> bool" where
  "input_ok g \<longleftrightarrow> wf (put_back g) \<and> b_status g \<noteq> YY_BUFFER_NEW \<and> yytext_ptr g \<le> yy_c_buf_p g \<and> yy_c_buf_p g \<le> yy_n_chars g"

lemma wf_status: "wf g \<Longrightarrow> yy_n_chars g + 2 \<le> length (yy_ch_buf g)"
  by (simp add: wf_def)

lemma drop_Suc_append: "drop (Suc (length u)) (u @ x # xs) = xs"
  by simp

lemma input_char_spec:
  assumes g: "wf g" "yy_c_buf_p g < yy_n_chars g" "b_status g \<noteq> YY_BUFFER_NEW" "yytext_ptr g \<le> yy_c_buf_p g"
  shows "\<exists>g'. input_char g = Inr (int (of_char (held g ! yy_c_buf_p g)), g') \<and> input_ok g' \<and>
    input_left g' = drop (Suc (yy_c_buf_p g)) (held g) @ yyin g \<and> yyout g' = yyout g \<and>
    b_lineno g' = b_lineno g + (if held g ! yy_c_buf_p g = LF then 1 else 0)"
proof -
  let ?p = "yy_c_buf_p g" and ?B = "yy_ch_buf g" and ?n = "yy_n_chars g"
  have len: "Suc ?p < length ?B" using wf_status [OF g(1)] g(2) by simp
  have c: "held g ! ?p = ?B ! ?p" using g(2) by (simp add: held_def)
  let ?g2 = "g\<lparr>yy_ch_buf := ?B[?p := NUL], yy_c_buf_p := Suc ?p, yy_hold_char := ?B ! Suc ?p\<rparr>"
  let ?g' = "if ?B ! ?p = LF then ?g2\<lparr>b_lineno := b_lineno g + 1\<rparr> else ?g2"
  have e: "input_char g = Inr (int (of_char (held g ! ?p)), ?g')"
    using len c by (simp add: input_char_def peek_def poke_def Let_def)
  have same: "?B[?p := NUL, Suc ?p := ?B ! Suc ?p] = ?B[?p := NUL]"
    using len by (metis list_update_id list_update_swap n_not_Suc_n nth_list_update_neq)
  have pb: "yy_ch_buf (put_back ?g') = ?B[?p := NUL]" by (simp add: put_back_def same)
  have "wf (put_back ?g')"
    using g(1,2) same by (auto simp: wf_def put_back_def)
  moreover have "input_left ?g' = drop (Suc ?p) (held g) @ yyin g"
  proof -
    have "held (put_back ?g') = (held g)[?p := NUL]"
      unfolding held_def pb by (simp add: take_update_swap) (simp add: put_back_def)
    moreover have "yy_c_buf_p ?g' = Suc ?p" "yyin (put_back ?g') = yyin g"
      by (simp_all add: put_back_def)
    ultimately show ?thesis by (simp add: input_left_def left_from_def drop_update_cancel)
  qed
  ultimately show ?thesis
    using e g(2-4) c by (intro exI [of _ ?g']) (simp add: input_ok_def)
qed

text \<open>One call gives the first character that is left, or the end of the file.\<close>

lemma yyinput_next:
  assumes ok: "input_ok g"
  shows "\<exists>g'. yyinput g = Inr (case input_left g of [] \<Rightarrow> YY_EOF | c # cs \<Rightarrow> int (of_char c), g') \<and>
    (input_left g \<noteq> [] \<longrightarrow> input_ok g' \<and> input_left g' = tl (input_left g) \<and> yyout g' = yyout g \<and>
      b_lineno g' = b_lineno g + (if hd (input_left g) = LF then 1 else 0))"
proof -
  let ?g = "put_back g" and ?p = "yy_c_buf_p g" and ?n = "yy_n_chars g"
  from ok have wf: "wf ?g" and st: "b_status ?g \<noteq> YY_BUFFER_NEW" and t: "yytext_ptr ?g \<le> ?p" "?p \<le> ?n"
    and same: "yy_c_buf_p ?g = ?p" "yy_n_chars ?g = ?n" "yyout ?g = yyout g" "b_lineno ?g = b_lineno g"
    by (auto simp: input_ok_def put_back_def)
  have len: "?p < length (yy_ch_buf g)" using wf_status [OF wf] t(2) same(2) by (simp add: put_back_def)
  have poke: "poke ?p (yy_hold_char g) g = Inr ?g" using len by (simp add: poke_def put_back_def)
  have peek: "peek ?g ?p = Inr (yy_ch_buf ?g ! ?p)" using len by (simp add: peek_def put_back_def)
  show ?thesis
  proof (cases "?p < ?n")
    case True
    have h: "?p < length (held ?g)" "held ?g ! ?p = yy_ch_buf ?g ! ?p"
      using True wf_buffer(2) [OF wf] same(2) by (simp_all add: held_def)
    have left: "input_left g = held ?g ! ?p # drop (Suc ?p) (held ?g) @ yyin ?g"
      using h(1) by (simp add: input_left_def left_from_def Cons_nth_drop_Suc flip: append_Cons)
    have nul: "yy_ch_buf ?g ! ?p = NUL \<Longrightarrow> poke ?p NUL ?g = Inr ?g"
      using len by (cases g) (auto simp: poke_def put_back_def list_update_same_conv)
    have "yyinput g = input_char ?g"
      using poke peek True same nul by (simp add: yyinput_def)
    with input_char_spec [OF wf, unfolded same, OF True st t(1)] left show ?thesis by (auto simp: same)
  next
    case False
    then have p: "?p = ?n" using t(2) by simp
    have c: "yy_ch_buf ?g ! ?p = NUL" using wf p same(2) by (simp add: wf_def)
    let ?h = "?g\<lparr>yy_c_buf_p := Suc ?p\<rparr>" and ?u = "drop (yytext_ptr ?g) (held ?g)"
    have wfh: "wf ?h" using wf by (simp add: wf_def)
    have h: "yytext_ptr ?h \<le> yy_n_chars ?h" "yy_c_buf_p ?h = Suc (yy_n_chars ?h)" "?u = drop (yytext_ptr ?h) (held ?h)"
      "b_status ?h \<noteq> YY_BUFFER_NEW" "yyin ?h = yyin ?g" "kept ?h = kept ?g"
      using t p same st by (simp_all add: held_def kept_def)
    have lu: "length ?u = ?p - yytext_ptr ?g" using wf_buffer(2) [OF wf] p same(2) by simp
    have left: "input_left g = yyin ?g"
      using p same(2) by (simp add: input_left_def left_from_def held_def)
    have u: "yyinput g = res_bind (yy_get_next_buffer ?h) (\<lambda>(act, g2).
         case act of
           EOB_ACT_LAST_MATCH \<Rightarrow> map_sum id (Pair YY_EOF) (yyrestart g2)
         | EOB_ACT_END_OF_FILE \<Rightarrow> Inr (YY_EOF, g2)
         | EOB_ACT_CONTINUE_SCAN \<Rightarrow> input_char (g2\<lparr>yy_c_buf_p := yytext_ptr g2 + (?n - yytext_ptr ?g)\<rparr>))"
      using poke peek c p same by (simp add: yyinput_def Let_def)
    show ?thesis
    proof (cases "yyin ?g = []")
      case True
      with next_buffer_last [OF wfh h(1-4)] h(5) obtain g2 where
        g2: "yy_get_next_buffer ?h = Inr (if ?u = [] then EOB_ACT_END_OF_FILE else EOB_ACT_LAST_MATCH, g2)" "wf g2" by auto
      have "length (yy_ch_buf g2) = b_buf_size g2 + 2" using g2(2) by (simp add: wf_def)
      from yyrestart_spec [OF this] obtain g3 where "yyrestart g2 = Inr g3" by blast
      then show ?thesis using u g2(1) left True by (cases "?u = []") simp_all
    next
      case False
      with next_buffer_continue [OF wfh h(1-4)] h(5,6) obtain g2 l where
        g2: "yy_get_next_buffer ?h = Inr (EOB_ACT_CONTINUE_SCAN, g2)" "wf g2" "l \<noteq> []" "held g2 = ?u @ l"
          "yyin ?g = l @ yyin g2" "yytext_ptr g2 = 0" "kept g2 = kept ?g" "b_status g2 \<noteq> YY_BUFFER_NEW" by auto
      let ?g3 = "g2\<lparr>yy_c_buf_p := length ?u\<rparr>"
      have w3: "wf ?g3" "b_status ?g3 \<noteq> YY_BUFFER_NEW" "yytext_ptr ?g3 \<le> yy_c_buf_p ?g3" "held ?g3 = ?u @ l"
        using g2 by (simp_all add: wf_def held_def)
      have "length (held g2) = yy_n_chars g2" by (rule wf_buffer(2) [OF g2(2)])
      then have "yy_c_buf_p ?g3 < yy_n_chars ?g3" using g2(3,4) by (cases l) simp_all
      from input_char_spec [OF w3(1) this w3(2,3)] obtain g' where
        g': "input_char ?g3 = Inr (int (of_char (held ?g3 ! length ?u)), g')" "input_ok g'"
          "input_left g' = drop (Suc (length ?u)) (held ?g3) @ yyin ?g3" "yyout g' = yyout ?g3"
          "b_lineno g' = b_lineno ?g3 + (if held ?g3 ! length ?u = LF then 1 else 0)" by auto
      obtain x xs where l: "l = x # xs" using g2(3) by (cases l) auto
      have "held ?g3 ! length ?u = x" "drop (Suc (length ?u)) (held ?g3) = xs"
        unfolding w3(4) l by (rule nth_append_length, rule drop_Suc_append)
      moreover have "yyinput g = input_char ?g3" using u g2(1,6) wf_buffer(2) [OF wf] same(2) by simp
      ultimately show ?thesis using g' g2(5,7) l left same by (simp add: kept_def)
    qed
  qed
qed

fun input_many :: "nat \<Rightarrow> yyguts \<Rightarrow> (int list \<times> yyguts) res" where
  "input_many 0 g = Inr ([], g)"
| "input_many (Suc k) g =
     res_bind (yyinput g) (\<lambda>(c, g1). res_bind (input_many k g1) (\<lambda>(cs, g2). Inr (c # cs, g2)))"

text \<open>
  The calls of \<open>input\<close> give the characters that are left, in their order, however the file comes in
  pieces, and count its lines.
\<close>

theorem input_reads_text:
  "input_ok g \<Longrightarrow> k \<le> length (input_left g) \<Longrightarrow>
    \<exists>g'. input_many k g = Inr (map (\<lambda>c. int (of_char c)) (take k (input_left g)), g') \<and> input_ok g' \<and>
      input_left g' = drop k (input_left g) \<and> yyout g' = yyout g \<and>
      b_lineno g' = b_lineno g + int (count_list (take k (input_left g)) LF)"
proof (induction k arbitrary: g)
  case (Suc k)
  from Suc.prems(2) obtain c cs where l: "input_left g = c # cs" by (cases "input_left g") auto
  with yyinput_next [OF Suc.prems(1)] obtain g1 where
    g1: "yyinput g = Inr (int (of_char c), g1)" "input_ok g1" "input_left g1 = cs" "yyout g1 = yyout g"
      "b_lineno g1 = b_lineno g + (if c = LF then 1 else 0)" by auto
  with Suc.IH [OF g1(2)] Suc.prems(2) l show ?case by auto
qed simp

text \<open>An action runs in such a state, and its calls read on behind the text of its token.\<close>

lemma action_input:
  assumes g: "wf g" "b_status g \<noteq> YY_BUFFER_NEW" "bp \<le> cp" "cp \<le> yy_n_chars g"
  shows "\<exists>g'. YY_DO_BEFORE_ACTION bp cp g = Inr g' \<and> input_ok g' \<and> input_left g' = left_from cp g \<and>
    yy_c_buf_p g' = yytext_ptr g' + yyleng g'"
proof -
  let ?g' = "g\<lparr>yytext_ptr := bp, yyleng := cp - bp, yy_hold_char := yy_ch_buf g ! cp,
      yy_ch_buf := (yy_ch_buf g)[cp := NUL], yy_c_buf_p := cp\<rparr>"
  have len: "cp < length (yy_ch_buf g)" using wf_status [OF g(1)] g(4) by simp
  then have e: "YY_DO_BEFORE_ACTION bp cp g = Inr ?g'"
    by (simp add: YY_DO_BEFORE_ACTION_def peek_def poke_def)
  have "yy_ch_buf (put_back ?g') = yy_ch_buf g" by (simp add: put_back_def)
  then have "wf (put_back ?g')" "held (put_back ?g') = held g" "yyin (put_back ?g') = yyin g"
    using g(1) by (simp_all add: wf_def held_def) (simp_all add: put_back_def)
  then have "input_ok ?g'" "input_left ?g' = left_from cp g"
    using g by (simp_all add: input_ok_def input_left_def left_from_def)
  moreover have "yy_c_buf_p ?g' = yytext_ptr ?g' + yyleng ?g'" using g(3) by simp
  ultimately show ?thesis using e by blast
qed

lemma input_example:
  "\<exists>g'. input_many 4 \<lparr>yy_ch_buf = [CHR ''a'', NUL, CHR ''b'', NUL, NUL, NUL, NUL, NUL, NUL, NUL], b_buf_pos = 0,
      b_buf_size = 8, b_n_chars = 3, b_is_interactive = False, b_fill_buffer = True,
      b_status = YY_BUFFER_NORMAL, b_lineno = 1, yyin = [LF, CHR ''c''], yyin_tty = False, yyout = [],
      yy_hold_char = LF, yy_n_chars = 3, yyleng = 1, yy_c_buf_p = 1, yytext_ptr = 0, yy_init = True,
      yy_start = 1, yy_last_state = 0, yy_last_cpos = 0\<rparr> = Inr ([10, 98, 10, 99], g') \<and> b_lineno g' = 3"
proof -
  let ?g = "\<lparr>yy_ch_buf = [CHR ''a'', NUL, CHR ''b'', NUL, NUL, NUL, NUL, NUL, NUL, NUL], b_buf_pos = 0,
      b_buf_size = 8, b_n_chars = 3, b_is_interactive = False, b_fill_buffer = True,
      b_status = YY_BUFFER_NORMAL, b_lineno = 1, yyin = [LF, CHR ''c''], yyin_tty = False, yyout = [],
      yy_hold_char = LF, yy_n_chars = 3, yyleng = 1, yy_c_buf_p = 1, yytext_ptr = 0, yy_init = True,
      yy_start = 1, yy_last_state = 0, yy_last_cpos = 0\<rparr>"
  have ok: "input_ok ?g" by (simp add: input_ok_def wf_def put_back_def)
  have l: "input_left ?g = [LF, CHR ''b'', LF, CHR ''c'']"
    by (simp add: input_left_def left_from_def held_def put_back_def)
  have "4 \<le> length (input_left ?g)" unfolding l by simp
  from input_reads_text [OF ok this, unfolded l] show ?thesis by (auto simp: LF_def)
qed

section \<open>Giving characters back\<close>

fun less_lineno :: "nat \<Rightarrow> nat \<Rightarrow> yyguts \<Rightarrow> yyguts res" where
  "less_lineno 0 yyl g = Inr g"
| "less_lineno (Suc k) yyl g =
     res_bind (peek g (yytext_ptr g + yyl)) (\<lambda>c.
     less_lineno k (Suc yyl) (if c = LF then g\<lparr>b_lineno := b_lineno g - 1\<rparr> else g))"

definition YY_LESS_LINENO :: "nat \<Rightarrow> yyguts \<Rightarrow> yyguts res" where
  "YY_LESS_LINENO n g = less_lineno (yyleng g - n) n g"

text \<open>\<open>yyless\<close> for the code of a user, which finds the end of the token by its length.\<close>

definition yyless :: "nat \<Rightarrow> yyguts \<Rightarrow> yyguts res" where
  "yyless n g =
     res_bind (YY_LESS_LINENO n g) (\<lambda>g1.
     res_bind (poke (yytext_ptr g1 + yyleng g1) (yy_hold_char g1) g1) (\<lambda>g2.
     let g3 = g2\<lparr>yy_c_buf_p := yytext_ptr g2 + n\<rparr>
     in res_bind (peek g3 (yy_c_buf_p g3)) (\<lambda>c.
        map_sum id (\<lambda>g4. g4\<lparr>yyleng := n\<rparr>) (poke (yy_c_buf_p g3) NUL (g3\<lparr>yy_hold_char := c\<rparr>)))))"

text \<open>\<open>yyless\<close> for an action, with the pointers of \<open>yylex\<close>; no text is kept by \<open>yymore\<close>.\<close>

definition yyless_action :: "nat \<Rightarrow> nat \<Rightarrow> nat \<Rightarrow> yyguts \<Rightarrow> yyguts res" where
  "yyless_action n bp cp g =
     res_bind (YY_LESS_LINENO n g) (\<lambda>g1.
     res_bind (poke cp (yy_hold_char g1) g1) (\<lambda>g2.
     YY_DO_BEFORE_ACTION bp (bp + n) (g2\<lparr>yy_c_buf_p := bp + n\<rparr>)))"

definition token_ok :: "yyguts \<Rightarrow> bool" where
  "token_ok g \<longleftrightarrow> input_ok g \<and> yy_c_buf_p g = yytext_ptr g + yyleng g"

lemma less_lineno_spec:
  "yytext_ptr g + i + k \<le> length (yy_ch_buf g) \<Longrightarrow>
    less_lineno k i g =
      Inr (g\<lparr>b_lineno := b_lineno g - int (count_list (take k (drop (yytext_ptr g + i) (yy_ch_buf g))) LF)\<rparr>)"
proof (induction k arbitrary: i g)
  case (Suc k)
  then have "drop (yytext_ptr g + i) (yy_ch_buf g) =
      yy_ch_buf g ! (yytext_ptr g + i) # drop (Suc (yytext_ptr g + i)) (yy_ch_buf g)"
    by (simp add: Cons_nth_drop_Suc)
  with Suc show ?case by (simp add: peek_def)
qed simp

lemma YY_LESS_LINENO_spec:
  assumes "yytext_ptr g + yyleng g \<le> length (yy_ch_buf g)" "n \<le> yyleng g"
  shows "YY_LESS_LINENO n g = Inr (g\<lparr>b_lineno := b_lineno g - int (count_list (drop n (yytext g)) LF)\<rparr>)"
  using assms by (simp add: YY_LESS_LINENO_def less_lineno_spec yytext_def drop_take add.commute)

text \<open>The two forms do the same to a token.\<close>

lemma yyless_forms:
  assumes g: "token_ok g" "n \<le> yyleng g"
  shows "yyless_action n (yytext_ptr g) (yy_c_buf_p g) g = yyless n g"
proof -
  have len: "yy_c_buf_p g < length (yy_ch_buf g)" and c: "yy_c_buf_p g = yytext_ptr g + yyleng g"
    using g(1) wf_status [of "put_back g"] by (auto simp: token_ok_def input_ok_def put_back_def)
  then have "YY_LESS_LINENO n g = Inr (g\<lparr>b_lineno := b_lineno g - int (count_list (drop n (yytext g)) LF)\<rparr>)"
    using g(2) by (intro YY_LESS_LINENO_spec) simp_all
  then show ?thesis
    using len c g(2) by (simp add: yyless_def yyless_action_def YY_DO_BEFORE_ACTION_def peek_def poke_def Let_def)
qed

lemma take_drop_update: "i + n \<le> k \<Longrightarrow> take n (drop i (xs[k := x])) = take n (drop i xs)"
  by (simp add: take_drop take_update_cancel add.commute)

lemma drop_split: "n \<le> l \<Longrightarrow> drop (i + n) xs = drop n (take l (drop i xs)) @ drop (i + l) xs"
  using append_take_drop_id [of "l - n" "drop (i + n) xs"] by (simp add: drop_take add.commute)

text \<open>After \<open>yyless\<close> the token is its first \<open>n\<close> characters, and the others are read again.\<close>

theorem yyless_gives_back:
  assumes g: "token_ok g" "n \<le> yyleng g"
  shows "\<exists>g'. yyless n g = Inr g' \<and> token_ok g' \<and> yytext g' = take n (yytext g) \<and>
    input_left g' = drop n (yytext g) @ input_left g \<and>
    b_lineno g' = b_lineno g - int (count_list (drop n (yytext g)) LF)"
proof -
  let ?t = "yytext_ptr g" and ?p = "yy_c_buf_p g" and ?m = "b_lineno g - int (count_list (drop n (yytext g)) LF)"
  let ?H = "yy_ch_buf (put_back g)"
  let ?g' = "g\<lparr>b_lineno := ?m, yy_ch_buf := ?H[?t + n := NUL], yy_c_buf_p := ?t + n, yy_hold_char := ?H ! (?t + n), yyleng := n\<rparr>"
  have ok: "input_ok g" and p: "?p = ?t + yyleng g" using g(1) by (simp_all add: token_ok_def)
  then have len: "?p < length ?H" and n: "?p \<le> yy_n_chars g"
    using wf_status [of "put_back g"] by (auto simp: input_ok_def put_back_def)
  have H: "?H = (yy_ch_buf g)[?p := yy_hold_char g]" by (simp add: put_back_def)
  have "YY_LESS_LINENO n g = Inr (g\<lparr>b_lineno := ?m\<rparr>)"
    using len p g(2) by (intro YY_LESS_LINENO_spec) (simp_all add: H)
  then have e: "yyless n g = Inr ?g'"
    using len p g(2) by (simp add: yyless_def peek_def poke_def Let_def H)
  have b: "yy_ch_buf (put_back ?g') = ?H" by (simp add: put_back_def)
  have other: "yy_n_chars (put_back ?g') = yy_n_chars (put_back g)" "yyin (put_back ?g') = yyin (put_back g)"
    by (simp_all add: put_back_def)
  have "wf (put_back ?g')" using ok b by (simp add: input_ok_def wf_def put_back_def)
  then have t: "token_ok ?g'" using ok p n g(2) by (simp add: token_ok_def input_ok_def)
  have y: "yytext g = take (yyleng g) (drop ?t (take (yy_n_chars g) ?H))"
    using p n by (simp add: yytext_def H take_update_swap drop_take take_drop_update min_def)
  have "yytext ?g' = take n (yytext g)"
    using p g(2) by (simp add: yytext_def H take_drop_update min_def)
  moreover have "input_left ?g' = drop n (yytext g) @ input_left g"
    unfolding input_left_def left_from_def held_def b other y
    using p g(2) by (simp add: put_back_def drop_split [of n "yyleng g"])
  ultimately show ?thesis using e t by auto
qed

end
