(* ===== verification/Lexer_Memory.thy ===== *)
theory Lexer_Memory
  imports Lexer
begin

text \<open>
  The memory of the scanner of \<open>lex.yy.c\<close>: the stack of buffers and the blocks that belong to it, with
  the functions that create, switch, push, pop and delete buffers, that scan from a string, and that
  make and destroy a scanner. Blocks are allocated and freed explicitly; a use of a block that is
  not allocated is a fault, as is an access past the end of an array. What \<open>errno\<close> holds is left out.
\<close>

section \<open>State\<close>

text \<open>A call returns, ends the process through \<open>yy_fatal_error\<close>, or faults.\<close>

datatype 'a mem = Val 'a | Fatal | Bad fault

fun mem_bind :: "'a mem \<Rightarrow> ('a \<Rightarrow> 'b mem) \<Rightarrow> 'b mem" where
  "mem_bind (Val a) f = f a"
| "mem_bind Fatal f = Fatal"
| "mem_bind (Bad e) f = Bad e"

text \<open>A pointer to a character is a block with an offset.\<close>

type_synonym cptr = "ptr \<times> nat"

record yy_buffer_state =
  yb_input_file :: "ptr option"
  yb_ch_buf :: ptr
  yb_buf_pos :: cptr
  yb_buf_size :: nat
  yb_n_chars :: nat
  yb_is_our_buffer :: bool
  yb_is_interactive :: bool
  yb_at_bol :: bool
  yb_bs_lineno :: int
  yb_bs_column :: int
  yb_fill_buffer :: bool
  yb_status :: yy_status

text \<open>The blocks: buffers, arrays of characters, and the arrays that hold the stack of a scanner.\<close>

record yyheap =
  h_bufs :: "ptr \<Rightarrow> yy_buffer_state option"
  h_chars :: "ptr \<Rightarrow> string option"
  h_stacks :: "ptr \<Rightarrow> ptr option list option"

text \<open>A scanner with the heap around it; the fields of the automaton are those of the theory \<open>Lexer\<close>.\<close>

record yyscanner = yyheap +
  g_extra :: "ptr option"
  g_in :: "ptr option"
  g_out :: "ptr option"
  g_buffer_stack :: "ptr option"
  g_stack_top :: nat
  g_stack_max :: nat
  g_hold_char :: char
  g_n_chars :: nat
  g_leng :: nat
  g_c_buf_p :: "cptr option"
  g_text :: "cptr option"
  g_init :: bool
  g_start :: int
  g_did_switch :: bool
  g_debug :: int
  g_lval :: "ptr option"

text \<open>
  The environment gives what \<open>malloc\<close> and \<open>realloc\<close> return, for a size and the blocks in use, the
  contents of fresh memory, the sizes of the structures and whether a file is a terminal.
\<close>

record yyenv =
  ye_malloc :: "nat \<Rightarrow> (ptr \<Rightarrow> bool) \<Rightarrow> ptr option"
  ye_realloc :: "ptr \<Rightarrow> nat \<Rightarrow> (ptr \<Rightarrow> bool) \<Rightarrow> ptr option"
  ye_fresh :: yy_buffer_state
  ye_fresh_char :: "nat \<Rightarrow> char"
  ye_sizeof_guts :: nat
  ye_sizeof_buffer :: nat
  ye_sizeof_ptr :: nat
  ye_isatty :: "ptr \<Rightarrow> bool"
  ye_stdin :: ptr
  ye_stdout :: ptr

definition in_use :: "'z yyheap_scheme \<Rightarrow> ptr \<Rightarrow> bool" where
  "in_use h p \<longleftrightarrow> h_bufs h p \<noteq> None \<or> h_chars h p \<noteq> None \<or> h_stacks h p \<noteq> None"

definition yyalloc :: "yyenv \<Rightarrow> nat \<Rightarrow> 'z yyheap_scheme \<Rightarrow> ptr option" where
  "yyalloc E n h = ye_malloc E n (in_use h)"

section \<open>Access\<close>

definition buf_at :: "'z yyheap_scheme \<Rightarrow> ptr option \<Rightarrow> yy_buffer_state mem" where
  "buf_at h b =
     (case b of
        None \<Rightarrow> Bad NullDeref
      | Some p \<Rightarrow> (case h_bufs h p of None \<Rightarrow> Bad UseAfterFree | Some B \<Rightarrow> Val B))"

definition update_buf ::
  "ptr option \<Rightarrow> (yy_buffer_state \<Rightarrow> yy_buffer_state) \<Rightarrow> 'z yyheap_scheme \<Rightarrow> 'z yyheap_scheme mem" where
  "update_buf b f h =
     mem_bind (buf_at h b) (\<lambda>B. Val (h\<lparr>h_bufs := (h_bufs h)(the b := Some (f B))\<rparr>))"

definition char_at :: "'z yyheap_scheme \<Rightarrow> cptr option \<Rightarrow> char mem" where
  "char_at h c =
     (case c of
        None \<Rightarrow> Bad NullDeref
      | Some (p, i) \<Rightarrow>
          (case h_chars h p of
             None \<Rightarrow> Bad UseAfterFree
           | Some s \<Rightarrow> if i < length s then Val (s ! i) else Bad OutOfBounds))"

definition put_char :: "cptr option \<Rightarrow> char \<Rightarrow> 'z yyheap_scheme \<Rightarrow> 'z yyheap_scheme mem" where
  "put_char c x h =
     mem_bind (char_at h c) (\<lambda>_.
     case the c of (p, i) \<Rightarrow> Val (h\<lparr>h_chars := (h_chars h)(p := map_option (\<lambda>s. s[i := x]) (h_chars h p))\<rparr>))"

definition stack_of :: "yyscanner \<Rightarrow> ptr option list mem" where
  "stack_of g =
     (case g_buffer_stack g of
        None \<Rightarrow> Bad NullDeref
      | Some p \<Rightarrow> (case h_stacks g p of None \<Rightarrow> Bad UseAfterFree | Some bs \<Rightarrow> Val bs))"

definition YY_CURRENT_BUFFER_LVALUE :: "yyscanner \<Rightarrow> ptr option mem" where
  "YY_CURRENT_BUFFER_LVALUE g =
     mem_bind (stack_of g) (\<lambda>bs. if g_stack_top g < length bs then Val (bs ! g_stack_top g) else Bad OutOfBounds)"

definition YY_CURRENT_BUFFER :: "yyscanner \<Rightarrow> ptr option mem" where
  "YY_CURRENT_BUFFER g = (if g_buffer_stack g = None then Val None else YY_CURRENT_BUFFER_LVALUE g)"

definition set_current :: "ptr option \<Rightarrow> yyscanner \<Rightarrow> yyscanner mem" where
  "set_current b g =
     mem_bind (YY_CURRENT_BUFFER_LVALUE g) (\<lambda>_.
     Val (g\<lparr>h_stacks := (h_stacks g)(the (g_buffer_stack g) :=
       map_option (\<lambda>bs. bs[g_stack_top g := b]) (h_stacks g (the (g_buffer_stack g))))\<rparr>))"

definition free_chars :: "ptr \<Rightarrow> 'z yyheap_scheme \<Rightarrow> 'z yyheap_scheme mem" where
  "free_chars p h = (if h_chars h p = None then Bad UseAfterFree else Val (h\<lparr>h_chars := (h_chars h)(p := None)\<rparr>))"

definition free_buf :: "ptr \<Rightarrow> 'z yyheap_scheme \<Rightarrow> 'z yyheap_scheme mem" where
  "free_buf p h = (if h_bufs h p = None then Bad UseAfterFree else Val (h\<lparr>h_bufs := (h_bufs h)(p := None)\<rparr>))"

section \<open>Buffers\<close>

definition yy_load_buffer_state_mem :: "yyscanner \<Rightarrow> yyscanner mem" where
  "yy_load_buffer_state_mem g =
     mem_bind (YY_CURRENT_BUFFER_LVALUE g) (\<lambda>b.
     mem_bind (buf_at g b) (\<lambda>B.
     mem_bind (char_at g (Some (yb_buf_pos B))) (\<lambda>c.
     Val (g\<lparr>g_n_chars := yb_n_chars B, g_c_buf_p := Some (yb_buf_pos B), g_text := Some (yb_buf_pos B),
       g_in := yb_input_file B, g_hold_char := c\<rparr>))))"

definition yyensure_buffer_stack :: "yyenv \<Rightarrow> yyscanner \<Rightarrow> yyscanner mem" where
  "yyensure_buffer_stack E g =
     (case g_buffer_stack g of
        None \<Rightarrow>
          (case yyalloc E (1 * ye_sizeof_ptr E) g of
             None \<Rightarrow> Fatal
           | Some p \<Rightarrow>
               Val (g\<lparr>g_buffer_stack := Some p, h_stacks := (h_stacks g)(p \<mapsto> [None]), g_stack_max := 1,
                 g_stack_top := 0\<rparr>))
      | Some p \<Rightarrow>
          if size_t (int (g_stack_max g) - 1) \<le> g_stack_top g then
            (case h_stacks g p of
               None \<Rightarrow> Bad UseAfterFree
             | Some bs \<Rightarrow>
                 (case ye_realloc E p ((g_stack_max g + 8) * ye_sizeof_ptr E) (in_use g) of
                    None \<Rightarrow> Fatal
                  | Some q \<Rightarrow>
                      Val (g\<lparr>g_buffer_stack := Some q,
                        h_stacks := (h_stacks g)(p := None, q \<mapsto> take (g_stack_max g) bs @ replicate 8 None),
                        g_stack_max := g_stack_max g + 8\<rparr>)))
          else Val g)"

definition yy_flush_buffer_mem :: "ptr option \<Rightarrow> yyscanner \<Rightarrow> yyscanner mem" where
  "yy_flush_buffer_mem b g =
     (if b = None then Val g
      else
        mem_bind (update_buf b (yb_n_chars_update (\<lambda>_. 0)) g) (\<lambda>g1.
        mem_bind (buf_at g1 b) (\<lambda>B.
        mem_bind (put_char (Some (yb_ch_buf B, 0)) NUL g1) (\<lambda>g2.
        mem_bind (put_char (Some (yb_ch_buf B, 1)) NUL g2) (\<lambda>g3.
        mem_bind (update_buf b (\<lambda>B. B\<lparr>yb_buf_pos := (yb_ch_buf B, 0), yb_at_bol := True, yb_status := YY_BUFFER_NEW\<rparr>) g3) (\<lambda>g4.
        mem_bind (YY_CURRENT_BUFFER g4) (\<lambda>c.
        if b = c then yy_load_buffer_state_mem g4 else Val g4)))))))"

definition yy_init_buffer_mem :: "yyenv \<Rightarrow> ptr option \<Rightarrow> ptr option \<Rightarrow> yyscanner \<Rightarrow> yyscanner mem" where
  "yy_init_buffer_mem E b file g =
     mem_bind (yy_flush_buffer_mem b g) (\<lambda>g1.
     mem_bind (update_buf b (\<lambda>B. B\<lparr>yb_input_file := file, yb_fill_buffer := True\<rparr>) g1) (\<lambda>g2.
     mem_bind (YY_CURRENT_BUFFER g2) (\<lambda>c.
     mem_bind (if b \<noteq> c then update_buf b (\<lambda>B. B\<lparr>yb_bs_lineno := 1, yb_bs_column := 0\<rparr>) g2 else Val g2) (\<lambda>g3.
     update_buf b (\<lambda>B. B\<lparr>yb_is_interactive := (case file of None \<Rightarrow> False | Some f \<Rightarrow> ye_isatty E f)\<rparr>) g3))))"

definition yy_create_buffer_mem :: "yyenv \<Rightarrow> ptr option \<Rightarrow> nat \<Rightarrow> yyscanner \<Rightarrow> (ptr \<times> yyscanner) mem" where
  "yy_create_buffer_mem E file sz g =
     (case yyalloc E (ye_sizeof_buffer E) g of
        None \<Rightarrow> Fatal
      | Some b \<Rightarrow>
          let g1 = g\<lparr>h_bufs := (h_bufs g)(b \<mapsto> (ye_fresh E)\<lparr>yb_buf_size := sz\<rparr>)\<rparr> in
          case yyalloc E (sz + 2) g1 of
            None \<Rightarrow> Fatal
          | Some c \<Rightarrow>
              let g2 = g1\<lparr>h_chars := (h_chars g1)(c \<mapsto> map (ye_fresh_char E) [0..<sz + 2])\<rparr> in
              mem_bind (update_buf (Some b) (\<lambda>B. B\<lparr>yb_ch_buf := c, yb_is_our_buffer := True\<rparr>) g2) (\<lambda>g3.
              mem_bind (yy_init_buffer_mem E (Some b) file g3) (\<lambda>g4. Val (b, g4))))"

definition yy_delete_buffer :: "ptr option \<Rightarrow> yyscanner \<Rightarrow> yyscanner mem" where
  "yy_delete_buffer b g =
     (case b of
        None \<Rightarrow> Val g
      | Some p \<Rightarrow>
          mem_bind (YY_CURRENT_BUFFER g) (\<lambda>c.
          mem_bind (if b = c then set_current None g else Val g) (\<lambda>g1.
          mem_bind (buf_at g1 b) (\<lambda>B.
          mem_bind (if yb_is_our_buffer B then free_chars (yb_ch_buf B) g1 else Val g1) (free_buf p)))))"

text \<open>\<open>yyrestart\<close>, and the block of \<open>yylex\<close> that it shares: a scanner without a buffer gets one.\<close>

definition yy_need_buffer :: "yyenv \<Rightarrow> yyscanner \<Rightarrow> yyscanner mem" where
  "yy_need_buffer E g =
     mem_bind (YY_CURRENT_BUFFER g) (\<lambda>c.
     if c = None then
       mem_bind (yyensure_buffer_stack E g) (\<lambda>g1.
       mem_bind (yy_create_buffer_mem E (g_in g1) YY_BUF_SIZE g1) (\<lambda>(b, g2). set_current (Some b) g2))
     else Val g)"

definition yyrestart_mem :: "yyenv \<Rightarrow> ptr option \<Rightarrow> yyscanner \<Rightarrow> yyscanner mem" where
  "yyrestart_mem E file g =
     mem_bind (yy_need_buffer E g) (\<lambda>g1.
     mem_bind (YY_CURRENT_BUFFER g1) (\<lambda>c.
     mem_bind (yy_init_buffer_mem E c file g1) yy_load_buffer_state_mem))"

text \<open>The start of \<open>yylex\<close>.\<close>

definition yylex_begin :: "yyenv \<Rightarrow> yyscanner \<Rightarrow> yyscanner mem" where
  "yylex_begin E g =
     (if g_init g then Val g
      else
        let g1 = g\<lparr>g_init := True, g_start := (if g_start g = 0 then 1 else g_start g),
              g_in := (if g_in g = None then Some (ye_stdin E) else g_in g),
              g_out := (if g_out g = None then Some (ye_stdout E) else g_out g)\<rparr>
        in mem_bind (yy_need_buffer E g1) yy_load_buffer_state_mem)"

text \<open>What is put back into the current buffer before another one is made current.\<close>

definition yy_leave_buffer :: "yyscanner \<Rightarrow> yyscanner mem" where
  "yy_leave_buffer g =
     mem_bind (YY_CURRENT_BUFFER g) (\<lambda>c.
     if c = None then Val g
     else
       mem_bind (put_char (g_c_buf_p g) (g_hold_char g) g) (\<lambda>g1.
       update_buf c (\<lambda>B. B\<lparr>yb_buf_pos := the (g_c_buf_p g1), yb_n_chars := g_n_chars g1\<rparr>) g1))"

definition yy_switch_to_buffer :: "yyenv \<Rightarrow> ptr option \<Rightarrow> yyscanner \<Rightarrow> yyscanner mem" where
  "yy_switch_to_buffer E new_buffer g =
     mem_bind (yyensure_buffer_stack E g) (\<lambda>g1.
     mem_bind (YY_CURRENT_BUFFER g1) (\<lambda>c.
     if c = new_buffer then Val g1
     else
       mem_bind (yy_leave_buffer g1) (\<lambda>g2.
       mem_bind (set_current new_buffer g2) (\<lambda>g3.
       mem_bind (yy_load_buffer_state_mem g3) (\<lambda>g4. Val (g4\<lparr>g_did_switch := True\<rparr>))))))"

definition yypush_buffer_state :: "yyenv \<Rightarrow> ptr option \<Rightarrow> yyscanner \<Rightarrow> yyscanner mem" where
  "yypush_buffer_state E new_buffer g =
     (if new_buffer = None then Val g
      else
        mem_bind (yyensure_buffer_stack E g) (\<lambda>g1.
        mem_bind (yy_leave_buffer g1) (\<lambda>g2.
        mem_bind (YY_CURRENT_BUFFER g2) (\<lambda>c.
        mem_bind (set_current new_buffer (if c \<noteq> None then g2\<lparr>g_stack_top := g_stack_top g2 + 1\<rparr> else g2)) (\<lambda>g3.
        mem_bind (yy_load_buffer_state_mem g3) (\<lambda>g4. Val (g4\<lparr>g_did_switch := True\<rparr>)))))))"

definition yypop_buffer_state :: "yyscanner \<Rightarrow> yyscanner mem" where
  "yypop_buffer_state g =
     mem_bind (YY_CURRENT_BUFFER g) (\<lambda>c.
     if c = None then Val g
     else
       mem_bind (yy_delete_buffer c g) (\<lambda>g1.
       mem_bind (set_current None g1) (\<lambda>g2.
       let g3 = (if 0 < g_stack_top g2 then g2\<lparr>g_stack_top := g_stack_top g2 - 1\<rparr> else g2) in
       mem_bind (YY_CURRENT_BUFFER g3) (\<lambda>c'.
       if c' \<noteq> None then mem_bind (yy_load_buffer_state_mem g3) (\<lambda>g4. Val (g4\<lparr>g_did_switch := True\<rparr>))
       else Val g3))))"

section \<open>Scanning from memory\<close>

text \<open>\<open>base\<close> is a block of the caller. The fields that the function does not set keep what fresh memory holds.\<close>

definition yy_scan_buffer :: "yyenv \<Rightarrow> ptr \<Rightarrow> nat \<Rightarrow> yyscanner \<Rightarrow> (ptr option \<times> yyscanner) mem" where
  "yy_scan_buffer E base sz g =
     (if sz < 2 then Val (None, g)
      else
        mem_bind (char_at g (Some (base, sz - 2))) (\<lambda>c.
        if c \<noteq> NUL then Val (None, g)
        else
          mem_bind (char_at g (Some (base, sz - 1))) (\<lambda>d.
          if d \<noteq> NUL then Val (None, g)
          else
            case yyalloc E (ye_sizeof_buffer E) g of
              None \<Rightarrow> Fatal
            | Some b \<Rightarrow>
                let B = (ye_fresh E)\<lparr>yb_buf_size := sz - 2, yb_buf_pos := (base, 0), yb_ch_buf := base,
                      yb_is_our_buffer := False, yb_input_file := None, yb_n_chars := sz - 2,
                      yb_is_interactive := False, yb_at_bol := True, yb_fill_buffer := False, yb_status := YY_BUFFER_NEW\<rparr>
                in mem_bind (yy_switch_to_buffer E (Some b) (g\<lparr>h_bufs := (h_bufs g)(b \<mapsto> B)\<rparr>)) (\<lambda>g1. Val (Some b, g1)))))"

text \<open>The counter of the loop that copies is an \<open>int\<close> that is compared without sign, so it reaches any length below 2^31.\<close>

definition yy_scan_bytes :: "yyenv \<Rightarrow> string \<Rightarrow> yyscanner \<Rightarrow> (ptr option \<times> yyscanner) mem" where
  "yy_scan_bytes E s g =
     (let n = length s + 2 in
      case yyalloc E n g of
        None \<Rightarrow> Fatal
      | Some buf \<Rightarrow>
          mem_bind (yy_scan_buffer E buf n (g\<lparr>h_chars := (h_chars g)(buf \<mapsto> s @ [NUL, NUL])\<rparr>)) (\<lambda>(b, g1).
          if b = None then Fatal
          else mem_bind (update_buf b (yb_is_our_buffer_update (\<lambda>_. True)) g1) (\<lambda>g2. Val (b, g2))))"

definition yy_scan_string :: "yyenv \<Rightarrow> string \<Rightarrow> yyscanner \<Rightarrow> (ptr option \<times> yyscanner) mem" where
  "yy_scan_string E s g = yy_scan_bytes E (takeWhile (\<lambda>c. c \<noteq> NUL) s) g"

section \<open>Accessors\<close>

definition yyget_extra :: "yyscanner \<Rightarrow> ptr option" where
  "yyget_extra g = g_extra g"

definition yyget_lineno :: "yyscanner \<Rightarrow> int mem" where
  "yyget_lineno g =
     mem_bind (YY_CURRENT_BUFFER g) (\<lambda>c. if c = None then Val 0 else mem_bind (buf_at g c) (\<lambda>B. Val (yb_bs_lineno B)))"

definition yyget_column :: "yyscanner \<Rightarrow> int mem" where
  "yyget_column g =
     mem_bind (YY_CURRENT_BUFFER g) (\<lambda>c. if c = None then Val 0 else mem_bind (buf_at g c) (\<lambda>B. Val (yb_bs_column B)))"

definition yyget_in :: "yyscanner \<Rightarrow> ptr option" where
  "yyget_in g = g_in g"

definition yyget_out :: "yyscanner \<Rightarrow> ptr option" where
  "yyget_out g = g_out g"

definition yyget_leng :: "yyscanner \<Rightarrow> nat" where
  "yyget_leng g = g_leng g"

definition yyget_text :: "yyscanner \<Rightarrow> cptr option" where
  "yyget_text g = g_text g"

definition yyset_extra :: "ptr option \<Rightarrow> yyscanner \<Rightarrow> yyscanner" where
  "yyset_extra user_defined g = g\<lparr>g_extra := user_defined\<rparr>"

definition yyset_lineno :: "int \<Rightarrow> yyscanner \<Rightarrow> yyscanner mem" where
  "yyset_lineno line_number g =
     mem_bind (YY_CURRENT_BUFFER g) (\<lambda>c.
     if c = None then Fatal else update_buf c (yb_bs_lineno_update (\<lambda>_. line_number)) g)"

definition yyset_column :: "int \<Rightarrow> yyscanner \<Rightarrow> yyscanner mem" where
  "yyset_column column_no g =
     mem_bind (YY_CURRENT_BUFFER g) (\<lambda>c.
     if c = None then Fatal else update_buf c (yb_bs_column_update (\<lambda>_. column_no)) g)"

definition yyset_in :: "ptr option \<Rightarrow> yyscanner \<Rightarrow> yyscanner" where
  "yyset_in in_str g = g\<lparr>g_in := in_str\<rparr>"

definition yyset_out :: "ptr option \<Rightarrow> yyscanner \<Rightarrow> yyscanner" where
  "yyset_out out_str g = g\<lparr>g_out := out_str\<rparr>"

definition yyget_debug :: "yyscanner \<Rightarrow> int" where
  "yyget_debug g = g_debug g"

definition yyset_debug :: "int \<Rightarrow> yyscanner \<Rightarrow> yyscanner" where
  "yyset_debug bdebug g = g\<lparr>g_debug := bdebug\<rparr>"

definition yyget_lval :: "yyscanner \<Rightarrow> ptr option" where
  "yyget_lval g = g_lval g"

definition yyset_lval :: "ptr option \<Rightarrow> yyscanner \<Rightarrow> yyscanner" where
  "yyset_lval yylval_param g = g\<lparr>g_lval := yylval_param\<rparr>"

section \<open>Making and destroying a scanner\<close>

text \<open>
  The block of the scanner itself is the record. There is no stack of start conditions: its pointer
  stays null, and freeing it does nothing.
\<close>

definition yy_init_globals :: "yyscanner \<Rightarrow> yyscanner" where
  "yy_init_globals g =
     g\<lparr>g_buffer_stack := None, g_stack_top := 0, g_stack_max := 0, g_c_buf_p := None, g_init := False,
       g_start := 0, g_in := None, g_out := None\<rparr>"

definition zero_scanner :: "yyheap \<Rightarrow> yyscanner" where
  "zero_scanner h = yyheap.extend h (yyscanner.fields None None None None 0 0 NUL 0 0 None None False 0 False 0 None)"

definition yylex_init_mem :: "yyenv \<Rightarrow> yyheap \<Rightarrow> int \<times> yyscanner option" where
  "yylex_init_mem E h =
     (case yyalloc E (ye_sizeof_guts E) h of
        None \<Rightarrow> (1, None)
      | Some p \<Rightarrow> (0, Some (yy_init_globals (zero_scanner h))))"

definition yylex_init_extra :: "yyenv \<Rightarrow> ptr option \<Rightarrow> yyheap \<Rightarrow> int \<times> yyscanner option" where
  "yylex_init_extra E user_defined h =
     (case yyalloc E (ye_sizeof_guts E) h of
        None \<Rightarrow> (1, None)
      | Some p \<Rightarrow> (0, Some (yy_init_globals (yyset_extra user_defined (zero_scanner h)))))"

text \<open>The loop of \<open>yylex_destroy\<close>; \<open>None\<close> is a loop that does not end.\<close>

partial_function (option) destroy_buffers :: "yyscanner \<Rightarrow> yyscanner mem option" where
  "destroy_buffers g =
     (case YY_CURRENT_BUFFER g of
        Fatal \<Rightarrow> Some Fatal
      | Bad e \<Rightarrow> Some (Bad e)
      | Val c \<Rightarrow>
          if c = None then Some (Val g)
          else
            case mem_bind (yy_delete_buffer c g) (\<lambda>g1. mem_bind (set_current None g1) yypop_buffer_state) of
              Fatal \<Rightarrow> Some Fatal
            | Bad e \<Rightarrow> Some (Bad e)
            | Val g2 \<Rightarrow> destroy_buffers g2)"

definition free_stack :: "ptr option \<Rightarrow> yyscanner \<Rightarrow> yyscanner mem" where
  "free_stack s g =
     (case s of
        None \<Rightarrow> Val g
      | Some p \<Rightarrow> if h_stacks g p = None then Bad UseAfterFree else Val (g\<lparr>h_stacks := (h_stacks g)(p := None)\<rparr>))"

definition yylex_destroy :: "yyscanner \<Rightarrow> (int \<times> yyheap) mem option" where
  "yylex_destroy g =
     Option.bind (destroy_buffers g) (\<lambda>r.
     Some (mem_bind r (\<lambda>g1.
       mem_bind (free_stack (g_buffer_stack g1) g1) (\<lambda>g2.
       Val (0, yyheap.truncate (yy_init_globals (g2\<lparr>g_buffer_stack := None\<rparr>)))))))"

end
