(* ===== verification/Lexer_Heap.thy ===== *)
theory Lexer_Heap
  imports Lexer_Memory
begin

text \<open>
  The memory of the scanner stays well formed: its stack holds live buffers that share nothing, and the
  scanner stands in the current one. Each operation of the theory \<open>Lexer_Memory\<close> keeps this, does not
  fault, and changes nothing but what it is about.
\<close>

section \<open>Well-formed memory\<close>
text \<open>What is relied on of \<open>malloc\<close> and \<open>realloc\<close>: they give blocks that are not in use.\<close>

definition malloc_ok :: "yyenv \<Rightarrow> bool" where
  "malloc_ok E \<longleftrightarrow> (\<forall>n used p. ye_malloc E n used = Some p \<longrightarrow> \<not> used p) \<and>
     (\<forall>q n used p. ye_realloc E q n used = Some p \<longrightarrow> p = q \<or> \<not> used p)"

text \<open>A call that is right does not fault, and what it returns is as stated.\<close>

fun mem_post :: "'a mem \<Rightarrow> ('a \<Rightarrow> bool) \<Rightarrow> bool" where
  "mem_post (Val a) Q = Q a"
| "mem_post Fatal Q = True"
| "mem_post (Bad e) Q = False"

lemma mem_post_bind [simp]: "mem_post (mem_bind r f) Q = mem_post r (\<lambda>a. mem_post (f a) Q)"
  by (cases r) simp_all

lemma mem_post_seq: "mem_post r P \<Longrightarrow> (\<And>a. P a \<Longrightarrow> mem_post (f a) Q) \<Longrightarrow> mem_post (mem_bind r f) Q"
  by (cases r) simp_all

lemma mem_post_mono: "mem_post r P \<Longrightarrow> (\<And>a. P a \<Longrightarrow> Q a) \<Longrightarrow> mem_post r Q"
  by (cases r) simp_all

text \<open>
  The stack holds the buffers \<open>ps\<close> below its top, the current buffer, if there is one, at the top, and
  nothing above. A buffer is live when it and its characters are allocated and its position is one of
  them; the buffers of the stack and their characters differ.
\<close>

definition stack_is :: "yyscanner \<Rightarrow> ptr list \<Rightarrow> ptr option \<Rightarrow> bool" where
  "stack_is g ps cur \<longleftrightarrow>
     (\<exists>s k. g_buffer_stack g = Some s \<and> h_stacks g s = Some (map Some ps @ cur # replicate k None) \<and>
        g_stack_top g = length ps \<and> g_stack_max g = length ps + 1 + k)"

definition live :: "'z yyheap_scheme \<Rightarrow> ptr \<Rightarrow> bool" where
  "live h p \<longleftrightarrow> (\<exists>B x y s. h_bufs h p = Some B \<and> h_chars h (yb_ch_buf B) = Some (x # y # s) \<and>
     fst (yb_buf_pos B) = yb_ch_buf B \<and> snd (yb_buf_pos B) < Suc (Suc (length s)))"

definition chars_of :: "'z yyheap_scheme \<Rightarrow> ptr \<Rightarrow> ptr" where
  "chars_of h p = yb_ch_buf (the (h_bufs h p))"

definition bufs_ok :: "'z yyheap_scheme \<Rightarrow> ptr list \<Rightarrow> bool" where
  "bufs_ok h ps \<longleftrightarrow> (\<forall>p \<in> set ps. live h p) \<and> distinct (map (chars_of h) ps)"

definition opt_list :: "'a option \<Rightarrow> 'a list" where
  "opt_list x = (case x of None \<Rightarrow> [] | Some a \<Rightarrow> [a])"

lemma opt_list_simps [simp]: "opt_list None = []" "opt_list (Some a) = [a]"
  by (simp_all add: opt_list_def)

text \<open>The scanner stands at a character of the current buffer.\<close>

definition stands :: "yyscanner \<Rightarrow> ptr option \<Rightarrow> bool" where
  "stands g cur \<longleftrightarrow> (\<forall>b. cur = Some b \<longrightarrow>
     (\<exists>i s. g_c_buf_p g = Some (chars_of g b, i) \<and> h_chars g (chars_of g b) = Some s \<and> i < length s))"

definition mem_ok :: "yyscanner \<Rightarrow> ptr list \<Rightarrow> ptr option \<Rightarrow> bool" where
  "mem_ok g ps cur \<longleftrightarrow>
     (g_buffer_stack g = None \<and> ps = [] \<and> cur = None \<or> stack_is g ps cur) \<and>
     bufs_ok g (ps @ opt_list cur) \<and> stands g cur"

lemma current_stack: "stack_is g ps cur \<Longrightarrow> YY_CURRENT_BUFFER_LVALUE g = Val cur"
  by (auto simp: stack_is_def YY_CURRENT_BUFFER_LVALUE_def stack_of_def nth_append)

lemma current_stack' [simp]: "stack_is g ps cur \<Longrightarrow> YY_CURRENT_BUFFER g = Val cur"
  using current_stack [of g ps cur] by (auto simp: YY_CURRENT_BUFFER_def stack_is_def)

lemma current_ok [simp]: "mem_ok g ps cur \<Longrightarrow> YY_CURRENT_BUFFER g = Val cur"
  by (auto simp: mem_ok_def) (simp add: YY_CURRENT_BUFFER_def)

lemma set_current_stack:
  assumes "stack_is g ps cur"
  obtains t where "set_current b g = Val (g\<lparr>h_stacks := t\<rparr>)" "stack_is (g\<lparr>h_stacks := t\<rparr>) ps b"
proof -
  from assms obtain s k where s: "g_buffer_stack g = Some s" "h_stacks g s = Some (map Some ps @ cur # replicate k None)"
    "g_stack_top g = length ps" "g_stack_max g = length ps + 1 + k" by (auto simp: stack_is_def)
  let ?t = "(h_stacks g)(s \<mapsto> map Some ps @ b # replicate k None)"
  have "set_current b g = Val (g\<lparr>h_stacks := ?t\<rparr>)"
    using s current_stack [OF assms] by (simp add: set_current_def list_update_append)
  moreover have "stack_is (g\<lparr>h_stacks := ?t\<rparr>) ps b"
    using s by (auto simp: stack_is_def)
  ultimately show thesis by (rule that)
qed

text \<open>What a step leaves alone: the stack is a matter of its array, its pointer and its top.\<close>

lemma stack_is_frame:
  "stack_is g ps cur \<Longrightarrow> g_buffer_stack g' = g_buffer_stack g \<Longrightarrow> h_stacks g' = h_stacks g \<Longrightarrow>
    g_stack_top g' = g_stack_top g \<Longrightarrow> g_stack_max g' = g_stack_max g \<Longrightarrow> stack_is g' ps cur"
  by (simp add: stack_is_def)

lemma bufs_ok_frame:
  assumes "bufs_ok h ps" "h_bufs h' = h_bufs h" "h_chars h' = h_chars h"
  shows "bufs_ok h' ps"
proof -
  have "chars_of h' = chars_of h" using assms(2) by (simp add: chars_of_def fun_eq_iff)
  with assms show ?thesis by (simp add: bufs_ok_def live_def)
qed

definition no_stack :: "yyscanner \<Rightarrow> yyscanner" where
  "no_stack g = g\<lparr>h_stacks := (\<lambda>_. None), g_buffer_stack := None, g_stack_max := 0, g_stack_top := 0\<rparr>"

lemma no_stack_fields:
  assumes "no_stack g' = no_stack g"
  shows "h_bufs g' = h_bufs g" "h_chars g' = h_chars g" "g_in g' = g_in g" "g_c_buf_p g' = g_c_buf_p g"
    "g_hold_char g' = g_hold_char g" "g_n_chars g' = g_n_chars g"
  using arg_cong [OF assms, of h_bufs] arg_cong [OF assms, of h_chars] arg_cong [OF assms, of g_in]
    arg_cong [OF assms, of g_c_buf_p] arg_cong [OF assms, of g_hold_char] arg_cong [OF assms, of g_n_chars]
  by (simp_all add: no_stack_def)

lemma ensure_stack:
  assumes "malloc_ok E" "mem_ok g ps cur"
  shows "mem_post (yyensure_buffer_stack E g) (\<lambda>g'. stack_is g' ps cur \<and> (cur \<noteq> None \<longrightarrow> Suc (length ps) < g_stack_max g') \<and>
    no_stack g' = no_stack g)"
proof (cases "g_buffer_stack g")
  case None
  then have "ps = []" "cur = None" using assms(2) by (auto simp: mem_ok_def stack_is_def)
  with None show ?thesis
    by (simp add: yyensure_buffer_stack_def stack_is_def no_stack_def split: option.split)
next
  case (Some p)
  with assms(2) have st: "stack_is g ps cur" by (auto simp: mem_ok_def)
  then obtain k where k: "h_stacks g p = Some (map Some ps @ cur # replicate k None)"
    "g_stack_top g = length ps" "g_stack_max g = length ps + 1 + k" using Some by (auto simp: stack_is_def)
  show ?thesis
  proof (cases "size_t (int (g_stack_max g) - 1) \<le> g_stack_top g")
    case True
    have "take (g_stack_max g) (map Some ps @ cur # replicate k None) @ replicate 8 None =
        map Some ps @ cur # replicate (k + 8) None"
      using k(3) by (simp add: replicate_add)
    then show ?thesis
      using Some k True by (simp add: yyensure_buffer_stack_def stack_is_def no_stack_def split: option.split)
  next
    case False
    have "size_t (int (length ps)) \<le> length ps"
      unfolding size_t_def by (metis nat_int nat_mono of_nat_0_le_iff zmod_le_nonneg_dividend)
    with False have "k \<noteq> 0" using k(2,3) by (cases k) simp_all
    then have "Suc (length ps) < g_stack_max g" using k(3) by simp
    then show ?thesis using st Some False by (simp add: yyensure_buffer_stack_def)
  qed
qed

section \<open>What the operations do\<close>

lemma liveE:
  assumes "live h p"
  obtains B x y s where "h_bufs h p = Some B" "h_chars h (yb_ch_buf B) = Some (x # y # s)"
    "fst (yb_buf_pos B) = yb_ch_buf B" "snd (yb_buf_pos B) < Suc (Suc (length s))" "chars_of h p = yb_ch_buf B"
  using assms by (auto simp: live_def chars_of_def)

text \<open>Loading the state of a live current buffer makes the scanner stand at its position.\<close>

lemma load_state:
  assumes "stack_is g ps (Some b)" "bufs_ok g (ps @ [b])"
  shows "mem_post (yy_load_buffer_state_mem g) (\<lambda>g'. mem_ok g' ps (Some b) \<and> h_bufs g' = h_bufs g \<and> h_chars g' = h_chars g)"
proof -
  from assms(2) have "live g b" by (simp add: bufs_ok_def)
  then obtain B x y s where B: "h_bufs g b = Some B" "h_chars g (yb_ch_buf B) = Some (x # y # s)"
    "fst (yb_buf_pos B) = yb_ch_buf B" "snd (yb_buf_pos B) < Suc (Suc (length s))" "chars_of g b = yb_ch_buf B"
    by (rule liveE)
  obtain q i where q: "yb_buf_pos B = (q, i)" by (cases "yb_buf_pos B")
  let ?g = "g\<lparr>g_n_chars := yb_n_chars B, g_c_buf_p := Some (q, i), g_text := Some (q, i),
       g_in := yb_input_file B, g_hold_char := (x # y # s) ! i\<rparr>"
  have "yy_load_buffer_state_mem g = Val ?g"
    using current_stack [OF assms(1)] B q by (simp add: yy_load_buffer_state_mem_def buf_at_def char_at_def)
  moreover have "stack_is ?g ps (Some b)" "bufs_ok ?g (ps @ [b])"
    using stack_is_frame [OF assms(1), of ?g] bufs_ok_frame [OF assms(2), of ?g] by simp_all
  moreover have "chars_of ?g b = q" using B q by (simp add: chars_of_def)
  ultimately show ?thesis using B q by (simp add: mem_ok_def stands_def)
qed

text \<open>A buffer of the stack that is changed in place, with its characters, but stays live.\<close>

lemma bufs_ok_change:
  assumes "bufs_ok h ps" "h_bufs h b = Some B" "yb_ch_buf B' = yb_ch_buf B" "fst (yb_buf_pos B') = yb_ch_buf B"
    "snd (yb_buf_pos B') < length s" "2 \<le> length s"
    "h_bufs h' = (h_bufs h)(b \<mapsto> B')" "h_chars h' = (h_chars h)(yb_ch_buf B \<mapsto> s)"
    "b \<in> set ps"
  shows "bufs_ok h' ps"
proof -
  have ch: "chars_of h' = chars_of h"
    using assms(2,3,7) by (auto simp: chars_of_def fun_eq_iff)
  from assms(6) obtain x y r where r: "s = x # y # r" by (cases s; cases "tl s") auto
  have "live h' p" if "p \<in> set ps" for p
  proof (cases "p = b")
    case True
    then show ?thesis using assms r by (auto simp: live_def)
  next
    case False
    from that assms(1) have "live h p" by (simp add: bufs_ok_def)
    then obtain C x' y' r' where C: "h_bufs h p = Some C" "h_chars h (yb_ch_buf C) = Some (x' # y' # r')"
      "fst (yb_buf_pos C) = yb_ch_buf C" "snd (yb_buf_pos C) < Suc (Suc (length r'))" "chars_of h p = yb_ch_buf C"
      by (rule liveE)
    have "chars_of h p \<noteq> chars_of h b"
      using assms(1,9) that False by (auto simp: bufs_ok_def distinct_map inj_on_def)
    then have "yb_ch_buf C \<noteq> yb_ch_buf B" using C(5) assms(2) by (simp add: chars_of_def)
    then show ?thesis using C assms(7,8) False by (auto simp: live_def)
  qed
  then show ?thesis using assms(1) ch by (simp add: bufs_ok_def)
qed

lemma bufs_ok_distinct: "bufs_ok h ps \<Longrightarrow> distinct ps"
  by (simp add: bufs_ok_def distinct_map)

text \<open>Flushing and initialising a buffer that is live or just made.\<close>

lemma lvalue_frame:
  assumes "g_buffer_stack g' = g_buffer_stack g" "h_stacks g' = h_stacks g" "g_stack_top g' = g_stack_top g"
  shows "YY_CURRENT_BUFFER_LVALUE g' = YY_CURRENT_BUFFER_LVALUE g"
  unfolding YY_CURRENT_BUFFER_LVALUE_def stack_of_def assms ..

lemma current_frame:
  assumes "g_buffer_stack g' = g_buffer_stack g" "h_stacks g' = h_stacks g" "g_stack_top g' = g_stack_top g"
  shows "YY_CURRENT_BUFFER g' = YY_CURRENT_BUFFER g"
  unfolding YY_CURRENT_BUFFER_def lvalue_frame [OF assms] assms ..

lemma update_buf_eq: "h_bufs h b = Some B \<Longrightarrow> update_buf (Some b) f h = Val (h\<lparr>h_bufs := (h_bufs h)(b \<mapsto> f B)\<rparr>)"
  by (simp add: update_buf_def buf_at_def)

lemma put_char_eq: "h_chars h p = Some s \<Longrightarrow> i < length s \<Longrightarrow> put_char (Some (p, i)) x h = Val (h\<lparr>h_chars := (h_chars h)(p \<mapsto> s[i := x])\<rparr>)"
  by (simp add: put_char_def char_at_def)

definition flushed :: "ptr \<Rightarrow> yy_buffer_state \<Rightarrow> string \<Rightarrow> yyscanner \<Rightarrow> yyscanner" where
  "flushed b B s g = g\<lparr>h_bufs := (h_bufs g)(b \<mapsto> B\<lparr>yb_n_chars := 0, yb_buf_pos := (yb_ch_buf B, 0), yb_at_bol := True,
     yb_status := YY_BUFFER_NEW\<rparr>), h_chars := (h_chars g)(yb_ch_buf B \<mapsto> NUL # NUL # s)\<rparr>"

lemma flush_buffer:
  assumes "YY_CURRENT_BUFFER g = Val c" "c \<noteq> None \<longrightarrow> YY_CURRENT_BUFFER_LVALUE g = Val c"
    and B: "h_bufs g b = Some B" "h_chars g (yb_ch_buf B) = Some (x # y # s)"
  shows "yy_flush_buffer_mem (Some b) g = Val (if c = Some b
    then (flushed b B s g)\<lparr>g_n_chars := 0, g_c_buf_p := Some (yb_ch_buf B, 0), g_text := Some (yb_ch_buf B, 0),
      g_in := yb_input_file B, g_hold_char := NUL\<rparr> else flushed b B s g)"
proof -
  have fl: "g\<lparr>h_chars := (h_chars g)(yb_ch_buf B \<mapsto> NUL # NUL # s), h_bufs := (h_bufs g)(b \<mapsto> B\<lparr>yb_n_chars := 0,
      yb_buf_pos := (yb_ch_buf B, 0), yb_at_bol := True, yb_status := YY_BUFFER_NEW\<rparr>)\<rparr> = flushed b B s g"
    by (cases g) (simp add: flushed_def)
  have cur: "YY_CURRENT_BUFFER (flushed b B s g) = Val c"
    using assms(1) current_frame [of "flushed b B s g" g] by (simp add: flushed_def)
  have lv: "YY_CURRENT_BUFFER_LVALUE (flushed b B s g) = YY_CURRENT_BUFFER_LVALUE g"
    by (rule lvalue_frame) (simp_all add: flushed_def)
  have "yy_flush_buffer_mem (Some b) g =
      mem_bind (YY_CURRENT_BUFFER (flushed b B s g)) (\<lambda>c. if Some b = c then yy_load_buffer_state_mem (flushed b B s g) else Val (flushed b B s g))"
    using B fl by (simp add: yy_flush_buffer_mem_def update_buf_eq put_char_eq buf_at_def cong: if_cong)
  moreover have "yy_load_buffer_state_mem (flushed b B s g) = Val ((flushed b B s g)\<lparr>g_n_chars := 0,
      g_c_buf_p := Some (yb_ch_buf B, 0), g_text := Some (yb_ch_buf B, 0), g_in := yb_input_file B, g_hold_char := NUL\<rparr>)"
    if "c = Some b"
    using assms(2) that lv by (simp add: yy_load_buffer_state_mem_def) (simp add: flushed_def buf_at_def char_at_def)
  ultimately show ?thesis using cur by auto
qed

definition inited :: "yyenv \<Rightarrow> ptr \<Rightarrow> yy_buffer_state \<Rightarrow> string \<Rightarrow> ptr option \<Rightarrow> bool \<Rightarrow> yyscanner \<Rightarrow> yyscanner" where
  "inited E b B s file current g = g\<lparr>h_bufs := (h_bufs g)(b \<mapsto> B\<lparr>yb_n_chars := 0, yb_buf_pos := (yb_ch_buf B, 0), yb_at_bol := True,
     yb_status := YY_BUFFER_NEW, yb_input_file := file, yb_fill_buffer := True,
     yb_bs_lineno := (if current then yb_bs_lineno B else 1), yb_bs_column := (if current then yb_bs_column B else 0),
     yb_is_interactive := (case file of None \<Rightarrow> False | Some f \<Rightarrow> ye_isatty E f)\<rparr>),
     h_chars := (h_chars g)(yb_ch_buf B \<mapsto> NUL # NUL # s)\<rparr>"

lemma init_buffer:
  assumes "YY_CURRENT_BUFFER g = Val c" "c \<noteq> None \<longrightarrow> YY_CURRENT_BUFFER_LVALUE g = Val c"
    and B: "h_bufs g b = Some B" "h_chars g (yb_ch_buf B) = Some (x # y # s)"
  shows "yy_init_buffer_mem E (Some b) file g = Val (if c = Some b
    then (inited E b B s file True g)\<lparr>g_n_chars := 0, g_c_buf_p := Some (yb_ch_buf B, 0), g_text := Some (yb_ch_buf B, 0),
      g_in := yb_input_file B, g_hold_char := NUL\<rparr> else inited E b B s file False g)"
proof -
  let ?g = "if c = Some b then (flushed b B s g)\<lparr>g_n_chars := 0, g_c_buf_p := Some (yb_ch_buf B, 0), g_text := Some (yb_ch_buf B, 0),
      g_in := yb_input_file B, g_hold_char := NUL\<rparr> else flushed b B s g"
  let ?B = "B\<lparr>yb_n_chars := 0, yb_buf_pos := (yb_ch_buf B, 0), yb_at_bol := True, yb_status := YY_BUFFER_NEW,
    yb_input_file := file, yb_fill_buffer := True\<rparr>"
  let ?h = "?g\<lparr>h_bufs := (h_bufs g)(b \<mapsto> ?B)\<rparr>"
  have h: "h_bufs ?g b = Some (B\<lparr>yb_n_chars := 0, yb_buf_pos := (yb_ch_buf B, 0), yb_at_bol := True, yb_status := YY_BUFFER_NEW\<rparr>)"
    "h_bufs ?g = (h_bufs g)(b \<mapsto> B\<lparr>yb_n_chars := 0, yb_buf_pos := (yb_ch_buf B, 0), yb_at_bol := True, yb_status := YY_BUFFER_NEW\<rparr>)"
    by (simp_all add: flushed_def)
  have "YY_CURRENT_BUFFER ?h = Val c"
    using assms(1) current_frame [of ?h g] by (simp add: flushed_def)
  then have "yy_init_buffer_mem E (Some b) file g = mem_bind (if Some b \<noteq> c
      then update_buf (Some b) (\<lambda>B. B\<lparr>yb_bs_lineno := 1, yb_bs_column := 0\<rparr>) ?h else Val ?h)
    (\<lambda>g3. update_buf (Some b) (\<lambda>B. B\<lparr>yb_is_interactive := (case file of None \<Rightarrow> False | Some f \<Rightarrow> ye_isatty E f)\<rparr>) g3)"
    using update_buf_eq [of ?g b, OF h(1)] h(2) by (simp add: yy_init_buffer_mem_def flush_buffer [OF assms] del: split_paired_All)
  then show ?thesis by (cases "c = Some b") (simp_all add: update_buf_eq flushed_def inited_def)
qed

definition no_heap :: "yyscanner \<Rightarrow> yyscanner" where
  "no_heap g = g\<lparr>h_bufs := (\<lambda>_. None), h_chars := (\<lambda>_. None)\<rparr>"

lemma no_heap_fields:
  assumes "no_heap g' = no_heap g"
  shows "g_buffer_stack g' = g_buffer_stack g" "h_stacks g' = h_stacks g" "g_stack_top g' = g_stack_top g"
    "g_stack_max g' = g_stack_max g" "g_c_buf_p g' = g_c_buf_p g" "g_in g' = g_in g"
  using arg_cong [OF assms, of g_buffer_stack] arg_cong [OF assms, of h_stacks] arg_cong [OF assms, of g_stack_top]
    arg_cong [OF assms, of g_stack_max] arg_cong [OF assms, of g_c_buf_p] arg_cong [OF assms, of g_in]
  by (simp_all add: no_heap_def)

lemma no_heap_stack: "no_heap g' = no_heap g \<Longrightarrow> stack_is g' ps cur \<longleftrightarrow> stack_is g ps cur"
  using no_heap_fields [of g' g] by (simp add: stack_is_def)

text \<open>A new buffer in fresh blocks.\<close>

definition adds_buffer :: "yyscanner \<Rightarrow> ptr \<Rightarrow> yyscanner \<Rightarrow> bool" where
  "adds_buffer g b g' \<longleftrightarrow> no_heap g' = no_heap g \<and> h_bufs g b = None \<and>
     (\<exists>B x y s. h_bufs g' = (h_bufs g)(b \<mapsto> B) \<and> h_chars g (yb_ch_buf B) = None \<and>
        h_chars g' = (h_chars g)(yb_ch_buf B \<mapsto> x # y # s) \<and> yb_buf_pos B = (yb_ch_buf B, 0))"

lemma adds_buffer_live:
  assumes "adds_buffer g b g'" "live g p"
  shows "live g' p \<and> chars_of g' p = chars_of g p \<and> p \<noteq> b \<and> chars_of g p \<noteq> chars_of g' b \<and>
    h_bufs g' p = h_bufs g p \<and> h_chars g' (chars_of g p) = h_chars g (chars_of g p)"
  using assms by (auto simp: adds_buffer_def live_def chars_of_def)

lemma adds_buffer_new: "adds_buffer g b g' \<Longrightarrow> live g' b"
  by (auto simp: adds_buffer_def live_def)

lemma adds_buffer_bufs:
  assumes "adds_buffer g b g'" "bufs_ok g ps"
  shows "bufs_ok g' (ps @ [b])" "bufs_ok g' ps"
proof -
  have l: "live g p" if "p \<in> set ps" for p using that assms(2) by (simp add: bufs_ok_def)
  have m: "map (chars_of g') ps = map (chars_of g) ps"
    using adds_buffer_live [OF assms(1) l] by simp
  have "chars_of g' b \<notin> chars_of g ` set ps" using adds_buffer_live [OF assms(1) l] by fastforce
  moreover have "distinct (map (chars_of g') ps)" using assms(2) unfolding bufs_ok_def m by simp
  ultimately show "bufs_ok g' (ps @ [b])"
    using assms adds_buffer_live [OF assms(1) l] adds_buffer_new [OF assms(1)] by (auto simp: bufs_ok_def)
  then show "bufs_ok g' ps" by (simp add: bufs_ok_def)
qed

lemma adds_buffer_ok:
  assumes "adds_buffer g b g'" "mem_ok g ps cur"
  shows "mem_ok g' ps cur \<and> bufs_ok g' (ps @ opt_list cur @ [b])"
proof -
  from assms(1) have nh: "no_heap g' = no_heap g" by (simp add: adds_buffer_def)
  from assms(2) have ok: "bufs_ok g (ps @ opt_list cur)" by (simp add: mem_ok_def)
  have "stands g' cur"
    using assms(2) adds_buffer_live [OF assms(1)] no_heap_fields(5) [OF nh] by (auto simp: stands_def mem_ok_def bufs_ok_def)
  then show ?thesis
    using assms(2) adds_buffer_bufs [OF assms(1) ok] no_heap_stack [OF nh] no_heap_fields(1) [OF nh] by (auto simp: mem_ok_def)
qed

lemma yyalloc_fresh: "malloc_ok E \<Longrightarrow> yyalloc E n h = Some p \<Longrightarrow> \<not> in_use h p"
  unfolding malloc_ok_def yyalloc_def by blast

text \<open>The memory with a new buffer \<open>b\<close> and its characters \<open>q\<close>, not initialised yet.\<close>

definition with_fresh :: "yyenv \<Rightarrow> ptr \<Rightarrow> ptr \<Rightarrow> nat \<Rightarrow> yyscanner \<Rightarrow> yyscanner" where
  "with_fresh E b q sz g = g\<lparr>h_chars := (h_chars g)(q \<mapsto> map (ye_fresh_char E) [0..<sz + 2]),
     h_bufs := (h_bufs g)(b \<mapsto> (ye_fresh E)\<lparr>yb_buf_size := sz, yb_ch_buf := q, yb_is_our_buffer := True\<rparr>)\<rparr>"

lemma fresh_chars: "map (ye_fresh_char E) [0..<sz + 2] = ye_fresh_char E 0 # ye_fresh_char E 1 # map (ye_fresh_char E) [2..<sz + 2]"
  by (simp add: upt_conv_Cons del: upt_Suc flip: numeral_2_eq_2)

lemma create_buffer_eq:
  assumes "YY_CURRENT_BUFFER g = Val c" "c \<noteq> None \<longrightarrow> YY_CURRENT_BUFFER_LVALUE g = Val c" "c \<noteq> Some b"
    and b: "yyalloc E (ye_sizeof_buffer E) g = Some b"
    and q: "yyalloc E (sz + 2) (g\<lparr>h_bufs := (h_bufs g)(b \<mapsto> (ye_fresh E)\<lparr>yb_buf_size := sz\<rparr>)\<rparr>) = Some q"
  shows "yy_create_buffer_mem E file sz g = Val (b, inited E b ((ye_fresh E)\<lparr>yb_buf_size := sz, yb_ch_buf := q, yb_is_our_buffer := True\<rparr>)
    (map (ye_fresh_char E) [2..<sz + 2]) file False (with_fresh E b q sz g))"
proof -
  let ?g = "with_fresh E b q sz g"
  have "yy_create_buffer_mem E file sz g = mem_bind (yy_init_buffer_mem E (Some b) file ?g) (\<lambda>g4. Val (b, g4))"
    using b q by (simp add: yy_create_buffer_mem_def update_buf_eq with_fresh_def Let_def del: upt_Suc)
  moreover have "YY_CURRENT_BUFFER ?g = Val c" "c \<noteq> None \<longrightarrow> YY_CURRENT_BUFFER_LVALUE ?g = Val c"
    using assms(1,2) current_frame [of ?g g] lvalue_frame [of ?g g] by (simp_all add: with_fresh_def)
  moreover have "h_chars ?g q = Some (ye_fresh_char E 0 # ye_fresh_char E 1 # map (ye_fresh_char E) [2..<sz + 2])"
    "h_bufs ?g b = Some ((ye_fresh E)\<lparr>yb_buf_size := sz, yb_ch_buf := q, yb_is_our_buffer := True\<rparr>)"
    unfolding with_fresh_def fresh_chars by simp_all
  ultimately show ?thesis using assms(3) init_buffer [of ?g c b _ _ _ _ E "file"] by simp
qed

lemma create_buffer:
  assumes "malloc_ok E" "YY_CURRENT_BUFFER g = Val c" "c \<noteq> None \<longrightarrow> YY_CURRENT_BUFFER_LVALUE g = Val c"
    and "\<forall>p. c = Some p \<longrightarrow> h_bufs g p \<noteq> None"
  shows "mem_post (yy_create_buffer_mem E file sz g) (\<lambda>(b, g'). adds_buffer g b g' \<and>
    yb_is_our_buffer (the (h_bufs g' b)) \<and> \<not> in_use g b \<and> \<not> in_use g (chars_of g' b))"
proof (cases "yyalloc E (ye_sizeof_buffer E) g")
  case None
  then show ?thesis by (simp add: yy_create_buffer_mem_def)
next
  case (Some b)
  note al = Some
  let ?g1 = "g\<lparr>h_bufs := (h_bufs g)(b \<mapsto> (ye_fresh E)\<lparr>yb_buf_size := sz\<rparr>)\<rparr>"
  have b: "\<not> in_use g b" by (rule yyalloc_fresh [OF assms(1) Some])
  show ?thesis
  proof (cases "yyalloc E (sz + 2) ?g1")
    case None
    then show ?thesis using Some by (simp add: yy_create_buffer_mem_def)
  next
    case (Some q)
    have q: "\<not> in_use ?g1 q" by (rule yyalloc_fresh [OF assms(1) Some])
    define B where "B = (ye_fresh E)\<lparr>yb_buf_size := sz, yb_ch_buf := q, yb_is_our_buffer := True\<rparr>"
    let ?s = "map (ye_fresh_char E) [2..<sz + 2]"
    let ?g = "inited E b B ?s file False (with_fresh E b q sz g)"
    have "c \<noteq> Some b" using assms(4) b by (auto simp: in_use_def)
    note r = create_buffer_eq [OF assms(2,3) this al Some, folded B_def]
    have fresh: "h_bufs g b = None" "h_chars g q = None" "\<not> in_use g q" using b q by (auto simp: in_use_def split: if_split_asm)
    have "adds_buffer g b ?g"
      unfolding adds_buffer_def
    proof (intro conjI exI)
      show "no_heap ?g = no_heap g" by (simp add: no_heap_def inited_def with_fresh_def)
      show "h_bufs ?g = (h_bufs g)(b \<mapsto> the (h_bufs ?g b))"
        by (simp add: inited_def with_fresh_def)
      show "h_chars ?g = (h_chars g)(yb_ch_buf (the (h_bufs ?g b)) \<mapsto> NUL # NUL # ?s)"
        by (simp add: inited_def with_fresh_def B_def)
    qed (simp_all add: fresh inited_def B_def)
    then show ?thesis using r b fresh(3) by (simp add: inited_def B_def chars_of_def)
  qed
qed

section \<open>Every operation keeps the memory well formed\<close>

lemma set_current_stack':
  assumes "stack_is g ps cur"
  shows "\<exists>t. set_current b g = Val (g\<lparr>h_stacks := t\<rparr>) \<and> stack_is (g\<lparr>h_stacks := t\<rparr>) ps b"
  using set_current_stack [OF assms, of b] by metis

lemma leave_buffer:
  assumes "stack_is g ps cur" "bufs_ok g ls" "set (opt_list cur) \<subseteq> set ls" "stands g cur"
  shows "\<exists>g'. yy_leave_buffer g = Val g' \<and> no_heap g' = no_heap g \<and> bufs_ok g' ls"
proof (cases cur)
  case None
  with assms show ?thesis by (simp add: yy_leave_buffer_def)
next
  case (Some b)
  with assms(2,3) have "live g b" by (simp add: bufs_ok_def)
  then obtain B x y r where B: "h_bufs g b = Some B" "h_chars g (yb_ch_buf B) = Some (x # y # r)" "chars_of g b = yb_ch_buf B"
    by (rule liveE)
  define s where "s = x # y # r"
  from assms(4) Some B obtain i where i: "g_c_buf_p g = Some (yb_ch_buf B, i)" "i < length s"
    by (auto simp: stands_def s_def)
  have s: "h_chars g (yb_ch_buf B) = Some s" "2 \<le> length s" using B(2) by (simp_all add: s_def)
  let ?B = "B\<lparr>yb_buf_pos := (yb_ch_buf B, i), yb_n_chars := g_n_chars g\<rparr>"
  define g' where "g' = g\<lparr>h_chars := (h_chars g)(yb_ch_buf B \<mapsto> s[i := g_hold_char g]), h_bufs := (h_bufs g)(b \<mapsto> ?B)\<rparr>"
  have "yy_leave_buffer g = Val g'"
    using assms(1) Some B(1) i put_char_eq [OF s(1) i(2), of "g_hold_char g"]
    by (simp add: yy_leave_buffer_def update_buf_eq g'_def)
  moreover have "bufs_ok g' ls"
    by (rule bufs_ok_change [where h = g and b = b and B = B and B' = ?B and s = "s[i := g_hold_char g]"])
      (use assms(2,3) Some B(1) i(2) s(2) in \<open>simp_all add: g'_def\<close>)
  moreover have "no_heap g' = no_heap g" by (simp add: no_heap_def g'_def)
  ultimately show ?thesis using Some by simp
qed

lemma chars_of_stacks [simp]: "chars_of (g\<lparr>h_stacks := t\<rparr>) = chars_of g"
  by (simp add: chars_of_def fun_eq_iff)

lemma bufs_ok_stacks [simp]: "bufs_ok (g\<lparr>h_stacks := t\<rparr>) ps = bufs_ok g ps"
  by (simp add: bufs_ok_def live_def)

lemma stack_room:
  assumes "stack_is g ps (Some c)" "Suc (length ps) < g_stack_max g"
  shows "stack_is (g\<lparr>g_stack_top := g_stack_top g + 1\<rparr>) (ps @ [c]) None"
proof -
  from assms(1) obtain s k where k: "g_buffer_stack g = Some s" "h_stacks g s = Some (map Some ps @ Some c # replicate k None)"
    "g_stack_top g = length ps" "g_stack_max g = length ps + 1 + k" by (auto simp: stack_is_def)
  with assms(2) obtain j where "k = Suc j" by (cases k) auto
  with k show ?thesis by (auto simp: stack_is_def)
qed

text \<open>What \<open>yypush_buffer_state\<close> does once there is room.\<close>

lemma push_steps:
  assumes st: "stack_is g ps cur" and room: "cur \<noteq> None \<longrightarrow> Suc (length ps) < g_stack_max g"
    and ok: "bufs_ok g (ps @ opt_list cur @ [b])" and pos: "stands g cur"
  shows "mem_post (mem_bind (yy_leave_buffer g) (\<lambda>g2. mem_bind (YY_CURRENT_BUFFER g2) (\<lambda>c.
      mem_bind (set_current (Some b) (if c \<noteq> None then g2\<lparr>g_stack_top := g_stack_top g2 + 1\<rparr> else g2)) (\<lambda>g3.
      mem_bind (yy_load_buffer_state_mem g3) (\<lambda>g4. Val (g4\<lparr>g_did_switch := True\<rparr>)))))) (\<lambda>g'. mem_ok g' (ps @ opt_list cur) (Some b))"
proof -
  from leave_buffer [OF st ok _ pos] obtain g2 where
    g2: "yy_leave_buffer g = Val g2" "no_heap g2 = no_heap g" "bufs_ok g2 (ps @ opt_list cur @ [b])" by auto
  note st2 = st [folded no_heap_stack [OF g2(2)]]
  define g3 where "g3 = (if cur \<noteq> None then g2\<lparr>g_stack_top := g_stack_top g2 + 1\<rparr> else g2)"
  have "stack_is g3 (ps @ opt_list cur) None" "bufs_ok g3 (ps @ opt_list cur @ [b])"
    using stack_room [of g2 ps] st2 room no_heap_fields(4) [OF g2(2)] g2(3) bufs_ok_frame [of g2 "ps @ opt_list cur @ [b]" g3]
    by (cases cur; simp add: g3_def)+
  with set_current_stack' [of g3 "ps @ opt_list cur" None "Some b"] obtain t where
    t: "set_current (Some b) g3 = Val (g3\<lparr>h_stacks := t\<rparr>)" "stack_is (g3\<lparr>h_stacks := t\<rparr>) (ps @ opt_list cur) (Some b)"
      "bufs_ok (g3\<lparr>h_stacks := t\<rparr>) ((ps @ opt_list cur) @ [b])" by auto
  have switch: "mem_ok g' l c \<Longrightarrow> mem_ok (g'\<lparr>g_did_switch := True\<rparr>) l c" for g' l c
    using bufs_ok_frame [of g' "l @ opt_list c" "g'\<lparr>g_did_switch := True\<rparr>"]
    by (auto simp: mem_ok_def stack_is_def stands_def chars_of_def)
  have "mem_post (yy_load_buffer_state_mem (g3\<lparr>h_stacks := t\<rparr>)) (\<lambda>g'. mem_ok (g'\<lparr>g_did_switch := True\<rparr>) (ps @ opt_list cur) (Some b))"
    by (rule mem_post_mono [OF load_state [OF t(2,3)]]) (simp add: switch)
  then show ?thesis
    using g2(1) st2 t(1) by (cases cur) (simp_all add: g3_def)
qed

lemma push_buffer:
  assumes "malloc_ok E" "mem_ok g ps cur" "bufs_ok g (ps @ opt_list cur @ [b])"
  shows "mem_post (yypush_buffer_state E (Some b) g) (\<lambda>g'. mem_ok g' (ps @ opt_list cur) (Some b))"
proof -
  have "mem_post (mem_bind (yyensure_buffer_stack E g) (\<lambda>g1. mem_bind (yy_leave_buffer g1) (\<lambda>g2. mem_bind (YY_CURRENT_BUFFER g2) (\<lambda>c.
      mem_bind (set_current (Some b) (if c \<noteq> None then g2\<lparr>g_stack_top := g_stack_top g2 + 1\<rparr> else g2)) (\<lambda>g3.
      mem_bind (yy_load_buffer_state_mem g3) (\<lambda>g4. Val (g4\<lparr>g_did_switch := True\<rparr>))))))) (\<lambda>g'. mem_ok g' (ps @ opt_list cur) (Some b))"
  proof (rule mem_post_seq [OF ensure_stack [OF assms(1,2)]], elim conjE)
    fix g1
    assume g1: "stack_is g1 ps cur" "cur \<noteq> None \<longrightarrow> Suc (length ps) < g_stack_max g1" "no_stack g1 = no_stack g"
    note f = no_stack_fields [OF g1(3)]
    have "stands g1 cur" using assms(2) f by (auto simp: mem_ok_def stands_def chars_of_def)
    from push_steps [OF g1(1,2) bufs_ok_frame [OF assms(3) f(1,2)] this]
    show "mem_post (mem_bind (yy_leave_buffer g1) (\<lambda>g2. mem_bind (YY_CURRENT_BUFFER g2) (\<lambda>c.
      mem_bind (set_current (Some b) (if c \<noteq> None then g2\<lparr>g_stack_top := g_stack_top g2 + 1\<rparr> else g2)) (\<lambda>g3.
      mem_bind (yy_load_buffer_state_mem g3) (\<lambda>g4. Val (g4\<lparr>g_did_switch := True\<rparr>)))))) (\<lambda>g'. mem_ok g' (ps @ opt_list cur) (Some b))" .
  qed
  then show ?thesis by (simp only: yypush_buffer_state_def option.distinct if_False)
qed

definition without :: "ptr \<Rightarrow> yyscanner \<Rightarrow> yyscanner \<Rightarrow> bool" where
  "without c g g' \<longleftrightarrow> h_bufs g' = (h_bufs g)(c := None) \<and>
     h_chars g' = (if yb_is_our_buffer (the (h_bufs g c)) then (h_chars g)(chars_of g c := None) else h_chars g)"

lemma without_other:
  assumes "without c g g'" "live g p" "p \<noteq> c" "chars_of g p \<noteq> chars_of g c"
  shows "live g' p \<and> chars_of g' p = chars_of g p"
proof -
  have b: "h_bufs g' p = h_bufs g p" using assms(1,3) by (simp add: without_def)
  have "h_chars g' (chars_of g p) = h_chars g (chars_of g p)"
    using assms(1,4) by (cases "yb_is_our_buffer (the (h_bufs g c))") (simp_all add: without_def)
  with b show ?thesis using liveE [OF assms(2)] by (metis chars_of_def live_def)
qed

lemma without_bufs:
  assumes "without c g g'" "bufs_ok g (ps @ [c])"
  shows "bufs_ok g' ps"
proof -
  have d: "chars_of g c \<notin> chars_of g ` set ps" using assms(2) by (simp add: bufs_ok_def)
  have "live g' p \<and> chars_of g' p = chars_of g p" if "p \<in> set ps" for p
  proof -
    have n: "chars_of g p \<noteq> chars_of g c" using d imageI [OF that, of "chars_of g"] by metis
    moreover from this have "p \<noteq> c" by metis
    moreover have "live g p" using that assms(2) by (simp add: bufs_ok_def)
    ultimately show ?thesis using without_other [OF assms(1)] by blast
  qed
  then have m: "map (chars_of g') ps = map (chars_of g) ps" and l: "\<forall>p \<in> set ps. live g' p" by simp_all
  have "distinct (map (chars_of g') ps)" unfolding m using assms(2) by (simp add: bufs_ok_def)
  with l show ?thesis by (simp add: bufs_ok_def)
qed

lemma delete_current:
  assumes "stack_is g ps (Some c)" "bufs_ok g (ps @ [c])"
  shows "\<exists>g'. yy_delete_buffer (Some c) g = Val g' \<and> stack_is g' ps None \<and> without c g g' \<and>
    g_buffer_stack g' = g_buffer_stack g \<and> (\<forall>p. g_buffer_stack g \<noteq> Some p \<longrightarrow> h_stacks g' p = h_stacks g p)"
proof -
  from assms(1) obtain s k where s: "g_buffer_stack g = Some s" "h_stacks g s = Some (map Some ps @ Some c # replicate k None)"
    "g_stack_top g = length ps" "g_stack_max g = length ps + 1 + k" by (auto simp: stack_is_def)
  define g1 where "g1 = g\<lparr>h_stacks := (h_stacks g)(s \<mapsto> map Some ps @ None # replicate k None)\<rparr>"
  have h1: "h_bufs g1 = h_bufs g" "h_chars g1 = h_chars g" by (simp_all add: g1_def)
  have set: "set_current None g = Val g1"
    using s current_stack [OF assms(1)] by (simp add: set_current_def list_update_append g1_def)
  have st: "stack_is g1 ps None" using s by (auto simp: stack_is_def g1_def)
  from assms(2) have "live g c" by (simp add: bufs_ok_def)
  then obtain B x y r where B: "h_bufs g c = Some B" "h_chars g (yb_ch_buf B) = Some (x # y # r)" "chars_of g c = yb_ch_buf B"
    by (rule liveE)
  define g2 where "g2 = (if yb_is_our_buffer B then g1\<lparr>h_chars := (h_chars g)(yb_ch_buf B := None)\<rparr> else g1)"
  have "yy_delete_buffer (Some c) g = Val (g2\<lparr>h_bufs := (h_bufs g)(c := None)\<rparr>)"
    using assms(1) set B h1 by (simp add: yy_delete_buffer_def buf_at_def free_chars_def free_buf_def g2_def cong: if_cong)
  moreover have "stack_is (g2\<lparr>h_bufs := (h_bufs g)(c := None)\<rparr>) ps None"
    by (rule stack_is_frame [OF st]) (simp_all add: g2_def)
  moreover have "without c g (g2\<lparr>h_bufs := (h_bufs g)(c := None)\<rparr>)"
    using B by (simp add: without_def g2_def g1_def)
  ultimately show ?thesis using s(1) by (intro exI conjI) (assumption, simp_all add: g2_def g1_def)
qed

lemma stack_down:
  assumes "stack_is g (qs @ [q]) None"
  shows "stack_is (g\<lparr>g_stack_top := g_stack_top g - 1\<rparr>) qs (Some q)"
proof -
  from assms obtain s k where "g_buffer_stack g = Some s" "h_stacks g s = Some (map Some qs @ Some q # replicate (Suc k) None)"
    "g_stack_top g = Suc (length qs)" "g_stack_max g = length qs + 1 + Suc k" by (auto simp: stack_is_def)
  then show ?thesis unfolding stack_is_def by (intro exI [of _ s] exI [of _ "Suc k"]) simp
qed

lemma did_switch_ok: "mem_ok g l c \<Longrightarrow> mem_ok (g\<lparr>g_did_switch := True\<rparr>) l c"
  using bufs_ok_frame [of g "l @ opt_list c" "g\<lparr>g_did_switch := True\<rparr>"]
  by (auto simp: mem_ok_def stack_is_def stands_def chars_of_def)

definition next_below :: "ptr list \<Rightarrow> ptr list \<times> ptr option" where
  "next_below ps = (if ps = [] then ([], None) else (butlast ps, Some (last ps)))"

lemma pop_buffer:
  assumes "mem_ok g ps (Some c)"
  shows "mem_post (yypop_buffer_state g) (\<lambda>g'. mem_ok g' (fst (next_below ps)) (snd (next_below ps)) \<and> without c g g')"
proof -
  from assms have st: "stack_is g ps (Some c)" and ok: "bufs_ok g (ps @ [c])" by (auto simp: mem_ok_def)
  from delete_current [OF st ok] obtain g1 where
    g1: "yy_delete_buffer (Some c) g = Val g1" "stack_is g1 ps None" "without c g g1" by blast
  from set_current_stack' [OF g1(2), of None] obtain t where
    t: "set_current None g1 = Val (g1\<lparr>h_stacks := t\<rparr>)" "stack_is (g1\<lparr>h_stacks := t\<rparr>) ps None" by blast
  let ?g2 = "g1\<lparr>h_stacks := t\<rparr>"
  have ok2: "bufs_ok ?g2 ps" using without_bufs [OF g1(3) ok] by simp
  have wo: "without c g ?g2" using g1(3) by (simp add: without_def)
  show ?thesis
  proof (cases ps rule: rev_cases)
    case Nil
    with t(2) have "g_stack_top g1 = 0" by (auto simp: stack_is_def)
    then have "yypop_buffer_state g = Val ?g2"
      using current_ok [OF assms] g1(1) t by (simp add: yypop_buffer_state_def Let_def)
    then show ?thesis using t(2) ok2 wo Nil by (simp add: mem_ok_def next_below_def stands_def)
  next
    case (snoc qs q)
    let ?g3 = "?g2\<lparr>g_stack_top := g_stack_top ?g2 - 1\<rparr>"
    have st3: "stack_is ?g3 qs (Some q)" using stack_down t(2) snoc by blast
    have "g_stack_top ?g2 = Suc (length qs)" using t(2) snoc by (auto simp: stack_is_def)
    then have "yypop_buffer_state g = mem_bind (yy_load_buffer_state_mem ?g3) (\<lambda>g4. Val (g4\<lparr>g_did_switch := True\<rparr>))"
      using current_ok [OF assms] g1(1) t(1) current_stack' [OF st3] by (simp add: yypop_buffer_state_def Let_def)
    moreover have "bufs_ok ?g3 (qs @ [q])" using bufs_ok_frame [OF ok2, of ?g3] snoc by simp
    from load_state [OF st3 this] have
      "mem_post (yy_load_buffer_state_mem ?g3) (\<lambda>g'. mem_ok (g'\<lparr>g_did_switch := True\<rparr>) qs (Some q) \<and> without c g g')"
      by (rule mem_post_mono) (use wo did_switch_ok in \<open>auto simp: without_def\<close>)
    ultimately show ?thesis using snoc by (simp add: next_below_def without_def)
  qed
qed

lemma pop_nothing: "mem_ok g ps None \<Longrightarrow> yypop_buffer_state g = Val g"
  by (simp add: yypop_buffer_state_def)
text \<open>A well-formed memory but for the place where the scanner stands; and a step that changes the
  current buffer, its characters and the fields of the scanner only.\<close>

definition half_ok :: "yyscanner \<Rightarrow> ptr list \<Rightarrow> ptr \<Rightarrow> bool" where
  "half_ok g ps c \<longleftrightarrow> stack_is g ps (Some c) \<and> bufs_ok g (ps @ [c])"

lemma mem_ok_half: "mem_ok g ps (Some c) \<Longrightarrow> half_ok g ps c"
  by (auto simp: mem_ok_def half_ok_def)

lemma current_half [simp]: "half_ok g ps c \<Longrightarrow> YY_CURRENT_BUFFER g = Val (Some c)"
  by (auto simp: half_ok_def intro: current_stack')

definition changes_only :: "ptr \<Rightarrow> yyscanner \<Rightarrow> yyscanner \<Rightarrow> bool" where
  "changes_only c g g' \<longleftrightarrow> h_stacks g' = h_stacks g \<and> g_buffer_stack g' = g_buffer_stack g \<and>
     (\<forall>p. p \<noteq> c \<longrightarrow> h_bufs g' p = h_bufs g p) \<and> (\<forall>q. q \<noteq> chars_of g c \<longrightarrow> h_chars g' q = h_chars g q) \<and>
     chars_of g' c = chars_of g c \<and> yb_is_our_buffer (the (h_bufs g' c)) = yb_is_our_buffer (the (h_bufs g c))"

text \<open>A buffer that is initialised again, or changed otherwise in place, stays in a well-formed memory.\<close>

lemma mem_ok_change:
  assumes "half_ok g ps c" "h_bufs g c = Some B" "yb_ch_buf B' = yb_ch_buf B" "fst (yb_buf_pos B') = yb_ch_buf B"
    "snd (yb_buf_pos B') < length s" "2 \<le> length s" "h_bufs g' = (h_bufs g)(c \<mapsto> B')" "h_chars g' = (h_chars g)(yb_ch_buf B \<mapsto> s)"
    "g_buffer_stack g' = g_buffer_stack g" "h_stacks g' = h_stacks g" "g_stack_top g' = g_stack_top g" "g_stack_max g' = g_stack_max g"
    "g_c_buf_p g' = Some (yb_ch_buf B, i)" "i < length s"
  shows "mem_ok g' ps (Some c)"
proof -
  from assms(1) have st: "stack_is g ps (Some c)" and ok: "bufs_ok g (ps @ [c])" by (auto simp: half_ok_def)
  have "bufs_ok g' (ps @ [c])" by (rule bufs_ok_change [OF ok assms(2-8)]) simp
  moreover have "stack_is g' ps (Some c)" using stack_is_frame [OF st assms(9-12)] .
  moreover have "chars_of g' c = yb_ch_buf B" using assms(3,7) by (simp add: chars_of_def)
  ultimately show ?thesis using assms(8,13,14) by (simp add: mem_ok_def stands_def)
qed

lemma half_ok_live:
  assumes "half_ok g ps c"
  obtains B x y s where "h_bufs g c = Some B" "h_chars g (yb_ch_buf B) = Some (x # y # s)"
    "fst (yb_buf_pos B) = yb_ch_buf B" "snd (yb_buf_pos B) < Suc (Suc (length s))" "chars_of g c = yb_ch_buf B"
    "YY_CURRENT_BUFFER_LVALUE g = Val (Some c)"
proof -
  from assms have st: "stack_is g ps (Some c)" and "live g c" by (auto simp: half_ok_def bufs_ok_def)
  from this(2) current_stack [OF st] that show thesis by (elim liveE)
qed

lemma init_current:
  assumes "half_ok g ps c"
  shows "\<exists>g'. yy_init_buffer_mem E (Some c) file g = Val g' \<and> mem_ok g' ps (Some c) \<and> changes_only c g g'"
proof -
  from assms obtain B x y s where B: "h_bufs g c = Some B" "h_chars g (yb_ch_buf B) = Some (x # y # s)"
    "chars_of g c = yb_ch_buf B" "YY_CURRENT_BUFFER_LVALUE g = Val (Some c)" by (rule half_ok_live)
  let ?g = "(inited E c B s file True g)\<lparr>g_n_chars := 0, g_c_buf_p := Some (yb_ch_buf B, 0), g_text := Some (yb_ch_buf B, 0),
      g_in := yb_input_file B, g_hold_char := NUL\<rparr>"
  have e: "yy_init_buffer_mem E (Some c) file g = Val ?g"
    using init_buffer [of g "Some c" c B x y s E "file"] assms B by simp
  have "mem_ok ?g ps (Some c)"
    by (rule mem_ok_change [OF assms B(1), where s = "NUL # NUL # s" and i = 0 and B' = "the (h_bufs ?g c)"]) (simp_all add: inited_def)
  then show ?thesis using e B by (intro exI [of _ ?g]) (simp add: inited_def chars_of_def changes_only_def)
qed

lemma flush_current:
  assumes "half_ok g ps c"
  shows "\<exists>g'. yy_flush_buffer_mem (Some c) g = Val g' \<and> mem_ok g' ps (Some c) \<and> changes_only c g g'"
proof -
  from assms obtain B x y s where B: "h_bufs g c = Some B" "h_chars g (yb_ch_buf B) = Some (x # y # s)"
    "chars_of g c = yb_ch_buf B" "YY_CURRENT_BUFFER_LVALUE g = Val (Some c)" by (rule half_ok_live)
  let ?g = "(flushed c B s g)\<lparr>g_n_chars := 0, g_c_buf_p := Some (yb_ch_buf B, 0), g_text := Some (yb_ch_buf B, 0),
      g_in := yb_input_file B, g_hold_char := NUL\<rparr>"
  have e: "yy_flush_buffer_mem (Some c) g = Val ?g"
    using flush_buffer [of g "Some c" c B x y s] assms B by simp
  have "mem_ok ?g ps (Some c)"
    by (rule mem_ok_change [OF assms B(1), where s = "NUL # NUL # s" and i = 0 and B' = "the (h_bufs ?g c)"]) (simp_all add: flushed_def)
  then show ?thesis using e B by (intro exI [of _ ?g]) (simp add: flushed_def chars_of_def changes_only_def)
qed

lemma load_half:
  assumes "half_ok g ps c"
  shows "\<exists>g'. yy_load_buffer_state_mem g = Val g' \<and> mem_ok g' ps (Some c) \<and> changes_only c g g'"
proof -
  from assms obtain B x y s where B: "h_bufs g c = Some B" "h_chars g (yb_ch_buf B) = Some (x # y # s)"
    "fst (yb_buf_pos B) = yb_ch_buf B" "snd (yb_buf_pos B) < Suc (Suc (length s))" "YY_CURRENT_BUFFER_LVALUE g = Val (Some c)"
    by (rule half_ok_live)
  obtain q i where q: "yb_buf_pos B = (q, i)" by (cases "yb_buf_pos B")
  let ?g = "g\<lparr>g_n_chars := yb_n_chars B, g_c_buf_p := Some (q, i), g_text := Some (q, i),
       g_in := yb_input_file B, g_hold_char := (x # y # s) ! i\<rparr>"
  have e: "yy_load_buffer_state_mem g = Val ?g"
    using B q by (simp add: yy_load_buffer_state_mem_def buf_at_def char_at_def)
  have "mem_ok ?g ps (Some c)"
    using load_state [of g ps c, unfolded e mem_post.simps] assms unfolding half_ok_def by blast
  moreover have "changes_only c g ?g" by (simp add: changes_only_def chars_of_def)
  ultimately show ?thesis using e by blast
qed

text \<open>The block that gives a scanner its first buffer.\<close>

lemma need_buffer:
  assumes "malloc_ok E" "mem_ok g ps cur"
  shows "mem_post (yy_need_buffer E g) (\<lambda>g'. \<exists>c. half_ok g' ps c \<and> (cur \<noteq> None \<longrightarrow> cur = Some c \<and> g' = g))"
proof (cases cur)
  case (Some c)
  with assms(2) show ?thesis by (auto simp: yy_need_buffer_def intro: mem_ok_half)
next
  case None
  have "mem_post (mem_bind (yyensure_buffer_stack E g) (\<lambda>g1.
       mem_bind (yy_create_buffer_mem E (g_in g1) YY_BUF_SIZE g1) (\<lambda>(b, g2). set_current (Some b) g2))) (\<lambda>g'. \<exists>c. half_ok g' ps c)"
  proof (rule mem_post_seq [OF ensure_stack [OF assms]], elim conjE)
    fix g1
    assume g1: "stack_is g1 ps cur" "no_stack g1 = no_stack g"
    have "bufs_ok g (ps @ [])" using assms(2) None by (simp add: mem_ok_def)
    then have ok1: "bufs_ok g1 ps" using bufs_ok_frame no_stack_fields [OF g1(2)] by simp
    have "YY_CURRENT_BUFFER g1 = Val None" using g1(1) None by simp
    from create_buffer [OF assms(1) this, of "g_in g1" YY_BUF_SIZE] show
      "mem_post (mem_bind (yy_create_buffer_mem E (g_in g1) YY_BUF_SIZE g1) (\<lambda>(b, g2). set_current (Some b) g2)) (\<lambda>g'. \<exists>c. half_ok g' ps c)"
    proof (rule mem_post_seq, simp, simp, clarsimp)
      fix b g2
      assume ad: "adds_buffer g1 b g2"
      then have "no_heap g2 = no_heap g1" by (simp add: adds_buffer_def)
      from g1(1) [folded no_heap_stack [OF this]] None have "stack_is g2 ps None" by simp
      from set_current_stack' [OF this, of "Some b"] obtain t where
        t: "set_current (Some b) g2 = Val (g2\<lparr>h_stacks := t\<rparr>)" "stack_is (g2\<lparr>h_stacks := t\<rparr>) ps (Some b)" by blast
      have "half_ok (g2\<lparr>h_stacks := t\<rparr>) ps b" using t(2) adds_buffer_bufs(1) [OF ad ok1] by (simp add: half_ok_def)
      then show "mem_post (set_current (Some b) g2) (\<lambda>g'. \<exists>c. half_ok g' ps c)" unfolding t(1) mem_post.simps by (rule exI)
    qed
  qed
  then show ?thesis using assms(2) None by (simp add: yy_need_buffer_def)
qed

lemma begin_scan:
  assumes "malloc_ok E" "mem_ok g ps cur"
  shows "mem_post (yylex_begin E g) (\<lambda>g'. \<exists>c. mem_ok g' ps c)"
proof (cases "g_init g")
  case True
  then show ?thesis using assms(2) by (auto simp: yylex_begin_def)
next
  case False
  let ?g = "g\<lparr>g_init := True, g_start := (if g_start g = 0 then 1 else g_start g),
              g_in := (if g_in g = None then Some (ye_stdin E) else g_in g),
              g_out := (if g_out g = None then Some (ye_stdout E) else g_out g)\<rparr>"
  have "mem_ok ?g ps cur"
    using assms(2) bufs_ok_frame [of g _ ?g] by (auto simp: mem_ok_def stack_is_def stands_def chars_of_def)
  from mem_post_seq [OF need_buffer [OF assms(1) this], of yy_load_buffer_state_mem "\<lambda>g'. \<exists>c. mem_ok g' ps c"]
  have "mem_post (mem_bind (yy_need_buffer E ?g) yy_load_buffer_state_mem) (\<lambda>g'. \<exists>c. mem_ok g' ps c)"
    using load_half by fastforce
  then show ?thesis using False by (simp add: yylex_begin_def Let_def)
qed

lemma restart_scan:
  assumes "malloc_ok E" "mem_ok g ps cur"
  shows "mem_post (yyrestart_mem E f g) (\<lambda>g'. \<exists>c. mem_ok g' ps c)"
  unfolding yyrestart_mem_def
proof (rule mem_post_seq [OF need_buffer [OF assms]], elim exE conjE)
  fix g1 c
  assume h: "half_ok g1 ps c"
  from init_current [OF h, of E f] obtain g2 where
    "yy_init_buffer_mem E (Some c) f g1 = Val g2" "mem_ok g2 ps (Some c)" by blast
  moreover from load_half [OF mem_ok_half [OF this(2)]] obtain g3 where
    "yy_load_buffer_state_mem g2 = Val g3" "mem_ok g3 ps (Some c)" by blast
  ultimately show "mem_post (mem_bind (YY_CURRENT_BUFFER g1) (\<lambda>c. mem_bind (yy_init_buffer_mem E c f g1) yy_load_buffer_state_mem))
      (\<lambda>g'. \<exists>c. mem_ok g' ps c)"
    using h by auto
qed

lemma make_current:
  assumes "stack_is g ps x" "bufs_ok g (ps @ [b])"
  shows "mem_post (mem_bind (set_current (Some b) g) (\<lambda>g3.
      mem_bind (yy_load_buffer_state_mem g3) (\<lambda>g4. Val (g4\<lparr>g_did_switch := True\<rparr>))))
    (\<lambda>g'. mem_ok g' ps (Some b) \<and> h_bufs g' = h_bufs g \<and> h_chars g' = h_chars g)"
proof -
  from set_current_stack' [OF assms(1), of "Some b"] obtain t where
    t: "set_current (Some b) g = Val (g\<lparr>h_stacks := t\<rparr>)" "stack_is (g\<lparr>h_stacks := t\<rparr>) ps (Some b)" by blast
  from assms(2) have "bufs_ok (g\<lparr>h_stacks := t\<rparr>) (ps @ [b])" by simp
  from load_state [OF t(2) this]
  have "mem_post (yy_load_buffer_state_mem (g\<lparr>h_stacks := t\<rparr>))
      (\<lambda>g'. mem_ok (g'\<lparr>g_did_switch := True\<rparr>) ps (Some b) \<and> h_bufs g' = h_bufs g \<and> h_chars g' = h_chars g)"
    by (rule mem_post_mono) (simp add: did_switch_ok)
  then show ?thesis by (simp add: t(1))
qed

lemma switch_buffer:
  assumes "malloc_ok E" "mem_ok g ps cur" "bufs_ok g (ps @ opt_list cur @ [b])"
  shows "mem_post (yy_switch_to_buffer E (Some b) g) (\<lambda>g'. mem_ok g' ps (Some b))"
  unfolding yy_switch_to_buffer_def
proof (rule mem_post_seq [OF ensure_stack [OF assms(1,2)]], elim conjE)
  fix g1
  assume g1: "stack_is g1 ps cur" "no_stack g1 = no_stack g"
  note f = no_stack_fields [OF g1(2)]
  have ok1: "bufs_ok g1 (ps @ opt_list cur @ [b])" by (rule bufs_ok_frame [OF assms(3) f(1,2)])
  have "stands g1 cur" using assms(2) f by (auto simp: mem_ok_def stands_def chars_of_def)
  from leave_buffer [OF g1(1) ok1 _ this] obtain g2 where
    g2: "yy_leave_buffer g1 = Val g2" "no_heap g2 = no_heap g1" "bufs_ok g2 (ps @ opt_list cur @ [b])" by auto
  from g1(1) [folded no_heap_stack [OF g2(2)]] have st2: "stack_is g2 ps cur" .
  have "cur \<noteq> Some b" using bufs_ok_distinct [OF assms(3)] by auto
  have "bufs_ok g2 (ps @ [b])" using g2(3) by (auto simp: bufs_ok_def)
  from make_current [OF st2 this] have "mem_post (mem_bind (set_current (Some b) g2) (\<lambda>g3.
       mem_bind (yy_load_buffer_state_mem g3) (\<lambda>g4. Val (g4\<lparr>g_did_switch := True\<rparr>)))) (\<lambda>g'. mem_ok g' ps (Some b))"
    by (rule mem_post_mono) simp
  with \<open>cur \<noteq> Some b\<close> show "mem_post (mem_bind (YY_CURRENT_BUFFER g1) (\<lambda>c. if c = Some b then Val g1
     else mem_bind (yy_leave_buffer g1) (\<lambda>g2. mem_bind (set_current (Some b) g2) (\<lambda>g3.
       mem_bind (yy_load_buffer_state_mem g3) (\<lambda>g4. Val (g4\<lparr>g_did_switch := True\<rparr>)))))) (\<lambda>g'. mem_ok g' ps (Some b))"
    using g1(1) g2(1) by (simp del: mem_post_bind)
qed

text \<open>Fields of a buffer that do not matter to the memory.\<close>

lemma update_buf_ok:
  assumes "mem_ok g ps cur" "h_bufs g b = Some B" "\<And>B. yb_ch_buf (f B) = yb_ch_buf B" "\<And>B. yb_buf_pos (f B) = yb_buf_pos B"
  shows "\<exists>g'. update_buf (Some b) f g = Val g' \<and> mem_ok g' ps cur"
proof (intro exI conjI)
  let ?g = "g\<lparr>h_bufs := (h_bufs g)(b \<mapsto> f B)\<rparr>"
  show "update_buf (Some b) f g = Val ?g" by (rule update_buf_eq [OF assms(2)])
  have c: "chars_of ?g = chars_of g" using assms(2,3) by (simp add: chars_of_def fun_eq_iff)
  have l: "live g p \<Longrightarrow> live ?g p" for p using assms(2-4) by (auto simp: live_def)
  show "mem_ok ?g ps cur" using assms(1) l unfolding mem_ok_def bufs_ok_def stands_def c
    by (auto simp: stack_is_def)
qed

lemma scan_bytes:
  assumes "malloc_ok E" "mem_ok g ps cur"
  shows "mem_post (yy_scan_bytes E s g) (\<lambda>(b, g'). b \<noteq> None \<and> mem_ok g' ps b)"
proof (cases "yyalloc E (length s + 2) g")
  case None
  then show ?thesis by (simp add: yy_scan_bytes_def)
next
  case (Some buf)
  note buf = yyalloc_fresh [OF assms(1) Some]
  define g1 where "g1 = g\<lparr>h_chars := (h_chars g)(buf \<mapsto> s @ [NUL, NUL])\<rparr>"
  have ends: "char_at g1 (Some (buf, length s)) = Val NUL" "char_at g1 (Some (buf, Suc (length s))) = Val NUL"
    by (simp_all add: char_at_def g1_def nth_append)
  show ?thesis
  proof (cases "yyalloc E (ye_sizeof_buffer E) g1")
    case None
    then show ?thesis using Some ends
      by (simp add: yy_scan_bytes_def yy_scan_buffer_def g1_def [symmetric])
  next
    case (Some b)
    note b = yyalloc_fresh [OF assms(1) Some]
    define B where "B = (ye_fresh E)\<lparr>yb_buf_size := length s, yb_buf_pos := (buf, 0), yb_ch_buf := buf,
        yb_is_our_buffer := False, yb_input_file := None, yb_n_chars := length s,
        yb_is_interactive := False, yb_at_bol := True, yb_fill_buffer := False, yb_status := YY_BUFFER_NEW\<rparr>"
    define g2 where "g2 = g1\<lparr>h_bufs := (h_bufs g1)(b \<mapsto> B)\<rparr>"
    have scan: "yy_scan_bytes E s g = mem_bind (mem_bind (yy_switch_to_buffer E (Some b) g2) (\<lambda>g1. Val (Some b, g1)))
        (\<lambda>(b, g1). if b = None then Fatal else mem_bind (update_buf b (yb_is_our_buffer_update (\<lambda>_. True)) g1) (\<lambda>g2. Val (b, g2)))"
      using \<open>yyalloc E (length s + 2) g = Some buf\<close> Some ends
      by (simp add: yy_scan_bytes_def yy_scan_buffer_def B_def g2_def g1_def [symmetric])
    obtain x y r where "s @ [NUL, NUL] = x # y # r" by (cases s; cases "tl s") auto
    then have "h_chars g2 = (h_chars g)(yb_ch_buf B \<mapsto> x # y # r)" by (simp add: g2_def g1_def B_def)
    moreover have "h_bufs g2 = (h_bufs g)(b \<mapsto> B)" "no_heap g2 = no_heap g" by (simp_all add: g2_def g1_def no_heap_def)
    moreover have "h_bufs g b = None" "h_chars g (yb_ch_buf B) = None" "yb_buf_pos B = (yb_ch_buf B, 0)"
      using buf b by (auto simp: in_use_def g1_def B_def)
    ultimately have "adds_buffer g b g2" unfolding adds_buffer_def by blast
    note ok = adds_buffer_ok [OF this assms(2)]
    have "mem_post (yy_switch_to_buffer E (Some b) g2) (\<lambda>g'. mem_ok g' ps (Some b))"
      using switch_buffer [OF assms(1), of g2 ps cur b] ok by blast
    then have "mem_post (yy_switch_to_buffer E (Some b) g2)
        (\<lambda>g'. mem_post (update_buf (Some b) (yb_is_our_buffer_update (\<lambda>_. True)) g') (\<lambda>g'. mem_ok g' ps (Some b)))"
    proof (rule mem_post_mono)
      fix g'
      assume g': "mem_ok g' ps (Some b)"
      then obtain C where C: "h_bufs g' b = Some C" by (auto simp: mem_ok_def bufs_ok_def live_def)
      from update_buf_ok [OF g' C, of "yb_is_our_buffer_update (\<lambda>_. True)"] obtain g'' where
        "update_buf (Some b) (yb_is_our_buffer_update (\<lambda>_. True)) g' = Val g''" "mem_ok g'' ps (Some b)" by auto
      then show "mem_post (update_buf (Some b) (yb_is_our_buffer_update (\<lambda>_. True)) g') (\<lambda>g'. mem_ok g' ps (Some b))" by simp
    qed
    then show ?thesis unfolding scan by simp
  qed
qed

end
