(* ===== verification/Lexer_Client.thy ===== *)
theory Lexer_Client
  imports Lexer_Heap
begin

text \<open>
  Clients of the scanner: runs of calls on a new scanner, what destroying it leaves allocated, and that
  the scanner with one buffer of the theory \<open>Lexer\<close> is what one sees of the memory.
\<close>

section \<open>Clients\<close>

text \<open>
  What a client may call. \<open>Scanned\<close> is what the automaton does to the current buffer when it does not
  move it: its characters change in place and the scanner stands somewhere in it. \<open>Push\<close> and \<open>Switch\<close>
  give the scanner a buffer that was just made for a file.
\<close>

datatype client_op =
    Begin
  | Restart "ptr option"
  | Flush
  | Scanned string nat char nat
  | Push "ptr option" nat
  | Switch "ptr option" nat
  | Pop
  | Scan string
  | Lineno int
  | Column int

definition scan_moved :: "string \<Rightarrow> nat \<Rightarrow> char \<Rightarrow> nat \<Rightarrow> yyscanner \<Rightarrow> yyscanner mem" where
  "scan_moved s i x n g =
     mem_bind (YY_CURRENT_BUFFER g) (\<lambda>c.
     if c = None then Val g
     else
       mem_bind (buf_at g c) (\<lambda>B.
       Val (if i < length s \<and> map_option length (h_chars g (yb_ch_buf B)) = Some (length s)
         then g\<lparr>h_chars := (h_chars g)(yb_ch_buf B \<mapsto> s), g_n_chars := n, g_hold_char := x, g_c_buf_p := Some (yb_ch_buf B, i)\<rparr>
         else g)))"

fun client_step :: "yyenv \<Rightarrow> client_op \<Rightarrow> yyscanner \<Rightarrow> yyscanner mem" where
  "client_step E Begin g = yylex_begin E g"
| "client_step E (Restart f) g = yyrestart_mem E f g"
| "client_step E Flush g = mem_bind (YY_CURRENT_BUFFER g) (\<lambda>c. yy_flush_buffer_mem c g)"
| "client_step E (Scanned s i x n) g = scan_moved s i x n g"
| "client_step E (Push f n) g = mem_bind (yy_create_buffer_mem E f n g) (\<lambda>(b, g1). yypush_buffer_state E (Some b) g1)"
| "client_step E (Switch f n) g = mem_bind (yy_create_buffer_mem E f n g) (\<lambda>(b, g1). yy_switch_to_buffer E (Some b) g1)"
| "client_step E Pop g = yypop_buffer_state g"
| "client_step E (Scan s) g = mem_bind (yy_scan_string E s g) (\<lambda>(b, g1). Val g1)"
| "client_step E (Lineno n) g = yyset_lineno n g"
| "client_step E (Column n) g = yyset_column n g"

fun client_run :: "yyenv \<Rightarrow> client_op list \<Rightarrow> yyscanner \<Rightarrow> yyscanner mem" where
  "client_run E [] g = Val g"
| "client_run E (op # ops) g = mem_bind (client_step E op g) (client_run E ops)"

lemma scan_moved_ok:
  assumes "mem_ok g ps cur"
  shows "\<exists>g'. scan_moved s i x n g = Val g' \<and> mem_ok g' ps cur \<and> (\<forall>c. cur = Some c \<longrightarrow> changes_only c g g') \<and> (cur = None \<longrightarrow> g' = g)"
proof (cases cur)
  case None
  with assms show ?thesis by (simp add: scan_moved_def)
next
  case (Some c)
  with assms have h: "half_ok g ps c" by (simp add: mem_ok_half)
  then obtain B y z r where B: "h_bufs g c = Some B" "h_chars g (yb_ch_buf B) = Some (y # z # r)"
    "fst (yb_buf_pos B) = yb_ch_buf B" "snd (yb_buf_pos B) < Suc (Suc (length r))" "chars_of g c = yb_ch_buf B"
    by (rule half_ok_live)
  let ?g = "g\<lparr>h_chars := (h_chars g)(yb_ch_buf B \<mapsto> s), g_n_chars := n, g_hold_char := x, g_c_buf_p := Some (yb_ch_buf B, i)\<rparr>"
  have e: "scan_moved s i x n g = Val (if i < length s \<and> Suc (Suc (length r)) = length s then ?g else g)"
    using assms Some B(1,2) by (simp add: scan_moved_def buf_at_def cong: if_cong)
  have "changes_only c g ?g" "changes_only c g g" using B(5) by (simp_all add: changes_only_def chars_of_def)
  moreover have "mem_ok ?g ps (Some c)" if "i < length s" "Suc (Suc (length r)) = length s"
    by (rule mem_ok_change [OF h B(1) refl B(3), where s = s and i = i]) (use B(4) that fun_upd_idem [of "h_bufs g", OF B(1)] in simp_all)
  ultimately show ?thesis using e assms Some by auto
qed

lemma create_buffer_client:
  assumes "malloc_ok E" "mem_ok g ps cur"
  shows "mem_post (yy_create_buffer_mem E f n g) (\<lambda>(b, g'). mem_ok g' ps cur \<and> bufs_ok g' (ps @ opt_list cur @ [b]))"
proof (rule mem_post_mono [OF create_buffer [OF assms(1), of g cur f n]])
  show "YY_CURRENT_BUFFER g = Val cur" using assms(2) by simp
  show "cur \<noteq> None \<longrightarrow> YY_CURRENT_BUFFER_LVALUE g = Val cur" using assms(2) current_stack by (auto simp: mem_ok_def)
  show "\<forall>p. cur = Some p \<longrightarrow> h_bufs g p \<noteq> None" using assms(2) by (auto simp: mem_ok_def bufs_ok_def live_def)
qed (use adds_buffer_ok assms(2) in auto)

lemma client_step_ok:
  assumes "malloc_ok E" "mem_ok g ps cur"
  shows "mem_post (client_step E op g) (\<lambda>g'. \<exists>ps' cur'. mem_ok g' ps' cur')"
proof -
  note create = create_buffer_client [OF assms]
  have set: "mem_post (if cur = None then Fatal else update_buf cur f g) (\<lambda>g'. \<exists>ps' cur'. mem_ok g' ps' cur')"
    if "\<And>B. yb_ch_buf (f B) = yb_ch_buf B" "\<And>B. yb_buf_pos (f B) = yb_buf_pos B" for f
  proof (cases cur)
    case (Some c)
    with assms(2) obtain B where "h_bufs g c = Some B" by (auto simp: mem_ok_def bufs_ok_def live_def)
    from update_buf_ok [OF assms(2) this, of f] that obtain g' where "update_buf (Some c) f g = Val g'" "mem_ok g' ps cur" by blast
    then show ?thesis using Some by auto
  qed simp
  show ?thesis
  proof (cases op)
    case Begin
    show ?thesis unfolding Begin client_step.simps by (rule mem_post_mono [OF begin_scan [OF assms]]) blast
  next
    case (Restart f)
    show ?thesis unfolding Restart client_step.simps by (rule mem_post_mono [OF restart_scan [OF assms]]) blast
  next
    case Flush
    show ?thesis
    proof (cases cur)
      case None
      then show ?thesis using Flush assms(2) by (auto simp: yy_flush_buffer_mem_def)
    next
      case (Some c)
      from flush_current [OF mem_ok_half [OF assms(2) [unfolded Some]]] obtain g' where
        "yy_flush_buffer_mem (Some c) g = Val g'" "mem_ok g' ps (Some c)" by blast
      then show ?thesis using Flush Some assms(2) by auto
    qed
  next
    case (Scanned s i x n)
    from scan_moved_ok [OF assms(2), of s i x n] obtain g' where "scan_moved s i x n g = Val g'" "mem_ok g' ps cur" by blast
    then show ?thesis using Scanned by (simp, blast)
  next
    case (Push f n)
    have "mem_post (client_step E op g) (\<lambda>g'. \<exists>b. mem_ok g' (ps @ opt_list cur) (Some b))" unfolding Push client_step.simps
      by (rule mem_post_seq [OF create]) (use push_buffer [OF assms(1)] in \<open>force intro: mem_post_mono\<close>)
    then show ?thesis by (rule mem_post_mono) blast
  next
    case (Switch f n)
    have "mem_post (client_step E op g) (\<lambda>g'. \<exists>b. mem_ok g' ps (Some b))" unfolding Switch client_step.simps
      by (rule mem_post_seq [OF create]) (use switch_buffer [OF assms(1)] in \<open>force intro: mem_post_mono\<close>)
    then show ?thesis by (rule mem_post_mono) blast
  next
    case Pop
    show ?thesis
    proof (cases cur)
      case None
      then show ?thesis using Pop assms(2) pop_nothing by auto
    next
      case (Some c)
      show ?thesis unfolding Pop client_step.simps
        by (rule mem_post_mono [OF pop_buffer [OF assms(2) [unfolded Some]]]) blast
    qed
  next
    case (Scan s)
    have "mem_post (client_step E op g) (\<lambda>g'. \<exists>b. mem_ok g' ps b)" unfolding Scan client_step.simps yy_scan_string_def
      by (rule mem_post_seq [OF scan_bytes [OF assms]]) auto
    then show ?thesis by (rule mem_post_mono) blast
  next
    case (Lineno n)
    then show ?thesis using set [of "yb_bs_lineno_update (\<lambda>_. n)"] assms(2) by (simp add: yyset_lineno_def)
  next
    case (Column n)
    then show ?thesis using set [of "yb_bs_column_update (\<lambda>_. n)"] assms(2) by (simp add: yyset_column_def)
  qed
qed

lemma client_run_ok:
  assumes "malloc_ok E"
  shows "mem_ok g ps cur \<Longrightarrow> mem_post (client_run E ops g) (\<lambda>g'. \<exists>ps' cur'. mem_ok g' ps' cur')"
proof (induction ops arbitrary: g ps cur)
  case Nil
  then show ?case by auto
next
  case (Cons op ops)
  show ?case unfolding client_run.simps
    by (rule mem_post_seq [OF client_step_ok [OF assms Cons.prems]]) (use Cons.IH in blast)
qed

section \<open>Destroying a scanner\<close>

lemma destroy_nothing: "YY_CURRENT_BUFFER g = Val None \<Longrightarrow> destroy_buffers g = Some (Val g)"
  by (subst destroy_buffers.simps) simp

text \<open>The loop deletes the current buffer and stops: the place of the top is then empty, so nothing is popped.\<close>

lemma destroy_current:
  assumes "mem_ok g ps (Some c)"
  shows "\<exists>g'. destroy_buffers g = Some (Val g') \<and> without c g g' \<and> g_buffer_stack g' = g_buffer_stack g \<and>
    (\<forall>s. g_buffer_stack g = Some s \<longrightarrow> h_stacks g' s \<noteq> None \<and> (\<forall>p. p \<noteq> s \<longrightarrow> h_stacks g' p = h_stacks g p))"
proof -
  from assms have st: "stack_is g ps (Some c)" and ok: "bufs_ok g (ps @ [c])" by (auto simp: mem_ok_def)
  from delete_current [OF st ok] obtain g1 where
    g1: "yy_delete_buffer (Some c) g = Val g1" "stack_is g1 ps None" "without c g g1"
      "g_buffer_stack g1 = g_buffer_stack g" "\<forall>p. g_buffer_stack g \<noteq> Some p \<longrightarrow> h_stacks g1 p = h_stacks g p" by blast
  from g1(2) obtain s k where s: "g_buffer_stack g1 = Some s" "h_stacks g1 s = Some (map Some ps @ None # replicate k None)"
    "g_stack_top g1 = length ps" by (auto simp: stack_is_def)
  let ?g = "g1\<lparr>h_stacks := (h_stacks g1)(s \<mapsto> map Some ps @ None # replicate k None)\<rparr>"
  have sc: "set_current None g1 = Val ?g"
    using s current_stack [OF g1(2)] by (simp add: set_current_def list_update_append)
  have cur: "YY_CURRENT_BUFFER ?g = Val None"
    by (rule current_stack' [OF stack_is_frame [OF g1(2), of ?g]]) (simp_all add: fun_upd_idem s(2))
  have "destroy_buffers g = destroy_buffers ?g"
    using current_ok [OF assms] g1(1) sc cur by (subst destroy_buffers.simps) (simp add: yypop_buffer_state_def)
  also have "\<dots> = Some (Val ?g)" by (rule destroy_nothing [OF cur])
  finally have d: "destroy_buffers g = Some (Val ?g)" .
  have sg: "g_buffer_stack g = Some s" using s(1) g1(4) by simp
  have "\<forall>p. p \<noteq> s \<longrightarrow> h_stacks g1 p = h_stacks g p" using g1(5) sg by simp
  moreover have "without c g ?g" using g1(3) by (simp add: without_def)
  ultimately show ?thesis using d sg s(1) by (intro exI [of _ ?g]) simp
qed

text \<open>What is freed: the array of the stack and the buffer at its top.\<close>

definition only_top_freed :: "yyscanner \<Rightarrow> ptr option \<Rightarrow> yyheap \<Rightarrow> bool" where
  "only_top_freed g cur h \<longleftrightarrow>
     (\<forall>p. h_bufs h p = (if cur = Some p then None else h_bufs g p)) \<and>
     (\<forall>q. h_chars h q =
        (if cur \<noteq> None \<and> q = chars_of g (the cur) \<and> yb_is_our_buffer (the (h_bufs g (the cur))) then None else h_chars g q)) \<and>
     (\<forall>s. h_stacks h s = (if g_buffer_stack g = Some s then None else h_stacks g s))"

lemma destroy_scanner:
  assumes "mem_ok g ps cur"
  shows "\<exists>h. yylex_destroy g = Some (Val (0, h)) \<and> only_top_freed g cur h"
proof (cases "g_buffer_stack g")
  case None
  then have "cur = None" using assms by (auto simp: mem_ok_def stack_is_def)
  then show ?thesis using assms None destroy_nothing [of g]
    by (simp add: yylex_destroy_def free_stack_def only_top_freed_def yy_init_globals_def yyheap.defs)
next
  case (Some s)
  obtain g' where g': "destroy_buffers g = Some (Val g')" "g_buffer_stack g' = Some s" "h_stacks g' s \<noteq> None"
    "\<forall>p. p \<noteq> s \<longrightarrow> h_stacks g' p = h_stacks g p" "case cur of None \<Rightarrow> g' = g | Some c \<Rightarrow> without c g g'"
  proof (cases cur)
    case None
    then have "h_stacks g s \<noteq> None" using assms Some by (auto simp: mem_ok_def stack_is_def)
    moreover have "destroy_buffers g = Some (Val g)" using assms None by (intro destroy_nothing) simp
    ultimately show thesis using that [of g] None Some by simp
  next
    case (Some c)
    with destroy_current [of g ps c] assms \<open>g_buffer_stack g = Some s\<close> that show thesis by auto
  qed
  let ?h = "yyheap.truncate (yy_init_globals (g'\<lparr>h_stacks := (h_stacks g')(s := None), g_buffer_stack := None\<rparr>))"
  have "yylex_destroy g = Some (Val (0, ?h))"
    using g'(1-3) by (simp add: yylex_destroy_def free_stack_def cong: option.case_cong)
  moreover have "only_top_freed g cur ?h"
    using g'(4,5) Some by (auto simp: only_top_freed_def yy_init_globals_def yyheap.defs without_def split: option.splits)
  ultimately show ?thesis by blast
qed

section \<open>A scanner with one buffer\<close>


text \<open>The blocks of the scanner are apart from those of the heap \<open>h\<close>, and the others are as there.\<close>

definition owns :: "yyheap \<Rightarrow> yyscanner \<Rightarrow> ptr option \<Rightarrow> bool" where
  "owns h g cur \<longleftrightarrow>
     (\<forall>p. cur \<noteq> Some p \<longrightarrow> h_bufs g p = h_bufs h p) \<and>
     (\<forall>q. (\<forall>c. cur = Some c \<longrightarrow> q \<noteq> chars_of g c) \<longrightarrow> h_chars g q = h_chars h q) \<and>
     (\<forall>s. g_buffer_stack g \<noteq> Some s \<longrightarrow> h_stacks g s = h_stacks h s) \<and>
     (\<forall>c. cur = Some c \<longrightarrow> h_bufs h c = None \<and> h_chars h (chars_of g c) = None \<and> yb_is_our_buffer (the (h_bufs g c))) \<and>
     (\<forall>s. g_buffer_stack g = Some s \<longrightarrow> h_stacks h s = None) \<and> (cur = None \<longrightarrow> g_buffer_stack g = None)"



definition sole :: "yyheap \<Rightarrow> yyscanner \<Rightarrow> bool" where
  "sole h g \<longleftrightarrow> (\<exists>cur. mem_ok g [] cur \<and> owns h g cur)"









text \<open>A fresh scanner owns nothing.\<close>

lemma fresh_scanner:
  assumes "yylex_init_extra E u h = (0, Some g)"
  shows "mem_ok g [] None \<and> sole h g"
proof -
  from assms have g: "g = yy_init_globals (yyset_extra u (zero_scanner h))" by (auto simp: yylex_init_extra_def split: option.splits)
  have "h_bufs g = h_bufs h" "h_chars g = h_chars h" "h_stacks g = h_stacks h" "g_buffer_stack g = None"
    by (simp_all add: g yy_init_globals_def yyset_extra_def zero_scanner_def yyheap.defs yyscanner.defs)
  then show ?thesis by (auto simp: sole_def owns_def mem_ok_def bufs_ok_def stands_def)
qed


section \<open>The scanner with one buffer that one sees\<close>

















text \<open>A buffer that is pushed is new, and the one that was current is kept below it.\<close>

lemma push_step:
  assumes "malloc_ok E" "mem_ok g ps cur"
  shows "mem_post (client_step E (Push f n) g) (\<lambda>g'. \<exists>b. mem_ok g' (ps @ opt_list cur) (Some b))"
proof -
  have "mem_post (yy_create_buffer_mem E f n g) (\<lambda>(b, g'). mem_ok g' ps cur \<and> bufs_ok g' (ps @ opt_list cur @ [b]))"
    by (rule mem_post_mono [OF create_buffer_client [OF assms]]) blast
  then show ?thesis unfolding client_step.simps
    by (rule mem_post_seq) (use push_buffer [OF assms(1)] in \<open>force intro: mem_post_mono\<close>)
qed

lemma destroy_below:
  assumes "mem_ok g ps (Some b)" "c \<in> set ps"
  shows "\<exists>h. yylex_destroy g = Some (Val (0, h)) \<and> h_bufs h c = h_bufs g c \<and> h_bufs h c \<noteq> None \<and> h_chars h (chars_of g c) \<noteq> None"
proof -
  from destroy_scanner [OF assms(1)] obtain h where h: "yylex_destroy g = Some (Val (0, h))" "only_top_freed g (Some b) h" by blast
  from assms have ok: "bufs_ok g (ps @ [b])" by (simp add: mem_ok_def)
  with assms(2) have "live g c" by (simp add: bufs_ok_def)
  then obtain B x y s where B: "h_bufs g c = Some B" "h_chars g (chars_of g c) = Some (x # y # s)" by (rule liveE) simp
  have "chars_of g b \<notin> chars_of g ` set ps" using ok by (simp add: bufs_ok_def)
  with imageI [OF assms(2), of "chars_of g"] have "chars_of g c \<noteq> chars_of g b" by metis
  moreover from this have "c \<noteq> b" by metis
  ultimately show ?thesis using h B by (simp add: only_top_freed_def)
qed

section \<open>Properties\<close>

text \<open>A small environment: eight blocks can be allocated, the file 5 is a terminal.\<close>

definition small_env :: yyenv where
  "small_env =
     \<lparr>ye_malloc = (\<lambda>n used. find (\<lambda>p. \<not> used p) [0, 1, 2, 3, 4, 5, 6, 7]), ye_realloc = (\<lambda>q n used. Some q),
      ye_fresh = \<lparr>yb_input_file = None, yb_ch_buf = 0, yb_buf_pos = (0, 0), yb_buf_size = 0, yb_n_chars = 0,
        yb_is_our_buffer = False, yb_is_interactive = False, yb_at_bol = False, yb_bs_lineno = 0,
        yb_bs_column = 0, yb_fill_buffer = False, yb_status = YY_BUFFER_NORMAL\<rparr>,
      ye_fresh_char = (\<lambda>i. NUL), ye_sizeof_guts = 144, ye_sizeof_buffer = 64, ye_sizeof_ptr = 8,
      ye_isatty = (\<lambda>p. p = 5), ye_stdin = 1, ye_stdout = 2\<rparr>"

definition no_blocks :: yyheap where
  "no_blocks = \<lparr>h_bufs = (\<lambda>_. None), h_chars = (\<lambda>_. None), h_stacks = (\<lambda>_. None)\<rparr>"

lemma small_env_ok: "malloc_ok small_env"
  by (auto simp: malloc_ok_def small_env_def split: if_split_asm)

text \<open>The definitions that a run of calls unfolds to.\<close>

lemmas run_defs = small_env_def no_blocks_def zero_scanner_def yyheap.defs yyscanner.defs yyset_extra_def yy_init_globals_def
  yylex_init_extra_def yyalloc_def in_use_def YY_CURRENT_BUFFER_def YY_CURRENT_BUFFER_LVALUE_def stack_of_def buf_at_def update_buf_def
  char_at_def put_char_def set_current_def free_chars_def free_buf_def yy_load_buffer_state_mem_def yyensure_buffer_stack_def
  yy_flush_buffer_mem_def yy_init_buffer_mem_def yy_create_buffer_mem_def yy_delete_buffer_def yy_leave_buffer_def
  yy_switch_to_buffer_def yypush_buffer_state_def yypop_buffer_state_def yy_scan_buffer_def yy_scan_bytes_def yy_scan_string_def
  yyset_lineno_def yylex_begin_def yy_need_buffer_def yyrestart_mem_def size_t_def

lemma small_init: "yylex_init_extra small_env None no_blocks = (0, Some (yy_init_globals (zero_scanner no_blocks)))"
  by (simp add: run_defs)





text \<open>The buffers below the top of the stack are not freed: after the top is deleted its place is empty, so
  \<open>yypop_buffer_state\<close> returns at once and the loop of \<open>yylex_destroy\<close> ends.
\<close>

theorem yylex_destroy_leaks:
  assumes "malloc_ok E" "yylex_init_extra E u h = (0, Some g)" "client_run E ops g = Val g1"
    and "YY_CURRENT_BUFFER g1 = Val (Some c)" "client_step E (Push f n) g1 = Val g2"
  shows "\<exists>h'. yylex_destroy g2 = Some (Val (0, h')) \<and> h_bufs h' c \<noteq> None \<and> h_chars h' (chars_of g2 c) \<noteq> None"
proof -
  have "mem_post (client_run E ops g) (\<lambda>g'. \<exists>ps cur. mem_ok g' ps cur)"
    using client_run_ok [OF assms(1)] fresh_scanner [OF assms(2)] by blast
  then obtain ps cur where ok: "mem_ok g1 ps cur" using assms(3) by auto
  with assms(4) have "cur = Some c" by (simp add: current_ok [OF ok])
  with push_step [OF assms(1) ok, of f n, unfolded assms(5) mem_post.simps] obtain b where "mem_ok g2 (ps @ [c]) (Some b)" by auto
  from destroy_below [OF this, of c] show ?thesis by auto
qed

theorem yylex_destroy_leaks_witness:
  "\<exists>g g1 g2 h'. yylex_init_extra small_env None no_blocks = (0, Some g) \<and>
     client_run small_env [Push (Some 6) 0] g = Val g1 \<and> client_step small_env (Push (Some 7) 0) g1 = Val g2 \<and>
     yylex_destroy g2 = Some (Val (0, h')) \<and> h_bufs h' 0 \<noteq> h_bufs no_blocks 0"
proof -
  have "\<exists>g1 g2. client_run small_env [Push (Some 6) 0] (yy_init_globals (zero_scanner no_blocks)) = Val g1 \<and>
      YY_CURRENT_BUFFER g1 = Val (Some 0) \<and> client_step small_env (Push (Some 7) 0) g1 = Val g2"
    by (simp add: run_defs)
  then obtain g1 g2 where r: "client_run small_env [Push (Some 6) 0] (yy_init_globals (zero_scanner no_blocks)) = Val g1"
    "YY_CURRENT_BUFFER g1 = Val (Some 0)" "client_step small_env (Push (Some 7) 0) g1 = Val g2" by blast
  from yylex_destroy_leaks [OF small_env_ok small_init r] r small_init show ?thesis by (auto simp: no_blocks_def)
qed



end
