(* ===== verification/Monitor.thy ===== *)
theory Monitor
  imports Daemon
begin

text \<open>
  The bandwidth monitor of \<open>main.c\<close>, the program that the daemon grew out of. The build does not compile
  it, and its header \<open>bwd.h\<close>, its tries, its array of bits and the reader of its configuration are not in
  the repository. So the structures have the fields that \<open>main.c\<close> uses; the comparison of a rate with a
  limit and the sums of the counters, whose types are those of the header, and the functions of the
  missing files are parts of an environment. Each operation is given as a single thread runs it; the
  messages to the log and the debugging output are left out.
\<close>

section \<open>State\<close>

datatype mon_action = ACTION_INIT | ACTION_FINISH | ACTION_NEW | ACTION_DEL | ACTION_DUMP

datatype flow_dir = FLOW_DIR_SRC | FLOW_DIR_DST

datatype addr_family = AF_INET | AF_INET6

text \<open>The first prefix of a node; \<open>main.c\<close> uses no other one.\<close>

record ip_prefix =
  pf_af :: addr_family
  pf_flow_dir :: flow_dir
  pf_ip :: "u8 list"
  pf_prefixlen :: int

text \<open>A rule with its counters. \<open>sn_limit\<close> stands for the limit and the threshold.\<close>

record 'l stat_node =
  sn_id :: int
  sn_next_node :: "ptr option"
  sn_window_size :: int
  sn_remove_delay :: int
  sn_limit :: 'l
  sn_last_updated :: int
  sn_window_reset :: int
  sn_time_reported :: int
  sn_stats_bytes :: int
  sn_stats_pkts :: int
  sn_dynamic_ipv4 :: int
  sn_dynamic_ipv6 :: int
  sn_num_prefixes :: int
  sn_prefix :: ip_prefix

record ('b, 't) options =
  op_debug :: int
  op_debug_fromarg :: int
  op_foreground :: int
  op_device :: string
  op_device_fromarg :: int
  op_config_file :: string
  op_dbdump_file :: string
  op_statistic_file :: string
  op_pid_file :: string
  op_pid_file_fromarg :: int
  op_exec_new :: string
  op_exec_del :: string
  op_exec_init :: string
  op_exec_finish :: string
  op_window_size :: int
  op_remove_delay :: int
  op_expire_interval :: int
  op_statistic_interval :: int
  op_statistic_last :: int
  op_statistic_rules :: int
  op_statistic_active :: int
  op_statistic_dynamic :: int
  op_statistic_bytes :: int
  op_statistic_pkts :: int
  op_ids :: 'b
  op_id_num :: int
  op_id_last :: int
  op_id_offset :: int
  op_root_node :: "ptr option"
  op_trie4 :: "flow_dir \<Rightarrow> 't"
  op_trie6 :: "flow_dir \<Rightarrow> 't"

text \<open>
  The nodes, the commands that were run with the text each got on its standard input, the number of
  calls of \<open>popen\<close>, the number of readings of the clock, the text files, and the three flags that the
  signals set.
\<close>

record ('l, 'b, 't) monitor =
  m_opt :: "('b, 't) options"
  m_nodes :: "ptr \<Rightarrow> 'l stat_node option"
  m_cmds :: "(string \<times> string) list"
  m_popens :: nat
  m_ticks :: nat
  m_files :: "string \<Rightarrow> string option"
  m_proc :: process
  received_hup :: bool
  received_usr1 :: bool
  received_term :: bool

text \<open>
  The environment: whether a node with these bytes, this window and this limit is over it (or a
  division by 0), the conversions of the counters to their types, the array of bits, the tries, the
  text that \<open>stat_node_log\<close> writes, the creation of a node, the reader of the configuration, the size of
  a string, and the results of the system.
\<close>

record ('l, 'b, 't) mon_env =
  me_over :: "int \<Rightarrow> int \<Rightarrow> 'l \<Rightarrow> bool res"
  me_bytes :: "int \<Rightarrow> int"
  me_pkts :: "int \<Rightarrow> int"
  me_total :: "int \<Rightarrow> int"
  me_get :: "'b \<Rightarrow> int \<Rightarrow> int"
  me_set :: "'b \<Rightarrow> int \<Rightarrow> int \<Rightarrow> 'b"
  me_init :: "int \<Rightarrow> 'b option"
  me_add_prefix :: "u8 list \<Rightarrow> int \<Rightarrow> ptr \<Rightarrow> 't \<Rightarrow> 't"
  me_lookup :: "u8 list \<Rightarrow> int \<Rightarrow> 't \<Rightarrow> ptr option"
  me_log :: "mon_action \<Rightarrow> ('b, 't) options \<Rightarrow> 'l stat_node \<Rightarrow> string"
  me_node_new :: "('b, 't) options \<times> (ptr \<Rightarrow> 'l stat_node option) \<Rightarrow>
     ptr option \<times> ('b, 't) options \<times> (ptr \<Rightarrow> 'l stat_node option)"
  me_parse_config :: "('l, 'b, 't) monitor \<Rightarrow> int \<times> ('l, 'b, 't) monitor"
  me_MAX_STRING :: nat
  me_popen :: "nat \<Rightarrow> string \<Rightarrow> bool"
  me_pclose :: "nat \<Rightarrow> string \<Rightarrow> int"
  me_time :: "nat \<Rightarrow> int"
  me_fopen :: "string \<Rightarrow> bool"
  me_getpid :: int
  me_fork :: int
  me_setsid :: int
  me_posix :: bool
  me_pcap :: "string \<Rightarrow> bool"

definition node_at :: "('l, 'b, 't) monitor \<Rightarrow> ptr \<Rightarrow> 'l stat_node res" where
  "node_at m p = (case m_nodes m p of None \<Rightarrow> Inl UseAfterFree | Some n \<Rightarrow> Inr n)"

definition set_node :: "ptr \<Rightarrow> 'l stat_node \<Rightarrow> ('l, 'b, 't) monitor \<Rightarrow> ('l, 'b, 't) monitor" where
  "set_node p n m = m\<lparr>m_nodes := (m_nodes m)(p \<mapsto> n)\<rparr>"

definition mon_time :: "('l, 'b, 't) mon_env \<Rightarrow> ('l, 'b, 't) monitor \<Rightarrow> int \<times> ('l, 'b, 't) monitor" where
  "mon_time E m = (me_time E (m_ticks m), m\<lparr>m_ticks := m_ticks m + 1\<rparr>)"

section \<open>Signals\<close>

definition terminates :: "('l, 'b, 't) monitor \<Rightarrow> ('l, 'b, 't) monitor" where
  "terminates m = m\<lparr>received_term := True\<rparr>"

definition sig_usr1 :: "('l, 'b, 't) monitor \<Rightarrow> ('l, 'b, 't) monitor" where
  "sig_usr1 m = m\<lparr>received_usr1 := True\<rparr>"

definition sig_hup :: "('l, 'b, 't) monitor \<Rightarrow> ('l, 'b, 't) monitor" where
  "sig_hup m = m\<lparr>received_hup := True\<rparr>"

section \<open>Identifiers and commands\<close>

text \<open>
  The loop that looks for a free identifier: whether it finds one, and where it stops. The counter of
  its rounds is the bound of its length.
\<close>

function next_id_loop :: "('l, 'b, 't) mon_env \<Rightarrow> int \<Rightarrow> 'b \<Rightarrow> int \<Rightarrow> int \<Rightarrow> bool \<times> int" where
  "next_id_loop E id_num ids cur i =
     (if me_get E ids cur \<noteq> 0 then
        let nxt = (if cur + 1 \<ge> id_num then 0 else cur + 1) in
        if i + 1 > id_num then (False, nxt) else next_id_loop E id_num ids nxt (i + 1)
      else (True, cur))"
  by pat_completeness auto
termination
  by (relation "measure (\<lambda>(E, id_num, ids, cur, i). nat (id_num + 1 - i))") auto

declare next_id_loop.simps [simp del]

definition get_next_id :: "('l, 'b, 't) mon_env \<Rightarrow> ('b, 't) options \<Rightarrow> int \<times> ('b, 't) options" where
  "get_next_id E opt =
     (if op_id_num opt = 0 then (0, opt)
      else
        case next_id_loop E (op_id_num opt) (op_ids opt) (op_id_last opt) 0 of
          (False, cur) \<Rightarrow> (0, opt\<lparr>op_id_last := cur\<rparr>)
        | (True, cur) \<Rightarrow> (cur, opt\<lparr>op_id_last := cur, op_ids := me_set E (op_ids opt) cur 1\<rparr>))"

text \<open>A command with the text it gets: \<open>popen\<close>, \<open>fprintf\<close>, \<open>pclose\<close>. The result says whether it was run with the code 0.\<close>

definition run_cmd :: "('l, 'b, 't) mon_env \<Rightarrow> string \<Rightarrow> string \<Rightarrow> ('l, 'b, 't) monitor \<Rightarrow> int \<times> ('l, 'b, 't) monitor" where
  "run_cmd E cmd inp m =
     (let n = m_popens m; m1 = m\<lparr>m_popens := n + 1\<rparr> in
      if \<not> me_popen E n cmd then (0, m1)
      else (if me_pclose E n cmd \<noteq> 0 then 0 else 1, m1\<lparr>m_cmds := m_cmds m1 @ [(cmd, inp)]\<rparr>))"

definition exec_cmd :: "('l, 'b, 't) mon_env \<Rightarrow> mon_action \<Rightarrow> ('l, 'b, 't) monitor \<Rightarrow> int \<times> ('l, 'b, 't) monitor" where
  "exec_cmd E action m =
     (let opt = m_opt m; inp = ''device: '' @ op_device opt @ newline in
      case action of
        ACTION_INIT \<Rightarrow> run_cmd E (c_snprintf (me_MAX_STRING E) (op_exec_init opt @ '' '' @ ''init'')) inp m
      | ACTION_FINISH \<Rightarrow> run_cmd E (c_snprintf (me_MAX_STRING E) (op_exec_finish opt @ '' '' @ ''finish'')) inp m
      | _ \<Rightarrow> (0, m))"

text \<open>The node gets an identifier before the command is made, and gives it back after the command succeeded.\<close>

definition take_id :: "('l, 'b, 't) mon_env \<Rightarrow> ptr \<Rightarrow> ('l, 'b, 't) monitor \<Rightarrow> ('l, 'b, 't) monitor res" where
  "take_id E p m =
     (if op_id_num (m_opt m) = 0 then Inr m
      else
        let (i, opt) = get_next_id E (m_opt m) in
        res_bind (node_at m p) (\<lambda>n. Inr (set_node p (n\<lparr>sn_id := i + op_id_offset opt\<rparr>) (m\<lparr>m_opt := opt\<rparr>))))"

definition release_id :: "('l, 'b, 't) mon_env \<Rightarrow> ptr \<Rightarrow> ('l, 'b, 't) monitor \<Rightarrow> ('l, 'b, 't) monitor res" where
  "release_id E p m =
     (let opt = m_opt m in
      if op_id_num opt = 0 then Inr m
      else
        res_bind (node_at m p) (\<lambda>n.
        Inr (set_node p (n\<lparr>sn_id := 0\<rparr>) (m\<lparr>m_opt := opt\<lparr>op_ids := me_set E (op_ids opt) (sn_id n - op_id_offset opt) 0\<rparr>\<rparr>))))"

definition exec_node_cmd ::
  "('l, 'b, 't) mon_env \<Rightarrow> ptr \<Rightarrow> mon_action \<Rightarrow> ('l, 'b, 't) monitor \<Rightarrow> (int \<times> ('l, 'b, 't) monitor) res" where
  "exec_node_cmd E p action m =
     res_bind (if action = ACTION_NEW then take_id E p m else Inr m) (\<lambda>m1.
     res_bind (node_at m1 p) (\<lambda>n.
     let opt = m_opt m1;
         word = (case action of ACTION_NEW \<Rightarrow> Some ''new'' | ACTION_DEL \<Rightarrow> Some ''del'' | _ \<Rightarrow> None)
     in
     case word of
       None \<Rightarrow> Inr (0, m1)
     | Some w \<Rightarrow>
         let cmd = c_snprintf (me_MAX_STRING E) (op_exec_new opt @ '' '' @ w @ '' '' @ fmt_d (sn_id n));
             (r, m2) = run_cmd E cmd (me_log E action opt n) m1
         in if r = 0 then Inr (0, m2)
            else res_bind (if action = ACTION_DEL then release_id E p m2 else Inr m2) (\<lambda>m3. Inr (1, m3))))"

section \<open>Counters and limits\<close>

definition update_stats ::
  "('l, 'b, 't) mon_env \<Rightarrow> int \<Rightarrow> int \<Rightarrow> ptr \<Rightarrow> ('l, 'b, 't) monitor \<Rightarrow> ('l, 'b, 't) monitor res" where
  "update_stats E bytes pkts p m =
     res_bind (node_at m p) (\<lambda>n.
     let (t, m1) = mon_time E m;
         n1 = n\<lparr>sn_last_updated := t, sn_stats_bytes := me_bytes E (sn_stats_bytes n + bytes),
               sn_stats_pkts := me_pkts E (sn_stats_pkts n + pkts)\<rparr>;
         n2 = (if sn_last_updated n1 \<ge> sn_window_reset n1 + sn_window_size n1
               then n1\<lparr>sn_window_reset := sn_last_updated n1, sn_stats_bytes := 0, sn_stats_pkts := 0\<rparr>
               else n1)
     in Inr (set_node p n2 m1))"

definition add_active :: "int \<Rightarrow> ('l, 'b, 't) monitor \<Rightarrow> ('l, 'b, 't) monitor" where
  "add_active d m = m\<lparr>m_opt := (m_opt m)\<lparr>op_statistic_active := op_statistic_active (m_opt m) + d\<rparr>\<rparr>"

definition set_reported :: "ptr \<Rightarrow> int \<Rightarrow> ('l, 'b, 't) monitor \<Rightarrow> ('l, 'b, 't) monitor res" where
  "set_reported p t m = res_bind (node_at m p) (\<lambda>n. Inr (set_node p (n\<lparr>sn_time_reported := t\<rparr>) m))"

definition eval_node :: "('l, 'b, 't) mon_env \<Rightarrow> ptr \<Rightarrow> ('l, 'b, 't) monitor \<Rightarrow> (bool \<times> ('l, 'b, 't) monitor) res" where
  "eval_node E p m =
     res_bind (node_at m p) (\<lambda>n.
     res_bind (me_over E (sn_stats_bytes n) (sn_window_size n) (sn_limit n)) (\<lambda>over.
     if over then
       res_bind
         (if sn_time_reported n = 0
          then res_bind (exec_node_cmd E p ACTION_NEW m) (\<lambda>(r, m1). Inr (True, add_active 1 m1))
          else Inr (False, m)) (\<lambda>(updated, m1).
       res_bind (set_reported p (sn_last_updated n) m1) (\<lambda>m2. Inr (updated, m2)))
     else if sn_time_reported n \<noteq> 0 \<and> sn_time_reported n + sn_remove_delay n < sn_last_updated n \<and>
         sn_last_updated n \<ge> sn_window_reset n + sn_window_size n then
       res_bind (exec_node_cmd E p ACTION_DEL m) (\<lambda>(r, m1).
       res_bind (set_reported p 0 (add_active (- 1) m1)) (\<lambda>m2. Inr (True, m2)))
     else Inr (False, m)))"

definition UPDATES_IN_STEP :: nat where
  "UPDATES_IN_STEP = 50"

text \<open>The walk over the list of nodes ends after more than \<open>UPDATES_IN_STEP\<close> changes.\<close>

partial_function (option) eval_list ::
  "('l, 'b, 't) mon_env \<Rightarrow> nat \<Rightarrow> ptr option \<Rightarrow> ('l, 'b, 't) monitor \<Rightarrow> ('l, 'b, 't) monitor res option" where
  "eval_list E i node m =
     (case node of
        None \<Rightarrow> Some (Inr m)
      | Some p \<Rightarrow>
          (case eval_node E p m of
             Inl e \<Rightarrow> Some (Inl e)
           | Inr (updated, m1) \<Rightarrow>
               (case node_at m1 p of
                  Inl e \<Rightarrow> Some (Inl e)
                | Inr n \<Rightarrow>
                    let i' = (if updated then i + 1 else i) in
                    if i' > UPDATES_IN_STEP then Some (Inr m1) else eval_list E i' (sn_next_node n) m1)))"

definition eval_nodes :: "('l, 'b, 't) mon_env \<Rightarrow> ('l, 'b, 't) monitor \<Rightarrow> ('l, 'b, 't) monitor res option" where
  "eval_nodes E m = eval_list E 0 (op_root_node (m_opt m)) m"


section \<open>Reports\<close>

text \<open>The text of all nodes of the list, with the numbers of all and of the active ones.\<close>

partial_function (option) dump_list ::
  "('l, 'b, 't) mon_env \<Rightarrow> ('l, 'b, 't) monitor \<Rightarrow> ptr option \<Rightarrow> string \<times> int \<times> int \<Rightarrow> (string \<times> int \<times> int) res option" where
  "dump_list E m node x =
     (case node of
        None \<Rightarrow> Some (Inr x)
      | Some p \<Rightarrow>
          (case node_at m p of
             Inl e \<Rightarrow> Some (Inl e)
           | Inr n \<Rightarrow>
               let (s, i, j) = x in
               dump_list E m (sn_next_node n)
                 (s @ me_log E ACTION_DUMP (m_opt m) n @ newline, i + 1, if sn_time_reported n \<noteq> 0 then j + 1 else j)))"

definition dump_nodes_db :: "('l, 'b, 't) mon_env \<Rightarrow> ('l, 'b, 't) monitor \<Rightarrow> ('l, 'b, 't) monitor res option" where
  "dump_nodes_db E m =
     (let name = op_dbdump_file (m_opt m) in
      if \<not> me_fopen E name then Some (Inr m)
      else
        Option.bind (dump_list E m (op_root_node (m_opt m)) ('''', 0, 0)) (\<lambda>r.
        Some (res_bind r (\<lambda>(s, i, j).
          Inr (m\<lparr>m_files := (m_files m)(name \<mapsto>
            s @ ''# total rules: '' @ fmt_d i @ newline @ ''# active rules: '' @ fmt_d j @ newline)\<rparr>)))))"

definition statistic_text :: "('b, 't) options \<Rightarrow> string" where
  "statistic_text opt =
     ''total rules: '' @ fmt_d (op_statistic_rules opt) @ newline @
     ''active rules: '' @ fmt_d (op_statistic_active opt) @ newline @
     ''dynamic rules: '' @ fmt_d (op_statistic_dynamic opt) @ newline @
     ''bytes: '' @ dec_of_nat (nat (op_statistic_bytes opt)) @ newline @
     ''pkts: '' @ dec_of_nat (nat (op_statistic_pkts opt)) @ newline"

definition update_statistic_file :: "('l, 'b, 't) mon_env \<Rightarrow> ('l, 'b, 't) monitor \<Rightarrow> ('l, 'b, 't) monitor" where
  "update_statistic_file E m =
     (let opt = m_opt m; name = op_statistic_file opt in
      if op_statistic_interval opt = 0 then m
      else if \<not> me_fopen E name then m
      else m\<lparr>m_files := (m_files m)(name \<mapsto> statistic_text opt)\<rparr>)"

section \<open>Packets\<close>

text \<open>A block of bytes that starts at an offset of a packet.\<close>

definition bytes_at :: "u8 list \<Rightarrow> nat \<Rightarrow> nat \<Rightarrow> u8 list res" where
  "bytes_at p i n = (if i + n \<le> length p then Inr (take n (drop i p)) else Inl OutOfBounds)"

definition ntohs_at :: "u8 list \<Rightarrow> nat \<Rightarrow> int res" where
  "ntohs_at p i = res_bind (bytes_at p i 2) (\<lambda>b. Inr (256 * uint (b ! 0) + uint (b ! 1)))"

text \<open>
  A packet to or from a prefix of a rule with dynamic rules makes a rule of its own: a copy of the rule
  with one prefix, of the address of the packet.
\<close>

definition add_dynamic_node ::
  "('l, 'b, 't) mon_env \<Rightarrow> ptr \<Rightarrow> addr_family \<Rightarrow> u8 list \<Rightarrow> flow_dir \<Rightarrow> ('l, 'b, 't) monitor \<Rightarrow>
     (ptr option \<times> ('l, 'b, 't) monitor) res" where
  "add_dynamic_node E parent af addr flow_dir m =
     (case me_node_new E (m_opt m, m_nodes m) of
        (None, opt, nodes) \<Rightarrow> Inr (None, m\<lparr>m_opt := opt, m_nodes := nodes\<rparr>)
      | (Some p, opt, nodes) \<Rightarrow>
          let m1 = m\<lparr>m_opt := opt, m_nodes := nodes\<rparr> in
          res_bind (node_at m1 p) (\<lambda>new.
          res_bind (node_at m1 parent) (\<lambda>par.
          res_bind (bytes_at addr 0 (if af = AF_INET then 4 else 16)) (\<lambda>ip.
          let prefixlen = (if af = AF_INET then sn_dynamic_ipv4 par else sn_dynamic_ipv6 par);
              n = par\<lparr>sn_next_node := sn_next_node new, sn_dynamic_ipv4 := 0, sn_dynamic_ipv6 := 0, sn_num_prefixes := 1,
                    sn_prefix := \<lparr>pf_af = af, pf_flow_dir = flow_dir, pf_ip = ip, pf_prefixlen = prefixlen\<rparr>\<rparr>;
              opt1 = (if af = AF_INET
                then opt\<lparr>op_trie4 := (op_trie4 opt)(flow_dir := me_add_prefix E ip prefixlen p (op_trie4 opt flow_dir))\<rparr>
                else opt\<lparr>op_trie6 := (op_trie6 opt)(flow_dir := me_add_prefix E ip prefixlen p (op_trie6 opt flow_dir))\<rparr>)
          in Inr (Some p, set_node p n (m1\<lparr>m_opt := opt1\<lparr>op_statistic_dynamic := op_statistic_dynamic opt1 + 1\<rparr>\<rparr>))))))"

definition add_packet ::
  "('l, 'b, 't) mon_env \<Rightarrow> addr_family \<Rightarrow> flow_dir \<Rightarrow> u8 list \<Rightarrow> int \<Rightarrow> int \<Rightarrow> ('l, 'b, 't) monitor \<Rightarrow>
     ('l, 'b, 't) monitor res" where
  "add_packet E af flow_dir addr bytes pkts m =
     (let (addrlen, trie) = (if af = AF_INET then (4, op_trie4 (m_opt m) flow_dir) else (16, op_trie6 (m_opt m) flow_dir)) in
      res_bind (bytes_at addr 0 addrlen) (\<lambda>a.
      case me_lookup E a (int addrlen * 8) trie of
        None \<Rightarrow> Inr m
      | Some p \<Rightarrow>
          res_bind (node_at m p) (\<lambda>n.
          if sn_dynamic_ipv4 n \<noteq> 0 \<or> sn_dynamic_ipv6 n \<noteq> 0
          then res_bind (add_dynamic_node E p af addr flow_dir m) (\<lambda>(q, m1). Inr m1)
          else update_stats E bytes pkts p m)))"

text \<open>The header of IP: its length field is at 2, the addresses at 12 and 16; that of Ethernet has 14 bytes, the type at 12.\<close>

definition process_ip :: "('l, 'b, 't) mon_env \<Rightarrow> u8 list \<Rightarrow> ('l, 'b, 't) monitor \<Rightarrow> ('l, 'b, 't) monitor res" where
  "process_ip E data m =
     res_bind (ntohs_at data 2) (\<lambda>len.
     let opt = m_opt m;
         m1 = m\<lparr>m_opt := opt\<lparr>op_statistic_bytes := me_total E (op_statistic_bytes opt + len),
               op_statistic_pkts := me_total E (op_statistic_pkts opt + 1)\<rparr>\<rparr>
     in res_bind (bytes_at data 12 4) (\<lambda>src.
        res_bind (add_packet E AF_INET FLOW_DIR_SRC src len 1 m1) (\<lambda>m2.
        res_bind (bytes_at data 16 4) (\<lambda>dst.
        add_packet E AF_INET FLOW_DIR_DST dst len 1 m2))))"

definition ETHERTYPE_IP :: int where
  "ETHERTYPE_IP = 0x0800"

definition ETHERTYPE_VLAN :: int where
  "ETHERTYPE_VLAN = 0x8100"

definition process_eth :: "('l, 'b, 't) mon_env \<Rightarrow> u8 list \<Rightarrow> ('l, 'b, 't) monitor \<Rightarrow> ('l, 'b, 't) monitor res" where
  "process_eth E p m =
     res_bind (ntohs_at p 12) (\<lambda>ether_type.
     if ether_type = ETHERTYPE_IP then process_ip E (drop 14 p) m
     else if ether_type = ETHERTYPE_VLAN then process_ip E (drop (14 + 4) p) m
     else Inr m)"

text \<open>The thread that listens, over the packets that it gets: \<open>None\<close> when the device cannot be opened, which ends the process.\<close>

fun process_all :: "('l, 'b, 't) mon_env \<Rightarrow> u8 list list \<Rightarrow> ('l, 'b, 't) monitor \<Rightarrow> ('l, 'b, 't) monitor res" where
  "process_all E [] m = Inr m"
| "process_all E (p # ps) m = res_bind (process_eth E p m) (process_all E ps)"

definition listen_bpf :: "('l, 'b, 't) mon_env \<Rightarrow> u8 list list \<Rightarrow> ('l, 'b, 't) monitor \<Rightarrow> ('l, 'b, 't) monitor phase res" where
  "listen_bpf E ps m =
     (if \<not> me_pcap E (op_device (m_opt m)) then Inr (Ended 1 m) else map_sum id Goes_on (process_all E ps m))"

section \<open>The main program\<close>

text \<open>The default of the threshold belongs to the parameter of the limits.\<close>

definition mon_default :: "'b \<Rightarrow> (flow_dir \<Rightarrow> 't) \<Rightarrow> ('b, 't) options" where
  "mon_default ids tries =
     \<lparr>op_debug = 0, op_debug_fromarg = 0, op_foreground = 0, op_device = '''', op_device_fromarg = 0,
      op_config_file = ''/etc/bwd/bwd.conf'', op_dbdump_file = ''/tmp/bwd.dbdump'',
      op_statistic_file = ''/var/run/bwd.statistics'', op_pid_file = ''/var/run/bwd.pid'', op_pid_file_fromarg = 0,
      op_exec_new = ''/etc/bwd/bwd-new.sh'', op_exec_del = ''/etc/bwd/bwd-del.sh'',
      op_exec_init = ''/etc/bwd/bwd-init.sh'', op_exec_finish = ''/etc/bwd/bwd-finish.sh'',
      op_window_size = 1, op_remove_delay = 60, op_expire_interval = 60, op_statistic_interval = 10,
      op_statistic_last = 0, op_statistic_rules = 0, op_statistic_active = 0, op_statistic_dynamic = 0,
      op_statistic_bytes = 0, op_statistic_pkts = 0, op_ids = ids, op_id_num = 10000, op_id_last = 0,
      op_id_offset = 10, op_root_node = None, op_trie4 = tries, op_trie6 = tries\<rparr>"

definition mon_option :: "nat \<Rightarrow> char \<times> string \<Rightarrow> ('l, 'b, 't) monitor \<Rightarrow> ('l, 'b, 't) monitor phase" where
  "mon_option room x m =
     (let (op, optarg) = x; opt = m_opt m in
      if op = CHR ''i'' then
        Goes_on (m\<lparr>m_opt := opt\<lparr>op_device := c_strncpy optarg room, op_device_fromarg := 1\<rparr>\<rparr>)
      else if op = CHR ''c'' then Goes_on (m\<lparr>m_opt := opt\<lparr>op_config_file := c_strncpy optarg room\<rparr>\<rparr>)
      else if op = CHR ''p'' then
        Goes_on (m\<lparr>m_opt := opt\<lparr>op_pid_file := c_strncpy optarg room, op_pid_file_fromarg := 1\<rparr>\<rparr>)
      else if op = CHR ''d'' then Goes_on (m\<lparr>m_opt := opt\<lparr>op_debug := c_atoi optarg, op_debug_fromarg := 1\<rparr>\<rparr>)
      else if op = CHR ''F'' then
        Goes_on (m\<lparr>m_opt := opt\<lparr>op_foreground := 1, op_debug := (if op_debug_fromarg opt = 0 then 1 else op_debug opt)\<rparr>\<rparr>)
      else if op = CHR ''h'' \<or> op = CHR ''?'' then
        let (n, p) = show_help (msg_init 1 (m_proc m))
        in Ended n (m\<lparr>m_opt := opt\<lparr>op_debug := 1, op_foreground := 1\<rparr>, m_proc := p\<rparr>)
      else Goes_on m)"

fun mon_options :: "nat \<Rightarrow> (char \<times> string) list \<Rightarrow> ('l, 'b, 't) monitor \<Rightarrow> ('l, 'b, 't) monitor phase" where
  "mon_options room [] m = Goes_on m"
| "mon_options room (x # xs) m =
     (case mon_option room x m of Goes_on m' \<Rightarrow> mon_options room xs m' | Ended n m' \<Rightarrow> Ended n m')"

definition mon_mkpidfile :: "('l, 'b, 't) mon_env \<Rightarrow> ('l, 'b, 't) monitor \<Rightarrow> int \<times> ('l, 'b, 't) monitor" where
  "mon_mkpidfile E m =
     (let name = op_pid_file (m_opt m) in
      if \<not> me_fopen E name then (0, m)
      else (1, m\<lparr>m_files := (m_files m)(name \<mapsto> fmt_d (me_getpid E) @ newline)\<rparr>))"

text \<open>\<open>main\<close> up to the creation of the thread, whose failure only makes a message.\<close>

definition mon_process :: "('l, 'b, 't) mon_env \<Rightarrow> ('l, 'b, 't) monitor \<Rightarrow> ('l, 'b, 't) monitor phase" where
  "mon_process E m =
     (let p = msg_init (op_debug (m_opt m)) (m_proc m) in
      if op_foreground (m_opt m) = 0 then
        (case daemonize (me_fork E) (me_setsid E) p of
           (Ends n, p') \<Rightarrow> Ended n (m\<lparr>m_proc := p'\<rparr>)
         | (Returns r, p') \<Rightarrow> if r = 0 then Ended 1 (m\<lparr>m_proc := p'\<rparr>) else Goes_on (m\<lparr>m_proc := p'\<rparr>))
      else Goes_on (m\<lparr>m_proc := p\<rparr>))"

definition mon_ids :: "('l, 'b, 't) mon_env \<Rightarrow> ('l, 'b, 't) monitor \<Rightarrow> ('l, 'b, 't) monitor" where
  "mon_ids E m =
     (let opt = m_opt m in
      m\<lparr>m_opt := (case me_init E (op_id_num opt) of None \<Rightarrow> opt\<lparr>op_id_num := 0\<rparr> | Some b \<Rightarrow> opt\<lparr>op_ids := b\<rparr>)\<rparr>)"

definition mon_start :: "('l, 'b, 't) mon_env \<Rightarrow> string list \<Rightarrow> ('l, 'b, 't) monitor \<Rightarrow> ('l, 'b, 't) monitor phase" where
  "mon_start E argv m =
     (case mon_options (me_MAX_STRING E) (getopt (me_posix E) argv) m of
        Ended n m1 \<Rightarrow> Ended n m1
      | Goes_on m1 \<Rightarrow>
          (case mon_process E m1 of
             Ended n m2 \<Rightarrow> Ended n m2
           | Goes_on m2 \<Rightarrow>
               let m3 = snd (mon_mkpidfile E m2); (r, m4) = me_parse_config E m3 in
               if r = 0 then Ended 1 m4
               else Goes_on (snd (exec_cmd E ACTION_INIT (mon_ids E m4)))))"

text \<open>One round of the main loop. The signals set the flags between the rounds.\<close>

definition mon_statistics :: "('l, 'b, 't) mon_env \<Rightarrow> ('l, 'b, 't) monitor \<Rightarrow> ('l, 'b, 't) monitor" where
  "mon_statistics E m =
     (let (t, m1) = mon_time E m in
      if op_statistic_interval (m_opt m1) + op_statistic_last (m_opt m1) < t then
        let m2 = update_statistic_file E m1; (t', m3) = mon_time E m2
        in m3\<lparr>m_opt := (m_opt m3)\<lparr>op_statistic_last := t'\<rparr>\<rparr>
      else m1)"

definition mon_reload :: "('l, 'b, 't) mon_env \<Rightarrow> ('l, 'b, 't) monitor \<Rightarrow> ('l, 'b, 't) monitor" where
  "mon_reload E m =
     (if \<not> received_term m \<and> received_hup m then snd (me_parse_config E (m\<lparr>received_hup := False\<rparr>)) else m)"

definition mon_dump :: "('l, 'b, 't) mon_env \<Rightarrow> ('l, 'b, 't) monitor \<Rightarrow> ('l, 'b, 't) monitor res option" where
  "mon_dump E m =
     (if \<not> received_term m \<and> received_usr1 m then dump_nodes_db E (m\<lparr>received_usr1 := False\<rparr>) else Some (Inr m))"

definition mon_terminate :: "('l, 'b, 't) mon_env \<Rightarrow> ('l, 'b, 't) monitor \<Rightarrow> ('l, 'b, 't) monitor phase" where
  "mon_terminate E m =
     (if received_term m then
        let m1 = snd (exec_cmd E ACTION_FINISH (m\<lparr>received_term := False\<rparr>))
        in Ended 0 (m1\<lparr>m_files := (m_files m1)(op_pid_file (m_opt m1) := None)\<rparr>)
      else Goes_on m)"

definition mon_round :: "('l, 'b, 't) mon_env \<Rightarrow> ('l, 'b, 't) monitor \<Rightarrow> ('l, 'b, 't) monitor phase res option" where
  "mon_round E m =
     Option.bind (if received_term m then Some (Inr m) else eval_nodes E m) (\<lambda>r.
     case r of
       Inl e \<Rightarrow> Some (Inl e)
     | Inr m1 \<Rightarrow>
         Option.bind (mon_dump E (mon_reload E (mon_statistics E m1))) (\<lambda>r.
         Some (map_sum id (mon_terminate E) r)))"

end
