(* ===== verification/Monitor_Rules.thy ===== *)
theory Monitor_Rules
  imports Monitor
begin

text \<open>
  What holds of the bandwidth monitor: which identifier a rule gets, that the rules that are reported
  have identifiers of their own whatever is counted and evaluated, how many commands one evaluation of
  all rules runs, how much of a packet is read, and what a command that fails leaves behind.
\<close>

section \<open>The search for an identifier\<close>

definition slot :: "int \<Rightarrow> int \<Rightarrow> nat \<Rightarrow> int" where
  "slot id_num cur k = (cur + int k) mod id_num"

lemma slot_0 [simp]: "0 \<le> cur \<Longrightarrow> cur < id_num \<Longrightarrow> slot id_num cur 0 = cur"
  by (simp add: slot_def)


text \<open>One round moves to the next identifier.\<close>

lemma slot_next:
  assumes "0 \<le> cur" "cur < id_num"
  shows "slot id_num (if cur + 1 \<ge> id_num then 0 else cur + 1) k = slot id_num cur (Suc k)"
proof -
  have "(cur + (1 + int k)) mod id_num = ((cur + 1) mod id_num + int k) mod id_num"
    by (simp add: mod_add_left_eq add.assoc)
  also have "(cur + 1) mod id_num = (if cur + 1 \<ge> id_num then 0 else cur + 1)"
    using assms by (cases "cur + 1 = id_num") auto
  finally show ?thesis by (simp add: slot_def)
qed

lemma next_id_found:
  assumes "0 \<le> cur" "cur < id_num" "me_get E ids (slot id_num cur k) = 0" "\<forall>j < k. me_get E ids (slot id_num cur j) \<noteq> 0"
    and "i + int k \<le> id_num"
  shows "next_id_loop E id_num ids cur i = (True, slot id_num cur k)"
  using assms
proof (induction k arbitrary: cur i)
  case 0
  then show ?case by (subst next_id_loop.simps) simp
next
  case (Suc k)
  let ?nxt = "if cur + 1 \<ge> id_num then 0 else cur + 1"
  have "me_get E ids cur \<noteq> 0" using Suc.prems(1,2,4) by (metis slot_0 zero_less_Suc)
  moreover have "\<not> i + 1 > id_num" using Suc.prems(5) by simp
  moreover have "next_id_loop E id_num ids ?nxt (i + 1) = (True, slot id_num ?nxt k)"
  proof (rule Suc.IH)
    show "me_get E ids (slot id_num ?nxt k) = 0" using Suc.prems(3) slot_next [OF Suc.prems(1,2), of k] by simp
    show "\<forall>j < k. me_get E ids (slot id_num ?nxt j) \<noteq> 0" using Suc.prems(4) slot_next [OF Suc.prems(1,2)] by simp
  qed (use Suc.prems in auto)
  ultimately show ?case
    using slot_next [OF Suc.prems(1,2), of k] by (subst next_id_loop.simps) (simp add: Let_def)
qed

lemma next_id_none:
  "\<forall>j. 0 \<le> j \<and> j < id_num \<longrightarrow> me_get E ids j \<noteq> 0 \<Longrightarrow> 0 \<le> cur \<Longrightarrow> cur < id_num \<Longrightarrow> fst (next_id_loop E id_num ids cur i) = False"
proof (induction E id_num ids cur i rule: next_id_loop.induct)
  case (1 E id_num ids cur i)
  then show ?case by (subst next_id_loop.simps) (simp add: Let_def)
qed

text \<open>Every identifier is met within \<open>id_num\<close> rounds, so one that is free is found.\<close>

lemma slot_onto:
  assumes "0 \<le> cur" "cur < id_num" "0 \<le> j" "j < id_num"
  shows "\<exists>k. int k < id_num \<and> slot id_num cur k = j"
proof (cases "cur \<le> j")
  case True
  then show ?thesis using assms by (intro exI [of _ "nat (j - cur)"]) (simp add: slot_def)
next
  case False
  then show ?thesis using assms by (intro exI [of _ "nat (j + id_num - cur)"]) (simp add: slot_def)
qed

lemma next_id_first:
  assumes "0 \<le> cur" "cur < id_num" "0 \<le> j" "j < id_num" "me_get E ids j = 0"
  shows "\<exists>k. next_id_loop E id_num ids cur 0 = (True, slot id_num cur k) \<and> me_get E ids (slot id_num cur k) = 0 \<and>
    (\<forall>l < k. me_get E ids (slot id_num cur l) \<noteq> 0)"
proof -
  let ?P = "\<lambda>k. me_get E ids (slot id_num cur k) = 0"
  from slot_onto [OF assms(1-4)] obtain k0 where k0: "int k0 < id_num" "?P k0" using assms(5) by blast
  define k where "k = (LEAST k. ?P k)"
  have k: "?P k" "k \<le> k0" unfolding k_def by (rule LeastI [of ?P, OF k0(2)], rule Least_le [of ?P, OF k0(2)])
  have l: "\<not> ?P l" if "l < k" for l using that unfolding k_def by (rule not_less_Least)
  have "next_id_loop E id_num ids cur 0 = (True, slot id_num cur k)"
    by (rule next_id_found [OF assms(1,2) k(1)]) (use k0(1) k(2) l in auto)
  with k(1) l show ?thesis by blast
qed

text \<open>What one relies on of the array of bits, for the identifiers below a bound.\<close>

definition bits_ok :: "('l, 'b, 't) mon_env \<Rightarrow> int \<Rightarrow> bool" where
  "bits_ok E id_num \<longleftrightarrow> (\<forall>ids i j v. 0 \<le> i \<longrightarrow> i < id_num \<longrightarrow> 0 \<le> j \<longrightarrow> j < id_num \<longrightarrow>
     me_get E (me_set E ids i v) j = (if i = j then v else me_get E ids j))"


section \<open>The rules and their identifiers\<close>

text \<open>The rules that were reported and not taken back.\<close>

definition reported :: "('l, 'b, 't) monitor \<Rightarrow> ptr set" where
  "reported m = {p. \<exists>n. m_nodes m p = Some n \<and> sn_time_reported n \<noteq> 0}"


text \<open>The environment of a monitor that runs well: time has passed, commands succeed, a rule that counted nothing is below its limit.\<close>

definition runs_well :: "('l, 'b, 't) mon_env \<Rightarrow> bool" where
  "runs_well E \<longleftrightarrow> (\<forall>n. 0 < me_time E n) \<and> (\<forall>n c. me_popen E n c \<and> me_pclose E n c = 0) \<and>
     (\<forall>w l. me_over E 0 w l \<noteq> Inr True)"


datatype mon_event = Counted ptr int int | Evaluated ptr

fun event_step :: "('l, 'b, 't) mon_env \<Rightarrow> mon_event \<Rightarrow> ('l, 'b, 't) monitor \<Rightarrow> ('l, 'b, 't) monitor res" where
  "event_step E (Counted p bytes pkts) m = update_stats E bytes pkts p m"
| "event_step E (Evaluated p) m = map_sum id snd (eval_node E p m)"

fun event_run :: "('l, 'b, 't) mon_env \<Rightarrow> mon_event list \<Rightarrow> ('l, 'b, 't) monitor \<Rightarrow> ('l, 'b, 't) monitor res" where
  "event_run E [] m = Inr m"
| "event_run E (x # xs) m = res_bind (event_step E x m) (event_run E xs)"










lemma set_reported_at:
  "m_nodes m p = Some n \<Longrightarrow> set_reported p t m = Inr (set_node p (n\<lparr>sn_time_reported := t\<rparr>) m)"
  by (simp add: set_reported_def node_at_def)



lemma node_atE:
  assumes "res_bind (node_at m p) f = Inr x"
  obtains n where "m_nodes m p = Some n" "f n = Inr x"
  using assms by (cases "m_nodes m p") (auto simp: node_at_def)

lemma eval_nodeE:
  assumes "eval_node E p m = Inr x"
  obtains n over where "m_nodes m p = Some n" "me_over E (sn_stats_bytes n) (sn_window_size n) (sn_limit n) = Inr over"
proof -
  from assms obtain n where n: "m_nodes m p = Some n"
    "res_bind (me_over E (sn_stats_bytes n) (sn_window_size n) (sn_limit n)) (\<lambda>over. if over then
       res_bind
         (if sn_time_reported n = 0
          then res_bind (exec_node_cmd E p ACTION_NEW m) (\<lambda>(r, m1). Inr (True, add_active 1 m1))
          else Inr (False, m)) (\<lambda>(updated, m1).
       res_bind (set_reported p (sn_last_updated n) m1) (\<lambda>m2. Inr (updated, m2)))
     else if sn_time_reported n \<noteq> 0 \<and> sn_time_reported n + sn_remove_delay n < sn_last_updated n \<and>
         sn_last_updated n \<ge> sn_window_reset n + sn_window_size n then
       res_bind (exec_node_cmd E p ACTION_DEL m) (\<lambda>(r, m1).
       res_bind (set_reported p 0 (add_active (- 1) m1)) (\<lambda>m2. Inr (True, m2)))
     else Inr (False, m)) = Inr x"
    unfolding eval_node_def by (rule node_atE)
  then show thesis using that by (cases "me_over E (sn_stats_bytes n) (sn_window_size n) (sn_limit n)") simp_all
qed




section \<open>A step over all rules\<close>

fun is_list :: "(ptr \<Rightarrow> 'l stat_node option) \<Rightarrow> ptr option \<Rightarrow> ptr list \<Rightarrow> bool" where
  "is_list h r [] \<longleftrightarrow> r = None"
| "is_list h r (p # ps) \<longleftrightarrow> r = Some p \<and> (case h p of None \<Rightarrow> False | Some n \<Rightarrow> is_list h (sn_next_node n) ps)"

text \<open>The links of the list and the number of commands, after a command and after an evaluation.\<close>

definition links :: "('l, 'b, 't) monitor \<Rightarrow> ptr \<Rightarrow> ptr option option" where
  "links m p = map_option sn_next_node (m_nodes m p)"

lemma is_list_links: "links m' = links m \<Longrightarrow> is_list (m_nodes m') r ps = is_list (m_nodes m) r ps"
proof (induction ps arbitrary: r)
  case (Cons p ps)
  have "map_option sn_next_node (m_nodes m' p) = map_option sn_next_node (m_nodes m p)"
    using fun_cong [OF Cons.prems, of p] by (simp add: links_def)
  then show ?case using Cons by (cases "m_nodes m p"; cases "m_nodes m' p") simp_all
qed simp

lemma links_set_node: "m_nodes m p = Some n \<Longrightarrow> sn_next_node n' = sn_next_node n \<Longrightarrow> links (set_node p n' m) = links m"
  by (simp add: links_def set_node_def fun_eq_iff)

lemma links_frame: "m_nodes m' = m_nodes m \<Longrightarrow> links m' = links m"
  by (simp add: links_def fun_eq_iff)

lemma run_cmd_frame: "run_cmd E cmd inp m = (r, m') \<Longrightarrow> m_nodes m' = m_nodes m \<and> m_opt m' = m_opt m \<and> m_popens m' = m_popens m + 1"
  by (auto simp: run_cmd_def Let_def split: if_split_asm)

lemma take_id_frame: "take_id E p m = Inr m' \<Longrightarrow> links m' = links m \<and> m_popens m' = m_popens m"
  by (auto simp: take_id_def set_node_def links_def node_at_def fun_eq_iff split: if_split_asm prod.splits option.splits)

lemma release_id_frame: "release_id E p m = Inr m' \<Longrightarrow> links m' = links m \<and> m_popens m' = m_popens m"
  by (auto simp: release_id_def Let_def set_node_def links_def node_at_def fun_eq_iff split: if_split_asm option.splits)

lemma exec_node_cmd_frame:
  assumes "exec_node_cmd E p a m = Inr (r, m')" "a = ACTION_NEW \<or> a = ACTION_DEL"
  shows "links m' = links m \<and> m_popens m' = m_popens m + 1"
proof -
  obtain m1 where m1: "(if a = ACTION_NEW then take_id E p m else Inr m) = Inr m1"
    using assms(1) by (cases "if a = ACTION_NEW then take_id E p m else Inr m") (simp_all add: exec_node_cmd_def)
  then have f1: "links m1 = links m \<and> m_popens m1 = m_popens m"
    using take_id_frame [of E p m m1] by (auto split: if_split_asm)
  from assms m1 obtain n cmd inp r2 m2 where c: "run_cmd E cmd inp m1 = (r2, m2)"
    "(if r2 = 0 then Inr (0, m2) else res_bind (if a = ACTION_DEL then release_id E p m2 else Inr m2) (\<lambda>m3. Inr (1, m3))) = Inr (r, m')"
    by (auto simp: exec_node_cmd_def Let_def elim!: node_atE split: prod.splits)
  have f2: "links m2 = links m1 \<and> m_popens m2 = m_popens m1 + 1"
    using run_cmd_frame [OF c(1)] links_frame [of m2 m1] by simp
  have "links m' = links m2 \<and> m_popens m' = m_popens m2"
    using c(2) release_id_frame [of E p m2] by (cases "release_id E p m2") (auto split: if_split_asm)
  with f1 f2 show ?thesis by simp
qed

lemma set_reported_frame: "set_reported p t m = Inr m' \<Longrightarrow> links m' = links m \<and> m_popens m' = m_popens m"
  by (auto simp: set_reported_def set_node_def links_def node_at_def fun_eq_iff split: option.splits)

lemma add_active_frame [simp]: "links (add_active d m) = links m \<and> m_popens (add_active d m) = m_popens m"
  by (simp add: add_active_def links_def fun_eq_iff)

lemma eval_node_frame:
  assumes "eval_node E p m = Inr (b, m')"
  shows "links m' = links m \<and> m_popens m' = m_popens m + (if b then 1 else 0)"
proof -
  from assms obtain n over where n: "m_nodes m p = Some n" and over: "me_over E (sn_stats_bytes n) (sn_window_size n) (sn_limit n) = Inr over"
    by (rule eval_nodeE)
  have step: "links m2 = links m \<and> m_popens m2 = m_popens m + 1"
    if "exec_node_cmd E p a m = Inr (r, m1)" "a = ACTION_NEW \<or> a = ACTION_DEL" "set_reported p t (add_active d m1) = Inr m2" for a r m1 t d m2
    using exec_node_cmd_frame [OF that(1,2)] set_reported_frame [OF that(3)] by simp
  show ?thesis
  proof (cases "over")
    case True
    show ?thesis
    proof (cases "sn_time_reported n = 0")
      case new: True
      with assms n over True obtain r m1 where "exec_node_cmd E p ACTION_NEW m = Inr (r, m1)"
        "set_reported p (sn_last_updated n) (add_active 1 m1) = Inr m'" "b"
        by (cases "exec_node_cmd E p ACTION_NEW m"; cases "set_reported p (sn_last_updated n) (add_active 1 (snd (projr (exec_node_cmd E p ACTION_NEW m))))")
          (auto simp: eval_node_def node_at_def)
      then show ?thesis using step by auto
    next
      case False
      with assms n over True have "set_reported p (sn_last_updated n) m = Inr m'" "\<not> b"
        by (auto simp: eval_node_def node_at_def set_reported_at)
      then show ?thesis using set_reported_frame by auto
    qed
  next
    case False
    show ?thesis
    proof (cases b)
      case True
      with assms n over False obtain r m1 where "exec_node_cmd E p ACTION_DEL m = Inr (r, m1)"
        "set_reported p 0 (add_active (- 1) m1) = Inr m'"
        by (cases "exec_node_cmd E p ACTION_DEL m"; cases "set_reported p 0 (add_active (- 1) (snd (projr (exec_node_cmd E p ACTION_DEL m))))")
          (auto simp: eval_node_def node_at_def split: if_split_asm)
      then show ?thesis using step True by auto
    next
      case quiet: False
      with assms n over False have "m' = m"
        by (cases "exec_node_cmd E p ACTION_DEL m"; cases "set_reported p 0 (add_active (- 1) (snd (projr (exec_node_cmd E p ACTION_DEL m))))")
          (auto simp: eval_node_def node_at_def split: if_split_asm)
      then show ?thesis using quiet by simp
    qed
  qed
qed

lemma eval_list_run:
  assumes "is_list (m_nodes m) r ps" "i \<le> UPDATES_IN_STEP"
  shows "\<exists>x. eval_list E i r m = Some x \<and> (\<forall>m'. x = Inr m' \<longrightarrow>
    (\<exists>k \<le> length ps. event_run E (map Evaluated (take k ps)) m = Inr m' \<and> m_popens m \<le> m_popens m' \<and>
       i + (m_popens m' - m_popens m) \<le> UPDATES_IN_STEP + 1 \<and>
       (k < length ps \<longrightarrow> i + (m_popens m' - m_popens m) = UPDATES_IN_STEP + 1)))"
  using assms
proof (induction ps arbitrary: i r m)
  case Nil
  then show ?case by (subst eval_list.simps) auto
next
  case (Cons p ps)
  from Cons.prems(1) obtain n where r: "r = Some p" and n: "m_nodes m p = Some n" "is_list (m_nodes m) (sn_next_node n) ps"
    by (auto split: option.splits)
  show ?case
  proof (cases "eval_node E p m")
    case (Inl e)
    then show ?thesis using r by (subst eval_list.simps) simp
  next
    case (Inr y)
    obtain b m1 where y: "y = (b, m1)" by (cases y)
    from eval_node_frame [of E p m b m1] Inr y have f: "links m1 = links m" "m_popens m1 = m_popens m + (if b then 1 else 0)" by auto
    have "links m1 p = links m p" using f(1) by simp
    then obtain n1 where n1: "m_nodes m1 p = Some n1" "sn_next_node n1 = sn_next_node n"
      using n(1) by (cases "m_nodes m1 p") (auto simp: links_def)
    have l: "is_list (m_nodes m1) (sn_next_node n1) ps" using n(2) n1(2) is_list_links [OF f(1)] by simp
    let ?i = "if b then i + 1 else i"
    have step: "eval_list E i r m = (if ?i > UPDATES_IN_STEP then Some (Inr m1) else eval_list E ?i (sn_next_node n1) m1)"
      using r Inr y n1(1) by (subst eval_list.simps) (simp add: node_at_def Let_def)
    have e: "event_run E (map Evaluated (take (Suc k) (p # ps))) m = event_run E (map Evaluated (take k ps)) m1" for k
      using Inr y by simp
    show ?thesis
    proof (cases "?i > UPDATES_IN_STEP")
      case True
      have "event_run E (map Evaluated (take 1 (p # ps))) m = Inr m1" using e [of 0] by simp
      moreover have "i + (m_popens m1 - m_popens m) = UPDATES_IN_STEP + 1"
        using True Cons.prems(2) f(2) by (cases b) simp_all
      ultimately show ?thesis using step True f(2) by (intro exI [of _ "Inr m1"]) (auto intro!: exI [of _ 1])
    next
      case False
      then have "?i \<le> UPDATES_IN_STEP" by simp
      from Cons.IH [OF l this] obtain x where x: "eval_list E ?i (sn_next_node n1) m1 = Some x"
        "\<forall>m'. x = Inr m' \<longrightarrow> (\<exists>k \<le> length ps. event_run E (map Evaluated (take k ps)) m1 = Inr m' \<and> m_popens m1 \<le> m_popens m' \<and>
           ?i + (m_popens m' - m_popens m1) \<le> UPDATES_IN_STEP + 1 \<and>
           (k < length ps \<longrightarrow> ?i + (m_popens m' - m_popens m1) = UPDATES_IN_STEP + 1))" by blast
      have "\<exists>k \<le> length (p # ps). event_run E (map Evaluated (take k (p # ps))) m = Inr m' \<and> m_popens m \<le> m_popens m' \<and>
          i + (m_popens m' - m_popens m) \<le> UPDATES_IN_STEP + 1 \<and>
          (k < length (p # ps) \<longrightarrow> i + (m_popens m' - m_popens m) = UPDATES_IN_STEP + 1)" if "x = Inr m'" for m'
      proof -
        from x(2) that obtain k where k: "k \<le> length ps" "event_run E (map Evaluated (take k ps)) m1 = Inr m'" "m_popens m1 \<le> m_popens m'"
          "?i + (m_popens m' - m_popens m1) \<le> UPDATES_IN_STEP + 1"
          "k < length ps \<longrightarrow> ?i + (m_popens m' - m_popens m1) = UPDATES_IN_STEP + 1" by blast
        have "i + (m_popens m' - m_popens m) = ?i + (m_popens m' - m_popens m1)" using f(2) k(3) by (cases b) simp_all
        then show ?thesis using k e [of k] f(2) by (intro exI [of _ "Suc k"]) simp
      qed
      then show ?thesis using step False x(1) by simp
    qed
  qed
qed

section \<open>The headers of a packet\<close>

definition eth_type :: "u8 list \<Rightarrow> int" where
  "eth_type p = 256 * uint (p ! 12) + uint (p ! 13)"

text \<open>How much of a packet is read.\<close>

definition needed :: "u8 list \<Rightarrow> nat" where
  "needed p =
     (if length p < 14 then 14 else if eth_type p = ETHERTYPE_IP then 34 else if eth_type p = ETHERTYPE_VLAN then 38 else 14)"

text \<open>What is relied on of the tries and of new nodes: a lookup finds what was added, and a node that is made is there.\<close>

definition tries_law :: "('l, 'b, 't) mon_env \<Rightarrow> bool" where
  "tries_law E \<longleftrightarrow>
     (\<forall>a n ip l p t q. me_lookup E a n (me_add_prefix E ip l p t) = Some q \<longrightarrow> q = p \<or> (\<exists>a n. me_lookup E a n t = Some q)) \<and>
     (\<forall>opt h r opt' h'. me_node_new E (opt, h) = (r, opt', h') \<longrightarrow> op_trie4 opt' = op_trie4 opt \<and>
        (\<forall>q. h q \<noteq> None \<longrightarrow> h' q \<noteq> None) \<and> (\<forall>p. r = Some p \<longrightarrow> h' p \<noteq> None))"

definition tries_ok :: "('l, 'b, 't) mon_env \<Rightarrow> ('l, 'b, 't) monitor \<Rightarrow> bool" where
  "tries_ok E m \<longleftrightarrow> (\<forall>d a n q. me_lookup E a n (op_trie4 (m_opt m) d) = Some q \<longrightarrow> m_nodes m q \<noteq> None)"

lemma update_stats_tries:
  assumes "m_nodes m p = Some n" "tries_ok E m"
  shows "\<exists>m'. update_stats E bytes pkts p m = Inr m' \<and> tries_ok E m'"
  using assms by (auto simp: update_stats_def node_at_def mon_time_def Let_def set_node_def tries_ok_def)

lemma add_dynamic_tries:
  assumes law: "tries_law E" and n: "m_nodes m p = Some n" and ok: "tries_ok E m" and a: "length addr = 4"
  shows "\<exists>r m'. add_dynamic_node E p AF_INET addr dir m = Inr (r, m') \<and> tries_ok E m'"
proof -
  obtain r opt h where new: "me_node_new E (m_opt m, m_nodes m) = (r, opt, h)" by (cases "me_node_new E (m_opt m, m_nodes m)") auto
  have l: "op_trie4 opt = op_trie4 (m_opt m)" "m_nodes m q \<noteq> None \<Longrightarrow> h q \<noteq> None" "r = Some s \<Longrightarrow> h s \<noteq> None" for q s
    using law new unfolding tries_law_def by blast+
  show ?thesis
  proof (cases r)
    case None
    then show ?thesis using new l ok by (auto simp: add_dynamic_node_def tries_ok_def)
  next
    case (Some s)
    from l(3) [OF Some] obtain n2 where n2: "h s = Some n2" by blast
    from l(2) [of p] n obtain n3 where n3: "h p = Some n3" by auto
    have "\<exists>m'. add_dynamic_node E p AF_INET addr dir m = Inr (Some s, m') \<and>
       op_trie4 (m_opt m') = (op_trie4 opt)(dir := me_add_prefix E addr (sn_dynamic_ipv4 n3) s (op_trie4 opt dir)) \<and>
       (\<forall>q. h q \<noteq> None \<longrightarrow> m_nodes m' q \<noteq> None)"
      using new Some n2 n3 a by (simp add: add_dynamic_node_def node_at_def bytes_at_def Let_def set_node_def)
    then obtain m' where m': "add_dynamic_node E p AF_INET addr dir m = Inr (Some s, m')"
       "op_trie4 (m_opt m') = (op_trie4 opt)(dir := me_add_prefix E addr (sn_dynamic_ipv4 n3) s (op_trie4 opt dir))"
       "\<forall>q. h q \<noteq> None \<longrightarrow> m_nodes m' q \<noteq> None" by blast
    have "m_nodes m' q \<noteq> None" if "me_lookup E x k (op_trie4 (m_opt m') d) = Some q" for d x k q
    proof -
      have "q = s \<or> (\<exists>d a n. me_lookup E a n (op_trie4 (m_opt m) d) = Some q)"
        using that law l(1) m'(2) unfolding tries_law_def by (cases "d = dir") (simp, blast, auto)
      then show ?thesis using ok n2 l(2) m'(3) unfolding tries_ok_def by auto
    qed
    then show ?thesis using m'(1) by (auto simp: tries_ok_def)
  qed
qed

lemma add_packet_tries:
  assumes law: "tries_law E" and ok: "tries_ok E m" and a: "length addr = 4"
  shows "\<exists>m'. add_packet E AF_INET dir addr bytes pkts m = Inr m' \<and> tries_ok E m'"
proof (cases "me_lookup E addr 32 (op_trie4 (m_opt m) dir)")
  case None
  then show ?thesis using ok a by (simp add: add_packet_def bytes_at_def)
next
  case (Some p)
  with ok obtain n where n: "m_nodes m p = Some n" unfolding tries_ok_def by blast
  from add_dynamic_tries [OF law n ok a, of dir] obtain r m1 where
    "add_dynamic_node E p AF_INET addr dir m = Inr (r, m1)" "tries_ok E m1" by blast
  with update_stats_tries [OF n ok, of bytes pkts] show ?thesis
    using Some n a by (auto simp: add_packet_def bytes_at_def node_at_def)
qed

lemma process_ip_tries:
  assumes law: "tries_law E" and ok: "tries_ok E m"
  shows "if 20 \<le> length d then \<exists>m'. process_ip E d m = Inr m' \<and> tries_ok E m' else process_ip E d m = Inl OutOfBounds"
proof -
  define m1 where "m1 len = m\<lparr>m_opt := (m_opt m)\<lparr>op_statistic_bytes := me_total E (op_statistic_bytes (m_opt m) + len),
               op_statistic_pkts := me_total E (op_statistic_pkts (m_opt m) + 1)\<rparr>\<rparr>" for len
  have ok1: "tries_ok E (m1 len)" for len using ok by (simp add: tries_ok_def m1_def)
  have p: "process_ip E d m = res_bind (ntohs_at d 2) (\<lambda>len. res_bind (bytes_at d 12 4) (\<lambda>src.
        res_bind (add_packet E AF_INET FLOW_DIR_SRC src len 1 (m1 len)) (\<lambda>m2.
        res_bind (bytes_at d 16 4) (\<lambda>dst. add_packet E AF_INET FLOW_DIR_DST dst len 1 m2))))"
    by (simp add: process_ip_def m1_def Let_def)
  show ?thesis
  proof (cases "length d < 16")
    case True
    then show ?thesis by (auto simp: p ntohs_at_def bytes_at_def)
  next
    case False
    define len where "len = 256 * uint (d ! 2) + uint (d ! 3)"
    have len: "ntohs_at d 2 = Inr len" using False by (simp add: ntohs_at_def bytes_at_def len_def nth_append)
    have src: "bytes_at d 12 4 = Inr (take 4 (drop 12 d))" using False by (simp add: bytes_at_def)
    from add_packet_tries [OF law ok1, of "take 4 (drop 12 d)" FLOW_DIR_SRC len 1 len] False obtain m2 where
      m2: "add_packet E AF_INET FLOW_DIR_SRC (take 4 (drop 12 d)) len 1 (m1 len) = Inr m2" "tries_ok E m2" by auto
    have q: "process_ip E d m = res_bind (bytes_at d 16 4) (\<lambda>dst. add_packet E AF_INET FLOW_DIR_DST dst len 1 m2)"
      using p len src m2(1) by simp
    show ?thesis
    proof (cases "20 \<le> length d")
      case True
      then have "bytes_at d 16 4 = Inr (take 4 (drop 16 d))" "length (take 4 (drop 16 d)) = 4" by (simp_all add: bytes_at_def)
      with add_packet_tries [OF law m2(2), of "take 4 (drop 16 d)" FLOW_DIR_DST len 1] q True show ?thesis by auto
    next
      case False
      then show ?thesis using q by (simp add: bytes_at_def)
    qed
  qed
qed

section \<open>Properties\<close>



text \<open>A small environment: a rule is over its limit with more bytes than that in a second, arrays of bits are functions.\<close>

definition small_mon_env :: "(int, int \<Rightarrow> int, nat) mon_env" where
  "small_mon_env =
     \<lparr>me_over = (\<lambda>b w l. if w = 0 then Inl DivZero else Inr (b > 0 \<and> b div w > l)), me_bytes = id, me_pkts = id, me_total = id,
      me_get = (\<lambda>b i. b i), me_set = (\<lambda>b i v. b(i := v)), me_init = (\<lambda>n. Some (\<lambda>_. 0)),
      me_add_prefix = (\<lambda>ip l p t. t), me_lookup = (\<lambda>a n t. if t = 0 then None else Some t), me_log = (\<lambda>a opt n. ''''),
      me_node_new = (\<lambda>(opt, h). (None, opt, h)), me_parse_config = (\<lambda>m. (1, m)), me_MAX_STRING = 1024,
      me_popen = (\<lambda>n c. True), me_pclose = (\<lambda>n c. 0), me_time = (\<lambda>n. 100 + int n), me_fopen = (\<lambda>f. True),
      me_getpid = 7, me_fork = 0, me_setsid = 7, me_posix = True, me_pcap = (\<lambda>d. True)\<rparr>"

definition small_node :: "ptr option \<Rightarrow> int stat_node" where
  "small_node nxt =
     \<lparr>sn_id = 0, sn_next_node = nxt, sn_window_size = 1000, sn_remove_delay = 60, sn_limit = 5, sn_last_updated = 0,
      sn_window_reset = 0, sn_time_reported = 0, sn_stats_bytes = 0, sn_stats_pkts = 0, sn_dynamic_ipv4 = 0,
      sn_dynamic_ipv6 = 0, sn_num_prefixes = 1,
      sn_prefix = \<lparr>pf_af = AF_INET, pf_flow_dir = FLOW_DIR_SRC, pf_ip = [10, 0, 0, 0], pf_prefixlen = 8\<rparr>\<rparr>"

definition small_monitor :: "(int, int \<Rightarrow> int, nat) monitor" where
  "small_monitor =
     \<lparr>m_opt = (mon_default (\<lambda>_. 0) (\<lambda>_. 1))\<lparr>op_root_node := Some 1\<rparr>,
      m_nodes = [1 \<mapsto> small_node (Some 2), 2 \<mapsto> small_node None],
      m_cmds = [], m_popens = 0, m_ticks = 0, m_files = (\<lambda>_. None),
      m_proc = \<lparr>log_debug = 0, log_name = None, log_entries = [], out_lines = [], std_open = True, file_mask = None, session_leader = False\<rparr>,
      received_hup = False, received_usr1 = False, received_term = False\<rparr>"

lemma small_mon_laws: "bits_ok small_mon_env N" "runs_well small_mon_env" "tries_law small_mon_env"
  by (simp_all add: bits_ok_def runs_well_def tries_law_def small_mon_env_def)




text \<open>
  An identifier that is given out was free, is marked and is the first free one from the last one on;
  when all are taken the result is 0, which is also an identifier, and nothing is marked.
\<close>

theorem get_next_id_first:
  assumes "0 \<le> op_id_last opt" "op_id_last opt < op_id_num opt"
  shows "if \<exists>j. 0 \<le> j \<and> j < op_id_num opt \<and> me_get E (op_ids opt) j = 0
    then \<exists>k. let i = slot (op_id_num opt) (op_id_last opt) k in
      get_next_id E opt = (i, opt\<lparr>op_id_last := i, op_ids := me_set E (op_ids opt) i 1\<rparr>) \<and> me_get E (op_ids opt) i = 0 \<and>
      {l. l < k \<and> me_get E (op_ids opt) (slot (op_id_num opt) (op_id_last opt) l) = 0} = {}
    else \<exists>i. get_next_id E opt = (0, opt\<lparr>op_id_last := i\<rparr>)"
proof (cases "\<exists>j. 0 \<le> j \<and> j < op_id_num opt \<and> me_get E (op_ids opt) j = 0")
  case True
  then obtain j where j: "0 \<le> j" "j < op_id_num opt" "me_get E (op_ids opt) j = 0" by blast
  from next_id_first [OF assms j] obtain k where k:
    "next_id_loop E (op_id_num opt) (op_ids opt) (op_id_last opt) 0 = (True, slot (op_id_num opt) (op_id_last opt) k)"
    "me_get E (op_ids opt) (slot (op_id_num opt) (op_id_last opt) k) = 0"
    "\<forall>l < k. me_get E (op_ids opt) (slot (op_id_num opt) (op_id_last opt) l) \<noteq> 0" by blast
  then have "get_next_id E opt = (slot (op_id_num opt) (op_id_last opt) k,
      opt\<lparr>op_id_last := slot (op_id_num opt) (op_id_last opt) k,
        op_ids := me_set E (op_ids opt) (slot (op_id_num opt) (op_id_last opt) k) 1\<rparr>)"
    using assms by (simp add: get_next_id_def)
  with k(2,3) show ?thesis unfolding if_P [OF True] Let_def by (intro exI [of _ k]) simp
next
  case False
  then have "fst (next_id_loop E (op_id_num opt) (op_ids opt) (op_id_last opt) 0) = False"
    using assms by (intro next_id_none) auto
  then show ?thesis unfolding if_not_P [OF False] using assms
    by (cases "next_id_loop E (op_id_num opt) (op_ids opt) (op_id_last opt) 0") (auto simp: get_next_id_def)
qed

theorem get_next_id_first_witness:
  "me_get small_mon_env (\<lambda>i. if i = 1 then 0 else 1) (fst (get_next_id small_mon_env
     ((mon_default (\<lambda>i. if i = 1 then 0 else 1) (\<lambda>_. 1))\<lparr>op_id_num := 3, op_id_last := 2\<rparr>))) = 0"
proof -
  define opt where "opt = (mon_default (\<lambda>i :: int. if i = 1 then 0 else 1 :: int) (\<lambda>_. 1 :: nat))\<lparr>op_id_num := 3, op_id_last := 2\<rparr>"
  have o: "op_id_last opt = 2" "op_id_num opt = 3" "op_ids opt = (\<lambda>i. if i = 1 then 0 else 1)"
    by (simp_all add: opt_def mon_default_def)
  then have "\<exists>j. 0 \<le> j \<and> j < op_id_num opt \<and> me_get small_mon_env (op_ids opt) j = 0"
    by (intro exI [of _ 1]) (simp add: small_mon_env_def)
  with get_next_id_first [of opt small_mon_env] o(1,2) have "me_get small_mon_env (op_ids opt) (fst (get_next_id small_mon_env opt)) = 0"
    by (auto simp: Let_def)
  then show ?thesis unfolding o(3) by (simp add: opt_def)
qed

text \<open>C37. An evaluation of all rules ends when their list does; it runs at most 51 commands, and each rule in
  the order of the list up to the one with the last command is evaluated.
\<close>

theorem eval_nodes_bounded:
  assumes "is_list (m_nodes m) (op_root_node (m_opt m)) ps"
  shows "\<exists>x. eval_nodes E m = Some x \<and> (\<forall>m'. x = Inr m' \<longrightarrow>
    (\<exists>k \<le> length ps. event_run E (map Evaluated (take k ps)) m = Inr m' \<and> m_popens m' \<le> m_popens m + 51 \<and>
       (k < length ps \<longrightarrow> m_popens m' = m_popens m + 51)))"
proof -
  have "0 \<le> UPDATES_IN_STEP" by simp
  from eval_list_run [OF assms this, of E] obtain x where x: "eval_list E 0 (op_root_node (m_opt m)) m = Some x"
    "\<forall>m'. x = Inr m' \<longrightarrow> (\<exists>k \<le> length ps. event_run E (map Evaluated (take k ps)) m = Inr m' \<and> m_popens m \<le> m_popens m' \<and>
       0 + (m_popens m' - m_popens m) \<le> UPDATES_IN_STEP + 1 \<and>
       (k < length ps \<longrightarrow> 0 + (m_popens m' - m_popens m) = UPDATES_IN_STEP + 1))" by blast
  have "\<exists>k \<le> length ps. event_run E (map Evaluated (take k ps)) m = Inr m' \<and> m_popens m' \<le> m_popens m + 51 \<and>
       (k < length ps \<longrightarrow> m_popens m' = m_popens m + 51)" if "x = Inr m'" for m'
  proof -
    from x(2) that obtain k where "k \<le> length ps" "event_run E (map Evaluated (take k ps)) m = Inr m'" "m_popens m \<le> m_popens m'"
       "m_popens m' - m_popens m \<le> 51" "k < length ps \<longrightarrow> m_popens m' - m_popens m = 51" by (auto simp: UPDATES_IN_STEP_def)
    then show ?thesis by (intro exI [of _ k]) auto
  qed
  with x(1) show ?thesis by (auto simp: eval_nodes_def)
qed

theorem eval_nodes_bounded_witness:
  "is_list (m_nodes small_monitor) (op_root_node (m_opt small_monitor)) [1, 2] \<and>
   (\<exists>m'. eval_nodes small_mon_env small_monitor = Some (Inr m') \<and> m_popens m' \<le> 51)"
proof -
  have l: "is_list (m_nodes small_monitor) (op_root_node (m_opt small_monitor)) [1, 2]"
    by (simp add: small_monitor_def small_node_def mon_default_def)
  from eval_nodes_bounded [OF l, of small_mon_env] obtain x where x: "eval_nodes small_mon_env small_monitor = Some x"
    "\<forall>m'. x = Inr m' \<longrightarrow> m_popens m' \<le> m_popens small_monitor + 51" by blast
  have "\<exists>m'. eval_nodes small_mon_env small_monitor = Some (Inr m')"
    by (simp add: eval_nodes_def eval_list.simps small_mon_env_def small_monitor_def small_node_def mon_default_def eval_node_def
        node_at_def UPDATES_IN_STEP_def)
  with x l show ?thesis by (auto simp: small_monitor_def)
qed

text \<open>When the command that takes a rule back fails, the rule is no longer reported, but its identifier
  stays marked as taken.
\<close>

theorem failed_removal_keeps_id:
  assumes "m_nodes m p = Some n" "sn_time_reported n \<noteq> 0" "eval_node E p m = Inr (True, m')"
    and "\<And>c. \<not> (me_popen E (m_popens m) c \<and> me_pclose E (m_popens m) c = 0)"
  shows "p \<notin> reported m' \<and> op_ids (m_opt m') = op_ids (m_opt m) \<and> sn_id (the (m_nodes m' p)) = sn_id n \<and>
    op_statistic_active (m_opt m') = op_statistic_active (m_opt m) - 1"
proof -
  from assms(3) obtain over where "over": "me_over E (sn_stats_bytes n) (sn_window_size n) (sn_limit n) = Inr over"
    using assms(1) by (elim eval_nodeE) auto
  have "\<exists>m1. run_cmd E cmd inp m = (0, m1) \<and> m_opt m1 = m_opt m \<and> m_nodes m1 = m_nodes m" for cmd inp
    using assms(4) by (auto simp: run_cmd_def Let_def)
  then have "\<exists>m1. exec_node_cmd E p ACTION_DEL m = Inr (0, m1) \<and> m_opt m1 = m_opt m \<and> m_nodes m1 = m_nodes m"
    using assms(1) by (simp add: exec_node_cmd_def node_at_def Let_def split: prod.splits) (metis prod.inject)
  then obtain m1 where m1: "exec_node_cmd E p ACTION_DEL m = Inr (0, m1)" "m_opt m1 = m_opt m" "m_nodes m1 = m_nodes m" by blast
  have "m_nodes (add_active (- 1) m1) p = Some n" using assms(1) m1(3) by (simp add: add_active_def)
  then have "m' = set_node p (n\<lparr>sn_time_reported := 0\<rparr>) (add_active (- 1) m1)"
    using assms(1-3) "over" m1(1) by (auto simp: eval_node_def node_at_def set_reported_at split: if_split_asm)
  then show ?thesis using m1(2,3) by (simp add: set_node_def add_active_def reported_def)
qed

theorem failed_removal_keeps_id_witness:
  "\<exists>m'. eval_node (small_mon_env\<lparr>me_pclose := (\<lambda>n c. 1)\<rparr>) 1
      (small_monitor\<lparr>m_opt := (m_opt small_monitor)\<lparr>op_ids := (\<lambda>i. if i = 0 then 1 else 0)\<rparr>,
        m_nodes := [1 \<mapsto> (small_node None)\<lparr>sn_id := 10, sn_time_reported := 100, sn_last_updated := 2000\<rparr>]\<rparr>) = Inr (True, m') \<and>
    1 \<notin> reported m' \<and> op_ids (m_opt m') 0 = 1"
proof -
  let ?E = "small_mon_env\<lparr>me_pclose := (\<lambda>n c. 1)\<rparr>"
  let ?n = "(small_node None)\<lparr>sn_id := 10, sn_time_reported := 100, sn_last_updated := 2000\<rparr>"
  let ?m = "small_monitor\<lparr>m_opt := (m_opt small_monitor)\<lparr>op_ids := (\<lambda>i. if i = 0 then 1 else 0)\<rparr>, m_nodes := [1 \<mapsto> ?n]\<rparr>"
  have "\<exists>m'. eval_node ?E 1 ?m = Inr (True, m')"
    by (simp add: small_mon_env_def small_node_def eval_node_def node_at_def set_node_def exec_node_cmd_def run_cmd_def
        set_reported_def add_active_def Let_def)
  then obtain m' where e: "eval_node ?E 1 ?m = Inr (True, m')" by blast
  have n: "m_nodes ?m 1 = Some ?n" "sn_time_reported ?n \<noteq> 0" by simp_all
  from failed_removal_keeps_id [OF n e] e show ?thesis by simp
qed

text \<open>C38. A packet is read up to the end of the header of IP, with or without a tag of a VLAN; how much of it
  was captured is not looked at, so a shorter one is read past its end.
\<close>

theorem process_eth_reads:
  assumes "tries_law E" "tries_ok E m"
  shows "if needed p \<le> length p then \<exists>m'. process_eth E p m = Inr m' else process_eth E p m = Inl OutOfBounds"
proof (cases "length p < 14")
  case True
  then show ?thesis by (simp add: needed_def process_eth_def ntohs_at_def bytes_at_def)
next
  case False
  then have t: "ntohs_at p 12 = Inr (eth_type p)" by (simp add: ntohs_at_def bytes_at_def eth_type_def nth_append)
  have ip: "if 20 + k \<le> length p then \<exists>m'. process_ip E (drop k p) m = Inr m' else process_ip E (drop k p) m = Inl OutOfBounds"
    if "k \<le> length p" for k
    using process_ip_tries [OF assms, of "drop k p"] that by (auto split: if_split_asm)
  have short: "process_ip E (drop k p) m = Inl OutOfBounds" if "length p < k" for k
    using process_ip_tries [OF assms, of "drop k p"] that by simp
  consider "eth_type p = ETHERTYPE_IP" | "eth_type p = ETHERTYPE_VLAN" | "eth_type p \<noteq> ETHERTYPE_IP" "eth_type p \<noteq> ETHERTYPE_VLAN" by blast
  then show ?thesis
  proof cases
    case 1
    then show ?thesis using ip [of 14] t False by (auto simp: needed_def process_eth_def split: if_split_asm)
  next
    case 2
    then have "eth_type p \<noteq> ETHERTYPE_IP" by (simp add: ETHERTYPE_IP_def ETHERTYPE_VLAN_def)
    with 2 show ?thesis using ip [of 18] short [of 18] t False
      by (cases "18 \<le> length p") (auto simp: needed_def process_eth_def split: if_split_asm)
  next
    case 3
    then show ?thesis using t False by (simp add: needed_def process_eth_def)
  qed
qed

theorem process_eth_reads_witness:
  "process_eth small_mon_env (replicate 12 0 @ [8, 0] @ replicate 10 0) small_monitor = Inl OutOfBounds \<and>
   (\<exists>m'. process_eth small_mon_env (replicate 12 0 @ [8, 0] @ replicate 20 1) small_monitor = Inr m')"
proof -
  have ok: "tries_ok small_mon_env small_monitor"
    by (simp add: tries_ok_def small_mon_env_def small_monitor_def mon_default_def)
  have "needed (replicate 12 0 @ [8, 0] @ replicate 10 0) = 34" "needed (replicate 12 0 @ [8, 0] @ replicate 20 1) = 34"
    by (simp_all add: needed_def eth_type_def ETHERTYPE_IP_def nth_append)
  with process_eth_reads [OF small_mon_laws(3) ok, of "replicate 12 0 @ [8, 0] @ replicate 10 0"]
    process_eth_reads [OF small_mon_laws(3) ok, of "replicate 12 0 @ [8, 0] @ replicate 20 1"]
  show ?thesis by simp
qed

text \<open>
  A process that is told to end runs the command for the end and removes its pid file; it evaluates
  nothing and reads no configuration.
\<close>

theorem mon_round_ends:
  assumes "received_term m"
  shows "\<exists>m'. mon_round E m = Some (Inr (Ended 0 m')) \<and> m_nodes m' = m_nodes m \<and> m_popens m' = m_popens m + 1 \<and>
    m_files m' (op_pid_file (m_opt m)) = None"
proof -
  have s: "received_term (mon_statistics E m)" "m_nodes (mon_statistics E m) = m_nodes m" "m_popens (mon_statistics E m) = m_popens m"
    "op_pid_file (m_opt (mon_statistics E m)) = op_pid_file (m_opt m)"
    using assms by (simp_all add: mon_statistics_def mon_time_def update_statistic_file_def Let_def)
  have "\<exists>r m1. exec_cmd E ACTION_FINISH x = (r, m1) \<and> m_nodes m1 = m_nodes x \<and> m_popens m1 = m_popens x + 1 \<and> m_opt m1 = m_opt x" for x
    by (simp add: exec_cmd_def run_cmd_def Let_def)
  from this [of "(mon_statistics E m)\<lparr>received_term := False\<rparr>"] obtain r m1 where
    "exec_cmd E ACTION_FINISH ((mon_statistics E m)\<lparr>received_term := False\<rparr>) = (r, m1)"
    "m_nodes m1 = m_nodes m" "m_popens m1 = m_popens m + 1" "m_opt m1 = m_opt (mon_statistics E m)" using s by auto
  then show ?thesis using assms s
    by (simp add: mon_round_def mon_reload_def mon_dump_def mon_terminate_def Let_def)
qed
end
