(* ===== verification/Monitor_Threads.thy ===== *)
theory Monitor_Threads
  imports Monitor_Rules
begin

text \<open>
  The two threads of \<open>main.c\<close> as they interleave: the thread that listens to the packets and the main
  loop, with the three mutexes of the options and the mutex of every rule. A thread is a program
  counter, one step goes from one access to what the threads share to the next one, and a mutex is the
  thread that holds it. The lemmas show which thread is in which section, that one of the threads can
  get on as long as no locked mutex was copied, what a copied one leads to, and that a thread that
  runs alone performs the operations of the theory \<open>Monitor\<close>.
\<close>

section \<open>State\<close>

datatype mon_thread = Listener | Main_thread

text \<open>A packet of IP that is given to the rules: which address, the bytes from the header on, its length.\<close>

type_synonym packet_work = "flow_dir \<times> u8 list \<times> int"

text \<open>The points of \<open>listen_bpf\<close> with the functions that it calls for a packet.\<close>

datatype listen_pc =
    L_open
  | L_packet
  | L_count_lock "u8 list" int
  | L_count "u8 list" int
  | L_count_unlock "u8 list" int
  | L_config_lock packet_work
  | L_trie_lock packet_work
  | L_lookup packet_work
  | L_trie_unlock packet_work "ptr option"
  | L_found packet_work "ptr option"
  | L_dynamic_lock packet_work ptr
  | L_dynamic packet_work ptr
  | L_dynamic_count_lock packet_work
  | L_dynamic_count packet_work
  | L_dynamic_count_unlock packet_work
  | L_dynamic_unlock packet_work
  | L_node_lock packet_work ptr
  | L_update packet_work ptr
  | L_node_unlock packet_work ptr
  | L_config_unlock packet_work
  | L_end

text \<open>
  The points of the main loop with the functions that it calls. The number is the count of changes in
  this evaluation; the pointers are the rule at hand; the truth values say whether the evaluation
  changed the rule and whether the rule is over its limit; the texts are what goes to a file.
\<close>

datatype main_pc =
    M_round
  | M_eval_config_lock
  | M_eval_trie_lock
  | M_eval_root
  | M_eval_config_unlock "ptr option"
  | M_eval_trie_unlock "ptr option"
  | M_eval nat "ptr option"
  | M_node nat ptr
  | M_active_lock nat ptr bool
  | M_active nat ptr bool
  | M_active_unlock nat ptr bool
  | M_reported nat ptr bool bool
  | M_node_unlock nat ptr bool
  | M_next nat ptr bool
  | M_statistics
  | M_statistics_lock
  | M_statistics_write
  | M_statistics_unlock string
  | M_statistics_close string
  | M_statistics_time
  | M_reload
  | M_dump
  | M_dump_lock
  | M_dump_root
  | M_dump_node "ptr option" "string \<times> int \<times> int"
  | M_dump_unlock "string \<times> int \<times> int"
  | M_dump_close "string \<times> int \<times> int"
  | M_terminate
  | M_term_config_lock
  | M_term_trie_lock
  | M_finish
  | M_sleep

text \<open>The packets that are yet to come are a part of the state, and the code with which the process has ended.\<close>

record ('l, 'b, 't) mon_system =
  ms_mon :: "('l, 'b, 't) monitor"
  ms_packets :: "u8 list list"
  ms_listen :: listen_pc
  ms_main :: main_pc
  ms_exit :: "int option"
  ms_config_mutex :: "mon_thread option"
  ms_trie_mutex :: "mon_thread option"
  ms_statistic_mutex :: "mon_thread option"
  ms_node_lock :: "ptr \<Rightarrow> mon_thread option"

text \<open>Where the threads are when \<open>main\<close> has made the second one.\<close>

definition mon_threads_start :: "u8 list list \<Rightarrow> ('l, 'b, 't) monitor \<Rightarrow> ('l, 'b, 't) mon_system" where
  "mon_threads_start ps m = \<lparr>ms_mon = m, ms_packets = ps, ms_listen = L_open, ms_main = M_round, ms_exit = None,
     ms_config_mutex = None, ms_trie_mutex = None, ms_statistic_mutex = None, ms_node_lock = (\<lambda>p. None)\<rparr>"

section \<open>The thread that listens\<close>

text \<open>
  A step gives \<open>None\<close> when the thread waits for a mutex or has ended, a fault, or the next state.
\<close>

type_synonym ('l, 'b, 't) mon_move = "('l, 'b, 't) mon_system res option"

abbreviation goes :: "('l, 'b, 't) mon_system \<Rightarrow> ('l, 'b, 't) mon_move" where
  "goes t \<equiv> Some (Inr t)"

text \<open>The step of a thread that locks a mutex: it waits while the mutex is held.\<close>

definition when_free :: "mon_thread option \<Rightarrow> ('l, 'b, 't) mon_system \<Rightarrow> ('l, 'b, 't) mon_move" where
  "when_free lock t = (case lock of None \<Rightarrow> goes t | Some h \<Rightarrow> None)"

definition eth_data :: "u8 list \<Rightarrow> u8 list option res" where
  "eth_data p =
     res_bind (ntohs_at p 12) (\<lambda>ether_type.
     Inr (if ether_type = ETHERTYPE_IP then Some (drop 14 p)
          else if ether_type = ETHERTYPE_VLAN then Some (drop (14 + 4) p) else None))"

definition count_packet :: "('l, 'b, 't) mon_env \<Rightarrow> int \<Rightarrow> ('l, 'b, 't) monitor \<Rightarrow> ('l, 'b, 't) monitor" where
  "count_packet E len m =
     (let opt = m_opt m
      in m\<lparr>m_opt := opt\<lparr>op_statistic_bytes := me_total E (op_statistic_bytes opt + len),
            op_statistic_pkts := me_total E (op_statistic_pkts opt + 1)\<rparr>\<rparr>)"

definition work_addr :: "packet_work \<Rightarrow> u8 list res" where
  "work_addr w = (case w of (FLOW_DIR_SRC, data, len) \<Rightarrow> bytes_at data 12 4 | (FLOW_DIR_DST, data, len) \<Rightarrow> bytes_at data 16 4)"

definition look_up :: "('l, 'b, 't) mon_env \<Rightarrow> packet_work \<Rightarrow> ('l, 'b, 't) monitor \<Rightarrow> ptr option res" where
  "look_up E w m =
     res_bind (work_addr w) (\<lambda>addr. Inr (me_lookup E addr 32 (op_trie4 (m_opt m) (fst w))))"

text \<open>\<open>add_dynamic_node\<close> up to the change of the counter. With the node, its mutex is copied as it is.\<close>

definition copy_node ::
  "('l, 'b, 't) mon_env \<Rightarrow> ptr \<Rightarrow> packet_work \<Rightarrow> ('l, 'b, 't) monitor \<Rightarrow> (ptr option \<times> ('l, 'b, 't) monitor) res" where
  "copy_node E parent w m =
     (case me_node_new E (m_opt m, m_nodes m) of
        (None, opt, nodes) \<Rightarrow> Inr (None, m\<lparr>m_opt := opt, m_nodes := nodes\<rparr>)
      | (Some p, opt, nodes) \<Rightarrow>
          let m1 = m\<lparr>m_opt := opt, m_nodes := nodes\<rparr>; flow_dir = fst w in
          res_bind (node_at m1 p) (\<lambda>new.
          res_bind (node_at m1 parent) (\<lambda>par.
          res_bind (work_addr w) (\<lambda>ip.
          let prefixlen = sn_dynamic_ipv4 par;
              n = par\<lparr>sn_next_node := sn_next_node new, sn_dynamic_ipv4 := 0, sn_dynamic_ipv6 := 0, sn_num_prefixes := 1,
                    sn_prefix := \<lparr>pf_af = AF_INET, pf_flow_dir = flow_dir, pf_ip = ip, pf_prefixlen = prefixlen\<rparr>\<rparr>;
              opt1 = opt\<lparr>op_trie4 := (op_trie4 opt)(flow_dir := me_add_prefix E ip prefixlen p (op_trie4 opt flow_dir))\<rparr>
          in Inr (Some p, set_node p n (m1\<lparr>m_opt := opt1\<rparr>))))))"

definition count_dynamic :: "('l, 'b, 't) monitor \<Rightarrow> ('l, 'b, 't) monitor" where
  "count_dynamic m = m\<lparr>m_opt := (m_opt m)\<lparr>op_statistic_dynamic := op_statistic_dynamic (m_opt m) + 1\<rparr>\<rparr>"

definition after_add :: "packet_work \<Rightarrow> listen_pc" where
  "after_add w = (case w of (FLOW_DIR_SRC, data, len) \<Rightarrow> L_config_lock (FLOW_DIR_DST, data, len) | _ \<Rightarrow> L_packet)"

definition try_res :: "'x res \<Rightarrow> ('x \<Rightarrow> ('l, 'b, 't) mon_move) \<Rightarrow> ('l, 'b, 't) mon_move" where
  "try_res r f = (case r of Inl e \<Rightarrow> Some (Inl e) | Inr x \<Rightarrow> f x)"

definition listen_step :: "('l, 'b, 't) mon_env \<Rightarrow> ('l, 'b, 't) mon_system \<Rightarrow> ('l, 'b, 't) mon_move" where
  "listen_step E s =
     (let m = ms_mon s in
      if ms_exit s \<noteq> None then None else
      case ms_listen s of
        L_open \<Rightarrow>
          goes (if me_pcap E (op_device (m_opt m)) then s\<lparr>ms_listen := L_packet\<rparr> else s\<lparr>ms_exit := Some 1\<rparr>)
      | L_packet \<Rightarrow>
          (case ms_packets s of
             [] \<Rightarrow> goes (s\<lparr>ms_listen := L_end\<rparr>)
           | p # ps \<Rightarrow>
               try_res (eth_data p) (\<lambda>d. case d of
                 None \<Rightarrow> goes (s\<lparr>ms_packets := ps\<rparr>)
               | Some data \<Rightarrow>
                   try_res (ntohs_at data 2) (\<lambda>len. goes (s\<lparr>ms_packets := ps, ms_listen := L_count_lock data len\<rparr>))))
      | L_count_lock data len \<Rightarrow>
          when_free (ms_statistic_mutex s) (s\<lparr>ms_statistic_mutex := Some Listener, ms_listen := L_count data len\<rparr>)
      | L_count data len \<Rightarrow> goes (s\<lparr>ms_mon := count_packet E len m, ms_listen := L_count_unlock data len\<rparr>)
      | L_count_unlock data len \<Rightarrow>
          goes (s\<lparr>ms_statistic_mutex := None, ms_listen := L_config_lock (FLOW_DIR_SRC, data, len)\<rparr>)
      | L_config_lock w \<Rightarrow>
          when_free (ms_config_mutex s) (s\<lparr>ms_config_mutex := Some Listener, ms_listen := L_trie_lock w\<rparr>)
      | L_trie_lock w \<Rightarrow>
          when_free (ms_trie_mutex s) (s\<lparr>ms_trie_mutex := Some Listener, ms_listen := L_lookup w\<rparr>)
      | L_lookup w \<Rightarrow> try_res (look_up E w m) (\<lambda>found. goes (s\<lparr>ms_listen := L_trie_unlock w found\<rparr>))
      | L_trie_unlock w found \<Rightarrow> goes (s\<lparr>ms_trie_mutex := None, ms_listen := L_found w found\<rparr>)
      | L_found w found \<Rightarrow>
          (case found of
             None \<Rightarrow> goes (s\<lparr>ms_listen := L_config_unlock w\<rparr>)
           | Some p \<Rightarrow>
               try_res (node_at m p) (\<lambda>n.
               goes (s\<lparr>ms_listen := (if sn_dynamic_ipv4 n \<noteq> 0 \<or> sn_dynamic_ipv6 n \<noteq> 0 then L_dynamic_lock w p else L_node_lock w p)\<rparr>)))
      | L_dynamic_lock w p \<Rightarrow>
          when_free (ms_trie_mutex s) (s\<lparr>ms_trie_mutex := Some Listener, ms_listen := L_dynamic w p\<rparr>)
      | L_dynamic w p \<Rightarrow>
          try_res (copy_node E p w m) (\<lambda>(new, m1).
          goes (case new of
                  None \<Rightarrow> s\<lparr>ms_mon := m1, ms_listen := L_dynamic_unlock w\<rparr>
                | Some q \<Rightarrow> s\<lparr>ms_mon := m1, ms_node_lock := (ms_node_lock s)(q := ms_node_lock s p),
                      ms_listen := L_dynamic_count_lock w\<rparr>))
      | L_dynamic_count_lock w \<Rightarrow>
          when_free (ms_statistic_mutex s) (s\<lparr>ms_statistic_mutex := Some Listener, ms_listen := L_dynamic_count w\<rparr>)
      | L_dynamic_count w \<Rightarrow> goes (s\<lparr>ms_mon := count_dynamic m, ms_listen := L_dynamic_count_unlock w\<rparr>)
      | L_dynamic_count_unlock w \<Rightarrow> goes (s\<lparr>ms_statistic_mutex := None, ms_listen := L_dynamic_unlock w\<rparr>)
      | L_dynamic_unlock w \<Rightarrow> goes (s\<lparr>ms_trie_mutex := None, ms_listen := L_config_unlock w\<rparr>)
      | L_node_lock w p \<Rightarrow>
          try_res (node_at m p) (\<lambda>n.
          when_free (ms_node_lock s p) (s\<lparr>ms_node_lock := (ms_node_lock s)(p := Some Listener), ms_listen := L_update w p\<rparr>))
      | L_update w p \<Rightarrow>
          try_res (update_stats E (snd (snd w)) 1 p m) (\<lambda>m1. goes (s\<lparr>ms_mon := m1, ms_listen := L_node_unlock w p\<rparr>))
      | L_node_unlock w p \<Rightarrow>
          goes (s\<lparr>ms_node_lock := (ms_node_lock s)(p := None), ms_listen := L_config_unlock w\<rparr>)
      | L_config_unlock w \<Rightarrow> goes (s\<lparr>ms_config_mutex := None, ms_listen := after_add w\<rparr>)
      | L_end \<Rightarrow> None)"

section \<open>The main loop\<close>

definition clear_file :: "string \<Rightarrow> ('l, 'b, 't) monitor \<Rightarrow> ('l, 'b, 't) monitor" where
  "clear_file name m = m\<lparr>m_files := (m_files m)(name \<mapsto> '''')\<rparr>"

definition close_file :: "string \<Rightarrow> string \<Rightarrow> ('l, 'b, 't) monitor \<Rightarrow> ('l, 'b, 't) monitor" where
  "close_file name text m = m\<lparr>m_files := (m_files m)(name \<mapsto> text)\<rparr>"

definition dump_node ::
  "('l, 'b, 't) mon_env \<Rightarrow> ('b, 't) options \<Rightarrow> 'l stat_node \<Rightarrow> string \<times> int \<times> int \<Rightarrow> string \<times> int \<times> int" where
  "dump_node E opt n x =
     (case x of (text, i, j) \<Rightarrow>
        (text @ me_log E ACTION_DUMP opt n @ newline, i + 1, if sn_time_reported n \<noteq> 0 then j + 1 else j))"

definition dump_text :: "string \<times> int \<times> int \<Rightarrow> string" where
  "dump_text x =
     (case x of (s, i, j) \<Rightarrow> s @ ''# total rules: '' @ fmt_d i @ newline @ ''# active rules: '' @ fmt_d j @ newline)"

text \<open>The part of \<open>eval_node\<close> up to the change of the counter of active rules, and where it goes on.\<close>

definition judge_node ::
  "('l, 'b, 't) mon_env \<Rightarrow> nat \<Rightarrow> ptr \<Rightarrow> ('l, 'b, 't) monitor \<Rightarrow> (main_pc \<times> ('l, 'b, 't) monitor) res" where
  "judge_node E i p m =
     res_bind (node_at m p) (\<lambda>n.
     res_bind (me_over E (sn_stats_bytes n) (sn_window_size n) (sn_limit n)) (\<lambda>over.
     if over then
       if sn_time_reported n = 0
       then res_bind (exec_node_cmd E p ACTION_NEW m) (\<lambda>(r, m1). Inr (M_active_lock i p True, m1))
       else Inr (M_reported i p False True, m)
     else if sn_time_reported n \<noteq> 0 \<and> sn_time_reported n + sn_remove_delay n < sn_last_updated n \<and>
         sn_last_updated n \<ge> sn_window_reset n + sn_window_size n
     then res_bind (exec_node_cmd E p ACTION_DEL m) (\<lambda>(r, m1). Inr (M_active_lock i p False, m1))
     else Inr (M_node_unlock i p False, m)))"

definition report_node :: "ptr \<Rightarrow> bool \<Rightarrow> ('l, 'b, 't) monitor \<Rightarrow> ('l, 'b, 't) monitor res" where
  "report_node p over m =
     res_bind (node_at m p) (\<lambda>n. set_reported p (if over then sn_last_updated n else 0) m)"

definition eval_steps :: "('l, 'b, 't) mon_env \<Rightarrow> ('l, 'b, 't) mon_system \<Rightarrow> ('l, 'b, 't) mon_move" where
  "eval_steps E s =
     (let m = ms_mon s in
      case ms_main s of
        M_eval_config_lock \<Rightarrow>
          when_free (ms_config_mutex s) (s\<lparr>ms_config_mutex := Some Main_thread, ms_main := M_eval_trie_lock\<rparr>)
      | M_eval_trie_lock \<Rightarrow>
          when_free (ms_trie_mutex s) (s\<lparr>ms_trie_mutex := Some Main_thread, ms_main := M_eval_root\<rparr>)
      | M_eval_root \<Rightarrow> goes (s\<lparr>ms_main := M_eval_config_unlock (op_root_node (m_opt m))\<rparr>)
      | M_eval_config_unlock node \<Rightarrow> goes (s\<lparr>ms_config_mutex := None, ms_main := M_eval_trie_unlock node\<rparr>)
      | M_eval_trie_unlock node \<Rightarrow> goes (s\<lparr>ms_trie_mutex := None, ms_main := M_eval 0 node\<rparr>)
      | M_eval i node \<Rightarrow>
          (case node of
             None \<Rightarrow> goes (s\<lparr>ms_main := M_statistics\<rparr>)
           | Some p \<Rightarrow>
               try_res (node_at m p) (\<lambda>n.
               when_free (ms_node_lock s p) (s\<lparr>ms_node_lock := (ms_node_lock s)(p := Some Main_thread), ms_main := M_node i p\<rparr>)))
      | M_node i p \<Rightarrow> try_res (judge_node E i p m) (\<lambda>(pc, m1). goes (s\<lparr>ms_mon := m1, ms_main := pc\<rparr>))
      | M_active_lock i p over \<Rightarrow>
          when_free (ms_statistic_mutex s) (s\<lparr>ms_statistic_mutex := Some Main_thread, ms_main := M_active i p over\<rparr>)
      | M_active i p over \<Rightarrow>
          goes (s\<lparr>ms_mon := add_active (if over then 1 else - 1) m, ms_main := M_active_unlock i p over\<rparr>)
      | M_active_unlock i p over \<Rightarrow> goes (s\<lparr>ms_statistic_mutex := None, ms_main := M_reported i p True over\<rparr>)
      | M_reported i p updated over \<Rightarrow>
          try_res (report_node p over m) (\<lambda>m1. goes (s\<lparr>ms_mon := m1, ms_main := M_node_unlock i p updated\<rparr>))
      | M_node_unlock i p updated \<Rightarrow>
          goes (s\<lparr>ms_node_lock := (ms_node_lock s)(p := None), ms_main := M_next i p updated\<rparr>)
      | M_next i p updated \<Rightarrow>
          try_res (node_at m p) (\<lambda>n.
          let i' = (if updated then i + 1 else i)
          in goes (s\<lparr>ms_main := (if i' > UPDATES_IN_STEP then M_statistics else M_eval i' (sn_next_node n))\<rparr>))
      | _ \<Rightarrow> None)"

definition report_steps :: "('l, 'b, 't) mon_env \<Rightarrow> ('l, 'b, 't) mon_system \<Rightarrow> ('l, 'b, 't) mon_move" where
  "report_steps E s =
     (let m = ms_mon s; opt = m_opt m in
      case ms_main s of
        M_statistics \<Rightarrow>
          (let (t, m1) = mon_time E m; name = op_statistic_file opt in
           goes (if op_statistic_interval opt + op_statistic_last opt < t then
                   if op_statistic_interval opt = 0 \<or> \<not> me_fopen E name then s\<lparr>ms_mon := m1, ms_main := M_statistics_time\<rparr>
                   else s\<lparr>ms_mon := clear_file name m1, ms_main := M_statistics_lock\<rparr>
                 else s\<lparr>ms_mon := m1, ms_main := M_reload\<rparr>))
      | M_statistics_lock \<Rightarrow>
          when_free (ms_statistic_mutex s) (s\<lparr>ms_statistic_mutex := Some Main_thread, ms_main := M_statistics_write\<rparr>)
      | M_statistics_write \<Rightarrow> goes (s\<lparr>ms_main := M_statistics_unlock (statistic_text opt)\<rparr>)
      | M_statistics_unlock text \<Rightarrow> goes (s\<lparr>ms_statistic_mutex := None, ms_main := M_statistics_close text\<rparr>)
      | M_statistics_close text \<Rightarrow>
          goes (s\<lparr>ms_mon := close_file (op_statistic_file opt) text m, ms_main := M_statistics_time\<rparr>)
      | M_statistics_time \<Rightarrow>
          (let (t, m1) = mon_time E m
           in goes (s\<lparr>ms_mon := m1\<lparr>m_opt := (m_opt m1)\<lparr>op_statistic_last := t\<rparr>\<rparr>, ms_main := M_reload\<rparr>))
      | M_reload \<Rightarrow> goes (s\<lparr>ms_mon := mon_reload E m, ms_main := M_dump\<rparr>)
      | M_dump \<Rightarrow>
          goes (if \<not> received_term m \<and> received_usr1 m then
                  let m1 = m\<lparr>received_usr1 := False\<rparr>; name = op_dbdump_file opt in
                  if \<not> me_fopen E name then s\<lparr>ms_mon := m1, ms_main := M_terminate\<rparr>
                  else s\<lparr>ms_mon := clear_file name m1, ms_main := M_dump_lock\<rparr>
                else s\<lparr>ms_main := M_terminate\<rparr>)
      | M_dump_lock \<Rightarrow>
          when_free (ms_config_mutex s) (s\<lparr>ms_config_mutex := Some Main_thread, ms_main := M_dump_root\<rparr>)
      | M_dump_root \<Rightarrow> goes (s\<lparr>ms_main := M_dump_node (op_root_node opt) ('''', 0, 0)\<rparr>)
      | M_dump_node node x \<Rightarrow>
          (case node of
             None \<Rightarrow> goes (s\<lparr>ms_main := M_dump_unlock x\<rparr>)
           | Some p \<Rightarrow>
               try_res (node_at m p) (\<lambda>n.
               goes (s\<lparr>ms_main := M_dump_node (sn_next_node n) (dump_node E opt n x)\<rparr>)))
      | M_dump_unlock x \<Rightarrow> goes (s\<lparr>ms_config_mutex := None, ms_main := M_dump_close x\<rparr>)
      | M_dump_close x \<Rightarrow>
          goes (s\<lparr>ms_mon := close_file (op_dbdump_file opt) (dump_text x) m, ms_main := M_terminate\<rparr>)
      | _ \<Rightarrow> None)"

definition end_steps :: "('l, 'b, 't) mon_env \<Rightarrow> ('l, 'b, 't) mon_system \<Rightarrow> ('l, 'b, 't) mon_move" where
  "end_steps E s =
     (let m = ms_mon s in
      case ms_main s of
        M_terminate \<Rightarrow>
          goes (if received_term m then s\<lparr>ms_mon := m\<lparr>received_term := False\<rparr>, ms_main := M_term_config_lock\<rparr>
                else s\<lparr>ms_main := M_sleep\<rparr>)
      | M_term_config_lock \<Rightarrow>
          when_free (ms_config_mutex s) (s\<lparr>ms_config_mutex := Some Main_thread, ms_main := M_term_trie_lock\<rparr>)
      | M_term_trie_lock \<Rightarrow>
          when_free (ms_trie_mutex s) (s\<lparr>ms_trie_mutex := Some Main_thread, ms_main := M_finish\<rparr>)
      | M_finish \<Rightarrow>
          (let m1 = snd (exec_cmd E ACTION_FINISH m)
           in goes (s\<lparr>ms_mon := m1\<lparr>m_files := (m_files m1)(op_pid_file (m_opt m1) := None)\<rparr>, ms_exit := Some 0\<rparr>))
      | M_sleep \<Rightarrow> goes (s\<lparr>ms_main := M_round\<rparr>)
      | _ \<Rightarrow> None)"

text \<open>The points of the evaluation, of the reports, and the others.\<close>

fun evaluating :: "main_pc \<Rightarrow> bool" where
  "evaluating M_eval_config_lock = True"
| "evaluating M_eval_trie_lock = True"
| "evaluating M_eval_root = True"
| "evaluating (M_eval_config_unlock node) = True"
| "evaluating (M_eval_trie_unlock node) = True"
| "evaluating (M_eval i node) = True"
| "evaluating (M_node i p) = True"
| "evaluating (M_active_lock i p over) = True"
| "evaluating (M_active i p over) = True"
| "evaluating (M_active_unlock i p over) = True"
| "evaluating (M_reported i p updated over) = True"
| "evaluating (M_node_unlock i p updated) = True"
| "evaluating (M_next i p updated) = True"
| "evaluating _ = False"

fun ending :: "main_pc \<Rightarrow> bool" where
  "ending M_terminate = True"
| "ending M_term_config_lock = True"
| "ending M_term_trie_lock = True"
| "ending M_finish = True"
| "ending M_sleep = True"
| "ending _ = False"

definition main_step :: "('l, 'b, 't) mon_env \<Rightarrow> ('l, 'b, 't) mon_system \<Rightarrow> ('l, 'b, 't) mon_move" where
  "main_step E s =
     (if ms_exit s \<noteq> None then None
      else if ms_main s = M_round then
        goes (s\<lparr>ms_main := (if received_term (ms_mon s) then M_statistics else M_eval_config_lock)\<rparr>)
      else if evaluating (ms_main s) then eval_steps E s
      else if ending (ms_main s) then end_steps E s
      else report_steps E s)"

text \<open>Any interleaving of the two threads and the signals.\<close>

definition deliver ::
  "(('l, 'b, 't) monitor \<Rightarrow> ('l, 'b, 't) monitor) \<Rightarrow> ('l, 'b, 't) mon_system \<Rightarrow> ('l, 'b, 't) mon_system" where
  "deliver h s = s\<lparr>ms_mon := h (ms_mon s)\<rparr>"

inductive mon_reach :: "('l, 'b, 't) mon_env \<Rightarrow> ('l, 'b, 't) mon_system \<Rightarrow> ('l, 'b, 't) mon_system \<Rightarrow> bool" for E s where
  reach_start: "mon_reach E s s"
| reach_listen: "mon_reach E s t \<Longrightarrow> listen_step E t = goes u \<Longrightarrow> mon_reach E s u"
| reach_main: "mon_reach E s t \<Longrightarrow> main_step E t = goes u \<Longrightarrow> mon_reach E s u"
| reach_signal: "mon_reach E s t \<Longrightarrow> h \<in> {terminates, sig_usr1, sig_hup} \<Longrightarrow> mon_reach E s (deliver h t)"

end
