(* ===== verification/Monitor_Locks.thy ===== *)
theory Monitor_Locks
  imports Monitor_Threads
begin

text \<open>
  The properties of the two threads of \<open>main.c\<close>: which thread is in which section, that one of the
  threads can get on as long as no locked mutex was copied, what a copied one leads to, and that a
  thread that runs alone performs the operations of the theory \<open>Monitor\<close>.
\<close>

section \<open>Sections\<close>

fun l_config :: "listen_pc \<Rightarrow> bool" where
  "l_config L_open = False"
| "l_config L_packet = False"
| "l_config (L_count_lock data len) = False"
| "l_config (L_count data len) = False"
| "l_config (L_count_unlock data len) = False"
| "l_config (L_config_lock w) = False"
| "l_config L_end = False"
| "l_config _ = True"

fun l_trie :: "listen_pc \<Rightarrow> bool" where
  "l_trie (L_lookup w) = True"
| "l_trie (L_trie_unlock w found) = True"
| "l_trie (L_dynamic w p) = True"
| "l_trie (L_dynamic_count_lock w) = True"
| "l_trie (L_dynamic_count w) = True"
| "l_trie (L_dynamic_count_unlock w) = True"
| "l_trie (L_dynamic_unlock w) = True"
| "l_trie _ = False"

fun l_statistic :: "listen_pc \<Rightarrow> bool" where
  "l_statistic (L_count data len) = True"
| "l_statistic (L_count_unlock data len) = True"
| "l_statistic (L_dynamic_count w) = True"
| "l_statistic (L_dynamic_count_unlock w) = True"
| "l_statistic _ = False"

fun l_node :: "listen_pc \<Rightarrow> ptr option" where
  "l_node (L_update w p) = Some p"
| "l_node (L_node_unlock w p) = Some p"
| "l_node _ = None"

fun m_config :: "main_pc \<Rightarrow> bool" where
  "m_config M_eval_trie_lock = True"
| "m_config M_eval_root = True"
| "m_config (M_eval_config_unlock node) = True"
| "m_config M_dump_root = True"
| "m_config (M_dump_node node x) = True"
| "m_config (M_dump_unlock x) = True"
| "m_config M_term_trie_lock = True"
| "m_config M_finish = True"
| "m_config _ = False"

fun m_trie :: "main_pc \<Rightarrow> bool" where
  "m_trie M_eval_root = True"
| "m_trie (M_eval_config_unlock node) = True"
| "m_trie (M_eval_trie_unlock node) = True"
| "m_trie M_finish = True"
| "m_trie _ = False"

fun m_statistic :: "main_pc \<Rightarrow> bool" where
  "m_statistic (M_active i p over) = True"
| "m_statistic (M_active_unlock i p over) = True"
| "m_statistic M_statistics_write = True"
| "m_statistic (M_statistics_unlock text) = True"
| "m_statistic _ = False"

fun m_node :: "main_pc \<Rightarrow> ptr option" where
  "m_node (M_node i p) = Some p"
| "m_node (M_active_lock i p over) = Some p"
| "m_node (M_active i p over) = Some p"
| "m_node (M_active_unlock i p over) = Some p"
| "m_node (M_reported i p updated over) = Some p"
| "m_node (M_node_unlock i p updated) = Some p"
| "m_node _ = None"

text \<open>
  A mutex of the options is held by the thread that is in a section of it. The mutex of a rule is held
  at least by the thread that is in a section of that rule: a copied one may be held by no section.
\<close>

definition holder :: "mon_thread option \<Rightarrow> bool \<Rightarrow> bool \<Rightarrow> bool" where
  "holder lock l r \<longleftrightarrow> (lock = Some Listener \<longleftrightarrow> l) \<and> (lock = Some Main_thread \<longleftrightarrow> r)"

definition option_locks :: "('l, 'b, 't) mon_system \<Rightarrow> bool" where
  "option_locks s \<longleftrightarrow>
     holder (ms_config_mutex s) (l_config (ms_listen s)) (m_config (ms_main s)) \<and>
     holder (ms_trie_mutex s) (l_trie (ms_listen s)) (m_trie (ms_main s)) \<and>
     holder (ms_statistic_mutex s) (l_statistic (ms_listen s)) (m_statistic (ms_main s))"

definition node_locks :: "('l, 'b, 't) mon_system \<Rightarrow> bool" where
  "node_locks s \<longleftrightarrow>
     (\<forall>p. l_node (ms_listen s) = Some p \<longrightarrow> ms_node_lock s p = Some Listener) \<and>
     (\<forall>p. m_node (ms_main s) = Some p \<longrightarrow> ms_node_lock s p = Some Main_thread \<and> m_nodes (ms_mon s) p \<noteq> None)"

text \<open>A mutex of a rule that is locked although no thread is in a section of the rule.\<close>

definition orphan :: "('l, 'b, 't) mon_system \<Rightarrow> ptr \<Rightarrow> bool" where
  "orphan s p \<longleftrightarrow> ms_node_lock s p \<noteq> None \<and> l_node (ms_listen s) \<noteq> Some p \<and> m_node (ms_main s) \<noteq> Some p"

text \<open>What is relied on of \<open>stat_node_new\<close>: the rule is at a new place, and the others stay where they are.\<close>

definition new_nodes :: "('l, 'b, 't) mon_env \<Rightarrow> bool" where
  "new_nodes E \<longleftrightarrow>
     (\<forall>opt h r opt' h'. me_node_new E (opt, h) = (r, opt', h') \<longrightarrow>
        (\<forall>p. r = Some p \<longrightarrow> h p = None) \<and> (\<forall>q. h q \<noteq> None \<longrightarrow> h' q \<noteq> None))"

lemma holder_free [simp]: "holder None l r \<longleftrightarrow> \<not> l \<and> \<not> r"
  by (simp add: holder_def)

lemma holder_some [simp]: "holder (Some Listener) l r \<longleftrightarrow> l \<and> \<not> r" "holder (Some Main_thread) l r \<longleftrightarrow> \<not> l \<and> r"
  by (auto simp: holder_def)

lemma holder_both [simp]: "\<not> holder lock True True"
  by (auto simp: holder_def)

lemma holder_of:
  "holder lock True r \<longleftrightarrow> lock = Some Listener \<and> \<not> r" "holder lock l True \<longleftrightarrow> lock = Some Main_thread \<and> \<not> l"
  "holder lock False False \<longleftrightarrow> lock = None"
  using mon_thread.exhaust by (auto simp: holder_def)

lemma when_free_goes: "when_free lock t = goes u \<longleftrightarrow> lock = None \<and> u = t"
  by (auto simp: when_free_def split: option.splits)

lemma try_res_goes: "try_res r f = goes u \<longleftrightarrow> (\<exists>x. r = Inr x \<and> f x = goes u)"
  by (auto simp: try_res_def split: sum.splits)

lemma locks_mon_start: "option_locks (mon_threads_start ps m) \<and> node_locks (mon_threads_start ps m)"
  by (simp add: option_locks_def node_locks_def mon_threads_start_def)

lemma listen_main: "listen_step E s = goes t \<Longrightarrow> ms_main t = ms_main s"
  by (cases "ms_listen s")
    (auto simp: listen_step_def Let_def when_free_goes try_res_goes split: if_splits list.splits option.splits prod.splits)

lemma listen_option_locks:
  assumes "option_locks s" "listen_step E s = goes t"
  shows "option_locks t"
  using assms
  by (cases "ms_listen s")
    (auto simp: option_locks_def listen_step_def Let_def when_free_goes try_res_goes holder_of after_add_def
      split: if_splits list.splits option.splits prod.splits flow_dir.splits)

lemmas main_step_defs = main_step_def eval_steps_def report_steps_def end_steps_def

lemma main_listen: "main_step E s = goes t \<Longrightarrow> ms_listen t = ms_listen s"
  by (cases "ms_main s")
    (auto simp: main_step_defs Let_def when_free_goes try_res_goes split: if_splits option.splits prod.splits)

lemma judge_node_pc:
  "judge_node E i p m = Inr (pc, m1) \<Longrightarrow>
    \<not> m_config pc \<and> \<not> m_trie pc \<and> \<not> m_statistic pc \<and> m_node pc = Some p"
  by (auto simp: judge_node_def res_bind_def split: sum.splits if_splits)

lemma main_option_locks:
  assumes "option_locks s" "main_step E s = goes t"
  shows "option_locks t"
  using assms
  by (cases "ms_main s")
    (auto simp: option_locks_def main_step_defs Let_def when_free_goes try_res_goes holder_of
      dest!: judge_node_pc split: if_splits option.splits prod.splits)

lemma copy_node_nodes:
  assumes "copy_node E p w m = Inr (r, m1)" "new_nodes E"
  shows "r = Some q \<Longrightarrow> m_nodes m q = None" "m_nodes m x \<noteq> None \<Longrightarrow> m_nodes m1 x \<noteq> None"
proof -
  obtain r' opt h where new: "me_node_new E (m_opt m, m_nodes m) = (r', opt, h)"
    by (cases "me_node_new E (m_opt m, m_nodes m)") auto
  then have law: "r' = Some q \<Longrightarrow> m_nodes m q = None" "m_nodes m x \<noteq> None \<Longrightarrow> h x \<noteq> None" for q x
    using assms(2) unfolding new_nodes_def by blast+
  have "r = r'" "h x \<noteq> None \<Longrightarrow> m_nodes m1 x \<noteq> None" for x
    using assms(1) new by (auto simp: copy_node_def Let_def res_bind_Inr_iff set_node_def split: option.splits)
  then show "r = Some q \<Longrightarrow> m_nodes m q = None" "m_nodes m x \<noteq> None \<Longrightarrow> m_nodes m1 x \<noteq> None"
    using law by blast+
qed

lemma update_stats_nodes: "update_stats E bytes pkts p m = Inr m1 \<Longrightarrow> m_nodes m x \<noteq> None \<Longrightarrow> m_nodes m1 x \<noteq> None"
  by (auto simp: update_stats_def res_bind_Inr_iff Let_def set_node_def mon_time_def)

text \<open>What a step of the listener leaves of a rule that it holds no mutex of.\<close>

lemma listen_leaves:
  assumes "listen_step E s = goes t" "new_nodes E" "m_nodes (ms_mon s) p \<noteq> None"
  shows "m_nodes (ms_mon t) p \<noteq> None \<and>
    (ms_node_lock s p \<noteq> None \<and> l_node (ms_listen s) \<noteq> Some p \<longrightarrow> ms_node_lock t p = ms_node_lock s p)"
proof (cases "ms_listen s")
  case (L_dynamic w q)
  let ?t = "\<lambda>new m1. case new of None \<Rightarrow> s\<lparr>ms_mon := m1, ms_listen := L_dynamic_unlock w\<rparr>
       | Some x \<Rightarrow> s\<lparr>ms_mon := m1, ms_node_lock := (ms_node_lock s)(x := ms_node_lock s q), ms_listen := L_dynamic_count_lock w\<rparr>"
  from assms(1) L_dynamic have "try_res (copy_node E q w (ms_mon s)) (\<lambda>(new, m1). goes (?t new m1)) = goes t"
    by (simp add: listen_step_def Let_def split: if_splits)
  then obtain x where x: "copy_node E q w (ms_mon s) = Inr x" "(\<lambda>(new, m1). goes (?t new m1)) x = goes t"
    unfolding try_res_goes by (elim exE conjE)
  obtain new m1 where c: "x = (new, m1)" by (cases x)
  have t: "t = ?t new m1" using x(2) unfolding c by simp
  note copy = copy_node_nodes [OF x(1) [unfolded c] assms(2)]
  have "new \<noteq> Some p" using copy(1) [of p] assms(3) by auto
  then show ?thesis using copy(2) [OF assms(3)] by (cases new) (simp_all add: t)
qed (use assms in \<open>auto simp: listen_step_def Let_def when_free_goes try_res_goes count_packet_def count_dynamic_def
      dest: update_stats_nodes split: if_splits list.splits option.splits prod.splits\<close>)

lemma listen_node_locks:
  assumes ok: "node_locks s" and step: "listen_step E s = goes t" and new: "new_nodes E"
  shows "node_locks t"
proof -
  have l: "l_node (ms_listen t) = Some p \<Longrightarrow> ms_node_lock t p = Some Listener" for p
    using ok step by (cases "ms_listen s")
      (auto simp: node_locks_def listen_step_def Let_def when_free_goes try_res_goes after_add_def
        split: if_splits list.splits option.splits prod.splits flow_dir.splits)
  {
    fix p assume "m_node (ms_main t) = Some p"
    with ok listen_main [OF step] have p: "ms_node_lock s p = Some Main_thread" "m_nodes (ms_mon s) p \<noteq> None"
      by (auto simp: node_locks_def)
    moreover have "l_node (ms_listen s) \<noteq> Some p" using ok p(1) by (auto simp: node_locks_def)
    ultimately have "ms_node_lock t p = Some Main_thread \<and> m_nodes (ms_mon t) p \<noteq> None"
      using listen_leaves [OF step new, of p] by simp
  }
  with l show ?thesis by (auto simp: node_locks_def)
qed

lemma links_some: "links m' = links m \<Longrightarrow> m_nodes m p \<noteq> None \<Longrightarrow> m_nodes m' p \<noteq> None"
  by (metis links_def option.map_disc_iff)

lemma judge_node_links: "judge_node E i p m = Inr (pc, m1) \<Longrightarrow> m_node pc = Some p \<and> links m1 = links m"
  by (auto simp: judge_node_def res_bind_Inr_iff dest: exec_node_cmd_frame split: if_splits)

lemma report_node_links: "report_node p over m = Inr m1 \<Longrightarrow> links m1 = links m"
  by (auto simp: report_node_def res_bind_Inr_iff dest: set_reported_frame)

lemma main_node_locks:
  assumes "node_locks s" "main_step E s = goes t"
  shows "node_locks t"
  using assms
  by (cases "ms_main s")
    (auto simp: node_locks_def main_step_defs Let_def when_free_goes try_res_goes node_at_def add_active_def
      dest!: judge_node_links report_node_links dest: links_some split: if_splits option.splits prod.splits)

lemma deliver_same [simp]:
  assumes "h \<in> {terminates, sig_usr1, sig_hup}"
  shows "ms_listen (deliver h s) = ms_listen s" "ms_main (deliver h s) = ms_main s"
    "ms_exit (deliver h s) = ms_exit s" "ms_node_lock (deliver h s) = ms_node_lock s"
    "m_nodes (ms_mon (deliver h s)) = m_nodes (ms_mon s)"
    "ms_config_mutex (deliver h s) = ms_config_mutex s" "ms_trie_mutex (deliver h s) = ms_trie_mutex s"
    "ms_statistic_mutex (deliver h s) = ms_statistic_mutex s"
  using assms by (auto simp: deliver_def terminates_def sig_usr1_def sig_hup_def)

lemma reach_locks:
  assumes "mon_reach E s t" "option_locks s" "node_locks s" "new_nodes E"
  shows "option_locks t \<and> node_locks t"
  using assms(1)
proof (induction rule: mon_reach.induct)
  case (reach_signal t h)
  then show ?case by (simp add: option_locks_def node_locks_def)
qed (use assms(2-4) listen_option_locks listen_node_locks main_option_locks main_node_locks in blast)+

text \<open>C12. Mutual exclusion. In every state that the threads and the signals can reach, a mutex of the options is
  held by the thread that is in a section of it, and the threads are never both in sections of the same
  mutex or of the same rule.\<close>

theorem monitor_sections_exclude:
  assumes "new_nodes E" "mon_reach E (mon_threads_start ps m) t"
  shows "option_locks t \<and> \<not> (l_config (ms_listen t) \<and> m_config (ms_main t)) \<and>
    \<not> (l_trie (ms_listen t) \<and> m_trie (ms_main t)) \<and> \<not> (l_statistic (ms_listen t) \<and> m_statistic (ms_main t)) \<and>
    (l_node (ms_listen t) = None \<or> l_node (ms_listen t) \<noteq> m_node (ms_main t))"
proof -
  from reach_locks [OF assms(2)] locks_mon_start assms(1) have o: "option_locks t" and n: "node_locks t" by blast+
  from n have "l_node (ms_listen t) = None \<or> l_node (ms_listen t) \<noteq> m_node (ms_main t)"
    by (cases "l_node (ms_listen t)") (auto simp: node_locks_def)
  with o show ?thesis by (auto simp: option_locks_def holder_def)
qed

section \<open>Waiting\<close>

lemma when_free_waits: "when_free lock t = None \<longleftrightarrow> lock \<noteq> None"
  by (simp add: when_free_def split: option.splits)

lemma try_res_waits: "try_res r f = None \<longleftrightarrow> (\<exists>x. r = Inr x \<and> f x = None)"
  by (auto simp: try_res_def split: sum.splits)

text \<open>Where the threads wait, and for what.\<close>

lemma main_waits:
  assumes "main_step E s = None" "ms_exit s = None"
  shows "ms_main s \<in> {M_eval_config_lock, M_dump_lock, M_term_config_lock} \<and> ms_config_mutex s \<noteq> None \<or>
    ms_main s \<in> {M_eval_trie_lock, M_term_trie_lock} \<and> ms_trie_mutex s \<noteq> None \<or>
    (ms_main s = M_statistics_lock \<or> (\<exists>i p over. ms_main s = M_active_lock i p over)) \<and> ms_statistic_mutex s \<noteq> None \<or>
    (\<exists>i p. ms_main s = M_eval i (Some p) \<and> ms_node_lock s p \<noteq> None)"
  using assms
  by (cases "ms_main s")
    (auto simp: main_step_defs Let_def when_free_waits try_res_waits split: if_splits option.splits prod.splits)

lemma listen_waits:
  assumes "listen_step E s = None" "ms_exit s = None"
  shows "ms_listen s = L_end \<or>
    (\<exists>w. ms_listen s = L_config_lock w) \<and> ms_config_mutex s \<noteq> None \<or>
    (\<exists>w p. ms_listen s \<in> {L_trie_lock w, L_dynamic_lock w p}) \<and> ms_trie_mutex s \<noteq> None \<or>
    (\<exists>w d l. ms_listen s \<in> {L_count_lock d l, L_dynamic_count_lock w}) \<and> ms_statistic_mutex s \<noteq> None \<or>
    (\<exists>w p. ms_listen s = L_node_lock w p \<and> ms_node_lock s p \<noteq> None)"
  using assms
  by (cases "ms_listen s")
    (auto simp: listen_step_def Let_def when_free_waits try_res_waits split: if_splits list.splits option.splits prod.splits)

text \<open>C13. As long as no locked mutex was copied, one of the threads can get on: they never wait for
  each other.\<close>

theorem monitor_never_stuck:
  assumes "new_nodes E" "mon_reach E (mon_threads_start ps m) t" "ms_exit t = None" "\<forall>p. \<not> orphan t p"
  shows "main_step E t \<noteq> None \<or> listen_step E t \<noteq> None"
proof (rule ccontr)
  assume "\<not> ?thesis"
  then have w: "main_step E t = None" "listen_step E t = None" by auto
  from reach_locks [OF assms(2)] locks_mon_start assms(1) have o: "option_locks t" and n: "node_locks t" by blast+
  have free: "ms_node_lock t p = None" if "l_node (ms_listen t) \<noteq> Some p" "m_node (ms_main t) \<noteq> Some p" for p
    using assms(4) that by (auto simp: orphan_def)
  show False
    using main_waits [OF w(1) assms(3)] listen_waits [OF w(2) assms(3)] o n free
    by (elim disjE exE conjE) (auto simp: option_locks_def node_locks_def holder_of)
qed

section \<open>A copied mutex\<close>

text \<open>C14. \<open>add_dynamic_node\<close> copies a rule with its mutex. If the main loop evaluated the rule just then, the mutex
  of the copy is locked for ever: when the next packet of that address comes, the listener keeps the
  mutex of the configuration and waits, so that the main loop begins no other evaluation, dumps no
  rules and does not end either.\<close>

theorem copied_lock_blocks:
  assumes "ms_listen s = L_node_lock w p" "orphan s p" "option_locks s" "mon_reach E s t"
  shows "ms_listen t = L_node_lock w p \<and> orphan t p \<and> ms_config_mutex t = Some Listener \<and>
    \<not> m_config (ms_main t) \<and> ms_exit t = ms_exit s"
  using assms(4)
proof (induction rule: mon_reach.induct)
  case reach_start
  then show ?case using assms(1-3) by (auto simp: option_locks_def holder_of)
next
  case (reach_listen t u)
  then have "ms_node_lock t p \<noteq> None" by (simp add: orphan_def)
  then show ?case using reach_listen
    by (auto simp: listen_step_def Let_def try_res_goes when_free_goes split: if_splits)
next
  case (reach_main t u)
  then have l: "ms_listen u = L_node_lock w p" and c: "ms_config_mutex t = Some Listener" "\<not> m_config (ms_main t)"
    and p: "ms_node_lock t p \<noteq> None" "m_node (ms_main t) \<noteq> Some p"
    using main_listen [OF reach_main.hyps(2)] by (auto simp: orphan_def)
  have "ms_node_lock u p = ms_node_lock t p \<and> m_node (ms_main u) \<noteq> Some p \<and> ms_config_mutex u = Some Listener \<and>
      \<not> m_config (ms_main u) \<and> ms_exit u = ms_exit t"
    using reach_main.hyps(2) c p
    by (cases "ms_main t")
      (auto simp: main_step_defs Let_def when_free_goes try_res_goes dest!: judge_node_pc split: if_splits option.splits prod.splits)
  then show ?case using reach_main.IH l p by (simp add: orphan_def)
next
  case (reach_signal t h)
  then show ?case by (simp add: orphan_def)
qed

section \<open>A run\<close>

text \<open>A schedule says which thread makes the next step.\<close>

fun schedule :: "('l, 'b, 't) mon_env \<Rightarrow> mon_thread list \<Rightarrow> ('l, 'b, 't) mon_system \<Rightarrow> ('l, 'b, 't) mon_move" where
  "schedule E [] s = goes s"
| "schedule E (x # xs) s =
     Option.bind (case x of Listener \<Rightarrow> listen_step E s | Main_thread \<Rightarrow> main_step E s) (\<lambda>r.
     case r of Inl e \<Rightarrow> Some (Inl e) | Inr t \<Rightarrow> schedule E xs t)"

lemma schedule_reach: "schedule E xs t = goes u \<Longrightarrow> mon_reach E s t \<Longrightarrow> mon_reach E s u"
proof (induction xs arbitrary: t)
  case (Cons x xs)
  let ?r = "case x of Listener \<Rightarrow> listen_step E t | Main_thread \<Rightarrow> main_step E t"
  from Cons.prems(1) obtain v where v: "?r = goes v" "schedule E xs v = goes u"
    by (cases ?r; cases "the ?r") auto
  have "mon_reach E s v"
    using v(1) Cons.prems(2) mon_reach.reach_listen mon_reach.reach_main by (cases x) auto
  then show ?case by (rule Cons.IH [OF v(2)])
qed simp

text \<open>A rule that makes a rule for every address, two packets of one address, and the places of new rules.\<close>

definition dynamic_env :: "(int, int \<Rightarrow> int, nat) mon_env" where
  "dynamic_env = small_mon_env\<lparr>me_add_prefix := (\<lambda>ip l p t. p),
     me_node_new := (\<lambda>(opt, h). case h 3 of
       None \<Rightarrow> (Some 3, opt\<lparr>op_root_node := Some 3\<rparr>, h(3 \<mapsto> small_node (op_root_node opt)))
     | Some n \<Rightarrow> (None, opt, h))\<rparr>"

definition dynamic_monitor :: "(int, int \<Rightarrow> int, nat) monitor" where
  "dynamic_monitor = small_monitor\<lparr>m_nodes := [1 \<mapsto> (small_node None)\<lparr>sn_dynamic_ipv4 := 32\<rparr>],
     m_opt := (m_opt small_monitor)\<lparr>op_trie4 := (\<lambda>d. case d of FLOW_DIR_SRC \<Rightarrow> 1 | FLOW_DIR_DST \<Rightarrow> 0)\<rparr>\<rparr>"

definition small_packet :: "u8 list" where
  "small_packet = replicate 12 0 @ [8, 0] @ [69, 0, 0, 40] @ replicate 8 0 @ [10, 0, 0, 1] @ [10, 0, 0, 2]"

definition dynamic_start :: "(int, int \<Rightarrow> int, nat) mon_system" where
  "dynamic_start = mon_threads_start [small_packet, small_packet] dynamic_monitor"

lemma new_nodes_dynamic: "new_nodes dynamic_env"
  by (auto simp: new_nodes_def dynamic_env_def small_mon_env_def split: option.splits)

lemma schedule_append: "schedule E (xs @ ys) s = goes u \<Longrightarrow> \<exists>t. schedule E xs s = goes t \<and> schedule E ys t = goes u"
proof (induction xs arbitrary: s)
  case (Cons x xs)
  let ?r = "case x of Listener \<Rightarrow> listen_step E s | Main_thread \<Rightarrow> main_step E s"
  from Cons.prems obtain v where v: "?r = goes v" "schedule E (xs @ ys) v = goes u"
    by (cases ?r; cases "the ?r") auto
  from Cons.IH [OF v(2)] v(1) show ?case by simp
qed simp

text \<open>
  The main loop holds the mutex of the rule while the listener copies it, and goes on when the listener
  has come to the mutex of the copy.
\<close>

definition copy_schedule :: "mon_thread list" where
  "copy_schedule = replicate 7 Main_thread @ replicate 32 Listener"

definition copied :: "(int, int \<Rightarrow> int, nat) mon_system \<Rightarrow> bool" where
  "copied t \<longleftrightarrow> ms_listen t = L_node_lock (FLOW_DIR_SRC, drop 14 small_packet, 40) 3 \<and>
     ms_node_lock t 3 = Some Main_thread \<and> m_node (ms_main t) = Some 1 \<and> ms_exit t = None"

lemma dynamic_run:
  "case schedule dynamic_env copy_schedule dynamic_start of Some (Inr t) \<Rightarrow> copied t | _ \<Rightarrow> False"
  by code_simp

lemma dynamic_stuck:
  "case schedule dynamic_env (copy_schedule @ replicate 15 Main_thread) dynamic_start of
     Some (Inr t) \<Rightarrow> ms_main t = M_eval_config_lock \<and> (case listen_step dynamic_env t of None \<Rightarrow> True | _ \<Rightarrow> False)
   | _ \<Rightarrow> False"
  by code_simp

lemma dynamic_states:
  obtains s t where "mon_reach dynamic_env dynamic_start s" "copied s" "mon_reach dynamic_env s t"
    "ms_main t = M_eval_config_lock" "listen_step dynamic_env t = None"
proof -
  from dynamic_stuck obtain t where t: "schedule dynamic_env (copy_schedule @ replicate 15 Main_thread) dynamic_start = goes t"
    "ms_main t = M_eval_config_lock" "listen_step dynamic_env t = None"
    by (auto split: option.splits sum.splits)
  from schedule_append [OF t(1)] obtain s where s: "schedule dynamic_env copy_schedule dynamic_start = goes s"
    "schedule dynamic_env (replicate 15 Main_thread) s = goes t" by blast
  from dynamic_run s(1) have "copied s" by simp
  from that [OF schedule_reach [OF s(1) mon_reach.reach_start] this schedule_reach [OF s(2) mon_reach.reach_start] t(2,3)]
  show thesis .
qed

theorem copied_lock_blocks_witness:
  "\<exists>t. mon_reach dynamic_env dynamic_start t \<and> ms_exit t = None \<and> listen_step dynamic_env t = None \<and>
    main_step dynamic_env t = None"
proof -
  obtain s t where st: "mon_reach dynamic_env dynamic_start s" "copied s" "mon_reach dynamic_env s t"
    and t: "ms_main t = M_eval_config_lock" "listen_step dynamic_env t = None" by (rule dynamic_states)
  have ok: "option_locks s"
    using reach_locks [OF st(1)] locks_mon_start new_nodes_dynamic unfolding dynamic_start_def by blast
  from st(2) have l: "ms_listen s = L_node_lock (FLOW_DIR_SRC, drop 14 small_packet, 40) 3" "orphan s 3" "ms_exit s = None"
    by (simp_all add: copied_def orphan_def)
  note b = copied_lock_blocks [OF l(1,2) ok st(3)]
  have "main_step dynamic_env t = None"
    using b t(1) l(3) by (simp add: main_step_defs when_free_waits)
  moreover have "mon_reach dynamic_env dynamic_start t"
    using st(3,1) by (induction rule: mon_reach.induct) (auto intro: mon_reach.intros)
  ultimately show ?thesis using b t(2) l(3) by auto
qed

theorem monitor_sections_exclude_witness:
  "\<exists>t. mon_reach dynamic_env dynamic_start t \<and> l_config (ms_listen t) \<and> \<not> m_config (ms_main t)"
proof -
  obtain s t where st: "mon_reach dynamic_env dynamic_start s" "copied s" by (rule dynamic_states)
  from monitor_sections_exclude [OF new_nodes_dynamic st(1) [unfolded dynamic_start_def]] st
  show ?thesis by (intro exI [of _ s]) (simp add: copied_def)
qed

lemma small_packet_data:
  "eth_data small_packet = Inr (Some (drop 14 small_packet))" "ntohs_at (drop 14 small_packet) 2 = Inr 40"
  by (simp_all add: eth_data_def ntohs_at_def bytes_at_def small_packet_def ETHERTYPE_IP_def nth_append)

lemma waiting_run:
  "\<exists>t. schedule dynamic_env (Main_thread # replicate 6 Listener) dynamic_start = goes t \<and> ms_node_lock t = (\<lambda>p. None) \<and>
    ms_main t = M_eval_config_lock \<and> ms_config_mutex t = Some Listener \<and> ms_exit t = None"
proof -
  have "replicate 6 Listener = [Listener, Listener, Listener, Listener, Listener, Listener]" by (simp add: numeral_nat)
  then show ?thesis
    by (simp add: dynamic_start_def mon_threads_start_def main_step_defs listen_step_def Let_def when_free_def
      try_res_def dynamic_env_def dynamic_monitor_def small_mon_env_def small_monitor_def mon_default_def small_packet_data)
qed

theorem monitor_never_stuck_witness:
  "\<exists>t. mon_reach dynamic_env dynamic_start t \<and> main_step dynamic_env t = None \<and> listen_step dynamic_env t \<noteq> None"
proof -
  obtain t where t: "schedule dynamic_env (Main_thread # replicate 6 Listener) dynamic_start = goes t"
    "ms_node_lock t = (\<lambda>p. None)" "ms_main t = M_eval_config_lock" "ms_config_mutex t = Some Listener" "ms_exit t = None"
    using waiting_run by blast
  have r: "mon_reach dynamic_env dynamic_start t" by (rule schedule_reach [OF t(1) mon_reach.reach_start])
  have "\<forall>p. \<not> orphan t p" using t(2) by (simp add: orphan_def)
  from monitor_never_stuck [OF new_nodes_dynamic r [unfolded dynamic_start_def] t(5) this] r t show ?thesis
    by (intro exI [of _ t]) (simp add: main_step_defs when_free_def)
qed

end
