(* ===== verification/Monitor_Alone.thy ===== *)
theory Monitor_Alone
  imports Monitor_Threads
begin

text \<open>
  A thread of \<open>main.c\<close> that runs alone, from a state in which no mutex is held, performs the operations
  of the theory \<open>Monitor\<close>: the listener \<open>listen_bpf\<close> on the packets that come, the main loop one round.
\<close>

section \<open>A thread that runs alone\<close>

fun run_mon ::
  "(('l, 'b, 't) mon_system \<Rightarrow> ('l, 'b, 't) mon_move) \<Rightarrow> nat \<Rightarrow> ('l, 'b, 't) mon_system \<Rightarrow> ('l, 'b, 't) mon_move" where
  "run_mon step 0 s = goes s"
| "run_mon step (Suc n) s =
     Option.bind (step s) (\<lambda>r. case r of Inl e \<Rightarrow> Some (Inl e) | Inr t \<Rightarrow> run_mon step n t)"

definition leads ::
  "(('l, 'b, 't) mon_system \<Rightarrow> ('l, 'b, 't) mon_move) \<Rightarrow> ('l, 'b, 't) mon_system \<Rightarrow> ('l, 'b, 't) mon_move \<Rightarrow> bool" where
  "leads step s r \<longleftrightarrow> (\<exists>n. run_mon step n s = r)"

lemma leads_now: "leads step s (goes s)"
  unfolding leads_def by (rule exI [of _ 0]) simp

lemma leads_step: "step s = goes t \<Longrightarrow> leads step t r \<Longrightarrow> leads step s r"
  unfolding leads_def
proof (elim exE)
  fix n assume "step s = goes t" "run_mon step n t = r"
  then have "run_mon step (Suc n) s = r" by simp
  then show "\<exists>n. run_mon step n s = r" by blast
qed

lemma leads_fault: "step s = Some (Inl e) \<Longrightarrow> leads step s (Some (Inl e))"
  unfolding leads_def by (rule exI [of _ 1]) simp

lemma leads_run: "run_mon step n s = goes t \<Longrightarrow> leads step t r \<Longrightarrow> leads step s r"
proof (induction n arbitrary: s)
  case (Suc n)
  then obtain u where "step s = goes u" "run_mon step n u = goes t"
    by (cases "step s"; cases "the (step s)") auto
  then show ?case using leads_step Suc by blast
qed simp

lemma leads_trans: "leads step s (goes t) \<Longrightarrow> leads step t r \<Longrightarrow> leads step s r"
  unfolding leads_def [of step s "goes t"] using leads_run by blast

definition all_free :: "('l, 'b, 't) mon_system \<Rightarrow> bool" where
  "all_free s \<longleftrightarrow> ms_config_mutex s = None \<and> ms_trie_mutex s = None \<and> ms_statistic_mutex s = None \<and>
     ms_node_lock s = (\<lambda>p. None) \<and> ms_exit s = None"

lemma none_upd [simp]: "(\<lambda>p. None)(x := None) = (\<lambda>p. None)"
  by (simp add: fun_eq_iff)

lemma when_free_None [simp]: "when_free None t = goes t"
  by (simp add: when_free_def)

lemma try_res_simps [simp]: "try_res (Inl e) f = Some (Inl e)" "try_res (Inr x) f = f x"
  by (simp_all add: try_res_def)

lemma work_addr_length: "work_addr w = Inr a \<Longrightarrow> length a = 4"
  by (auto simp: work_addr_def bytes_at_def split: prod.splits flow_dir.splits if_splits)

lemma add_dynamic_copy:
  assumes "work_addr w = Inr a"
  shows "add_dynamic_node E p AF_INET a (fst w) m =
    map_sum id (\<lambda>(r, m1). (r, case r of None \<Rightarrow> m1 | Some q \<Rightarrow> count_dynamic m1)) (copy_node E p w m)"
proof -
  obtain r opt h where new: "me_node_new E (m_opt m, m_nodes m) = (r, opt, h)"
    by (cases "me_node_new E (m_opt m, m_nodes m)") auto
  show ?thesis
  proof (cases r)
    case (Some q)
    show ?thesis
      using new Some assms work_addr_length [OF assms]
      by (cases "h q"; cases "h p")
        (simp_all add: add_dynamic_node_def copy_node_def node_at_def bytes_at_def Let_def set_node_def count_dynamic_def)
  qed (use new in \<open>simp add: add_dynamic_node_def copy_node_def\<close>)
qed

lemmas listen_run = numeral_nat listen_step_def Let_def

lemma run_node_update:
  assumes "all_free s" "ms_listen s = L_config_lock w" "look_up E w (ms_mon s) = Inr (Some p)"
    "m_nodes (ms_mon s) p = Some n" "sn_dynamic_ipv4 n = 0 \<and> sn_dynamic_ipv6 n = 0"
  shows "leads (listen_step E) s (Some (map_sum id (\<lambda>m1. s\<lparr>ms_mon := m1, ms_listen := after_add w\<rparr>)
    (update_stats E (snd (snd w)) 1 p (ms_mon s))))"
proof -
  let ?t = "s\<lparr>ms_config_mutex := Some Listener, ms_node_lock := (\<lambda>p. None)(p := Some Listener), ms_listen := L_update w p\<rparr>"
  have run: "run_mon (listen_step E) 6 s = goes ?t"
    using assms by (simp add: listen_run all_free_def node_at_def)
  show ?thesis
  proof (cases "update_stats E (snd (snd w)) 1 p (ms_mon s)")
    case (Inl e)
    show ?thesis
      by (rule leads_run [OF run], simp add: Inl, rule leads_fault)
        (use Inl assms(1) in \<open>simp add: listen_step_def all_free_def\<close>)
  next
    case (Inr m1)
    have "run_mon (listen_step E) 3 ?t = goes (s\<lparr>ms_mon := m1, ms_listen := after_add w\<rparr>)"
      using Inr assms(1) by (simp add: listen_run all_free_def)
    from leads_run [OF run leads_run [OF this leads_now]] Inr show ?thesis by simp
  qed
qed

lemma run_node_copy:
  assumes s: "all_free s" "ms_listen s = L_config_lock w" "look_up E w (ms_mon s) = Inr (Some p)"
    "m_nodes (ms_mon s) p = Some n" "sn_dynamic_ipv4 n \<noteq> 0 \<or> sn_dynamic_ipv6 n \<noteq> 0"
    and a: "work_addr w = Inr a"
  shows "leads (listen_step E) s (Some (map_sum id (\<lambda>(r, m1). s\<lparr>ms_mon := m1, ms_listen := after_add w\<rparr>)
    (add_dynamic_node E p AF_INET a (fst w) (ms_mon s))))"
proof -
  let ?t = "s\<lparr>ms_config_mutex := Some Listener, ms_trie_mutex := Some Listener, ms_listen := L_dynamic w p\<rparr>"
  have run: "run_mon (listen_step E) 6 s = goes ?t"
    using s by (auto simp: listen_run all_free_def node_at_def)
  show ?thesis
  proof (cases "copy_node E p w (ms_mon s)")
    case (Inl e)
    show ?thesis
      by (rule leads_run [OF run], simp add: Inl add_dynamic_copy [OF a], rule leads_fault)
        (use Inl s(1) in \<open>simp add: listen_step_def all_free_def\<close>)
  next
    case (Inr x)
    obtain r m1 where x: "x = (r, m1)" by (cases x)
    show ?thesis
    proof (cases r)
      case None
      then have "run_mon (listen_step E) 3 ?t = goes (s\<lparr>ms_mon := m1, ms_listen := after_add w\<rparr>)"
        using Inr x s(1) by (simp add: listen_run all_free_def)
      from leads_run [OF run leads_run [OF this leads_now]] Inr x None show ?thesis by (simp add: add_dynamic_copy [OF a])
    next
      case (Some q)
      then have "run_mon (listen_step E) 6 ?t = goes (s\<lparr>ms_mon := count_dynamic m1, ms_listen := after_add w\<rparr>)"
        using Inr x s(1) by (simp add: listen_run all_free_def)
      from leads_run [OF run leads_run [OF this leads_now]] Inr x Some show ?thesis by (simp add: add_dynamic_copy [OF a])
    qed
  qed
qed

text \<open>One address of a packet.\<close>

lemma run_add_packet:
  assumes s: "all_free s" "ms_listen s = L_config_lock w"
  shows "leads (listen_step E) s (Some (map_sum id (\<lambda>m1. s\<lparr>ms_mon := m1, ms_listen := after_add w\<rparr>)
    (res_bind (work_addr w) (\<lambda>a. add_packet E AF_INET (fst w) a (snd (snd w)) 1 (ms_mon s)))))"
proof (cases "work_addr w")
  case (Inl e)
  let ?t = "s\<lparr>ms_config_mutex := Some Listener, ms_trie_mutex := Some Listener, ms_listen := L_lookup w\<rparr>"
  have run: "run_mon (listen_step E) 2 s = goes ?t" using s by (simp add: listen_run all_free_def)
  show ?thesis
    by (rule leads_run [OF run], simp add: Inl, rule leads_fault)
      (use Inl s(1) in \<open>simp add: listen_step_def all_free_def look_up_def\<close>)
next
  case (Inr a)
  let ?found = "me_lookup E a 32 (op_trie4 (m_opt (ms_mon s)) (fst w))"
  have l: "look_up E w (ms_mon s) = Inr ?found" using Inr by (simp add: look_up_def)
  have a: "bytes_at a 0 4 = Inr a" using work_addr_length [OF Inr] by (simp add: bytes_at_def)
  show ?thesis
  proof (cases ?found)
    case None
    have "run_mon (listen_step E) 6 s = goes (s\<lparr>ms_listen := after_add w\<rparr>)"
      using s l None by (simp add: listen_run all_free_def)
    from leads_run [OF this leads_now] None Inr a show ?thesis by (simp add: add_packet_def)
  next
    case (Some p)
    show ?thesis
    proof (cases "m_nodes (ms_mon s) p")
      case none: None
      let ?t = "s\<lparr>ms_config_mutex := Some Listener, ms_listen := L_found w (Some p)\<rparr>"
      have run: "run_mon (listen_step E) 4 s = goes ?t" using s l Some by (simp add: listen_run all_free_def)
      show ?thesis
        by (rule leads_run [OF run], simp add: add_packet_def a Some none node_at_def Inr, rule leads_fault)
          (use s(1) none in \<open>simp add: listen_step_def all_free_def node_at_def\<close>)
    next
      case n: (Some n)
      show ?thesis
      proof (cases "sn_dynamic_ipv4 n \<noteq> 0 \<or> sn_dynamic_ipv6 n \<noteq> 0")
        case True
        have e: "map_sum id (\<lambda>m1. s\<lparr>ms_mon := m1, ms_listen := after_add w\<rparr>)
            (res_bind (work_addr w) (\<lambda>a. add_packet E AF_INET (fst w) a (snd (snd w)) 1 (ms_mon s))) =
          map_sum id (\<lambda>(r, m1). s\<lparr>ms_mon := m1, ms_listen := after_add w\<rparr>) (add_dynamic_node E p AF_INET a (fst w) (ms_mon s))"
          using Inr a Some n True
          by (cases "add_dynamic_node E p AF_INET a (fst w) (ms_mon s)") (auto simp: add_packet_def node_at_def)
        show ?thesis unfolding e using run_node_copy [OF s l [unfolded Some] n True Inr] .
      next
        case False
        then have "add_packet E AF_INET (fst w) a (snd (snd w)) 1 (ms_mon s) = update_stats E (snd (snd w)) 1 p (ms_mon s)"
          using a Some n by (simp add: add_packet_def node_at_def)
        with run_node_update [OF s l [unfolded Some] n] False Inr show ?thesis by simp
      qed
    qed
  qed
qed

lemma process_eth_data:
  "process_eth E p m = res_bind (eth_data p) (\<lambda>d. case d of None \<Rightarrow> Inr m | Some data \<Rightarrow> process_ip E data m)"
  by (cases "ntohs_at p 12") (simp_all add: process_eth_def eth_data_def)

definition given :: "('l, 'b, 't) mon_env \<Rightarrow> packet_work \<Rightarrow> ('l, 'b, 't) monitor \<Rightarrow> ('l, 'b, 't) monitor res" where
  "given E w m = res_bind (work_addr w) (\<lambda>a. add_packet E AF_INET (fst w) a (snd (snd w)) 1 m)"

lemma process_ip_given:
  "process_ip E data m = res_bind (ntohs_at data 2) (\<lambda>len.
     res_bind (given E (FLOW_DIR_SRC, data, len) (count_packet E len m)) (given E (FLOW_DIR_DST, data, len)))"
proof (cases "ntohs_at data 2")
  case (Inr len)
  show ?thesis
  proof (cases "bytes_at data 12 4")
    case (Inr a)
    with \<open>ntohs_at data 2 = Inr len\<close> show ?thesis
      by (cases "add_packet E AF_INET FLOW_DIR_SRC a len 1 (count_packet E len m)")
        (simp_all add: process_ip_def given_def work_addr_def count_packet_def Let_def)
  qed (use Inr in \<open>simp add: process_ip_def given_def work_addr_def Let_def\<close>)
qed (simp add: process_ip_def)

lemma run_given:
  assumes "all_free s" "ms_listen s = L_config_lock w"
  shows "leads (listen_step E) s (Some (map_sum id (\<lambda>m1. s\<lparr>ms_mon := m1, ms_listen := after_add w\<rparr>) (given E w (ms_mon s))))"
  using run_add_packet [OF assms] by (simp add: given_def)

text \<open>A packet.\<close>

lemma run_packet:
  assumes s: "all_free s" "ms_listen s = L_packet" "ms_packets s = p # ps"
  shows "leads (listen_step E) s
    (Some (map_sum id (\<lambda>m1. s\<lparr>ms_mon := m1, ms_packets := ps\<rparr>) (process_eth E p (ms_mon s))))"
proof (cases "eth_data p")
  case (Inl e)
  show ?thesis
    by (simp add: process_eth_data Inl, rule leads_fault) (use Inl s in \<open>simp add: listen_step_def all_free_def\<close>)
next
  case d: (Inr d)
  show ?thesis
  proof (cases d)
    case None
    have "run_mon (listen_step E) 1 s = goes (s\<lparr>ms_packets := ps\<rparr>)"
      using s d None by (simp add: listen_run all_free_def)
    from leads_run [OF this leads_now] show ?thesis by (simp add: process_eth_data d None)
  next
    case (Some data)
    show ?thesis
    proof (cases "ntohs_at data 2")
      case (Inl e)
      show ?thesis
        by (simp add: process_eth_data d Some process_ip_given Inl, rule leads_fault)
          (use Inl d Some s in \<open>simp add: listen_step_def all_free_def\<close>)
    next
      case len: (Inr len)
      let ?w = "(FLOW_DIR_SRC, data, len)" and ?v = "(FLOW_DIR_DST, data, len)"
      let ?t = "s\<lparr>ms_packets := ps, ms_mon := count_packet E len (ms_mon s), ms_listen := L_config_lock ?w\<rparr>"
      have run: "run_mon (listen_step E) 4 s = goes ?t"
        using s d Some len by (simp add: listen_run all_free_def)
      have t: "all_free ?t" "ms_listen ?t = L_config_lock ?w" using s(1) by (simp_all add: all_free_def)
      have e: "process_eth E p (ms_mon s) = res_bind (given E ?w (count_packet E len (ms_mon s))) (given E ?v)"
        by (simp add: process_eth_data d Some process_ip_given len)
      show ?thesis
      proof (cases "given E ?w (count_packet E len (ms_mon s))")
        case (Inl x)
        with leads_run [OF run run_given [OF t]] e show ?thesis by simp
      next
        case (Inr m1)
        let ?u = "?t\<lparr>ms_mon := m1, ms_listen := L_config_lock ?v\<rparr>"
        have u: "all_free ?u" "ms_listen ?u = L_config_lock ?v" using s(1) by (simp_all add: all_free_def)
        have "leads (listen_step E) s (goes ?u)"
          using leads_run [OF run run_given [OF t]] Inr by (simp add: after_add_def)
        have "s\<lparr>ms_packets := ps, ms_mon := b, ms_listen := L_packet\<rparr> = s\<lparr>ms_mon := b, ms_packets := ps\<rparr>" for b
          using s(2) by (cases s) simp
        with leads_trans [OF \<open>leads (listen_step E) s (goes ?u)\<close> run_given [OF u]] show ?thesis
          using e Inr by (cases "given E ?v m1") (simp_all add: after_add_def)
      qed
    qed
  qed
qed

lemma run_packets:
  "all_free s \<Longrightarrow> ms_listen s = L_packet \<Longrightarrow> ms_packets s = ps \<Longrightarrow>
    leads (listen_step E) s (Some (map_sum id (\<lambda>m1. s\<lparr>ms_mon := m1, ms_packets := [], ms_listen := L_end\<rparr>)
      (process_all E ps (ms_mon s))))"
proof (induction ps arbitrary: s)
  case Nil
  have "run_mon (listen_step E) 1 s = goes (s\<lparr>ms_packets := [], ms_listen := L_end\<rparr>)"
    using Nil by (simp add: listen_run all_free_def)
  from leads_run [OF this leads_now] show ?case by simp
next
  case (Cons p ps)
  note run = run_packet [OF Cons.prems, of E]
  show ?case
  proof (cases "process_eth E p (ms_mon s)")
    case (Inl e)
    with run show ?thesis by simp
  next
    case (Inr m1)
    let ?t = "s\<lparr>ms_mon := m1, ms_packets := ps\<rparr>"
    have "all_free ?t" "ms_listen ?t = L_packet" "ms_packets ?t = ps" using Cons.prems by (simp_all add: all_free_def)
    from leads_trans [OF _ Cons.IH [OF this]] run Inr show ?thesis
      by (cases "process_all E ps m1") simp_all
  qed
qed

text \<open>The listener.\<close>

lemma run_listen:
  assumes s: "all_free s" "ms_listen s = L_open"
  shows "leads (listen_step E) s
    (case listen_bpf E (ms_packets s) (ms_mon s) of
       Inl e \<Rightarrow> Some (Inl e)
     | Inr (Ended n m1) \<Rightarrow> goes (s\<lparr>ms_mon := m1, ms_exit := Some n\<rparr>)
     | Inr (Goes_on m1) \<Rightarrow> goes (s\<lparr>ms_mon := m1, ms_packets := [], ms_listen := L_end\<rparr>))"
proof (cases "me_pcap E (op_device (m_opt (ms_mon s)))")
  case True
  let ?t = "s\<lparr>ms_listen := L_packet\<rparr>"
  have run: "run_mon (listen_step E) 1 s = goes ?t" using s True by (simp add: listen_run all_free_def)
  have "all_free ?t" "ms_listen ?t = L_packet" using s(1) by (simp_all add: all_free_def)
  from leads_run [OF run run_packets [OF this refl]] True show ?thesis
    by (cases "process_all E (ms_packets s) (ms_mon s)") (simp_all add: listen_bpf_def)
next
  case False
  then have "run_mon (listen_step E) 1 s = goes (s\<lparr>ms_exit := Some 1\<rparr>)" using s by (simp add: listen_run all_free_def)
  from leads_run [OF this leads_now] False show ?thesis by (simp add: listen_bpf_def)
qed

section \<open>The main loop alone\<close>

lemmas main_run = numeral_nat main_step_def Let_def

text \<open>A command leaves the time of the last packet of a rule.\<close>

definition stamps :: "('l, 'b, 't) monitor \<Rightarrow> ptr \<Rightarrow> int option" where
  "stamps m p = map_option sn_last_updated (m_nodes m p)"

lemma stamps_frames:
  "take_id E q m = Inr m' \<Longrightarrow> stamps m' = stamps m" "release_id E q m = Inr m' \<Longrightarrow> stamps m' = stamps m"
  by (auto simp: take_id_def release_id_def stamps_def set_node_def node_at_def fun_eq_iff Let_def
      split: if_split_asm prod.splits option.splits)

lemma exec_node_cmd_stamps:
  assumes "exec_node_cmd E p a m = Inr (r, m')" "a = ACTION_NEW \<or> a = ACTION_DEL"
  shows "stamps m' = stamps m"
proof -
  obtain m1 where m1: "(if a = ACTION_NEW then take_id E p m else Inr m) = Inr m1"
    using assms(1) by (cases "if a = ACTION_NEW then take_id E p m else Inr m") (simp_all add: exec_node_cmd_def)
  then have f1: "stamps m1 = stamps m" using stamps_frames(1) [of E p m m1] by (auto split: if_split_asm)
  from assms m1 obtain n cmd inp r2 m2 where c: "run_cmd E cmd inp m1 = (r2, m2)"
    "(if r2 = 0 then Inr (0, m2) else res_bind (if a = ACTION_DEL then release_id E p m2 else Inr m2) (\<lambda>m3. Inr (1, m3))) = Inr (r, m')"
    by (auto simp: exec_node_cmd_def Let_def elim!: node_atE split: prod.splits)
  have f2: "stamps m2 = stamps m1" using run_cmd_frame [OF c(1)] by (simp add: stamps_def fun_eq_iff)
  have "stamps m' = stamps m2"
    using c(2) stamps_frames(2) [of E p m2] by (cases "release_id E p m2") (auto split: if_split_asm)
  with f1 f2 show ?thesis by simp
qed

text \<open>The rest of an evaluation of a rule, from the point that \<open>judge_node\<close> gives.\<close>

fun rest_of_eval :: "main_pc \<Rightarrow> ('l, 'b, 't) monitor \<Rightarrow> (bool \<times> ('l, 'b, 't) monitor) res" where
  "rest_of_eval (M_active_lock i p over) m =
     res_bind (report_node p over (add_active (if over then 1 else - 1) m)) (\<lambda>m1. Inr (True, m1))"
| "rest_of_eval (M_reported i p updated over) m = res_bind (report_node p over m) (\<lambda>m1. Inr (updated, m1))"
| "rest_of_eval (M_node_unlock i p updated) m = Inr (updated, m)"
| "rest_of_eval pc m = Inr (False, m)"

lemma report_over:
  assumes "stamps m p = Some t"
  shows "report_node p True m = set_reported p t m" "report_node p False m = set_reported p 0 m"
  using assms by (auto simp: report_node_def stamps_def node_at_def)

lemma stamps_active [simp]: "stamps (add_active d m) = stamps m"
  by (simp add: add_active_def stamps_def fun_eq_iff)

lemma eval_node_parts:
  fixes m :: "('l, 'b, 't) monitor"
  shows "eval_node E p m = res_bind (judge_node E i p m) (\<lambda>(pc, m1). rest_of_eval pc m1)"
proof (cases "m_nodes m p")
  case (Some n)
  then have t: "stamps m p = Some (sn_last_updated n)" by (simp add: stamps_def)
  have rep: "report_node p True m1 = set_reported p (sn_last_updated n) m1" "report_node p False m1 = set_reported p 0 m1"
    if "stamps m1 = stamps m" for m1 :: "('l, 'b, 't) monitor"
    using report_over [of m1 p "sn_last_updated n"] that t by simp_all
  show ?thesis
  proof (cases "me_over E (sn_stats_bytes n) (sn_window_size n) (sn_limit n)")
    case (Inr over)
    show ?thesis
    proof (cases "over")
      case True
      then show ?thesis
        using Some Inr rep exec_node_cmd_stamps [of E p ACTION_NEW m]
        by (cases "exec_node_cmd E p ACTION_NEW m") (auto simp: eval_node_def judge_node_def node_at_def)
    next
      case False
      then show ?thesis
        using Some Inr rep exec_node_cmd_stamps [of E p ACTION_DEL m]
        by (cases "exec_node_cmd E p ACTION_DEL m") (auto simp: eval_node_def judge_node_def node_at_def)
    qed
  qed (use Some in \<open>simp add: eval_node_def judge_node_def node_at_def\<close>)
qed (simp add: eval_node_def judge_node_def node_at_def)

lemma judge_node_cases:
  assumes "judge_node E i p m = Inr (pc, m1)"
  obtains over where "pc = M_active_lock i p over" | "pc = M_reported i p False True" | "pc = M_node_unlock i p False"
  using assms by (auto simp: judge_node_def res_bind_Inr_iff split: if_splits)

lemmas eval_run = main_run eval_steps_def

lemma run_report:
  assumes s: "all_free s"
  shows "leads (main_step E) (s\<lparr>ms_node_lock := (\<lambda>p. None)(p := Some Main_thread), ms_mon := m, ms_main := M_reported i p u over\<rparr>)
    (Some (map_sum id (\<lambda>m1. s\<lparr>ms_mon := m1, ms_main := M_next i p u\<rparr>) (report_node p over m)))"
    (is "leads _ ?t _")
proof (cases "report_node p over m")
  case (Inl e)
  then have "main_step E ?t = Some (Inl e)" using s by (simp add: eval_run all_free_def)
  from leads_fault [where step = "main_step E", OF this] Inl show ?thesis by simp
next
  case (Inr m1)
  have "run_mon (main_step E) 2 ?t = goes (s\<lparr>ms_mon := m1, ms_main := M_next i p u\<rparr>)"
    using Inr s by (simp add: eval_run all_free_def)
  from leads_run [OF this leads_now] Inr show ?thesis by simp
qed

lemma run_eval_node:
  assumes s: "all_free s" "ms_main s = M_eval i (Some p)"
  shows "leads (main_step E) s
    (Some (map_sum id (\<lambda>(b, m1). s\<lparr>ms_mon := m1, ms_main := M_next i p b\<rparr>) (eval_node E p (ms_mon s))))"
proof (cases "m_nodes (ms_mon s) p")
  case None
  then have e: "eval_node E p (ms_mon s) = Inl UseAfterFree" by (simp add: eval_node_def node_at_def)
  have "main_step E s = Some (Inl UseAfterFree)" using s None by (simp add: eval_run all_free_def node_at_def)
  from leads_fault [where step = "main_step E", OF this] e show ?thesis by simp
next
  case (Some n)
  let ?l = "(\<lambda>p. None)(p := Some Main_thread)"
  let ?t = "\<lambda>m pc. s\<lparr>ms_node_lock := ?l, ms_mon := m, ms_main := pc\<rparr>"
  have run: "run_mon (main_step E) 1 s = goes (?t (ms_mon s) (M_node i p))"
    using s Some by (cases s) (simp add: eval_run all_free_def node_at_def)
  show ?thesis
  proof (cases "judge_node E i p (ms_mon s)")
    case (Inl e)
    then have "main_step E (?t (ms_mon s) (M_node i p)) = Some (Inl e)" using s(1) by (simp add: eval_run all_free_def)
    from leads_run [OF run leads_fault [where step = "main_step E", OF this]] Inl show ?thesis by (simp add: eval_node_parts [of E p _ i])
  next
    case (Inr x)
    obtain pc m1 where x: "x = (pc, m1)" by (cases x)
    have "run_mon (main_step E) 1 (?t (ms_mon s) (M_node i p)) = goes (?t m1 pc)"
      using Inr x s(1) by (simp add: eval_run all_free_def)
    from leads_run [OF run leads_run [OF this]] have
      to: "leads (main_step E) (?t m1 pc) r \<Longrightarrow> leads (main_step E) s r" for r .
    from Inr x have "judge_node E i p (ms_mon s) = Inr (pc, m1)" by simp
    then show ?thesis
    proof (cases rule: judge_node_cases)
      case (1 over)
      let ?m2 = "add_active (if over then 1 else - 1) m1"
      have "run_mon (main_step E) 3 (?t m1 pc) = goes (?t ?m2 (M_reported i p True over))"
        using s(1) 1 by (cases s) (simp add: eval_run all_free_def)
      from to [OF leads_run [OF this run_report [OF s(1)]]] 1 Inr x show ?thesis
        by (cases "report_node p over ?m2") (simp_all add: eval_node_parts [of E p _ i])
    next
      case 2
      from to [unfolded 2, OF run_report [OF s(1)]] 2 Inr x show ?thesis
        by (cases "report_node p True m1") (simp_all add: eval_node_parts [of E p _ i])
    next
      case 3
      have "run_mon (main_step E) 1 (?t m1 pc) = goes (s\<lparr>ms_mon := m1, ms_main := M_next i p False\<rparr>)"
        using s(1) 3 by (simp add: eval_run all_free_def)
      from to [OF leads_run [OF this leads_now]] 3 Inr x show ?thesis by (simp add: eval_node_parts [of E p _ i])
    qed
  qed
qed

lemma run_eval_list:
  "eval_list E i node m = Some r \<Longrightarrow> all_free s \<Longrightarrow> ms_main s = M_eval i node \<Longrightarrow> ms_mon s = m \<Longrightarrow>
    leads (main_step E) s (Some (map_sum id (\<lambda>m1. s\<lparr>ms_mon := m1, ms_main := M_statistics\<rparr>) r))"
proof (induction arbitrary: s rule: eval_list.raw_induct [rotated, consumes 1, case_names step])
  case (step eval E i node m r)
  show ?case
  proof (cases node)
    case None
    have "run_mon (main_step E) 1 s = goes (s\<lparr>ms_main := M_statistics\<rparr>)"
      using step(3,4) None by (simp add: eval_run all_free_def)
    from leads_run [OF this leads_now] have "leads (main_step E) s (goes (s\<lparr>ms_main := M_statistics\<rparr>))" .
    moreover have "s\<lparr>ms_main := M_statistics\<rparr> = s\<lparr>ms_mon := m, ms_main := M_statistics\<rparr>"
      using step(5) by (cases s) simp
    moreover have "r = Inr m" using step(2) None by auto
    ultimately show ?thesis by simp
  next
    case (Some p)
    note run = run_eval_node [OF step(3) step(4) [unfolded Some], of E]
    show ?thesis
    proof (cases "eval_node E p m")
      case (Inl e)
      with run step(2,5) Some show ?thesis by auto
    next
      case (Inr x)
      obtain b m1 where x: "x = (b, m1)" by (cases x)
      let ?t = "s\<lparr>ms_mon := m1, ms_main := M_next i p b\<rparr>"
      have to: "leads (main_step E) s (goes ?t)" using run Inr x step(5) by simp
      show ?thesis
      proof (cases "node_at m1 p")
        case (Inl e)
        then have "main_step E ?t = Some (Inl e)" using step(3) by (simp add: eval_run all_free_def)
        from leads_trans [OF to leads_fault [where step = "main_step E", OF this]] show ?thesis
          using step(2) Some Inr x Inl by auto
      next
        case n: (Inr n)
        define j where "j = (if b then i + 1 else i)"
        let ?u = "s\<lparr>ms_mon := m1, ms_main := (if j > UPDATES_IN_STEP then M_statistics else M_eval j (sn_next_node n))\<rparr>"
        have "run_mon (main_step E) 1 ?t = goes ?u" using n step(3) by (simp add: eval_run all_free_def j_def)
        then have u: "leads (main_step E) s r' " if "leads (main_step E) ?u r'" for r'
          using leads_trans [OF to leads_run] that by blast
        show ?thesis
        proof (cases "j > UPDATES_IN_STEP")
          case True
          then have "r = Inr m1" using step(2) Some Inr x n by (auto simp: j_def Let_def)
          with u [unfolded if_P [OF True], OF leads_now] show ?thesis by simp
        next
          case False
          then have "eval E j (sn_next_node n) m1 = Some r" using step(2) Some Inr x n by (auto simp: j_def Let_def)
          from step(1) [OF this, of ?u] False step(3) have
            "leads (main_step E) ?u (Some (map_sum id (\<lambda>m2. ?u\<lparr>ms_mon := m2, ms_main := M_statistics\<rparr>) r))"
            by (simp add: all_free_def id_def)
          from u [OF this] show ?thesis by (simp add: id_def)
        qed
      qed
    qed
  qed
qed

lemma run_eval_nodes:
  assumes "eval_nodes E (ms_mon s) = Some r" "all_free s" "ms_main s = M_eval_config_lock"
  shows "leads (main_step E) s (Some (map_sum id (\<lambda>m1. s\<lparr>ms_mon := m1, ms_main := M_statistics\<rparr>) r))"
proof -
  let ?t = "s\<lparr>ms_main := M_eval 0 (op_root_node (m_opt (ms_mon s)))\<rparr>"
  have run: "run_mon (main_step E) 5 s = goes ?t" using assms(2,3) by (cases s) (simp add: eval_run all_free_def)
  have "all_free ?t" "ms_main ?t = M_eval 0 (op_root_node (m_opt (ms_mon s)))" "ms_mon ?t = ms_mon s"
    using assms(2) by (simp_all add: all_free_def)
  from leads_run [OF run run_eval_list [OF assms(1) [unfolded eval_nodes_def] this]] show ?thesis by simp
qed

lemmas report_run = main_run report_steps_def mon_time_def

lemma run_statistics:
  assumes "all_free s" "ms_main s = M_statistics"
  shows "leads (main_step E) s (goes (s\<lparr>ms_mon := mon_statistics E (ms_mon s), ms_main := M_reload\<rparr>))"
proof -
  let ?m = "ms_mon s" let ?opt = "m_opt ?m"
  show ?thesis
  proof (cases "op_statistic_interval ?opt + op_statistic_last ?opt < me_time E (m_ticks ?m)")
    case True
    show ?thesis
    proof (cases "op_statistic_interval ?opt = 0 \<or> \<not> me_fopen E (op_statistic_file ?opt)")
      case none: True
      then have "run_mon (main_step E) 2 s = goes (s\<lparr>ms_mon := mon_statistics E ?m, ms_main := M_reload\<rparr>)"
        using True assms by (auto simp: report_run all_free_def mon_statistics_def update_statistic_file_def)
      from leads_run [OF this leads_now] show ?thesis .
    next
      case False
      then have "run_mon (main_step E) 6 s = goes (s\<lparr>ms_mon := mon_statistics E ?m, ms_main := M_reload\<rparr>)"
        using True assms
        by (cases s) (simp add: report_run all_free_def mon_statistics_def update_statistic_file_def clear_file_def close_file_def)
      from leads_run [OF this leads_now] show ?thesis .
    qed
  next
    case False
    then have "run_mon (main_step E) 1 s = goes (s\<lparr>ms_mon := mon_statistics E ?m, ms_main := M_reload\<rparr>)"
      using assms by (simp add: report_run all_free_def mon_statistics_def)
    from leads_run [OF this leads_now] show ?thesis .
  qed
qed

lemma dump_node_eq: "dump_node E opt n (text, i, j) =
    (text @ me_log E ACTION_DUMP opt n @ newline, i + 1, if sn_time_reported n \<noteq> 0 then j + 1 else j)"
  by (simp add: dump_node_def)

lemmas dump_list_induct =
  dump_list.raw_induct [where xa = "(((E, m), node), x)" for E m node x, unfolded prod.case, rotated, consumes 1, case_names step]

lemma run_dump_list:
  assumes "dump_list E m node x = Some r"
  shows "ms_exit s = None \<Longrightarrow> ms_main s = M_dump_node node x \<Longrightarrow> m_opt (ms_mon s) = m_opt m \<Longrightarrow>
    m_nodes (ms_mon s) = m_nodes m \<Longrightarrow>
    leads (main_step E) s (Some (map_sum id (\<lambda>y. s\<lparr>ms_main := M_dump_unlock y\<rparr>) r))"
  using assms
proof (induction arbitrary: s rule: dump_list_induct)
  case (step dump E m node x r)
  then have exit: "ms_exit s = None" and main: "ms_main s = M_dump_node node x"
    and same: "m_opt (ms_mon s) = m_opt m" "node_at (ms_mon s) p = node_at m p" for p
    by (simp_all add: node_at_def)
  show ?case
  proof (cases node)
    case None
    then have "run_mon (main_step E) 1 s = goes (s\<lparr>ms_main := M_dump_unlock x\<rparr>)"
      using exit main by (simp add: report_run)
    from leads_run [OF this leads_now] step(2) None show ?thesis by auto
  next
    case (Some p)
    show ?thesis
    proof (cases "node_at m p")
      case (Inl e)
      then have "main_step E s = Some (Inl e)" using exit main same Some by (simp add: report_run)
      from leads_fault [where step = "main_step E", OF this] Inl step(2) Some show ?thesis by auto
    next
      case (Inr n)
      let ?t = "s\<lparr>ms_main := M_dump_node (sn_next_node n) (dump_node E (m_opt m) n x)\<rparr>"
      have run: "run_mon (main_step E) 1 s = goes ?t" using Inr Some exit main same by (simp add: report_run)
      have "dump E m (sn_next_node n) (dump_node E (m_opt m) n x) = Some r"
        using step(2) Some Inr by (cases x) (simp add: dump_node_eq)
      from step(1) [OF this, of ?t] step(3,5,6) have
        "leads (main_step E) ?t (Some (map_sum id (\<lambda>y. ?t\<lparr>ms_main := M_dump_unlock y\<rparr>) r))" by (simp add: id_def)
      from leads_run [OF run this] show ?thesis by (simp add: id_def)
    qed
  qed
qed

lemma run_dump:
  assumes "all_free s" "ms_main s = M_dump" "mon_dump E (ms_mon s) = Some r"
  shows "leads (main_step E) s (Some (map_sum id (\<lambda>m1. s\<lparr>ms_mon := m1, ms_main := M_terminate\<rparr>) r))"
proof (cases "\<not> received_term (ms_mon s) \<and> received_usr1 (ms_mon s)")
  case False
  then have "run_mon (main_step E) 1 s = goes (s\<lparr>ms_main := M_terminate\<rparr>)" using assms(1,2) by (auto simp: report_run all_free_def)
  moreover have "r = Inr (ms_mon s)" using assms(3) False by (auto simp: mon_dump_def)
  moreover have "s\<lparr>ms_mon := ms_mon s, ms_main := M_terminate\<rparr> = s\<lparr>ms_main := M_terminate\<rparr>" by (cases s) simp
  ultimately show ?thesis using leads_run [OF _ leads_now, of "main_step E" 1 s] by simp
next
  case True
  let ?m = "(ms_mon s)\<lparr>received_usr1 := False\<rparr>" let ?name = "op_dbdump_file (m_opt (ms_mon s))"
  show ?thesis
  proof (cases "me_fopen E ?name")
    case False
    have "run_mon (main_step E) 1 s = goes (s\<lparr>ms_mon := ?m, ms_main := M_terminate\<rparr>)"
      using assms(1,2) True False by (simp add: report_run all_free_def)
    from leads_run [OF this leads_now] show ?thesis using assms(3) True False by (auto simp: mon_dump_def dump_nodes_db_def)
  next
    case opened: True
    let ?c = "clear_file ?name ?m"
    let ?t = "s\<lparr>ms_mon := ?c, ms_config_mutex := Some Main_thread, ms_main := M_dump_node (op_root_node (m_opt ?m)) ('''', 0, 0)\<rparr>"
    have run: "run_mon (main_step E) 3 s = goes ?t"
      using assms(1,2) True opened by (simp add: report_run all_free_def clear_file_def)
    from assms(3) True opened obtain q where q: "dump_list E ?m (op_root_node (m_opt ?m)) ('''', 0, 0) = Some q"
      "r = res_bind q (\<lambda>(s, i, j). Inr (?m\<lparr>m_files := (m_files ?m)(?name \<mapsto>
            s @ ''# total rules: '' @ fmt_d i @ newline @ ''# active rules: '' @ fmt_d j @ newline)\<rparr>))"
      by (auto simp: mon_dump_def dump_nodes_db_def bind_eq_Some_conv Let_def)
    have "leads (main_step E) ?t (Some (map_sum id (\<lambda>y. ?t\<lparr>ms_main := M_dump_unlock y\<rparr>) q))"
      using assms(1) by (intro run_dump_list [OF q(1)]) (simp_all add: clear_file_def all_free_def)
    note to = leads_run [OF run this]
    show ?thesis
    proof (cases q)
      case (Inl e)
      with to q(2) show ?thesis by simp
    next
      case (Inr y)
      have final: "run_mon (main_step E) 2 (?t\<lparr>ms_main := M_dump_unlock y\<rparr>) =
          goes (s\<lparr>ms_mon := close_file ?name (dump_text y) ?c, ms_main := M_terminate\<rparr>)"
        using assms(1) by (cases s) (simp add: report_run all_free_def clear_file_def)
      have "leads (main_step E) s (goes (?t\<lparr>ms_main := M_dump_unlock y\<rparr>))" using to Inr by simp
      note leads_trans [OF this leads_run [OF final leads_now]]
      then show ?thesis
        using q(2) Inr by (cases y) (simp add: close_file_def clear_file_def dump_text_def)
    qed
  qed
qed

text \<open>Where a round leaves the system: at the start of the next one, or at the end of the process.\<close>

definition after_round :: "('l, 'b, 't) mon_system \<Rightarrow> ('l, 'b, 't) monitor phase \<Rightarrow> ('l, 'b, 't) mon_system" where
  "after_round s ph =
     (case ph of
        Goes_on m1 \<Rightarrow> s\<lparr>ms_mon := m1\<rparr>
      | Ended n m1 \<Rightarrow> s\<lparr>ms_mon := m1, ms_exit := Some n, ms_main := M_finish,
          ms_config_mutex := Some Main_thread, ms_trie_mutex := Some Main_thread\<rparr>)"

definition after_listen :: "('l, 'b, 't) mon_system \<Rightarrow> ('l, 'b, 't) monitor phase \<Rightarrow> ('l, 'b, 't) mon_system" where
  "after_listen s ph =
     (case ph of
        Goes_on m1 \<Rightarrow> s\<lparr>ms_mon := m1, ms_packets := [], ms_listen := L_end\<rparr>
      | Ended n m1 \<Rightarrow> s\<lparr>ms_mon := m1, ms_exit := Some n\<rparr>)"

lemma run_terminate:
  assumes "all_free s" "ms_main s = M_terminate"
  shows "leads (main_step E) s (goes (after_round (s\<lparr>ms_main := M_round\<rparr>) (mon_terminate E (ms_mon s))))"
proof (cases "received_term (ms_mon s)")
  case True
  have "run_mon (main_step E) 4 s = goes (after_round (s\<lparr>ms_main := M_round\<rparr>) (mon_terminate E (ms_mon s)))"
    using assms True by (cases s) (simp add: main_run end_steps_def all_free_def after_round_def mon_terminate_def)
  from leads_run [OF this leads_now] show ?thesis .
next
  case False
  have "run_mon (main_step E) 2 s = goes (after_round (s\<lparr>ms_main := M_round\<rparr>) (mon_terminate E (ms_mon s)))"
    using assms False by (cases s) (simp add: main_run end_steps_def all_free_def after_round_def mon_terminate_def)
  from leads_run [OF this leads_now] show ?thesis .
qed

lemma run_reports:
  assumes s: "all_free s" "ms_main s = M_statistics"
    and r: "mon_dump E (mon_reload E (mon_statistics E (ms_mon s))) = Some r"
  shows "leads (main_step E) s (Some (map_sum id (\<lambda>m1. after_round (s\<lparr>ms_main := M_round\<rparr>) (mon_terminate E m1)) r))"
proof -
  let ?m = "mon_reload E (mon_statistics E (ms_mon s))"
  let ?t = "s\<lparr>ms_mon := mon_statistics E (ms_mon s), ms_main := M_reload\<rparr>"
  let ?u = "s\<lparr>ms_mon := ?m, ms_main := M_dump\<rparr>"
  have "run_mon (main_step E) 1 ?t = goes ?u" using s(1) by (simp add: report_run all_free_def)
  note to = leads_trans [OF run_statistics [OF s] leads_run [OF this]]
  have u: "all_free ?u" "ms_main ?u = M_dump" "mon_dump E (ms_mon ?u) = Some r" using s(1) r by (simp_all add: all_free_def)
  note dump = to [OF run_dump [OF u]]
  show ?thesis
  proof (cases r)
    case (Inl e)
    with dump show ?thesis by simp
  next
    case (Inr m1)
    let ?v = "s\<lparr>ms_mon := m1, ms_main := M_terminate\<rparr>"
    have v: "all_free ?v" "ms_main ?v = M_terminate" using s(1) by (simp_all add: all_free_def)
    have "leads (main_step E) s (goes ?v)" using dump Inr by simp
    from leads_trans [OF this run_terminate [OF v]] show ?thesis
      using Inr by (cases "mon_terminate E m1") (simp_all add: after_round_def)
  qed
qed

lemma run_round:
  assumes s: "all_free s" "ms_main s = M_round" and r: "mon_round E (ms_mon s) = Some r"
  shows "leads (main_step E) s (Some (map_sum id (after_round s) r))"
proof -
  have s': "s\<lparr>ms_main := M_round\<rparr> = s" using s(2) by (cases s) simp
  from r obtain q where q: "(if received_term (ms_mon s) then Some (Inr (ms_mon s)) else eval_nodes E (ms_mon s)) = Some q"
    "(case q of Inl e \<Rightarrow> Some (Inl e)
      | Inr m1 \<Rightarrow> Option.bind (mon_dump E (mon_reload E (mon_statistics E m1))) (\<lambda>r. Some (map_sum id (mon_terminate E) r))) = Some r"
    unfolding mon_round_def bind_eq_Some_conv by blast
  have to: "leads (main_step E) s (Some (map_sum id (\<lambda>m1. s\<lparr>ms_mon := m1, ms_main := M_statistics\<rparr>) q))"
  proof (cases "received_term (ms_mon s)")
    case True
    have "run_mon (main_step E) 1 s = goes (s\<lparr>ms_mon := ms_mon s, ms_main := M_statistics\<rparr>)"
      using s True by (cases s) (simp add: main_run all_free_def)
    from leads_run [OF this leads_now] q(1) True show ?thesis by auto
  next
    case False
    let ?t = "s\<lparr>ms_main := M_eval_config_lock\<rparr>"
    have run: "run_mon (main_step E) 1 s = goes ?t" using s False by (simp add: main_run all_free_def)
    have t: "eval_nodes E (ms_mon ?t) = Some q" "all_free ?t" "ms_main ?t = M_eval_config_lock"
      using q(1) False s(1) by (simp_all add: all_free_def)
    from leads_run [OF run run_eval_nodes [OF t]] show ?thesis by simp
  qed
  show ?thesis
  proof (cases q)
    case (Inl e)
    with q(2) to show ?thesis by auto
  next
    case (Inr m1)
    let ?t = "s\<lparr>ms_mon := m1, ms_main := M_statistics\<rparr>"
    from q(2) Inr obtain r1 where r1: "mon_dump E (mon_reload E (mon_statistics E (ms_mon ?t))) = Some r1"
      "r = map_sum id (mon_terminate E) r1"
      by (auto simp: bind_eq_Some_conv)
    have t: "all_free ?t" "ms_main ?t = M_statistics" using s(1) by (simp_all add: all_free_def)
    have "leads (main_step E) s (goes ?t)" using to Inr by simp
    from leads_trans [OF this run_reports [OF t r1(1)]] r1(2) s' show ?thesis
      by (cases r1; cases "mon_terminate E (projr r1)") (simp_all add: after_round_def)
  qed
qed

text \<open>C23. Alone, the listener does with the packets what \<open>listen_bpf\<close> does, and the main loop makes the
  round of the theory \<open>Monitor\<close>, with the same faults: the locks change nothing and are free
  again when the round is over.\<close>

theorem monitor_threads_alone:
  assumes "all_free s" "ms_listen s = L_open" "ms_main s = M_round" "mon_round E (ms_mon s) = Some r"
  shows "leads (listen_step E) s (Some (map_sum id (after_listen s) (listen_bpf E (ms_packets s) (ms_mon s)))) \<and>
    leads (main_step E) s (Some (map_sum id (after_round s) r))"
proof
  show "leads (listen_step E) s (Some (map_sum id (after_listen s) (listen_bpf E (ms_packets s) (ms_mon s))))"
    using run_listen [OF assms(1,2), of E]
    by (cases "listen_bpf E (ms_packets s) (ms_mon s)") (auto simp: after_listen_def split: phase.splits)
  show "leads (main_step E) s (Some (map_sum id (after_round s) r))" by (rule run_round [OF assms(1,3,4)])
qed

theorem monitor_threads_alone_witness:
  "\<exists>t. leads (main_step small_mon_env) (mon_threads_start [] small_monitor) (goes t) \<and> all_free t \<and> ms_main t = M_round"
proof -
  let ?s = "mon_threads_start [] small_monitor"
  have "\<exists>m1. eval_nodes small_mon_env small_monitor = Some (Inr m1) \<and> \<not> received_term m1 \<and> \<not> received_hup m1 \<and> \<not> received_usr1 m1"
    by (simp add: eval_nodes_def eval_list.simps small_mon_env_def small_monitor_def small_node_def mon_default_def eval_node_def
        node_at_def UPDATES_IN_STEP_def)
  then obtain m1 where m1: "eval_nodes small_mon_env small_monitor = Some (Inr m1)"
    "\<not> received_term m1" "\<not> received_hup m1" "\<not> received_usr1 m1" by blast
  have flags: "received_term (mon_statistics small_mon_env m1) = received_term m1"
    "received_hup (mon_statistics small_mon_env m1) = received_hup m1"
    "received_usr1 (mon_statistics small_mon_env m1) = received_usr1 m1"
    by (simp_all add: mon_statistics_def mon_time_def update_statistic_file_def Let_def)
  have "\<not> received_term small_monitor" by (simp add: small_monitor_def)
  then have r: "mon_round small_mon_env (ms_mon ?s) = Some (Inr (Goes_on (mon_statistics small_mon_env m1)))"
    using m1 flags by (simp add: mon_round_def mon_threads_start_def mon_reload_def mon_dump_def mon_terminate_def)
  have s: "all_free ?s" "ms_listen ?s = L_open" "ms_main ?s = M_round" by (simp_all add: mon_threads_start_def all_free_def)
  from monitor_threads_alone [OF s r] s show ?thesis
    by (intro exI [of _ "?s\<lparr>ms_mon := mon_statistics small_mon_env m1\<rparr>"]) (simp add: after_round_def all_free_def)
qed

end
