(* ===== verification/Spec2Isabelle.thy ===== *)
theory Spec2Isabelle
  imports Histcounter Threads Lexer_Input Lexer_Client Monitor_Locks Monitor_Alone
begin

text \<open>
  The daemon nfddos reads flow records from a ring buffer of libnf, counts them in profiles, keeps the
  last time windows of flows in a queue of files, stores the counters in a PostgreSQL database and
  runs an external command when the traffic of a profile passes its limits (an action), and another
  one when it has stayed below them for some time.

  \<^bold>\<open>The parts and how they interact.\<close> \<open>main\<close> (\<open>nfddos.c\<close>) reads the command line, goes into the
  background (\<open>daemonize.c\<close>), loads the configuration file (\<open>config.c\<close> with the scanner \<open>lex.yy.c\<close> made
  from \<open>config.l\<close> and the parser \<open>config.tab.c\<close> made from \<open>config.y\<close>), makes the table of actions
  (\<open>action.c\<close>), connects to the database (\<open>db.c\<close>), opens the queue (\<open>queue.c\<close>) and starts two threads.
  The read loop gives every record that passes the filter to the profiles and stores it in the queue;
  the other loop waits for the end of a window, shifts the queue, gives the profiles to the database,
  evaluates them (which makes, refreshes and, in \<open>nfd_act_expire\<close>, ends actions; a new action copies
  flows from the queue) and starts again. Messages go through \<open>msgs.c\<close>.

  \<^bold>\<open>The theories.\<close>
  \<^item> \<open>Prelude\<close> (machine integers, faults as values, C strings and formats) and \<open>Nfddos_Types\<close> (the
    structures of \<open>nfddos.h\<close> and \<open>db.h\<close> as records, the default options of \<open>main\<close>, the laws that the
    operations on profiles are relied on for).
  \<^item> \<open>Histcounter\<close>: the ring of time slots of \<open>histcounter.c\<close>. The totals are the sums of the slots and
    the peaks are maximal after any call, and how the traffic of a flow is spread over the slots.
  \<^item> \<open>Queue\<close>: \<open>queue.c\<close> over a file system. The locale \<open>flow_queue\<close> says what a queue of windows is;
    the code is an instance, so any run of stores and shifts refines one on a list of windows.
  \<^item> \<open>Action\<close>: the table of \<open>action.c\<close> over a heap with allocation and freeing. The locale
    \<open>action_table\<close> reads hits and sweeps as operations on a map from names to the last refresh.
  \<^item> \<open>Database\<close>: \<open>db.c\<close> over a server that follows the two SQL statements. The locale \<open>adding_store\<close>
    says that stores add up; the parameters decode to the values that were meant.
  \<^item> \<open>Parser_Tables\<close>, \<open>Parser\<close>: the tables of \<open>config.tab.c\<close> and \<open>yyparse\<close>, label by label, with the
    semantic actions. \<open>Config_Grammar\<close>: a parser by recursive descent for the rules of \<open>config.y\<close>, and
    the proof that the automaton of the tables computes the same. \<open>Config_Semantics\<close>: syntax trees of
    configurations, what their statements do, and what holds of every list of tokens.
  \<^item> \<open>Lexer_Tables\<close>, \<open>Lexer\<close>: the tables of \<open>lex.yy.c\<close> and \<open>yylex\<close> with the buffer that is filled piece by
    piece. \<open>Lexer_Rules\<close>: the rules of \<open>config.l\<close> as regular expressions with derivatives, and the proof
    that the tables accept the same. \<open>Lexer_Automaton\<close>, \<open>Lexer_Buffer\<close>, \<open>Lexer_Scan\<close>: what the loops of
    the scanner compute on a text, the well-formed buffers, and that a call of \<open>yylex\<close> takes the
    longest match whatever the file and the buffer are cut into. \<open>Lexer_Words\<close>: which texts are
    scanned as which tokens. \<open>Scanner\<close>: the properties of the scanner.
  \<^item> \<open>Lexer_Memory\<close>: the functions of \<open>lex.yy.c\<close> on its stack of buffers, over a heap of blocks: creating,
    switching, pushing, popping and deleting buffers, scanning from a string, making and destroying a
    scanner. \<open>Lexer_Heap\<close>: the well-formed memories, and that each function keeps them. \<open>Lexer_Client\<close>:
    any run of calls on a new scanner is without a fault, what \<open>yylex_destroy\<close> frees, and the scanner of
    \<open>Lexer\<close> is what one sees of the memory when there is one buffer.
  \<^item> \<open>Lexer_Input\<close>: \<open>input\<close> and \<open>yyless\<close> of \<open>lex.yy.c\<close>, which the rules do not use: characters are read in
    their order and given back.
  \<^item> \<open>Config\<close>: \<open>nfd_cfg_parse\<close> of \<open>config.c\<close>, from the name of a file to the options.
  \<^item> \<open>Messages\<close>: \<open>msgs.c\<close> and \<open>daemonize.c\<close>.
  \<^item> \<open>Daemon\<close>: \<open>nfddos.c\<close>: the command line, the parts of the start in their order, both loops as
    operations. \<open>Threads\<close>: the loops as two programs that interleave, with the three mutexes; one step
    goes from one access to shared state to the next one. Which sections exclude each other, that no
    flow is lost whatever the interleaving, that waiting ends, and that the mutexes of the profiles
    exclude nothing.

  \<^item> \<open>Monitor\<close>: \<open>main.c\<close>, the bandwidth monitor that the daemon grew out of: its rules with their
    identifiers and commands, the counting of packets, the start and the rounds of the main loop. The
    build does not compile it and its header is missing, so the types of its counters and the other
    files it needs are parameters. \<open>Monitor_Rules\<close>: identifiers of reported rules are their own, an
    evaluation runs a bounded number of commands, how much of a packet is read. \<open>Monitor_Threads\<close>: the
    listener and the main loop as two programs that interleave, with the mutexes of the options and of
    every rule. \<open>Monitor_Locks\<close>: who holds a mutex, that the threads never wait for each other unless a
    rule was copied with a locked mutex, and what happens then. \<open>Monitor_Alone\<close>: a thread that runs
    alone does what the operations of \<open>Monitor\<close> do.

  \<^bold>\<open>How C is modelled.\<close> An operation gives a fault (a division by 0, a read outside an array, a write
  behind one, a null or freed pointer, a member of a union that was not stored) or its result with
  the changed state. Pointers are keys of an explicit heap where the code frees or shares. An \<open>int\<close> is
  an integer with the conversion to 32 bits written out where a value may leave it, an unsigned
  64-bit number is a word. Loops whose end is not evident from their form are partial functions with
  \<open>None\<close> for a run that does not end; that they end is proved. The \<open>n\<close>-th reading of the clock, the
  results of the system calls and of external commands are parts of an environment.

  \<^bold>\<open>Bounds.\<close> A file of the configuration has less than 2^29 characters: then the size of the buffer,
  at most 2^30, never passes \<open>INT_MAX\<close> when it is doubled. The loop that enlarges the buffer is given
  64 rounds, more than doublings of an \<open>int\<close> exist; a chain of templates in the tables has at most 3
  members, which is proved from the tables. A name of a directory of the queue leaves room for the
  numbers of the files.

  \<^bold>\<open>Not modelled.\<close> libnf, libpq, \<open>getopt\<close> beyond the options of the daemon, and \<open>profile.c\<close>, which is
  not in the repository, are parameters; what is relied on of them is a hypothesis that a concrete
  instance satisfies. A time zone, the contents of a flow file and the standard output of the scanner's
  default rule are data of those parameters or of the state. Left out are the debugging code and the
  verbose error messages of the flex and Bison skeletons, which are not compiled, the messages that
  other components than the command line send, and the headers \<open>conf.h\<close> and
  \<open>sysdep.h\<close> (macros and includes of the platform).
\<close>

end
